(* ===== verification/Prelude.thy ===== *)
theory Prelude
  imports Main "HOL-Library.Word" "HOL-Library.Signed_Division" "HOL-Library.Monad_Syntax"
begin

text \<open>
  Shared vocabulary of the development. The firmware is C for an ARM Cortex-M3 (LPC1758):
  \<^verbatim>\<open>uint8_t\<close>, \<^verbatim>\<open>uint16_t\<close> and \<^verbatim>\<open>uint32_t\<close> are words, plain \<^verbatim>\<open>char\<close> is unsigned,
  \<^verbatim>\<open>int\<close> and \<^verbatim>\<open>long\<close> are 32 bits wide and are read as \<open>int\<close> where a lemma shows that they
  stay in range. An access to an array is checked (\<open>c_read\<close>, \<open>c_write\<close>): the value
  \<open>None\<close> is an access outside the object, which C leaves undefined, so that a theorem that
  an operation returns \<open>Some\<close> is a theorem of memory safety.
\<close>

unbundle bit_operations_syntax

type_synonym u8 = "8 word"
type_synonym u16 = "16 word"
type_synonym u32 = "32 word"

named_theorems c_mem \<open>checked array accesses\<close>
named_theorems word_nat \<open>words read as natural numbers\<close>

section \<open>Checked array accesses\<close>

definition c_read :: "'a list \<Rightarrow> int \<Rightarrow> 'a option" where
  "c_read xs i = (if 0 \<le> i \<and> i < int (length xs) then Some (xs ! nat i) else None)"

definition c_write :: "'a list \<Rightarrow> int \<Rightarrow> 'a \<Rightarrow> 'a list option" where
  "c_write xs i v = (if 0 \<le> i \<and> i < int (length xs) then Some (xs[nat i := v]) else None)"

lemma c_read_Some [simp, c_mem]:
  "0 \<le> i \<Longrightarrow> i < int (length xs) \<Longrightarrow> c_read xs i = Some (xs ! nat i)"
  by (simp add: c_read_def)

lemma c_write_Some [simp, c_mem]:
  "0 \<le> i \<Longrightarrow> i < int (length xs) \<Longrightarrow> c_write xs i v = Some (xs[nat i := v])"
  by (simp add: c_write_def)

lemma c_read_None_iff [c_mem]: "c_read xs i = None \<longleftrightarrow> i < 0 \<or> int (length xs) \<le> i"
  by (auto simp: c_read_def)

lemma c_write_None_iff [c_mem]: "c_write xs i v = None \<longleftrightarrow> i < 0 \<or> int (length xs) \<le> i"
  by (auto simp: c_write_def)

lemma c_write_length: "c_write xs i v = Some ys \<Longrightarrow> length ys = length xs"
  by (auto simp: c_write_def split: if_splits)

lemma c_read_write_same: "c_write xs i v = Some ys \<Longrightarrow> c_read ys i = Some v"
  by (auto simp: c_write_def c_read_def split: if_splits)

lemma c_read_write_other: "c_write xs i v = Some ys \<Longrightarrow> j \<noteq> i \<Longrightarrow> c_read ys j = c_read xs j"
  by (auto simp: c_write_def c_read_def nth_list_update nat_eq_iff split: if_splits)

text \<open>An unsigned word as the index.\<close>

lemma uint_less_nat: "uint i < int n \<longleftrightarrow> unat i < n"
  by (metis of_nat_less_iff of_nat_unat)

lemma c_write_word: "c_write xs (uint i) v = (if unat i < length xs then Some (xs[unat i := v]) else None)"
  by (auto simp: c_write_def uint_less_nat nat_uint_eq)

lemma c_read_word: "c_read xs (uint i) = (if unat i < length xs then Some (xs ! unat i) else None)"
  by (auto simp: c_read_def uint_less_nat nat_uint_eq)

lemma c_read_int: "c_read xs (int i) = (if i < length xs then Some (xs ! i) else None)"
  by (simp add: c_read_def)

lemma uint_eq_int_unat: "unat w = n \<Longrightarrow> uint w = int n"
  by auto

section \<open>C integer division\<close>

text \<open>
  \<open>sdiv\<close> and \<open>smod\<close> of the library truncate towards zero as C does; on operands that are
  not negative they are \<open>div\<close> and \<open>mod\<close>.
\<close>

lemma sdiv_nonneg [simp]: "0 \<le> a \<Longrightarrow> 0 \<le> b \<Longrightarrow> (a::int) sdiv b = a div b"
  by (cases "a = 0"; cases "b = 0") (simp_all add: signed_divide_int_def)

lemma smod_nonneg [simp]: "0 \<le> a \<Longrightarrow> 0 \<le> b \<Longrightarrow> (a::int) smod b = a mod b"
  by (cases "a = 0") (simp_all add: signed_modulo_int_def)

section \<open>Words\<close>

lemma unat_and_mask [word_nat]:
  fixes x :: "'a::len word"
  shows "unat (x AND mask n) = unat x mod 2 ^ n"
  by (simp add: unsigned_take_bit_eq flip: take_bit_eq_mask take_bit_eq_mod)

lemma unat_add_small [word_nat]:
  fixes x y :: "'a::len word"
  shows "unat x + unat y < 2 ^ LENGTH('a) \<Longrightarrow> unat (x + y) = unat x + unat y"
  by (simp add: unat_word_ariths)

lemma unat_u8_less [simp]: "unat (x :: u8) < 256"
  using unsigned_less[of x, where 'a = nat] by simp

lemma u32_and_1023 [word_nat]: "unat ((x :: u32) AND 1023) = unat x mod 1024"
  using unat_and_mask[of x 10] by (simp add: mask_eq_exp_minus_1)

lemma u32_incr_and_1023 [word_nat]: "unat ((x + 1 :: u32) AND 1023) = (unat x + 1) mod 1024"
proof -
  have "unat (x + 1) = (unat x + 1) mod 4294967296"
    by (simp add: unat_word_ariths)
  moreover have "(n mod 4294967296) mod 1024 = n mod 1024" for n :: nat
    by (rule mod_mod_cancel) simp
  ultimately show ?thesis
    by (simp add: u32_and_1023)
qed

lemma unat_ucast_mod [word_nat]:
  "unat (ucast (x :: 'a::len word) :: 'b::len word) = unat x mod 2 ^ LENGTH('b)"
  by transfer (simp add: take_bit_eq_mod nat_mod_distrib nat_power_eq)

lemma unat_drop_bit [word_nat]: "unat (drop_bit n (x :: 'a::len word)) = unat x div 2 ^ n"
  by (subst unsigned_drop_bit_eq) (simp add: drop_bit_eq_div take_bit_nat_eq_self)

lemma half_less_full: "(2 :: int) ^ (LENGTH('a::len) - 1) < 2 ^ LENGTH('a)"
  by (rule power_strict_increasing) simp_all

lemma uint_sint_neg:
  fixes v :: "'a::len word"
  assumes "sint v < 0"
  shows "uint v = sint v + 2 ^ LENGTH('a)"
proof -
  have "- (2 ^ LENGTH('a)) \<le> sint v"
    using sint_ge[of v] by (rule order_trans[rotated]) simp
  then have "(sint v + 2 ^ LENGTH('a)) mod 2 ^ LENGTH('a) = sint v + 2 ^ LENGTH('a)"
    using assms by (intro mod_pos_pos_trivial) auto
  then show ?thesis
    by (simp add: uint_sint take_bit_eq_mod)
qed

lemma uint_sint_nonneg: "0 \<le> sint v \<Longrightarrow> uint (v :: 'a::len word) = sint v"
  unfolding uint_sint take_bit_eq_mod
  by (rule mod_pos_pos_trivial[OF _ less_trans[OF sint_lt half_less_full]])

lemma unat_abs_sint:
  "unat (if sint v < 0 then - v else v) = nat \<bar>sint (v :: 'a::len word)\<bar>"
proof (cases "sint v < 0")
  case True
  have "- sint v \<le> 2 ^ (LENGTH('a) - 1)"
    using sint_ge[of v] by linarith
  from mod_pos_pos_trivial[OF _ le_less_trans[OF this half_less_full]] True
  have "uint (- v) = - sint v"
    by (simp add: uint_word_ariths uint_sint_neg)
  with True show ?thesis
    by (simp flip: nat_uint_eq)
qed (simp add: uint_sint_nonneg flip: nat_uint_eq)

lemma u8_one_le: "(1 :: u8) \<le> x \<longleftrightarrow> x \<noteq> 0"
  using unat_gt_0[of x] by (auto simp: word_le_nat_alt)

section \<open>Text output\<close>

text \<open>
  A routine whose only effect is a sequence of character writes is modelled by the text it writes;
  \<open>write_all put\<close> performs the writes one after the other with the character routine \<open>put\<close>.
\<close>

fun write_all :: "(u8 \<Rightarrow> 's \<Rightarrow> 's option) \<Rightarrow> u8 list \<Rightarrow> 's \<Rightarrow> 's option" where
  "write_all put [] s = Some s"
| "write_all put (c # cs) s = Option.bind (put c s) (write_all put cs)"

lemma write_all_append: "write_all put (xs @ ys) s = Option.bind (write_all put xs s) (write_all put ys)"
  by (induction xs arbitrary: s) (auto split: Option.bind_splits)

section \<open>Counting loops\<close>

text \<open>A loop over a known range of indices: the body is performed for each of them in turn.\<close>

fun for_each :: "('i \<Rightarrow> 's \<Rightarrow> 's option) \<Rightarrow> 'i list \<Rightarrow> 's \<Rightarrow> 's option" where
  "for_each body [] s = Some s"
| "for_each body (i # is) s = Option.bind (body i s) (for_each body is)"

lemma for_each_Nil_fun: "for_each body [] = Some"
  by (rule ext) simp

lemma for_each_Cons_fun: "for_each body (i # is) = (\<lambda>s. Option.bind (body i s) (for_each body is))"
  by (rule ext) simp

lemma for_each_append: "for_each body (is @ js) s = Option.bind (for_each body is s) (for_each body js)"
  by (induction "is" arbitrary: s) (auto split: Option.bind_splits)

text \<open>
  The rule for such a loop: \<open>P k\<close> holds before the iteration number \<open>k\<close>, and the body never fails.
\<close>

lemma for_each_upt:
  assumes "P 0 s" and "\<And>k s. k < n \<Longrightarrow> P k s \<Longrightarrow> \<exists>s'. body k s = Some s' \<and> P (Suc k) s'"
  shows "\<exists>s'. for_each body [0..<n] s = Some s' \<and> P n s'"
  using assms(2)
proof (induction n)
  case 0
  with assms(1) show ?case by simp
next
  case (Suc n)
  then obtain s' where "for_each body [0..<n] s = Some s'" "P n s'"
    by (meson less_SucI)
  with Suc.prems[of n s'] show ?case
    by (auto simp: for_each_append)
qed

section \<open>Lists\<close>

lemma take_Suc_append_nth: "n < length xs \<Longrightarrow> take n xs @ [xs ! n] = take (Suc n) xs"
  by (simp add: take_Suc_conv_app_nth)

lemma foldl_inv:
  assumes "P s" and "\<And>s x. P s \<Longrightarrow> x \<in> set xs \<Longrightarrow> P (f s x)"
  shows "P (foldl f s xs)"
  using assms by (induction xs arbitrary: s) auto

end
