(* ===== verification/Bounded_Queue.thy ===== *)
theory Bounded_Queue
  imports Prelude
begin

text \<open>
  The contract that both ring buffers of the firmware (the USB serial FIFO of
  \<^verbatim>\<open>serial_fifo.c\<close> and the UART rings of \<^verbatim>\<open>comm.c\<close>) promise to their clients, as a locale
  over an arbitrary representation, and the arithmetic of a ring of \<open>N\<close> slots that the two
  interpretations share.
\<close>

section \<open>Rings of N slots\<close>

definition ring_list :: "nat \<Rightarrow> 'a list \<Rightarrow> nat \<Rightarrow> nat \<Rightarrow> 'a list" where
  "ring_list N buf t n = map (\<lambda>i. buf ! ((t + i) mod N)) [0..<n]"

definition ring_count :: "nat \<Rightarrow> nat \<Rightarrow> nat \<Rightarrow> nat" where
  "ring_count N h t = (N + h - t) mod N"

lemma length_ring_list [simp]: "length (ring_list N buf t n) = n"
  by (simp add: ring_list_def)

lemma ring_list_0 [simp]: "ring_list N buf t 0 = []"
  by (simp add: ring_list_def)

lemma ring_mod_distinct:
  assumes "i < n" "n < N"
  shows "(t + i) mod N \<noteq> (t + n) mod (N::nat)"
proof
  assume "(t + i) mod N = (t + n) mod N"
  with assms have "N dvd (t + n) - (t + i)"
    by (metis add_le_cancel_left less_imp_le_nat mod_eq_dvd_iff_nat)
  with assms show False
    by (auto dest: dvd_imp_le)
qed

lemma ring_mod_distinct_sym: "(t + n) mod N = (t + i) mod N \<Longrightarrow> i < n \<Longrightarrow> \<not> n < (N::nat)"
  using ring_mod_distinct by metis

lemma ring_list_put:
  assumes "length buf = N" "n < N"
  shows "ring_list N (buf[(t + n) mod N := c]) t (Suc n) = ring_list N buf t n @ [c]"
proof -
  have "(t + n) mod N < length buf"
    using assms by simp
  then show ?thesis
    using assms by (auto simp: ring_list_def nth_list_update dest!: ring_mod_distinct_sym)
qed

lemma ring_list_get:
  assumes "t < N"
  shows "ring_list N buf t (Suc n) = buf ! t # ring_list N buf (Suc t mod N) n"
proof -
  have "map (\<lambda>i. buf ! ((t + i) mod N)) [0..<Suc n]
      = buf ! t # map (\<lambda>i. buf ! ((t + Suc i) mod N)) [0..<n]"
    using assms by (simp add: upt_conv_Cons map_Suc_upt[symmetric] del: upt_Suc)
  moreover have "(t + Suc i) mod N = (Suc t mod N + i) mod N" for i
    by (simp add: mod_simps)
  ultimately show ?thesis
    by (simp add: ring_list_def)
qed

lemma ring_count_less: "0 < N \<Longrightarrow> ring_count N h t < N"
  by (simp add: ring_count_def)

lemma ring_count_alt:
  "h < N \<Longrightarrow> t < N \<Longrightarrow> ring_count N h t = (if t \<le> h then h - t else N + h - t)"
  by (auto simp: ring_count_def mod_if)

lemma ring_count_head: "h < N \<Longrightarrow> t < N \<Longrightarrow> (t + ring_count N h t) mod N = h"
  by (auto simp: ring_count_alt mod_if)

lemma ring_count_empty: "h < N \<Longrightarrow> t < N \<Longrightarrow> ring_count N h t = 0 \<longleftrightarrow> h = t"
  by (auto simp: ring_count_alt)

lemma ring_count_full: "h < N \<Longrightarrow> t < N \<Longrightarrow> Suc h mod N = t \<longleftrightarrow> ring_count N h t = N - 1"
  by (cases "Suc h < N"; cases "Suc t < N") (auto simp: ring_count_alt mod_if)

lemma ring_count_put:
  "h < N \<Longrightarrow> t < N \<Longrightarrow> Suc h mod N \<noteq> t \<Longrightarrow> ring_count N (Suc h mod N) t = Suc (ring_count N h t)"
  by (cases "Suc h < N"; cases "Suc t < N") (auto simp: ring_count_alt mod_if)

lemma ring_count_get:
  "h < N \<Longrightarrow> t < N \<Longrightarrow> h \<noteq> t \<Longrightarrow> Suc (ring_count N h (Suc t mod N)) = ring_count N h t"
  by (cases "Suc h < N"; cases "Suc t < N") (auto simp: ring_count_alt mod_if)

lemmas ring_simps = ring_count_head ring_count_empty ring_count_full ring_count_put

section \<open>Clients of a bounded queue\<close>

text \<open>
  A client that offers bytes one by one and ignores refusals, and one that takes up to
  \<open>n\<close> bytes and stops when the queue is empty. \<open>None\<close> is an access outside the buffer.
\<close>

fun put_many :: "('q \<Rightarrow> 'a \<Rightarrow> (bool \<times> 'q) option) \<Rightarrow> 'q \<Rightarrow> 'a list \<Rightarrow> 'q option" where
  "put_many put q [] = Some q"
| "put_many put q (x # xs) = do { (_, q') \<leftarrow> put q x; put_many put q' xs }"

fun get_many :: "('q \<Rightarrow> ('a option \<times> 'q) option) \<Rightarrow> 'q \<Rightarrow> nat \<Rightarrow> ('a list \<times> 'q) option" where
  "get_many get q 0 = Some ([], q)"
| "get_many get q (Suc n) = do {
     (r, q') \<leftarrow> get q;
     case r of None \<Rightarrow> Some ([], q')
     | Some x \<Rightarrow> do { (xs, q'') \<leftarrow> get_many get q' n; Some (x # xs, q'') } }"

lemma put_many_append:
  "put_many put q (xs @ ys) = do { q' \<leftarrow> put_many put q xs; put_many put q' ys }"
  by (induction xs arbitrary: q) (auto split: Option.bind_splits)

text \<open>
  The specification: a list of at most \<open>capacity\<close> elements, its answers to offers and requests, and the same
  client on an implementation.
\<close>

datatype 'a qop = Put 'a | Get

datatype 'a qout = Accepted | Refused | Empty | Got 'a

fun spec_step :: "nat \<Rightarrow> 'a qop \<Rightarrow> 'a list \<Rightarrow> 'a qout \<times> 'a list" where
  "spec_step cap (Put x) xs = (if length xs < cap then (Accepted, xs @ [x]) else (Refused, xs))"
| "spec_step cap Get [] = (Empty, [])"
| "spec_step cap Get (x # xs) = (Got x, xs)"

fun spec_run :: "nat \<Rightarrow> 'a qop list \<Rightarrow> 'a list \<Rightarrow> 'a qout list \<times> 'a list" where
  "spec_run cap [] xs = ([], xs)"
| "spec_run cap (p # ps) xs = (let (r, ys) = spec_step cap p xs; (rs, zs) = spec_run cap ps ys in (r # rs, zs))"

fun impl_step :: "('q \<Rightarrow> 'a \<Rightarrow> (bool \<times> 'q) option) \<Rightarrow> ('q \<Rightarrow> ('a option \<times> 'q) option) \<Rightarrow> 'a qop \<Rightarrow> 'q \<Rightarrow> ('a qout \<times> 'q) option" where
  "impl_step put get (Put x) q = map_option (\<lambda>(ok, q). (if ok then Accepted else Refused, q)) (put q x)"
| "impl_step put get Get q = map_option (\<lambda>(r, q). (case r of None \<Rightarrow> Empty | Some x \<Rightarrow> Got x, q)) (get q)"

fun impl_run :: "('q \<Rightarrow> 'a \<Rightarrow> (bool \<times> 'q) option) \<Rightarrow> ('q \<Rightarrow> ('a option \<times> 'q) option) \<Rightarrow> 'a qop list \<Rightarrow> 'q \<Rightarrow> ('a qout list \<times> 'q) option" where
  "impl_run put get [] q = Some ([], q)"
| "impl_run put get (p # ps) q = do {
     (r, q) \<leftarrow> impl_step put get p q;
     (rs, q) \<leftarrow> impl_run put get ps q;
     Some (r # rs, q) }"

locale bounded_queue =
  fixes invar :: "'q \<Rightarrow> bool"
    and contents :: "'q \<Rightarrow> 'a list"
    and capacity :: nat
    and put :: "'q \<Rightarrow> 'a \<Rightarrow> (bool \<times> 'q) option"
    and get :: "'q \<Rightarrow> ('a option \<times> 'q) option"
  assumes bounded: "invar q \<Longrightarrow> length (contents q) \<le> capacity"
    and put_room: "invar q \<Longrightarrow> length (contents q) < capacity \<Longrightarrow>
        \<exists>q'. put q x = Some (True, q') \<and> invar q' \<and> contents q' = contents q @ [x]"
    and put_full: "invar q \<Longrightarrow> length (contents q) = capacity \<Longrightarrow> put q x = Some (False, q)"
    and get_empty: "invar q \<Longrightarrow> contents q = [] \<Longrightarrow> get q = Some (None, q)"
    and get_nonempty: "invar q \<Longrightarrow> contents q = x # xs \<Longrightarrow>
        \<exists>q'. get q = Some (Some x, q') \<and> invar q' \<and> contents q' = xs"
begin

lemma put_total: "invar q \<Longrightarrow> \<exists>b q'. put q x = Some (b, q') \<and> invar q'"
  using put_room put_full bounded by (metis le_neq_implies_less)

lemma put_many_contents:
  "invar q \<Longrightarrow> \<exists>q'. put_many put q xs = Some q' \<and> invar q' \<and>
     contents q' = contents q @ take (capacity - length (contents q)) xs"
proof (induction xs arbitrary: q)
  case Nil
  then show ?case by simp
next
  case (Cons x xs)
  show ?case
  proof (cases "length (contents q) < capacity")
    case True
    with Cons.prems obtain q1 where q1: "put q x = Some (True, q1)" "invar q1"
      "contents q1 = contents q @ [x]"
      using put_room by blast
    from Cons.IH[OF q1(2)] q1 True show ?thesis
      by (auto simp: take_Cons' Suc_diff_Suc)
  next
    case False
    with Cons.prems bounded have "length (contents q) = capacity"
      by (meson le_neq_implies_less)
    with put_full[OF Cons.prems] Cons.IH[OF Cons.prems] show ?thesis
      by simp
  qed
qed

lemma get_many_contents:
  "invar q \<Longrightarrow> \<exists>q'. get_many get q n = Some (take n (contents q), q') \<and> invar q' \<and>
     contents q' = drop n (contents q)"
proof (induction n arbitrary: q)
  case 0
  then show ?case by simp
next
  case (Suc n)
  show ?case
  proof (cases "contents q")
    case Nil
    with Suc.prems show ?thesis
      by (simp add: get_empty)
  next
    case (Cons x xs)
    with Suc.prems obtain q1 where q1: "get q = Some (Some x, q1)" "invar q1" "contents q1 = xs"
      using get_nonempty by blast
    from Suc.IH[OF q1(2)] q1 Cons show ?thesis
      by auto
  qed
qed

lemma put_get_roundtrip:
  assumes "invar q" "contents q = []" "length xs \<le> capacity"
  shows "\<exists>q' q''. put_many put q xs = Some q' \<and> get_many get q' (length xs) = Some (xs, q'')
    \<and> invar q'' \<and> contents q'' = []"
proof -
  from put_many_contents[OF assms(1), of xs] assms(2,3)
  obtain q' where q': "put_many put q xs = Some q'" "invar q'" "contents q' = xs"
    by auto
  with get_many_contents[OF q'(2), of "length xs"] show ?thesis
    by auto
qed

lemma step_refines:
  assumes "invar q"
  shows "\<exists>r q'. impl_step put get p q = Some (r, q') \<and> invar q' \<and> spec_step capacity p (contents q) = (r, contents q')"
proof (cases p)
  case (Put x)
  then show ?thesis
    using put_room[OF assms, of x] put_full[OF assms, of x] bounded[OF assms] assms
    by (cases "length (contents q) < capacity") auto
next
  case Get
  then show ?thesis
    using get_empty[OF assms] get_nonempty[OF assms] assms by (cases "contents q") fastforce+
qed

lemma run_refines:
  "invar q \<Longrightarrow> \<exists>rs q'. impl_run put get ps q = Some (rs, q') \<and> invar q' \<and> spec_run capacity ps (contents q) = (rs, contents q')"
proof (induction ps arbitrary: q)
  case (Cons p ps)
  from step_refines[OF Cons.prems, of p] obtain r q1 where
    q1: "impl_step put get p q = Some (r, q1)" "invar q1" "spec_step capacity p (contents q) = (r, contents q1)"
    by blast
  with Cons.IH[OF q1(2)] show ?case
    by auto
qed simp

end

end
