(* ===== verification/Serial_Fifo.thy ===== *)
theory Serial_Fifo
  imports Bounded_Queue
begin

text \<open>
  The byte FIFO of the USB serial port (\<^verbatim>\<open>libraries/R2C2/serial_fifo.c\<close>) and the character
  interface on top of it (\<^verbatim>\<open>libraries/R2C2/serial.c\<close>). The C functions with a leading
  underscore carry the suffix \<open>raw\<close> here; the versions without it mask the USB interrupt
  around the raw operation, and the model carries the enable bit of that interrupt along.
\<close>

section \<open>serial-fifo.c\<close>

record fifo =
  head :: int
  tail :: int
  buf :: "u8 list"

abbreviation SERIAL_FIFO_SIZE :: int where
  "SERIAL_FIFO_SIZE \<equiv> 1024"

definition fifo_init :: "u8 list \<Rightarrow> fifo" where
  "fifo_init b = \<lparr>head = 0, tail = 0, buf = b\<rparr>"

definition fifo_put_raw :: "fifo \<Rightarrow> u8 \<Rightarrow> (bool \<times> fifo) option" where
  "fifo_put_raw f c =
     (let next = (head f + 1) smod SERIAL_FIFO_SIZE in
      if next = tail f then Some (False, f)
      else do {
        b \<leftarrow> c_write (buf f) (head f) c;
        Some (True, f\<lparr>buf := b, head := next\<rparr>) })"

text \<open>The byte read is \<open>None\<close> where the C function returns \<open>FALSE\<close> and leaves \<open>*pc\<close> alone.\<close>

definition fifo_get_raw :: "fifo \<Rightarrow> (u8 option \<times> fifo) option" where
  "fifo_get_raw f =
     (if head f = tail f then Some (None, f)
      else
        let next = (tail f + 1) smod SERIAL_FIFO_SIZE in
        do { c \<leftarrow> c_read (buf f) (tail f);
             Some (Some c, f\<lparr>tail := next\<rparr>) })"

definition fifo_avail_raw :: "fifo \<Rightarrow> int" where
  "fifo_avail_raw f = (SERIAL_FIFO_SIZE + head f - tail f) smod SERIAL_FIFO_SIZE"

text \<open>
  The atomic versions. \<open>irq\<close> is the enable bit of \<^verbatim>\<open>USB_IRQn\<close>: every one of them clears it,
  runs the raw operation and sets it, whatever it was before.
\<close>

definition NVIC_DisableIRQ_USB :: "bool \<Rightarrow> bool" where
  "NVIC_DisableIRQ_USB irq = False"

definition NVIC_EnableIRQ_USB :: "bool \<Rightarrow> bool" where
  "NVIC_EnableIRQ_USB irq = True"

definition fifo_put :: "bool \<Rightarrow> fifo \<Rightarrow> u8 \<Rightarrow> (bool \<times> fifo \<times> bool) option" where
  "fifo_put irq f c =
     (let irq = NVIC_DisableIRQ_USB irq in
      do { (t, f) \<leftarrow> fifo_put_raw f c;
           Some (t, f, NVIC_EnableIRQ_USB irq) })"

definition fifo_get :: "bool \<Rightarrow> fifo \<Rightarrow> (u8 option \<times> fifo \<times> bool) option" where
  "fifo_get irq f =
     (let irq = NVIC_DisableIRQ_USB irq in
      do { (t, f) \<leftarrow> fifo_get_raw f;
           Some (t, f, NVIC_EnableIRQ_USB irq) })"

definition fifo_avail :: "bool \<Rightarrow> fifo \<Rightarrow> int \<times> bool" where
  "fifo_avail irq f =
     (let irq = NVIC_DisableIRQ_USB irq; t = fifo_avail_raw f in (t, NVIC_EnableIRQ_USB irq))"

text \<open>\<^verbatim>\<open>_fifo_free\<close> calls the atomic \<^verbatim>\<open>fifo_avail\<close>, so it changes the enable bit as well.\<close>

definition fifo_free_raw :: "bool \<Rightarrow> fifo \<Rightarrow> int \<times> bool" where
  "fifo_free_raw irq f = (let (a, irq) = fifo_avail irq f in (SERIAL_FIFO_SIZE - 1 - a, irq))"

definition fifo_free :: "bool \<Rightarrow> fifo \<Rightarrow> int \<times> bool" where
  "fifo_free irq f =
     (let irq = NVIC_DisableIRQ_USB irq; (t, irq) = fifo_free_raw irq f
      in (t, NVIC_EnableIRQ_USB irq))"

section \<open>Invariant, contents and refinement to a bounded queue\<close>

definition fifo_inv :: "fifo \<Rightarrow> bool" where
  "fifo_inv f \<longleftrightarrow> 0 \<le> head f \<and> head f < 1024 \<and> 0 \<le> tail f \<and> tail f < 1024 \<and> length (buf f) = 1024"

definition fifo_list :: "fifo \<Rightarrow> u8 list" where
  "fifo_list f =
     ring_list 1024 (buf f) (nat (tail f)) (ring_count 1024 (nat (head f)) (nat (tail f)))"

lemma fifo_inv_init: "length b = 1024 \<Longrightarrow> fifo_inv (fifo_init b)"
  by (simp add: fifo_inv_def fifo_init_def)

lemma fifo_list_init [simp]: "fifo_list (fifo_init b) = []"
  by (simp add: fifo_list_def fifo_init_def ring_count_def)

lemma fifo_cases:
  assumes "fifo_inv f"
  obtains h t where "head f = int h" "tail f = int t" "h < 1024" "t < 1024" "length (buf f) = 1024"
  using assms by (metis fifo_inv_def nat_0_le nat_less_iff of_nat_numeral)

lemma smod_1024_Suc: "(int n + 1) smod 1024 = int (Suc n mod 1024)"
  by (simp add: zmod_int add.commute)

lemma length_fifo_list: "fifo_inv f \<Longrightarrow> length (fifo_list f) = ring_count 1024 (nat (head f)) (nat (tail f))"
  by (simp add: fifo_list_def)

lemma fifo_avail_raw_length:
  assumes "fifo_inv f"
  shows "fifo_avail_raw f = int (length (fifo_list f))"
proof -
  obtain h t where ht: "head f = int h" "tail f = int t" "h < 1024" "t < 1024"
    using fifo_cases[OF assms] by blast
  then have "int (1024 + h - t) = 1024 + int h - int t"
    by simp
  with ht show ?thesis
    by (simp add: fifo_avail_raw_def fifo_list_def ring_count_def zmod_int)
qed

lemma fifo_put_raw_room:
  assumes "fifo_inv f" "length (fifo_list f) < 1023"
  shows "\<exists>f'. fifo_put_raw f c = Some (True, f') \<and> fifo_inv f' \<and> fifo_list f' = fifo_list f @ [c]"
proof -
  obtain h t where ht: "head f = int h" "tail f = int t" "h < 1024" "t < 1024"
    "length (buf f) = 1024"
    using fifo_cases[OF assms(1)] by blast
  let ?n = "ring_count 1024 h t"
  from assms(2) ht have n: "?n < 1023"
    by (simp add: fifo_list_def)
  with ht ring_count_full[of h 1024 t] have neq: "Suc h mod 1024 \<noteq> t"
    by simp
  have head: "(t + ?n) mod 1024 = h"
    using ht by (simp add: ring_count_head)
  have "ring_list 1024 ((buf f)[h := c]) t (Suc ?n) = ring_list 1024 (buf f) t ?n @ [c]"
    using ring_list_put[of "buf f" 1024 ?n t c] ht n head by simp
  with ht neq ring_count_put[of h 1024 t] show ?thesis
    by (simp add: fifo_put_raw_def smod_1024_Suc fifo_inv_def fifo_list_def Let_def)
qed

lemma fifo_put_raw_full:
  assumes "fifo_inv f" "length (fifo_list f) = 1023"
  shows "fifo_put_raw f c = Some (False, f)"
proof -
  obtain h t where ht: "head f = int h" "tail f = int t" "h < 1024" "t < 1024"
    using fifo_cases[OF assms(1)] by blast
  with assms(2) ring_count_full[of h 1024 t] show ?thesis
    by (simp add: fifo_put_raw_def smod_1024_Suc fifo_list_def Let_def)
qed

lemma fifo_get_raw_empty:
  assumes "fifo_inv f" "fifo_list f = []"
  shows "fifo_get_raw f = Some (None, f)"
proof -
  obtain h t where ht: "head f = int h" "tail f = int t" "h < 1024" "t < 1024"
    using fifo_cases[OF assms(1)] by blast
  from assms(2) have "length (fifo_list f) = 0"
    by simp
  with ht ring_count_empty[of h 1024 t] show ?thesis
    by (simp add: fifo_get_raw_def fifo_list_def del: length_0_conv)
qed

lemma fifo_get_raw_cons:
  assumes "fifo_inv f" "fifo_list f = x # xs"
  shows "\<exists>f'. fifo_get_raw f = Some (Some x, f') \<and> fifo_inv f' \<and> fifo_list f' = xs"
proof -
  obtain h t where ht: "head f = int h" "tail f = int t" "h < 1024" "t < 1024"
    "length (buf f) = 1024"
    using fifo_cases[OF assms(1)] by blast
  have "ring_count 1024 h t \<noteq> 0"
    using length_fifo_list[OF assms(1)] assms(2) ht by simp
  with ht ring_count_empty[of h 1024 t] have "h \<noteq> t"
    by simp
  with ht have "ring_count 1024 h t = Suc (ring_count 1024 h (Suc t mod 1024))"
    by (simp add: ring_count_get)
  then have "x # xs = buf f ! t # ring_list 1024 (buf f) (Suc t mod 1024) (ring_count 1024 h (Suc t mod 1024))"
    using assms(2) ht ring_list_get[of t 1024 "buf f"] by (simp add: fifo_list_def)
  with ht \<open>h \<noteq> t\<close> show ?thesis
    by (simp add: fifo_get_raw_def smod_1024_Suc fifo_inv_def fifo_list_def Let_def)
qed

lemma fifo_list_bounded: "fifo_inv f \<Longrightarrow> length (fifo_list f) \<le> 1023"
  using ring_count_less[of 1024 "nat (head f)" "nat (tail f)"] by (simp add: fifo_list_def)

interpretation sf: bounded_queue fifo_inv fifo_list 1023 fifo_put_raw fifo_get_raw
  by unfold_locales
    (auto intro: fifo_list_bounded fifo_put_raw_room fifo_put_raw_full fifo_get_raw_empty
      fifo_get_raw_cons)

section \<open>serial.c\<close>

text \<open>
  The globals of the USB serial port: \<^verbatim>\<open>rxfifo\<close> and \<^verbatim>\<open>txfifo\<close> (declared in \<^verbatim>\<open>usb.c\<close>) and the
  enable bit of the interrupt that shares them.
\<close>

record usb_serial =
  rxfifo :: fifo
  txfifo :: fifo
  usb_irq :: bool

definition serial_rxchars :: "usb_serial \<Rightarrow> int \<times> usb_serial" where
  "serial_rxchars s = (let (n, irq) = fifo_avail (usb_irq s) (rxfifo s) in (n, s\<lparr>usb_irq := irq\<rparr>))"

definition serial_popchar :: "usb_serial \<Rightarrow> (u8 \<times> usb_serial) option" where
  "serial_popchar s = do {
     (r, f, irq) \<leftarrow> fifo_get (usb_irq s) (rxfifo s);
     Some (case r of None \<Rightarrow> 0 | Some c \<Rightarrow> c, s\<lparr>rxfifo := f, usb_irq := irq\<rparr>) }"

definition serial_txchars :: "usb_serial \<Rightarrow> u8 \<times> usb_serial" where
  "serial_txchars s =
     (let (n, irq) = fifo_avail (usb_irq s) (txfifo s) in (word_of_int n, s\<lparr>usb_irq := irq\<rparr>))"

definition serial_writechar :: "usb_serial \<Rightarrow> u8 \<Rightarrow> usb_serial option" where
  "serial_writechar s data = do {
     (_, f, irq) \<leftarrow> fifo_put (usb_irq s) (txfifo s) data;
     Some (s\<lparr>txfifo := f, usb_irq := irq\<rparr>) }"

text \<open>The counting loop of \<^verbatim>\<open>serial_writeblock\<close> from index \<open>i\<close> on.\<close>

function serial_writeblock_from :: "u8 list \<Rightarrow> int \<Rightarrow> int \<Rightarrow> usb_serial \<Rightarrow> usb_serial option" where
  "serial_writeblock_from data datalen i s =
     (if i < datalen then do {
        c \<leftarrow> c_read data i;
        s \<leftarrow> serial_writechar s c;
        serial_writeblock_from data datalen (i + 1) s }
      else Some s)"
  by pat_completeness auto
termination
  by (relation "measure (\<lambda>(data, datalen, i, s). nat (datalen - i))") auto

declare serial_writeblock_from.simps [simp del]

definition serial_writeblock :: "u8 list \<Rightarrow> int \<Rightarrow> usb_serial \<Rightarrow> usb_serial option" where
  "serial_writeblock data datalen s = serial_writeblock_from data datalen 0 s"

text \<open>
  The loop of \<^verbatim>\<open>serial_writestr\<close> counts with a \<^verbatim>\<open>uint8_t\<close>, which wraps after 255: the loop
  need not end, so it is a partial function, and \<open>None\<close> says that it has no result.
\<close>

partial_function (option) serial_writestr_from :: "u8 list \<Rightarrow> u8 \<Rightarrow> usb_serial \<Rightarrow> usb_serial option" where
  "serial_writestr_from data i s =
     Option.bind (c_read data (uint i)) (\<lambda>r.
       if r = 0 then Some s
       else Option.bind (serial_writechar s r) (\<lambda>s. serial_writestr_from data (i + 1) s))"

definition serial_writestr :: "u8 list \<Rightarrow> usb_serial \<Rightarrow> usb_serial option" where
  "serial_writestr data s = serial_writestr_from data 0 s"

subsection \<open>What the character interface does to the queues\<close>

definition serial_inv :: "usb_serial \<Rightarrow> bool" where
  "serial_inv s \<longleftrightarrow> fifo_inv (rxfifo s) \<and> fifo_inv (txfifo s)"

definition serial_put_all :: "usb_serial \<Rightarrow> u8 list \<Rightarrow> usb_serial option" where
  "serial_put_all s xs = (if xs = [] then Some s else
     do { f \<leftarrow> put_many fifo_put_raw (txfifo s) xs; Some (s\<lparr>txfifo := f, usb_irq := True\<rparr>) })"

lemmas fifo_irq_defs = NVIC_DisableIRQ_USB_def NVIC_EnableIRQ_USB_def

lemma serial_writechar_eq: "serial_writechar s c = serial_put_all s [c]"
  by (cases "fifo_put_raw (txfifo s) c")
    (auto simp: serial_writechar_def serial_put_all_def fifo_put_def fifo_irq_defs)

lemma serial_put_all_append:
  "serial_put_all s (xs @ ys) = do { s' \<leftarrow> serial_put_all s xs; serial_put_all s' ys }"
  by (cases "put_many fifo_put_raw (txfifo s) xs")
    (auto simp: serial_put_all_def put_many_append)

lemma serial_put_all_Nil [simp]: "serial_put_all s [] = Some s"
  by (simp add: serial_put_all_def)

lemma serial_put_all_Cons:
  "serial_put_all s (x # xs) = Option.bind (serial_writechar s x) (\<lambda>s'. serial_put_all s' xs)"
  using serial_put_all_append[of s "[x]" xs] by (simp add: serial_writechar_eq)

lemma serial_put_all_contents:
  assumes "serial_inv s"
  shows "\<exists>s'. serial_put_all s xs = Some s' \<and> serial_inv s' \<and> rxfifo s' = rxfifo s \<and>
    fifo_list (txfifo s') = fifo_list (txfifo s) @ take (1023 - length (fifo_list (txfifo s))) xs"
proof -
  from assms have inv: "fifo_inv (txfifo s)" and "fifo_inv (rxfifo s)"
    by (auto simp: serial_inv_def)
  with sf.put_many_contents[OF inv, of xs] show ?thesis
    using assms by (cases "xs = []") (auto simp: serial_put_all_def serial_inv_def)
qed

lemma serial_writeblock_from_eq:
  assumes "0 \<le> i" "i \<le> datalen" "datalen \<le> int (length data)"
  shows "serial_writeblock_from data datalen i s =
    serial_put_all s (take (nat (datalen - i)) (drop (nat i) data))"
  using assms
proof (induction data datalen i s rule: serial_writeblock_from.induct)
  case (1 data datalen i s)
  show ?case
  proof (cases "i < datalen")
    case False
    with 1 show ?thesis
      by (subst serial_writeblock_from.simps) (simp add: serial_put_all_def)
  next
    case True
    with 1 have "nat i < length data" by linarith
    then have "take (nat (datalen - i)) (drop (nat i) data)
      = data ! nat i # take (nat (datalen - (i + 1))) (drop (nat (i + 1)) data)"
      using True 1 by (simp add: Cons_nth_drop_Suc[symmetric] take_Cons' nat_add_distrib nat_diff_distrib')
    with True 1 \<open>nat i < length data\<close> show ?thesis
      by (subst serial_writeblock_from.simps)
        (auto simp: serial_put_all_Cons split: Option.bind_splits)
  qed
qed

lemma serial_writestr_from_eq:
  assumes "n < length data" "data ! n = 0" "n < 256" "m \<le> n"
    and "\<And>j. j < n \<Longrightarrow> data ! j \<noteq> 0"
  shows "serial_writestr_from data (word_of_nat m) s = serial_put_all s (take (n - m) (drop m data))"
  using assms(4)
proof (induction m arbitrary: s rule: inc_induct)
  case base
  with assms show ?case
    by (subst serial_writestr_from.simps) (simp add: uint_nat unat_of_nat)
next
  case (step m)
  have m: "uint (word_of_nat m :: u8) = int m"
    using assms(3) step.hyps by (simp add: uint_nat unat_of_nat)
  have "take (n - m) (drop m data) = data ! m # take (n - Suc m) (drop (Suc m) data)"
    using assms(1) step.hyps by (simp add: Cons_nth_drop_Suc[symmetric] take_Cons')
  moreover have "data ! m \<noteq> 0"
    using assms(5) step.hyps by simp
  ultimately show ?case
    using step assms(1) m
    by (subst serial_writestr_from.simps) (auto simp: serial_put_all_Cons add.commute split: Option.bind_splits)
qed

text \<open>Without a terminator in the first 256 bytes the counter wraps and the loop goes on.\<close>

lemma serial_writestr_from_diverges:
  assumes "length data \<ge> 256" "\<And>j. j < 256 \<Longrightarrow> data ! j \<noteq> 0"
  shows "serial_writestr_from data i s = None"
proof (rule ccontr)
  assume "serial_writestr_from data i s \<noteq> None"
  then obtain r where ret: "serial_writestr_from data i s = Some r"
    by blast
  have "data = data \<longrightarrow> False"
  proof (rule serial_writestr_from.raw_induct[where P = "\<lambda>d i s r. d = data \<longrightarrow> False", OF _ ret])
    fix f d t r' and j :: u8
    assume IH: "\<And>d i s r. f d i s = Some r \<Longrightarrow> d = data \<longrightarrow> False"
      and eq: "Option.bind (c_read d (uint j)) (\<lambda>r. if r = 0 then Some t
        else Option.bind (serial_writechar t r) (f d (j + 1))) = Some r'"
    have "unat j < 256"
      by simp
    then show "d = data \<longrightarrow> False"
      using assms eq IH[of d "j + 1"]
      by (auto simp: c_read_word split: Option.bind_splits if_splits)
  qed
  then show False by simp
qed

section \<open>Properties\<close>

text \<open>The state the initialisation of the port leaves, for the witnesses.\<close>

definition usb_serial_start :: usb_serial where
  "usb_serial_start =
     \<lparr>rxfifo = fifo_init (replicate 1024 0), txfifo = fifo_init (replicate 1024 0), usb_irq = True\<rparr>"

lemma usb_serial_start_inv: "serial_inv usb_serial_start"
  by (simp add: usb_serial_start_def serial_inv_def fifo_inv_init)

lemma usb_serial_start_tx: "fifo_list (txfifo usb_serial_start) = []"
  by (simp add: usb_serial_start_def)

text \<open>
  The FIFO of \<^verbatim>\<open>serial_fifo.c\<close> is a queue: from the empty FIFO that \<^verbatim>\<open>fifo_init\<close> makes of a
  1024-byte array, any up to 1023 bytes put with \<^verbatim>\<open>_fifo_put\<close> are read back by \<^verbatim>\<open>_fifo_get\<close>
  unchanged and in the same order, no access leaves the array, and the FIFO is empty again.
\<close>

theorem fifo_put_get_roundtrip:
  assumes "length b = 1024" "length xs \<le> 1023"
  shows "\<exists>f f'. put_many fifo_put_raw (fifo_init b) xs = Some f \<and>
    get_many fifo_get_raw f (length xs) = Some (xs, f') \<and> fifo_inv f' \<and> fifo_avail_raw f' = 0"
proof -
  from sf.put_get_roundtrip[OF fifo_inv_init[OF assms(1)] fifo_list_init assms(2)]
  obtain f f' where "put_many fifo_put_raw (fifo_init b) xs = Some f"
    "get_many fifo_get_raw f (length xs) = Some (xs, f')" "fifo_inv f'" "fifo_list f' = []"
    by blast
  then show ?thesis
    using fifo_avail_raw_length[of f'] by auto
qed

theorem fifo_put_get_roundtrip_witness:
  "length (replicate 1024 (0::u8)) = 1024 \<and> length [72, 105 :: u8] \<le> 1023 \<and>
   (\<exists>f f'. put_many fifo_put_raw (fifo_init (replicate 1024 0)) [72, 105] = Some f \<and>
     get_many fifo_get_raw f (length [72, 105 :: u8]) = Some ([72, 105], f') \<and>
     fifo_inv f' \<and> fifo_avail_raw f' = 0)"
  using fifo_put_get_roundtrip[of "replicate 1024 0" "[72, 105]"] by simp

text \<open>
  C2: The FIFO refines the bounded list. Under any interleaving of puts and gets, the ring with its head and tail answers
  each operation as a list of at most 1023 bytes does, and stays a ring that represents that list; in
  particular a put is refused only when 1023 bytes wait, and a get only when none does.
\<close>

theorem fifo_refines_queue:
  assumes "fifo_inv f"
  shows "\<exists>rs f'. impl_run fifo_put_raw fifo_get_raw ops f = Some (rs, f') \<and> fifo_inv f' \<and>
    spec_run 1023 ops (fifo_list f) = (rs, fifo_list f')"
  using assms by (rule sf.run_refines)

theorem fifo_refines_queue_witness:
  "\<exists>f'. impl_run fifo_put_raw fifo_get_raw [Get, Put 7, Put 8, Get] (fifo_init (replicate 1024 0)) =
      Some ([Empty, Accepted, Accepted, Got 7], f') \<and> fifo_list f' = [8]"
  using fifo_refines_queue[OF fifo_inv_init, of "replicate 1024 0" "[Get, Put 7, Put 8, Get]"]
  by (auto simp: fifo_list_init)

text \<open>
  \<^verbatim>\<open>serial_writeblock\<close> appends the block to the transmit queue, cut off where the queue holds
  1023 bytes; it reads no byte outside the block, leaves the receive queue alone and always
  returns.
\<close>

theorem serial_writeblock_appends:
  assumes "serial_inv s" "0 \<le> datalen" "datalen \<le> int (length data)"
  shows "\<exists>s'. serial_writeblock data datalen s = Some s' \<and> serial_inv s' \<and> rxfifo s' = rxfifo s \<and>
    fifo_list (txfifo s') = fifo_list (txfifo s) @
      take (1023 - length (fifo_list (txfifo s))) (take (nat datalen) data)"
proof -
  have "serial_writeblock data datalen s = serial_put_all s (take (nat datalen) data)"
    using serial_writeblock_from_eq[of 0 datalen data s] assms(2,3) by (simp add: serial_writeblock_def)
  then show ?thesis
    using serial_put_all_contents[OF assms(1), of "take (nat datalen) data"] by simp
qed

theorem serial_writeblock_appends_witness:
  "serial_inv usb_serial_start \<and> (\<exists>s'. serial_writeblock [1, 2, 3] 2 usb_serial_start = Some s' \<and>
     fifo_list (txfifo s') = [1, 2])"
  using serial_writeblock_appends[of usb_serial_start 2 "[1, 2, 3]"]
  by (auto simp: usb_serial_start_inv usb_serial_start_tx)

text \<open>
  \<^verbatim>\<open>serial_writestr\<close> counts the characters of the string in a \<^verbatim>\<open>uint8_t\<close>. A string whose
  terminator is among the first 256 bytes is queued as written and the call returns; when the
  first 256 bytes hold no terminator the counter wraps and the call never returns.
\<close>

theorem serial_writestr_returns_iff:
  assumes "serial_inv s" "256 \<le> length data"
  shows "(case find (\<lambda>n. data ! n = 0) [0..<256] of
      None \<Rightarrow> serial_writestr data s = None
    | Some n \<Rightarrow> (\<exists>s'. serial_writestr data s = Some s' \<and> serial_inv s' \<and>
        fifo_list (txfifo s') = fifo_list (txfifo s) @
          take (1023 - length (fifo_list (txfifo s))) (take n data)))"
proof (cases "find (\<lambda>n. data ! n = 0) [0..<256]")
  case None
  then have "\<And>j. j < 256 \<Longrightarrow> data ! j \<noteq> 0"
    by (simp add: find_None_iff)
  then show ?thesis
    using serial_writestr_from_diverges[of data 0 s] assms(2) None by (simp add: serial_writestr_def)
next
  case (Some n)
  then have n: "n < 256" "data ! n = 0" "\<And>j. j < n \<Longrightarrow> data ! j \<noteq> 0"
    by (auto simp: find_Some_iff)
  then have "serial_writestr data s = serial_put_all s (take n data)"
    using serial_writestr_from_eq[of n data 0 s] assms(2) by (simp add: serial_writestr_def)
  then show ?thesis
    using serial_put_all_contents[OF assms(1), of "take n data"] Some by auto
qed

theorem serial_writestr_returns_iff_witness:
  "serial_writestr (replicate 256 65) usb_serial_start = None \<and>
   (\<exists>s'. serial_writestr ([79, 75] @ replicate 254 0) usb_serial_start = Some s' \<and> serial_inv s' \<and>
     fifo_list (txfifo s') = [79, 75])"
proof -
  have "find (\<lambda>n. replicate 256 (65::u8) ! n = 0) [0..<256] = None"
    by (auto simp: find_None_iff)
  moreover have "find (\<lambda>n. ([79, 75] @ replicate 254 (0::u8)) ! n = 0) [0..<256] = Some 2"
    by (simp add: upt_conv_Cons)
  ultimately show ?thesis
    using serial_writestr_returns_iff[of usb_serial_start "replicate 256 65"]
      serial_writestr_returns_iff[of usb_serial_start "[79, 75] @ replicate 254 0"]
    by (simp add: usb_serial_start_inv usb_serial_start_tx)
qed

text \<open>
  The counts. \<^verbatim>\<open>fifo_avail\<close> and \<^verbatim>\<open>fifo_free\<close> are the number of bytes queued and the room left of
  1023; \<^verbatim>\<open>serial_rxchars\<close> reports the number of received bytes, but \<^verbatim>\<open>serial_txchars\<close> returns its
  number through a \<^verbatim>\<open>uint8_t\<close> and so only modulo 256.
\<close>

theorem serial_counts:
  assumes "serial_inv s"
  shows "fst (serial_rxchars s) = int (length (fifo_list (rxfifo s))) \<and>
    fst (fifo_free irq (txfifo s)) = 1023 - int (length (fifo_list (txfifo s))) \<and>
    unat (fst (serial_txchars s)) = length (fifo_list (txfifo s)) mod 256"
proof -
  have "unat (word_of_nat n :: u8) = n mod 256" for n
    by (simp add: unsigned_of_nat take_bit_eq_mod)
  with assms show ?thesis
    by (simp add: serial_inv_def serial_rxchars_def serial_txchars_def fifo_avail_def fifo_free_def
        fifo_free_raw_def fifo_avail_raw_length)
qed

theorem serial_counts_witness:
  "serial_inv usb_serial_start \<and> fst (serial_rxchars usb_serial_start) = 0 \<and>
   fst (fifo_free True (txfifo usb_serial_start)) = 1023 \<and>
   unat (fst (serial_txchars usb_serial_start)) = 0"
  using serial_counts[OF usb_serial_start_inv, of True]
  by (auto simp: usb_serial_start_inv usb_serial_start_tx) (simp add: usb_serial_start_def)

end
