(* ===== verification/Line_Buffer.thy ===== *)
theory Line_Buffer
  imports Prelude
begin

text \<open>
  The command line that both serial interrupts assemble: the globals \<^verbatim>\<open>LINE_READY\<close>,
  \<^verbatim>\<open>UART_LINE[50]\<close> and \<^verbatim>\<open>UART_LINE_LEN\<close> of \<^verbatim>\<open>comm.c\<close>, and the code that appends one received
  byte, which \<^verbatim>\<open>UART_IntReceive\<close> (\<^verbatim>\<open>comm.c\<close>) and \<^verbatim>\<open>BulkOut\<close> (\<^verbatim>\<open>usb.c\<close>) share word for word.
  Nothing there compares the length with the size of the array: the model checks the write,
  and the theorems say exactly when it leaves the array.
\<close>

record line_buf =
  LINE_READY :: bool
  UART_LINE :: "u8 list"
  UART_LINE_LEN :: u32

definition line_buf_init :: line_buf where
  "line_buf_init = \<lparr>LINE_READY = False, UART_LINE = replicate 50 0, UART_LINE_LEN = 0\<rparr>"

definition is_eol :: "u8 \<Rightarrow> bool" where
  "is_eol c \<longleftrightarrow> c = 13 \<or> c = 10"

definition line_input :: "u8 \<Rightarrow> line_buf \<Rightarrow> line_buf option" where
  "line_input tmpc l = do {
     line \<leftarrow> c_write (UART_LINE l) (uint (UART_LINE_LEN l)) tmpc;
     let len = UART_LINE_LEN l + 1;
     if is_eol tmpc then do {
       line \<leftarrow> c_write line (uint (len - 1)) 0;
       Some (l\<lparr>LINE_READY := True, UART_LINE := line, UART_LINE_LEN := 0\<rparr>) }
     else Some (l\<lparr>UART_LINE := line, UART_LINE_LEN := len\<rparr>) }"

fun line_inputs :: "u8 list \<Rightarrow> line_buf \<Rightarrow> line_buf option" where
  "line_inputs [] l = Some l"
| "line_inputs (c # cs) l = Option.bind (line_input c l) (line_inputs cs)"

definition line_wf :: "line_buf \<Rightarrow> bool" where
  "line_wf l \<longleftrightarrow> length (UART_LINE l) = 50 \<and> unat (UART_LINE_LEN l) \<le> 50"

text \<open>The line so far: what the next end of line will deliver.\<close>

definition line_pending :: "line_buf \<Rightarrow> u8 list" where
  "line_pending l = take (unat (UART_LINE_LEN l)) (UART_LINE l)"

text \<open>The C string in the array: up to the first zero byte.\<close>

definition c_string :: "u8 list \<Rightarrow> u8 list" where
  "c_string xs = takeWhile (\<lambda>c. c \<noteq> 0) xs"

lemma line_wf_init: "line_wf line_buf_init"
  by (simp add: line_wf_def line_buf_init_def)

lemma line_inputs_append:
  "line_inputs (cs @ ds) l = Option.bind (line_inputs cs l) (line_inputs ds)"
  by (induction cs arbitrary: l) (auto split: Option.bind_splits)

lemma line_input_None_iff:
  "line_wf l \<Longrightarrow> line_input c l = None \<longleftrightarrow> unat (UART_LINE_LEN l) = 50"
  by (auto simp: line_input_def line_wf_def c_write_word Let_def)

lemma line_input_char:
  assumes "line_wf l" "unat (UART_LINE_LEN l) < 50" "\<not> is_eol c"
  shows "\<exists>l'. line_input c l = Some l' \<and> line_wf l' \<and> line_pending l' = line_pending l @ [c]
    \<and> unat (UART_LINE_LEN l') = Suc (unat (UART_LINE_LEN l)) \<and> LINE_READY l' = LINE_READY l"
proof -
  have "unat (UART_LINE_LEN l + 1) = Suc (unat (UART_LINE_LEN l))"
    using assms(2) by (simp add: unat_word_ariths)
  then show ?thesis
    using assms
    by (auto simp: line_input_def line_wf_def line_pending_def c_write_word Let_def
        take_Suc_conv_app_nth)
qed

lemma line_input_eol:
  assumes "line_wf l" "unat (UART_LINE_LEN l) < 50" "is_eol c"
  shows "\<exists>l'. line_input c l = Some l' \<and> line_wf l' \<and> LINE_READY l' \<and> UART_LINE_LEN l' = 0
    \<and> take (Suc (unat (UART_LINE_LEN l))) (UART_LINE l') = line_pending l @ [0]"
proof -
  have "UART_LINE_LEN l + 1 - 1 = UART_LINE_LEN l" by simp
  with assms show ?thesis
    by (auto simp: line_input_def line_wf_def line_pending_def c_write_word Let_def
        take_Suc_conv_app_nth)
qed

lemma line_inputs_chars:
  assumes "line_wf l" "unat (UART_LINE_LEN l) + length cs \<le> 50" "\<forall>c \<in> set cs. \<not> is_eol c"
  shows "\<exists>l'. line_inputs cs l = Some l' \<and> line_wf l' \<and> line_pending l' = line_pending l @ cs
    \<and> unat (UART_LINE_LEN l') = unat (UART_LINE_LEN l) + length cs \<and> LINE_READY l' = LINE_READY l"
  using assms
proof (induction cs arbitrary: l)
  case Nil
  then show ?case by simp
next
  case (Cons c cs)
  then obtain l1 where l1: "line_input c l = Some l1" "line_wf l1"
    "line_pending l1 = line_pending l @ [c]"
    "unat (UART_LINE_LEN l1) = Suc (unat (UART_LINE_LEN l))" "LINE_READY l1 = LINE_READY l"
    using line_input_char[of l c] by auto
  with Cons.IH[of l1] Cons.prems show ?case
    by auto
qed

lemma line_complete:
  assumes "line_wf l" "UART_LINE_LEN l = 0" "length cs < 50" "\<forall>c \<in> set cs. \<not> is_eol c \<and> c \<noteq> 0"
    "is_eol e"
  shows "\<exists>l'. line_inputs (cs @ [e]) l = Some l' \<and> line_wf l' \<and> LINE_READY l'
    \<and> UART_LINE_LEN l' = 0 \<and> c_string (UART_LINE l') = cs"
proof -
  have "line_pending l = []" "unat (UART_LINE_LEN l) = 0"
    using assms(2) by (simp_all add: line_pending_def)
  with line_inputs_chars[of l cs] assms obtain l1 where l1: "line_inputs cs l = Some l1" "line_wf l1"
    "line_pending l1 = cs" "unat (UART_LINE_LEN l1) = length cs"
    by fastforce
  with line_input_eol[of l1 e] assms(3,5) obtain l2 where l2: "line_input e l1 = Some l2" "line_wf l2"
    "LINE_READY l2" "UART_LINE_LEN l2 = 0" "take (Suc (length cs)) (UART_LINE l2) = cs @ [0]"
    by auto
  have "UART_LINE l2 = cs @ [0] @ drop (Suc (length cs)) (UART_LINE l2)"
    using l2(5) append_take_drop_id[of "Suc (length cs)" "UART_LINE l2"] by simp
  moreover have "c_string (cs @ [0] @ ys) = cs" for ys
    using assms(4) by (simp add: c_string_def takeWhile_append2)
  ultimately have "c_string (UART_LINE l2) = cs"
    by metis
  with l1 l2 show ?thesis
    by (auto simp: line_inputs_append)
qed

text \<open>
  C15: A command line of up to 49 characters, followed by a carriage return or line feed and
  typed into an empty line buffer, sets \<^verbatim>\<open>LINE_READY\<close>, empties the buffer for the next line and
  leaves exactly the typed characters as the C string in \<^verbatim>\<open>UART_LINE\<close>.
\<close>

theorem line_delivered:
  assumes "line_wf l" "UART_LINE_LEN l = 0" "length cs < 50" "\<forall>c \<in> set cs. \<not> is_eol c \<and> c \<noteq> 0"
    "is_eol e"
  shows "\<exists>l'. line_inputs (cs @ [e]) l = Some l' \<and> line_wf l' \<and> LINE_READY l'
    \<and> UART_LINE_LEN l' = 0 \<and> c_string (UART_LINE l') = cs"
  using assms by (rule line_complete)

theorem line_delivered_witness:
  "\<exists>l'. line_inputs ([98, 108] @ [13]) line_buf_init = Some l' \<and> line_wf l' \<and> LINE_READY l'
    \<and> UART_LINE_LEN l' = 0 \<and> c_string (UART_LINE l') = [98, 108]"
proof -
  have "UART_LINE_LEN line_buf_init = 0" by (simp add: line_buf_init_def)
  from line_delivered[OF line_wf_init this, of "[98, 108]" 13] show ?thesis
    by (simp add: is_eol_def)
qed

text \<open>
  C18: The line buffer is not guarded. Input that finds the buffer with room for it leaves it well
  formed, and whatever byte follows 50 characters without an end of line, even the end of
  line itself, is written past the end of the array.
\<close>

theorem line_input_overflow:
  assumes "line_wf l" "unat (UART_LINE_LEN l) + length cs = 50" "\<forall>c \<in> set cs. \<not> is_eol c"
  shows "(\<exists>l'. line_inputs cs l = Some l' \<and> line_wf l') \<and> line_inputs (cs @ [c]) l = None"
proof -
  from line_inputs_chars[of l cs] assms obtain l1 where "line_inputs cs l = Some l1" "line_wf l1"
    "unat (UART_LINE_LEN l1) = 50"
    by auto
  then show ?thesis
    using line_input_None_iff[of l1 c] by (simp add: line_inputs_append)
qed

theorem line_input_overflow_witness: "line_inputs (replicate 50 97 @ [13]) line_buf_init = None"
  using line_input_overflow[OF line_wf_init, of "replicate 50 97" 13]
  by (simp add: is_eol_def line_buf_init_def)

end
