(* ===== verification/Uart_Comm.thy ===== *)
theory Uart_Comm
  imports Serial_Fifo Line_Buffer
begin

text \<open>
  The interrupt-driven UART of \<^verbatim>\<open>comm.c\<close>: the two 1024-byte rings with masked 32-bit indices,
  the receive and transmit interrupts, the blocking calls on top of them, and the console
  byte sink \<^verbatim>\<open>comm_put\<close> that feeds the UART and the USB port. What the UART hardware does is
  an argument: the bytes in its receive FIFO, and for every attempt to send whether the
  transmit holding register was empty.
\<close>

section \<open>Ring macros\<close>

definition BUF_IS_FULL :: "u32 \<Rightarrow> u32 \<Rightarrow> bool" where
  "BUF_IS_FULL h t \<longleftrightarrow> (t AND 1023) = ((h + 1) AND 1023)"

definition BUF_WILL_FULL :: "u32 \<Rightarrow> u32 \<Rightarrow> bool" where
  "BUF_WILL_FULL h t \<longleftrightarrow> (t AND 1023) = ((h + 2) AND 1023)"

definition BUF_IS_EMPTY :: "u32 \<Rightarrow> u32 \<Rightarrow> bool" where
  "BUF_IS_EMPTY h t \<longleftrightarrow> (h AND 1023) = (t AND 1023)"

definition BUF_RESET :: "u32 \<Rightarrow> u32" where
  "BUF_RESET i = 0"

definition BUF_INCR :: "u32 \<Rightarrow> u32" where
  "BUF_INCR i = (i + 1) AND 1023"

text \<open>
  \<^verbatim>\<open>UART_RING_BUFFER_T\<close> holds the same three fields twice, for the two directions; the model
  has one record for a direction.
\<close>

record uart_ring =
  rhead :: u32
  rtail :: u32
  rdata :: "u8 list"

definition ring_store :: "uart_ring \<Rightarrow> u8 \<Rightarrow> uart_ring option" where
  "ring_store r c = do {
     d \<leftarrow> c_write (rdata r) (uint (rhead r)) c;
     Some (r\<lparr>rdata := d, rhead := BUF_INCR (rhead r)\<rparr>) }"

definition ring_fetch :: "uart_ring \<Rightarrow> (u8 \<times> uart_ring) option" where
  "ring_fetch r = do {
     c \<leftarrow> c_read (rdata r) (uint (rtail r));
     Some (c, r\<lparr>rtail := BUF_INCR (rtail r)\<rparr>) }"

definition uring_put :: "uart_ring \<Rightarrow> u8 \<Rightarrow> (bool \<times> uart_ring) option" where
  "uring_put r c =
     (if BUF_IS_FULL (rhead r) (rtail r) then Some (False, r)
      else map_option (Pair True) (ring_store r c))"

definition uring_get :: "uart_ring \<Rightarrow> (u8 option \<times> uart_ring) option" where
  "uring_get r =
     (if BUF_IS_EMPTY (rhead r) (rtail r) then Some (None, r)
      else map_option (map_prod Some id) (ring_fetch r))"

section \<open>The ring as a bounded queue\<close>

definition uring_inv :: "uart_ring \<Rightarrow> bool" where
  "uring_inv r \<longleftrightarrow> unat (rhead r) < 1024 \<and> unat (rtail r) < 1024 \<and> length (rdata r) = 1024"

definition uring_list :: "uart_ring \<Rightarrow> u8 list" where
  "uring_list r = ring_list 1024 (rdata r) (unat (rtail r)) (ring_count 1024 (unat (rhead r)) (unat (rtail r)))"

lemma unat_BUF_INCR: "unat (BUF_INCR i) = Suc (unat i) mod 1024"
  by (simp add: BUF_INCR_def u32_incr_and_1023)

lemma BUF_IS_FULL_iff:
  "unat h < 1024 \<Longrightarrow> unat t < 1024 \<Longrightarrow> BUF_IS_FULL h t \<longleftrightarrow> Suc (unat h) mod 1024 = unat t"
  by (auto simp: BUF_IS_FULL_def word_unat_eq_iff word_nat)

lemma BUF_IS_EMPTY_iff:
  "unat h < 1024 \<Longrightarrow> unat t < 1024 \<Longrightarrow> BUF_IS_EMPTY h t \<longleftrightarrow> unat h = unat t"
  by (simp add: BUF_IS_EMPTY_def word_unat_eq_iff word_nat)

lemma uring_full_iff:
  "uring_inv r \<Longrightarrow> BUF_IS_FULL (rhead r) (rtail r) \<longleftrightarrow> length (uring_list r) = 1023"
  by (simp add: uring_inv_def uring_list_def BUF_IS_FULL_iff ring_count_full)

lemma uring_empty_iff:
  "uring_inv r \<Longrightarrow> BUF_IS_EMPTY (rhead r) (rtail r) \<longleftrightarrow> uring_list r = []"
proof -
  assume inv: "uring_inv r"
  then have "BUF_IS_EMPTY (rhead r) (rtail r) \<longleftrightarrow> length (uring_list r) = 0"
    by (simp add: uring_inv_def uring_list_def BUF_IS_EMPTY_iff ring_count_empty del: length_0_conv)
  then show ?thesis by simp
qed

lemma uring_bounded: "uring_inv r \<Longrightarrow> length (uring_list r) \<le> 1023"
  using ring_count_less[of 1024 "unat (rhead r)" "unat (rtail r)"] by (simp add: uring_list_def)

lemma ring_store_ok:
  assumes "uring_inv r" "length (uring_list r) < 1023"
  shows "\<exists>r'. ring_store r c = Some r' \<and> uring_inv r' \<and> uring_list r' = uring_list r @ [c]"
proof -
  let ?h = "unat (rhead r)" and ?t = "unat (rtail r)"
  let ?n = "ring_count 1024 ?h ?t"
  from assms have h: "?h < 1024" "?t < 1024" "length (rdata r) = 1024" "?n < 1023"
    by (auto simp: uring_inv_def uring_list_def)
  with ring_count_full[of ?h 1024 ?t] have "Suc ?h mod 1024 \<noteq> ?t"
    by simp
  with h have count: "ring_count 1024 (Suc ?h mod 1024) ?t = Suc ?n"
    by (simp add: ring_count_put)
  have "(?t + ?n) mod 1024 = ?h"
    using h by (simp add: ring_count_head)
  with ring_list_put[of "rdata r" 1024 ?n ?t c] h
  have "ring_list 1024 ((rdata r)[?h := c]) ?t (Suc ?n) = uring_list r @ [c]"
    by (simp add: uring_list_def)
  with h count show ?thesis
    by (simp add: ring_store_def c_write_word uring_inv_def uring_list_def unat_BUF_INCR)
qed

lemma ring_fetch_ok:
  assumes "uring_inv r" "uring_list r = x # xs"
  shows "\<exists>r'. ring_fetch r = Some (x, r') \<and> uring_inv r' \<and> uring_list r' = xs"
proof -
  let ?h = "unat (rhead r)" and ?t = "unat (rtail r)"
  from assms have h: "?h < 1024" "?t < 1024" "length (rdata r) = 1024"
    by (auto simp: uring_inv_def)
  have "ring_count 1024 ?h ?t \<noteq> 0"
    using assms(2) length_ring_list[of 1024 "rdata r" ?t "ring_count 1024 ?h ?t"]
    by (metis length_0_conv list.distinct(1) uring_list_def)
  with h have "?h \<noteq> ?t"
    by (simp add: ring_count_empty)
  with h have "ring_count 1024 ?h ?t = Suc (ring_count 1024 ?h (Suc ?t mod 1024))"
    by (simp add: ring_count_get)
  then have "x # xs = rdata r ! ?t # ring_list 1024 (rdata r) (Suc ?t mod 1024) (ring_count 1024 ?h (Suc ?t mod 1024))"
    using assms(2) h ring_list_get[of ?t 1024 "rdata r"] by (simp add: uring_list_def)
  with h show ?thesis
    by (simp add: ring_fetch_def c_read_word uring_inv_def uring_list_def unat_BUF_INCR)
qed

interpretation uq: bounded_queue uring_inv uring_list 1023 uring_put uring_get
proof
  fix r :: uart_ring and c x :: u8 and xs
  assume inv: "uring_inv r"
  show "length (uring_list r) \<le> 1023"
    by (rule uring_bounded[OF inv])
  show "\<exists>r'. uring_put r c = Some (True, r') \<and> uring_inv r' \<and> uring_list r' = uring_list r @ [c]"
    if "length (uring_list r) < 1023"
    using that ring_store_ok[OF inv that, of c] by (auto simp: uring_put_def uring_full_iff[OF inv])
  show "uring_put r c = Some (False, r)" if "length (uring_list r) = 1023"
    using that by (simp add: uring_put_def uring_full_iff[OF inv])
  show "uring_get r = Some (None, r)" if "uring_list r = []"
    using that by (simp add: uring_get_def uring_empty_iff[OF inv])
  show "\<exists>r'. uring_get r = Some (Some x, r') \<and> uring_inv r' \<and> uring_list r' = xs"
    if "uring_list r = x # xs"
    using that ring_fetch_ok[OF inv that] by (auto simp: uring_get_def uring_empty_iff[OF inv])
qed

section \<open>State\<close>

text \<open>
  \<open>hw_tx\<close> is the sequence of bytes handed to the transmitter so far; the three enable bits
  are those of the UART interrupt enable register.
\<close>

record comm =
  tx :: uart_ring
  rx :: uart_ring
  TxIntStat :: bool
  ier_rbr :: bool
  ier_thre :: bool
  ier_rls :: bool
  nvic_uart0 :: bool
  baud_rate :: nat
  hw_tx :: "u8 list"
  line :: line_buf
  usb :: usb_serial

section \<open>Interrupt service routines\<close>

text \<open>
  \<open>UART_IntReceive\<close>: \<open>arr\<close> is what the driver call \<^verbatim>\<open>UART_Receive(.., 1, NONE_BLOCKING)\<close>
  delivers byte by byte until the hardware FIFO is empty.
\<close>

fun UART_IntReceive :: "u8 list \<Rightarrow> comm \<Rightarrow> comm option" where
  "UART_IntReceive [] s = Some s"
| "UART_IntReceive (tmpc # arr) s = do {
     l \<leftarrow> line_input tmpc (line s);
     r \<leftarrow> (if \<not> BUF_IS_FULL (rhead (rx s)) (rtail (rx s)) then ring_store (rx s) tmpc else Some (rx s));
     UART_IntReceive arr (s\<lparr>line := l, rx := r\<rparr>) }"

text \<open>
  The transmit loop: \<open>thre\<close> says for each call of \<^verbatim>\<open>UART_Send(.., 1, NONE_BLOCKING)\<close> whether the
  holding register took the byte; beyond the list it does not.
\<close>

fun tx_pump :: "bool list \<Rightarrow> uart_ring \<Rightarrow> u8 list \<Rightarrow> (uart_ring \<times> u8 list) option" where
  "tx_pump [] r out = Some (r, out)"
| "tx_pump (b # thre) r out =
     (if BUF_IS_EMPTY (rhead r) (rtail r) \<or> \<not> b then Some (r, out)
      else do { (c, r) \<leftarrow> ring_fetch r; tx_pump thre r (out @ [c]) })"

definition UART_IntTransmit :: "bool list \<Rightarrow> comm \<Rightarrow> comm option" where
  "UART_IntTransmit thre s = do {
     let s = s\<lparr>ier_thre := False\<rparr>;
     (r, out) \<leftarrow> tx_pump thre (tx s) (hw_tx s);
     let s = s\<lparr>tx := r, hw_tx := out\<rparr>;
     Some (if BUF_IS_EMPTY (rhead (tx s)) (rtail (tx s))
           then s\<lparr>ier_thre := False, TxIntStat := False\<rparr>
           else s\<lparr>TxIntStat := True, ier_thre := True\<rparr>) }"

text \<open>\<^verbatim>\<open>UART_IntErr\<close> is \<^verbatim>\<open>while (1)\<close>: it has no result.\<close>

definition UART_IntErr :: "u8 \<Rightarrow> comm \<Rightarrow> comm option" where
  "UART_IntErr bLSErrType s = None"

definition UART0_IRQHandler :: "u32 \<Rightarrow> u8 \<Rightarrow> u8 list \<Rightarrow> bool list \<Rightarrow> comm \<Rightarrow> comm option" where
  "UART0_IRQHandler iir lsr arr thre s = do {
     let tmp = iir AND 0xE;
     let tmp1 = lsr AND 0x9E;
     s \<leftarrow> (if tmp = 6 \<and> tmp1 \<noteq> 0 then UART_IntErr tmp1 s else Some s);
     s \<leftarrow> (if tmp = 4 \<or> tmp = 12 then UART_IntReceive arr s else Some s);
     if tmp = 2 then UART_IntTransmit thre s else Some s }"

section \<open>Calls from the main program\<close>

fun tx_fill :: "u8 list \<Rightarrow> nat \<Rightarrow> nat \<Rightarrow> uart_ring \<Rightarrow> (nat \<times> uart_ring) option" where
  "tx_fill txbuf 0 bytes r = Some (bytes, r)"
| "tx_fill txbuf (Suc buflen) bytes r =
     (if BUF_IS_FULL (rhead r) (rtail r) then Some (bytes, r)
      else do {
        c \<leftarrow> c_read txbuf (int bytes);
        r \<leftarrow> ring_store r c;
        tx_fill txbuf buflen (Suc bytes) r })"

definition UARTSend :: "bool list \<Rightarrow> u8 list \<Rightarrow> u8 \<Rightarrow> comm \<Rightarrow> (nat \<times> comm) option" where
  "UARTSend thre txbuf buflen s = do {
     let s = s\<lparr>ier_thre := False\<rparr>;
     (bytes, r) \<leftarrow> tx_fill txbuf (unat buflen) 0 (tx s);
     let s = s\<lparr>tx := r\<rparr>;
     s \<leftarrow> (if \<not> TxIntStat s then UART_IntTransmit thre s else Some (s\<lparr>ier_thre := True\<rparr>));
     Some (bytes, s) }"

fun rx_drain :: "nat \<Rightarrow> nat \<Rightarrow> u8 list \<Rightarrow> uart_ring \<Rightarrow> (nat \<times> u8 list \<times> uart_ring) option" where
  "rx_drain 0 bytes rxbuf r = Some (bytes, rxbuf, r)"
| "rx_drain (Suc buflen) bytes rxbuf r =
     (if BUF_IS_EMPTY (rhead r) (rtail r) then Some (bytes, rxbuf, r)
      else do {
        (c, r) \<leftarrow> ring_fetch r;
        rxbuf \<leftarrow> c_write rxbuf (int bytes) c;
        rx_drain buflen (Suc bytes) rxbuf r })"

definition UARTReceive :: "u8 list \<Rightarrow> u8 \<Rightarrow> comm \<Rightarrow> (nat \<times> u8 list \<times> comm) option" where
  "UARTReceive rxbuf buflen s = do {
     let s = s\<lparr>ier_rbr := False\<rparr>;
     (bytes, rxbuf, r) \<leftarrow> rx_drain (unat buflen) 0 rxbuf (rx s);
     Some (bytes, rxbuf, s\<lparr>rx := r, ier_rbr := True\<rparr>) }"

definition comm_test :: "u8 \<Rightarrow> int" where
  "comm_test lsr = (if lsr AND 1 \<noteq> 0 then 1 else 0)"

text \<open>
  \<open>comm_get\<close> polls the receive ring; \<open>polls\<close> lists what the interrupt receives before each poll,
  and \<open>None\<close> is a poll that still waits. The C function returns the array \<^verbatim>\<open>buffer\<close>, not its
  element, converted to \<^verbatim>\<open>uint8_t\<close>: the low byte of the address, which is an argument here.
\<close>

fun comm_get_poll :: "u8 list list \<Rightarrow> u8 list \<Rightarrow> comm \<Rightarrow> (u8 list \<times> comm) option" where
  "comm_get_poll [] buffer s = None"
| "comm_get_poll (arr # polls) buffer s = do {
     s \<leftarrow> UART_IntReceive arr s;
     (len, buffer, s) \<leftarrow> UARTReceive buffer 1 s;
     if len = 0 then comm_get_poll polls buffer s else Some (buffer, s) }"

definition comm_get :: "u32 \<Rightarrow> u8 list list \<Rightarrow> comm \<Rightarrow> (u8 \<times> comm) option" where
  "comm_get buffer_addr polls s = do {
     b \<leftarrow> c_write (UART_LINE (line s)) 0 0;
     let s = s\<lparr>line := (line s)\<lparr>LINE_READY := False, UART_LINE_LEN := 0, UART_LINE := b\<rparr>\<rparr>;
     (buffer, s) \<leftarrow> comm_get_poll polls [0] s;
     Some (ucast buffer_addr, s) }"

text \<open>
  The flushing loops run until the queue is empty. They have no bound of their own, so they
  are partial functions; the receive interrupts are quiet while they run.
\<close>

partial_function (option) comm_flush :: "comm \<Rightarrow> comm option" where
  "comm_flush s = Option.bind (UARTReceive [0] 1 s) (\<lambda>(n, buffer, s).
     if n = 0 then Some s else comm_flush s)"

partial_function (option) usb_flush_loop :: "usb_serial \<Rightarrow> usb_serial option" where
  "usb_flush_loop u = (case serial_rxchars u of (n, u) \<Rightarrow>
     if n = 0 then Some u
     else Option.bind (serial_popchar u) (\<lambda>(c, u). usb_flush_loop u))"

definition usb_flush :: "comm \<Rightarrow> comm option" where
  "usb_flush s = map_option (\<lambda>u. s\<lparr>usb := u\<rparr>) (usb_flush_loop (usb s))"

definition comm_put :: "bool list \<Rightarrow> u8 \<Rightarrow> comm \<Rightarrow> comm option" where
  "comm_put thre d s = do {
     (_, s) \<leftarrow> UARTSend thre [d] 1 s;
     u \<leftarrow> serial_writechar (usb s) d;
     Some (s\<lparr>usb := u\<rparr>) }"

definition comm_init :: "comm \<Rightarrow> comm" where
  "comm_init s =
     (let s = s\<lparr>line := (line s)\<lparr>UART_LINE_LEN := 0\<rparr>\<rparr>;
          s = s\<lparr>baud_rate := 115200, ier_rbr := False, ier_thre := False, ier_rls := False\<rparr>;
          s = s\<lparr>ier_rbr := True\<rparr>;
          s = s\<lparr>ier_rls := True\<rparr>;
          s = s\<lparr>TxIntStat := False\<rparr>;
          s = s\<lparr>rx := (rx s)\<lparr>rhead := BUF_RESET (rhead (rx s)), rtail := BUF_RESET (rtail (rx s))\<rparr>\<rparr>;
          s = s\<lparr>tx := (tx s)\<lparr>rhead := BUF_RESET (rhead (tx s)), rtail := BUF_RESET (rtail (tx s))\<rparr>\<rparr>
      in s\<lparr>nvic_uart0 := True\<rparr>)"

section \<open>Invariant\<close>

text \<open>
  Between calls: both rings are well formed, the transmit interrupt is enabled exactly when
  \<open>TxIntStat\<close> says so, and it is whenever bytes wait in the transmit ring.
\<close>

definition rings_inv :: "comm \<Rightarrow> bool" where
  "rings_inv s \<longleftrightarrow> uring_inv (tx s) \<and> uring_inv (rx s)"

definition tx_armed :: "comm \<Rightarrow> bool" where
  "tx_armed s \<longleftrightarrow> (ier_thre s \<longleftrightarrow> TxIntStat s) \<and> (uring_list (tx s) \<noteq> [] \<longrightarrow> ier_thre s)"

lemma comm_init_inv:
  "length (rdata (tx s)) = 1024 \<Longrightarrow> length (rdata (rx s)) = 1024 \<Longrightarrow>
   rings_inv (comm_init s) \<and> tx_armed (comm_init s) \<and>
   uring_list (tx (comm_init s)) = [] \<and> uring_list (rx (comm_init s)) = []"
  by (simp add: comm_init_def rings_inv_def tx_armed_def uring_inv_def uring_list_def BUF_RESET_def
      ring_count_def Let_def)

subsection \<open>Transmission\<close>

lemma tx_pump_ok:
  "uring_inv r \<Longrightarrow> \<exists>r' out'. tx_pump thre r out = Some (r', out') \<and> uring_inv r' \<and>
     out' @ uring_list r' = out @ uring_list r"
proof (induction thre arbitrary: r out)
  case Nil
  then show ?case by simp
next
  case (Cons b thre)
  show ?case
  proof (cases "uring_list r")
    case Nil
    with Cons.prems show ?thesis by (simp add: uring_empty_iff)
  next
    case (Cons x xs)
    from ring_fetch_ok[OF Cons.prems this] obtain r1 where
      r1: "ring_fetch r = Some (x, r1)" "uring_inv r1" "uring_list r1 = xs"
      by blast
    from Cons.IH[OF r1(2), of "out @ [x]"] r1 Cons Cons.prems show ?thesis
      by (auto simp: uring_empty_iff)
  qed
qed

lemma UART_IntTransmit_ok:
  assumes "rings_inv s"
  shows "\<exists>s'. UART_IntTransmit thre s = Some s' \<and> rings_inv s' \<and> tx_armed s' \<and>
    hw_tx s' @ uring_list (tx s') = hw_tx s @ uring_list (tx s) \<and>
    rx s' = rx s \<and> line s' = line s \<and> usb s' = usb s \<and> ier_rbr s' = ier_rbr s"
proof -
  from assms tx_pump_ok[of "tx s" thre "hw_tx s"] obtain r' out' where
    "tx_pump thre (tx s) (hw_tx s) = Some (r', out')" "uring_inv r'"
    "out' @ uring_list r' = hw_tx s @ uring_list (tx s)"
    by (auto simp: rings_inv_def)
  with assms show ?thesis
    by (auto simp: UART_IntTransmit_def rings_inv_def tx_armed_def uring_empty_iff Let_def)
qed

lemma tx_fill_ok:
  assumes "uring_inv r" "bytes + n \<le> length txbuf"
  shows "\<exists>r'. tx_fill txbuf n bytes r = Some (bytes + min n (1023 - length (uring_list r)), r') \<and>
    uring_inv r' \<and> uring_list r' = uring_list r @
      take (min n (1023 - length (uring_list r))) (drop bytes txbuf)"
  using assms
proof (induction n arbitrary: bytes r)
  case 0
  then show ?case by simp
next
  case (Suc n)
  show ?case
  proof (cases "length (uring_list r) < 1023")
    case False
    with Suc.prems uring_bounded[of r] have "length (uring_list r) = 1023" by simp
    with Suc.prems show ?thesis by (simp add: uring_full_iff)
  next
    case True
    with Suc.prems ring_store_ok[of r "txbuf ! bytes"] obtain r1 where
      r1: "ring_store r (txbuf ! bytes) = Some r1" "uring_inv r1"
      "uring_list r1 = uring_list r @ [txbuf ! bytes]"
      by blast
    let ?k = "1023 - length (uring_list r1)"
    from True r1(3) have k: "min (Suc n) (1023 - length (uring_list r)) = Suc (min n ?k)"
      by simp
    from Suc.prems have "drop bytes txbuf = txbuf ! bytes # drop (Suc bytes) txbuf"
      by (simp add: Cons_nth_drop_Suc)
    with Suc.IH[OF r1(2), of "Suc bytes"] Suc.prems True r1 k show ?thesis
      by (auto simp: uring_full_iff)
  qed
qed

text \<open>
  \<open>UARTSend\<close> accepts as much of the buffer as the ring has room for, reports that number, and
  leaves the transmitter armed while anything waits.
\<close>

lemma UARTSend_ok:
  fixes buflen :: u8
  defines "k \<equiv> \<lambda>s. min (unat buflen) (1023 - length (uring_list (tx s)))"
  assumes "rings_inv s" "tx_armed s" "unat buflen \<le> length txbuf"
  shows "\<exists>s'. UARTSend thre txbuf buflen s = Some (k s, s') \<and> rings_inv s' \<and> tx_armed s' \<and>
    hw_tx s' @ uring_list (tx s') = hw_tx s @ uring_list (tx s) @ take (k s) txbuf \<and>
    rx s' = rx s \<and> line s' = line s \<and> usb s' = usb s"
proof -
  from assms tx_fill_ok[of "tx s" 0 "unat buflen" txbuf] obtain r' where
    r': "tx_fill txbuf (unat buflen) 0 (tx s) = Some (k s, r')" "uring_inv r'"
    "uring_list r' = uring_list (tx s) @ take (k s) txbuf"
    by (auto simp: rings_inv_def)
  let ?s = "s\<lparr>ier_thre := False, tx := r'\<rparr>"
  from r' assms(2) have "rings_inv ?s"
    by (simp add: rings_inv_def)
  from UART_IntTransmit_ok[OF this, of thre] r' assms(2,3) show ?thesis
    by (cases "TxIntStat s") (auto simp: UARTSend_def Let_def rings_inv_def tx_armed_def)
qed

subsection \<open>Reception\<close>

lemma UART_IntReceive_ok:
  assumes "rings_inv s" "line_inputs arr (line s) = Some l"
  shows "\<exists>s'. UART_IntReceive arr s = Some s' \<and> rings_inv s' \<and> line s' = l \<and>
    uring_list (rx s') = uring_list (rx s) @ take (1023 - length (uring_list (rx s))) arr \<and>
    tx s' = tx s \<and> hw_tx s' = hw_tx s \<and> TxIntStat s' = TxIntStat s \<and> ier_thre s' = ier_thre s"
  using assms
proof (induction arr arbitrary: s)
  case Nil
  then show ?case by simp
next
  case (Cons c arr)
  then obtain l1 where l1: "line_input c (line s) = Some l1" "line_inputs arr l1 = Some l"
    by (auto split: Option.bind_splits)
  from Cons.prems have inv: "uring_inv (rx s)" and "uring_inv (tx s)"
    by (auto simp: rings_inv_def)
  from uq.put_total[OF inv, of c] obtain b r1 where r1: "uring_put (rx s) c = Some (b, r1)" "uring_inv r1"
    by blast
  from uq.put_many_contents[OF inv, of "[c]"] r1
  have list: "uring_list r1 = uring_list (rx s) @ take (1023 - length (uring_list (rx s))) [c]"
    by auto
  let ?s = "s\<lparr>line := l1, rx := r1\<rparr>"
  have step: "UART_IntReceive (c # arr) s = UART_IntReceive arr ?s"
    using l1 r1 by (auto simp: uring_put_def split: if_splits)
  have "rings_inv ?s" "line_inputs arr (line ?s) = Some l"
    using r1 l1 \<open>uring_inv (tx s)\<close> by (simp_all add: rings_inv_def)
  moreover have "uring_list r1 @ take (1023 - length (uring_list r1)) arr
      = uring_list (rx s) @ take (1023 - length (uring_list (rx s))) (c # arr)"
    using list by (auto simp: take_Cons')
  ultimately show ?case
    using Cons.IH[of ?s] by (simp only: step) auto
qed

lemma rx_drain_ok:
  assumes "uring_inv r" "bytes + n \<le> length rxbuf"
  shows "\<exists>r'. rx_drain n bytes rxbuf r =
      Some (bytes + min n (length (uring_list r)),
        take bytes rxbuf @ take n (uring_list r) @ drop (bytes + min n (length (uring_list r))) rxbuf, r')
    \<and> uring_inv r' \<and> uring_list r' = drop n (uring_list r)"
  using assms
proof (induction n arbitrary: bytes rxbuf r)
  case 0
  then show ?case by simp
next
  case (Suc n)
  show ?case
  proof (cases "uring_list r")
    case Nil
    with Suc.prems show ?thesis by (simp add: uring_empty_iff)
  next
    case (Cons x xs)
    from ring_fetch_ok[OF Suc.prems(1) this] obtain r1 where
      r1: "ring_fetch r = Some (x, r1)" "uring_inv r1" "uring_list r1 = xs"
      by blast
    let ?buf = "rxbuf[bytes := x]"
    have "take (Suc bytes) ?buf = take bytes rxbuf @ [x]"
      using Suc.prems by (simp add: take_Suc_conv_app_nth)
    moreover have "drop (Suc (bytes + min n (length xs))) ?buf = drop (Suc (bytes + min n (length xs))) rxbuf"
      by simp
    ultimately show ?thesis
      using Suc.IH[OF r1(2), of "Suc bytes" ?buf] Suc.prems r1 Cons
      by (auto simp: uring_empty_iff)
  qed
qed

lemma UARTReceive_ok:
  fixes buflen :: u8
  defines "k \<equiv> \<lambda>s. min (unat buflen) (length (uring_list (rx s)))"
  assumes "rings_inv s" "unat buflen \<le> length rxbuf"
  shows "\<exists>s'. UARTReceive rxbuf buflen s =
      Some (k s, take (unat buflen) (uring_list (rx s)) @ drop (k s) rxbuf, s') \<and> rings_inv s' \<and>
    uring_list (rx s') = drop (unat buflen) (uring_list (rx s)) \<and> ier_rbr s' \<and>
    s' = s\<lparr>rx := rx s', ier_rbr := True\<rparr>"
proof -
  from assms rx_drain_ok[of "rx s" 0 "unat buflen" rxbuf] obtain r' where
    r': "rx_drain (unat buflen) 0 rxbuf (rx s) =
      Some (k s, take (unat buflen) (uring_list (rx s)) @ drop (k s) rxbuf, r')"
    "uring_inv r'" "uring_list r' = drop (unat buflen) (uring_list (rx s))"
    by (auto simp: rings_inv_def)
  with assms(2) show ?thesis
    by (simp add: UARTReceive_def rings_inv_def Let_def)
qed

subsection \<open>Flushing and the console sink\<close>

lemma comm_flush_ok:
  "rings_inv s \<Longrightarrow> \<exists>s'. comm_flush s = Some s' \<and> rings_inv s' \<and> uring_list (rx s') = [] \<and>
     s' = s\<lparr>rx := rx s', ier_rbr := True\<rparr>"
proof (induction "length (uring_list (rx s))" arbitrary: s)
  case 0
  from UARTReceive_ok[OF 0(2), of 1 "[0]"] obtain s' where
    s': "UARTReceive [0] 1 s = Some (0, [0], s')" "rings_inv s'" "uring_list (rx s') = []"
    "s' = s\<lparr>rx := rx s', ier_rbr := True\<rparr>"
    using 0(1) by auto
  then show ?case
    by (subst comm_flush.simps) auto
next
  case (Suc n)
  from UARTReceive_ok[OF Suc(3), of 1 "[0]"] Suc(2) obtain buffer s1 where
    s1: "UARTReceive [0] 1 s = Some (Suc 0, buffer, s1)" "rings_inv s1"
    "length (uring_list (rx s1)) = n" "s1 = s\<lparr>rx := rx s1, ier_rbr := True\<rparr>"
    by auto
  from Suc(1)[OF s1(3)[symmetric] s1(2)] s1 show ?case
    by (subst comm_flush.simps) (auto, metis comm.surjective comm.update_convs(2,4))
qed

lemma usb_flush_loop_ok:
  "fifo_inv (rxfifo u) \<Longrightarrow> \<exists>u'. usb_flush_loop u = Some u' \<and> fifo_inv (rxfifo u') \<and>
     fifo_list (rxfifo u') = [] \<and> txfifo u' = txfifo u"
proof (induction "length (fifo_list (rxfifo u))" arbitrary: u)
  case 0
  then show ?case
    by (subst usb_flush_loop.simps)
      (simp add: serial_rxchars_def fifo_avail_def fifo_avail_raw_length)
next
  case (Suc n)
  then obtain x xs where xs: "fifo_list (rxfifo u) = x # xs" "length xs = n"
    by (metis length_Suc_conv)
  from fifo_get_raw_cons[OF Suc(3) xs(1)] obtain f where
    f: "fifo_get_raw (rxfifo u) = Some (Some x, f)" "fifo_inv f" "fifo_list f = xs"
    by blast
  let ?u = "u\<lparr>rxfifo := f, usb_irq := True\<rparr>"
  from Suc(1)[of ?u] f xs obtain u' where
    "usb_flush_loop ?u = Some u'" "fifo_inv (rxfifo u')" "fifo_list (rxfifo u') = []"
    "txfifo u' = txfifo u"
    by auto
  then show ?case
    using Suc(3) f xs
    by (subst usb_flush_loop.simps)
      (simp add: serial_rxchars_def serial_popchar_def fifo_avail_def fifo_get_def fifo_irq_defs
        fifo_avail_raw_length)
qed

lemma comm_put_ok:
  assumes "rings_inv s" "tx_armed s" "serial_inv (usb s)"
  shows "\<exists>s'. comm_put thre d s = Some s' \<and> rings_inv s' \<and> tx_armed s' \<and> serial_inv (usb s') \<and>
    hw_tx s' @ uring_list (tx s') = hw_tx s @ uring_list (tx s) @
      (if length (uring_list (tx s)) < 1023 then [d] else []) \<and>
    fifo_list (txfifo (usb s')) = fifo_list (txfifo (usb s)) @
      (if length (fifo_list (txfifo (usb s))) < 1023 then [d] else []) \<and>
    rx s' = rx s \<and> line s' = line s"
proof -
  let ?k = "min 1 (1023 - length (uring_list (tx s)))"
  from UARTSend_ok[OF assms(1,2), of 1 "[d]" thre] obtain s1 where
    s1: "UARTSend thre [d] 1 s = Some (?k, s1)" "rings_inv s1" "tx_armed s1"
    "hw_tx s1 @ uring_list (tx s1) = hw_tx s @ uring_list (tx s) @ take ?k [d]"
    "rx s1 = rx s" "line s1 = line s" "usb s1 = usb s"
    by auto
  have k: "take ?k [d] = (if length (uring_list (tx s)) < 1023 then [d] else [])"
    by (simp add: min_def)
  from serial_put_all_contents[OF assms(3), of "[d]"] obtain u where
    u: "serial_writechar (usb s) d = Some u" "serial_inv u"
    "fifo_list (txfifo u) = fifo_list (txfifo (usb s)) @
       take (1023 - length (fifo_list (txfifo (usb s)))) [d]"
    by (auto simp: serial_writechar_eq)
  from s1(1,7) u(1) have "comm_put thre d s = Some (s1\<lparr>usb := u\<rparr>)"
    by (simp add: comm_put_def)
  with s1 u k show ?thesis
    by (auto simp: rings_inv_def tx_armed_def take_Cons')
qed

section \<open>Interleavings of calls and interrupts\<close>

text \<open>
  Any sequence of sends, transmit interrupts, receptions and reads. The second component
  is the sequence of bytes the sends have accepted so far.
\<close>

inductive uart_step :: "comm \<times> u8 list \<Rightarrow> comm \<times> u8 list \<Rightarrow> bool" where
  send: "UARTSend thre txbuf buflen s = Some (n, s') \<Longrightarrow> unat buflen \<le> length txbuf \<Longrightarrow>
     uart_step (s, acc) (s', acc @ take n txbuf)"
| tx_irq: "ier_thre s \<Longrightarrow> UART_IntTransmit thre s = Some s' \<Longrightarrow> uart_step (s, acc) (s', acc)"
| rx_irq: "ier_rbr s \<Longrightarrow> UART_IntReceive arr s = Some s' \<Longrightarrow> uart_step (s, acc) (s', acc)"
| receive: "UARTReceive rxbuf buflen s = Some (n, rxbuf', s') \<Longrightarrow> unat buflen \<le> length rxbuf \<Longrightarrow>
     uart_step (s, acc) (s', acc)"

inductive_cases uart_stepE: "uart_step p q"

inductive uart_reachable :: "comm \<Rightarrow> comm \<times> u8 list \<Rightarrow> bool" for s0 where
  start: "uart_reachable s0 (comm_init s0, [])"
| step: "uart_reachable s0 p \<Longrightarrow> uart_step p q \<Longrightarrow> uart_reachable s0 q"

definition uart_inv :: "u8 list \<Rightarrow> comm \<times> u8 list \<Rightarrow> bool" where
  "uart_inv sent p \<longleftrightarrow> rings_inv (fst p) \<and> tx_armed (fst p) \<and>
     hw_tx (fst p) @ uring_list (tx (fst p)) = sent @ snd p"

lemma UART_IntReceive_line:
  "UART_IntReceive arr s = Some s' \<Longrightarrow> \<exists>l. line_inputs arr (line s) = Some l"
proof (induction arr arbitrary: s)
  case Nil
  then show ?case by simp
next
  case (Cons c arr)
  then obtain l r where "line_input c (line s) = Some l"
    "UART_IntReceive arr (s\<lparr>line := l, rx := r\<rparr>) = Some s'"
    by (auto simp: bind_eq_Some_conv)
  with Cons.IH[of "s\<lparr>line := l, rx := r\<rparr>"] show ?case
    by auto
qed

lemma uart_step_inv: "uart_step p q \<Longrightarrow> uart_inv sent p \<Longrightarrow> uart_inv sent q"
proof (induction rule: uart_step.induct)
  case (send thre txbuf buflen s n s' acc)
  then show ?case
    using UARTSend_ok[of s buflen txbuf thre] by (auto simp: uart_inv_def)
next
  case (tx_irq s thre s' acc)
  then show ?case
    using UART_IntTransmit_ok[of s thre] by (auto simp: uart_inv_def)
next
  case (rx_irq s arr s' acc)
  then obtain l where "line_inputs arr (line s) = Some l"
    using UART_IntReceive_line by blast
  with rx_irq UART_IntReceive_ok[of s arr l] show ?case
    by (auto simp: uart_inv_def tx_armed_def)
next
  case (receive rxbuf buflen s n rxbuf' s' acc)
  then obtain r where "s' = s\<lparr>rx := r, ier_rbr := True\<rparr>" "rings_inv s'"
    using UARTReceive_ok[of s buflen rxbuf] by (auto simp: uart_inv_def)
  with receive show ?case
    by (auto simp: uart_inv_def tx_armed_def)
qed

lemma uart_reachable_inv:
  assumes "uart_reachable s0 p" "length (rdata (tx s0)) = 1024" "length (rdata (rx s0)) = 1024"
  shows "uart_inv (hw_tx s0) p"
  using assms
proof (induction rule: uart_reachable.induct)
  case start
  then show ?case
    using comm_init_inv[of s0] by (simp add: uart_inv_def comm_init_def Let_def)
next
  case (step p q)
  then show ?case
    by (blast intro: uart_step_inv)
qed

section \<open>Properties\<close>

definition comm_start :: comm where
  "comm_start = \<lparr>tx = \<lparr>rhead = 0, rtail = 0, rdata = replicate 1024 0\<rparr>,
     rx = \<lparr>rhead = 0, rtail = 0, rdata = replicate 1024 0\<rparr>, TxIntStat = False, ier_rbr = False,
     ier_thre = False, ier_rls = False, nvic_uart0 = False, baud_rate = 0, hw_tx = [],
     line = line_buf_init, usb = usb_serial_start\<rparr>"

lemma comm_start_inv: "rings_inv comm_start" "tx_armed comm_start" "serial_inv (usb comm_start)"
  by (simp_all add: comm_start_def rings_inv_def uring_inv_def tx_armed_def uring_list_def
      ring_count_def usb_serial_start_inv)

lemma comm_start_lists: "uring_list (tx comm_start) = []" "uring_list (rx comm_start) = []"
  "hw_tx comm_start = []" "fifo_list (txfifo (usb comm_start)) = []"
  by (simp_all add: comm_start_def uring_list_def ring_count_def usb_serial_start_tx)

text \<open>
  C1: No byte is lost, repeated or reordered on the UART. After \<^verbatim>\<open>comm_init\<close>, however calls of
  \<^verbatim>\<open>UARTSend\<close> and \<^verbatim>\<open>UARTReceive\<close> and the transmit and receive interrupts interleave, the bytes handed
  to the transmitter followed by the bytes still in the ring are exactly the bytes the sends
  reported as accepted; and while a byte waits in the ring the transmit interrupt is enabled.
\<close>

theorem uart_tx_in_order:
  assumes "uart_reachable s0 (s, accepted)"
    and "length (rdata (tx s0)) = 1024" "length (rdata (rx s0)) = 1024"
  shows "hw_tx s @ uring_list (tx s) = hw_tx s0 @ accepted \<and> (uring_list (tx s) \<noteq> [] \<longrightarrow> ier_thre s)"
  using uart_reachable_inv[OF assms] by (auto simp: uart_inv_def tx_armed_def)

theorem uart_tx_in_order_witness:
  "\<exists>s. uart_reachable comm_start (s, [79, 75]) \<and> hw_tx s @ uring_list (tx s) = [79, 75]"
proof -
  have len: "length (rdata (tx comm_start)) = 1024" "length (rdata (rx comm_start)) = 1024"
    by (simp_all add: comm_start_def)
  note init = comm_init_inv[OF len]
  from init UARTSend_ok[of "comm_init comm_start" 2 "[79, 75]" "[]"] obtain s where
    "UARTSend [] [79, 75] 2 (comm_init comm_start) = Some (2, s)"
    by auto
  from uart_step.send[OF this, of "[]"] have r: "uart_reachable comm_start (s, [79, 75])"
    using uart_reachable.start uart_reachable.step by fastforce
  from uart_tx_in_order[OF r len] r show ?thesis
    by (auto simp: comm_start_lists)
qed

text \<open>
  C9: \<^verbatim>\<open>UARTSend\<close> queues the longest prefix of the buffer that fits in the ring of 1023 bytes, and
  returns its length; it reads nothing outside the buffer and the ring, and afterwards the
  rings are well formed and the transmitter is armed.
\<close>

theorem UARTSend_accepts_prefix:
  assumes "rings_inv s" "tx_armed s" "unat buflen \<le> length txbuf"
  shows "\<exists>s' n. UARTSend thre txbuf buflen s = Some (n, s') \<and>
    n = min (unat buflen) (1023 - length (uring_list (tx s))) \<and> rings_inv s' \<and> tx_armed s' \<and>
    hw_tx s' @ uring_list (tx s') = hw_tx s @ uring_list (tx s) @ take n txbuf"
  using UARTSend_ok[OF assms, of thre] by auto

theorem UARTSend_accepts_prefix_witness:
  "\<exists>s' n. UARTSend [True] [1, 2, 3] 3 comm_start = Some (n, s') \<and> n = 3 \<and>
     hw_tx s' @ uring_list (tx s') = [1, 2, 3]"
  using UARTSend_accepts_prefix[OF comm_start_inv(1,2), of 3 "[1, 2, 3]" "[True]"]
  by (auto simp: comm_start_lists)



text \<open>
  \<^verbatim>\<open>comm_flush\<close> and \<^verbatim>\<open>usb_flush\<close> return, with the receive ring and the receive FIFO empty and
  everything else but the interrupt enable bits as before.
\<close>

theorem flush_returns_empty:
  assumes "rings_inv s" "serial_inv (usb s)"
  shows "\<exists>s' s''. comm_flush s = Some s' \<and> usb_flush s' = Some s'' \<and> rings_inv s'' \<and>
    uring_list (rx s'') = [] \<and> fifo_list (rxfifo (usb s'')) = [] \<and>
    tx s'' = tx s \<and> hw_tx s'' = hw_tx s \<and> line s'' = line s \<and> txfifo (usb s'') = txfifo (usb s)"
proof -
  from comm_flush_ok[OF assms(1)] obtain s' where
    s': "comm_flush s = Some s'" "rings_inv s'" "uring_list (rx s') = []"
    "s' = s\<lparr>rx := rx s', ier_rbr := True\<rparr>"
    by blast
  then obtain r where r: "s' = s\<lparr>rx := r, ier_rbr := True\<rparr>"
    by blast
  moreover obtain u where "usb_flush_loop (usb s) = Some u" "fifo_list (rxfifo u) = []"
    "txfifo u = txfifo (usb s)"
    using usb_flush_loop_ok assms(2) unfolding serial_inv_def by blast
  ultimately show ?thesis
    using s'(1-3) by (auto simp: usb_flush_def rings_inv_def)
qed

theorem flush_returns_empty_witness:
  "\<exists>s' s''. comm_flush comm_start = Some s' \<and> usb_flush s' = Some s'' \<and>
     uring_list (rx s'') = [] \<and> fifo_list (rxfifo (usb s'')) = []"
  using flush_returns_empty[OF comm_start_inv(1,3)] by blast

text \<open>
  Every console byte goes to both ports: \<^verbatim>\<open>comm_put\<close> appends it to the UART transmit stream and to
  the USB transmit queue, each unless that queue already holds 1023 bytes, and always returns.
\<close>

theorem comm_put_both_ports:
  assumes "rings_inv s" "tx_armed s" "serial_inv (usb s)"
  shows "\<exists>s'. comm_put thre d s = Some s' \<and> rings_inv s' \<and> tx_armed s' \<and> serial_inv (usb s') \<and>
    hw_tx s' @ uring_list (tx s') = hw_tx s @ uring_list (tx s) @
      (if length (uring_list (tx s)) < 1023 then [d] else []) \<and>
    fifo_list (txfifo (usb s')) = fifo_list (txfifo (usb s)) @
      (if length (fifo_list (txfifo (usb s))) < 1023 then [d] else [])"
  using comm_put_ok[OF assms, of thre d] by blast

theorem comm_put_both_ports_witness:
  "\<exists>s'. comm_put [] 65 comm_start = Some s' \<and> hw_tx s' @ uring_list (tx s') = [65] \<and>
     fifo_list (txfifo (usb s')) = [65]"
  using comm_put_both_ports[OF comm_start_inv, of "[]" 65] by (auto simp: comm_start_lists)

text \<open>
  \<^verbatim>\<open>comm_get\<close> with a byte waiting returns, takes exactly the oldest byte from the ring and
  empties the command line, but the value it returns is the low byte of the address of its local
  buffer and does not depend on the byte received.
\<close>

theorem comm_get_returns_address:
  assumes "rings_inv s" "uring_list (rx s) = b # bs" "UART_LINE (line s) \<noteq> []"
  shows "\<exists>s'. comm_get addr ([] # polls) s = Some (ucast addr, s') \<and> rings_inv s' \<and>
    uring_list (rx s') = bs \<and> UART_LINE_LEN (line s') = 0 \<and> UART_LINE (line s') ! 0 = 0 \<and>
    \<not> LINE_READY (line s')"
proof -
  let ?s = "s\<lparr>line := (line s)\<lparr>LINE_READY := False, UART_LINE_LEN := 0,
    UART_LINE := (UART_LINE (line s))[0 := 0]\<rparr>\<rparr>"
  have inv: "rings_inv ?s"
    using assms(1) by (simp add: rings_inv_def)
  from UARTReceive_ok[OF inv, of 1 "[0]"] assms(2) obtain s2 r where
    s2: "UARTReceive [0] 1 ?s = Some (1, [b], s2)" "rings_inv s2" "uring_list (rx s2) = bs"
    "s2 = ?s\<lparr>rx := r, ier_rbr := True\<rparr>"
    by auto
  have "c_write (UART_LINE (line s)) 0 0 = Some ((UART_LINE (line s))[0 := 0])"
    using assms(3) by (simp add: c_write_def)
  with s2 have "comm_get addr ([] # polls) s = Some (ucast addr, s2)"
    by (simp add: comm_get_def Let_def)
  with s2 assms(3) show ?thesis
    by auto
qed

theorem comm_get_returns_address_witness:
  "\<exists>s s'. UART_IntReceive [97] comm_start = Some s \<and>
     comm_get 0x10003FF8 [[]] s = Some (0xF8, s') \<and> uring_list (rx s') = []"
proof -
  have wf: "line_wf (line comm_start)"
    by (simp add: comm_start_def line_wf_init)
  have "UART_LINE_LEN (line comm_start) = 0"
    by (simp add: comm_start_def line_buf_init_def)
  with line_inputs_chars[OF wf, of "[97]"] obtain l where
    l: "line_inputs [97] (line comm_start) = Some l" "line_wf l"
    by (auto simp: is_eol_def)
  from UART_IntReceive_ok[OF comm_start_inv(1) l(1)] comm_start_lists obtain s where
    s: "UART_IntReceive [97] comm_start = Some s" "rings_inv s" "uring_list (rx s) = [97]" "line s = l"
    by auto
  have "UART_LINE (line s) \<noteq> []"
    using l(2) s(4) by (auto simp: line_wf_def)
  from comm_get_returns_address[OF s(2,3) this, of "0x10003FF8" "[]"] s(1) show ?thesis
    by auto
qed

end
