(* ===== verification/Digits.thy ===== *)
theory Digits
  imports Prelude
begin

text \<open>
  Positional notation, the reference for every number printer and reader of the firmware:
  \<open>num_digits r n\<close> is the shortest list of base-\<open>r\<close> digits of \<open>n\<close>, most significant first,
  \<open>pad_digits r k n\<close> is the list of exactly \<open>k + 1\<close> digits, \<open>digits_value\<close> reads digits back, and
  \<open>digit_char\<close> is the ASCII character of a digit up to 15 (upper case).
\<close>

function num_digits :: "nat \<Rightarrow> nat \<Rightarrow> nat list" where
  "num_digits r n = (if r < 2 \<or> n < r then [n] else num_digits r (n div r) @ [n mod r])"
  by pat_completeness auto
termination
  by (relation "measure snd") (auto intro: div_less_dividend)

declare num_digits.simps [simp del]

fun pad_digits :: "nat \<Rightarrow> nat \<Rightarrow> nat \<Rightarrow> nat list" where
  "pad_digits r 0 n = [n]"
| "pad_digits r (Suc k) n = (n div r ^ Suc k) # pad_digits r k (n mod r ^ Suc k)"

definition digits_value :: "nat \<Rightarrow> nat list \<Rightarrow> nat" where
  "digits_value r ds = foldl (\<lambda>a d. a * r + d) 0 ds"

definition digit_char :: "nat \<Rightarrow> u8" where
  "digit_char d = (if d < 10 then of_nat (48 + d) else of_nat (55 + d))"

lemma num_digits_small: "n < r \<Longrightarrow> num_digits r n = [n]"
  by (simp add: num_digits.simps)

lemma num_digits_big: "2 \<le> r \<Longrightarrow> r \<le> n \<Longrightarrow> num_digits r n = num_digits r (n div r) @ [n mod r]"
  by (subst num_digits.simps) simp

lemma digits_value_snoc [simp]: "digits_value r (ds @ [d]) = digits_value r ds * r + d"
  by (simp add: digits_value_def)

lemma digits_value_num_digits: "2 \<le> r \<Longrightarrow> digits_value r (num_digits r n) = n"
proof (induction r n rule: num_digits.induct)
  case (1 r n)
  then show ?case
    by (cases "n < r") (simp_all add: num_digits_small num_digits_big, simp add: digits_value_def)
qed

lemma num_digits_less: "2 \<le> r \<Longrightarrow> d \<in> set (num_digits r n) \<Longrightarrow> d < r"
proof (induction r n rule: num_digits.induct)
  case (1 r n)
  then show ?case
    by (cases "n < r") (auto simp: num_digits_small num_digits_big)
qed

lemma num_digits_not_Nil [simp]: "num_digits r n \<noteq> []"
  by (subst num_digits.simps) simp

lemma num_digits_hd: "2 \<le> r \<Longrightarrow> 0 < n \<Longrightarrow> 0 < hd (num_digits r n)"
proof (induction r n rule: num_digits.induct)
  case (1 r n)
  then show ?case
    by (cases "n < r") (auto simp: num_digits_small num_digits_big hd_append div_greater_zero_iff)
qed

lemma num_digits_length: "2 \<le> r \<Longrightarrow> n < r ^ Suc k \<Longrightarrow> length (num_digits r n) \<le> Suc k"
proof (induction k arbitrary: n)
  case 0
  then show ?case by (simp add: num_digits_small)
next
  case (Suc k)
  then have "n div r < r ^ Suc k"
    by (simp add: less_mult_imp_div_less mult.commute)
  with Suc show ?case
    by (cases "n < r") (auto simp: num_digits_small num_digits_big)
qed

lemma mod_mult_div: "(n :: nat) mod (b * a) div b = n div b mod a"
  by (cases "b = 0") (simp_all only: mod_mult2_eq, simp_all)

lemma pad_digits_snoc: "pad_digits r (Suc k) n = pad_digits r k (n div r) @ [n mod r]"
proof (induction k arbitrary: n)
  case 0
  then show ?case by simp
next
  case (Suc k)
  have "n mod r ^ Suc (Suc k) div r = n div r mod r ^ Suc k"
    by (simp only: power_Suc[of r "Suc k"] mod_mult_div)
  moreover have "n mod r ^ Suc (Suc k) mod r = n mod r"
    by (rule mod_mod_cancel) simp
  ultimately have "pad_digits r (Suc k) (n mod r ^ Suc (Suc k)) =
      pad_digits r k (n div r mod r ^ Suc k) @ [n mod r]"
    using Suc.IH[of "n mod r ^ Suc (Suc k)"] by simp
  moreover have "n div r ^ Suc (Suc k) = n div r div r ^ Suc k"
    by (simp add: div_mult2_eq)
  ultimately show ?case
    by simp
qed

text \<open>With a leading digit that is not zero the two notations agree.\<close>

lemma pad_digits_num_digits:
  "2 \<le> r \<Longrightarrow> r ^ k \<le> n \<Longrightarrow> n < r ^ Suc k \<Longrightarrow> pad_digits r k n = num_digits r n"
proof (induction k arbitrary: n)
  case 0
  then show ?case by (simp add: num_digits_small)
next
  case (Suc k)
  have "r ^ k \<le> n div r" "n div r < r ^ Suc k"
    using Suc.prems by (simp_all add: less_eq_div_iff_mult_less_eq less_mult_imp_div_less mult.commute)
  moreover have "r \<le> n"
    using Suc.prems(1,2) by (metis One_nat_def Suc_1 Suc_le_lessD le_trans less_imp_le_nat
        power_increasing power_one_right Suc_leI zero_less_Suc)
  ultimately show ?case
    using Suc.IH[of "n div r"] Suc.prems(1) by (simp add: pad_digits_snoc num_digits_big del: pad_digits.simps)
qed

lemma pad_digits_append:
  "pad_digits r (k + Suc j) n = pad_digits r k (n div r ^ Suc j) @ pad_digits r j (n mod r ^ Suc j)"
proof (induction k arbitrary: n)
  case 0
  then show ?case by simp
next
  case (Suc k)
  have pow: "r ^ (Suc k + Suc j) = r ^ Suc j * r ^ Suc k"
    by (simp only: power_add mult.commute)
  have "n mod r ^ (Suc k + Suc j) div r ^ Suc j = n div r ^ Suc j mod r ^ Suc k"
    unfolding pow by (rule mod_mult_div)
  moreover have "n mod r ^ (Suc k + Suc j) mod r ^ Suc j = n mod r ^ Suc j"
    unfolding pow by (rule mod_mod_cancel) simp
  moreover have "n div r ^ (Suc k + Suc j) = n div r ^ Suc j div r ^ Suc k"
    unfolding pow by (rule div_mult2_eq)
  ultimately show ?case
    using Suc.IH[of "n mod r ^ (Suc k + Suc j)"] by (simp del: power_Suc)
qed

lemma digits_value_pad_digits: "digits_value r (pad_digits r k n) = n"
proof (induction k arbitrary: n)
  case 0
  then show ?case by (simp add: digits_value_def)
next
  case (Suc k)
  then show ?case by (simp add: pad_digits_snoc del: pad_digits.simps)
qed

lemma unat_digit_char: "x < 16 \<Longrightarrow> unat (digit_char x) = (if x < 10 then 48 + x else 55 + x)"
  by (simp add: digit_char_def unsigned_of_nat take_bit_nat_eq_self del: of_nat_add)

lemma digit_char_inj:
  assumes "d < 16" "e < 16" "digit_char d = digit_char e"
  shows "d = e"
proof -
  have "unat (digit_char d) = unat (digit_char e)"
    using assms(3) by (rule arg_cong)
  then show ?thesis
    unfolding unat_digit_char[OF assms(1)] unat_digit_char[OF assms(2)]
    by (simp split: if_splits)
qed

end
