(* ===== verification/Ser_Msg.thy ===== *)
theory Ser_Msg
  imports Serial_Fifo Digits
begin

text \<open>
  Number printing on the USB serial port (\<^verbatim>\<open>libraries/R2C2/sermsg.c\<close>, \<^verbatim>\<open>sersendf.c\<close>) and on the polled
  debug UART (\<^verbatim>\<open>libraries/R2C2/uart.c\<close>). The printers only write characters, so their text is a byte
  list (\<open>hex4_text\<close>, \dots, \<open>uint32_text\<close>) which \<open>write_all\<close> sends through \<^verbatim>\<open>serial_writechar\<close> or
  \<^verbatim>\<open>uart_send\<close>. The decimal printer is the repeated subtraction of the source, stage by stage. The
  lemmas show that it prints the shortest decimal notation, and that hexadecimal printing is the
  notation of fixed width. The two routines for \<^verbatim>\<open>double\<close> are not modelled; \<^verbatim>\<open>%g\<close> of \<^verbatim>\<open>sersendf\<close>
  calls a parameter.
\<close>

section \<open>sermsg.c\<close>

definition hex4_text :: "u8 \<Rightarrow> u8 list" where
  "hex4_text v = (let v = v AND 0xF in if v < 10 then [48 + v] else [65 - 10 + v])"

definition hex8_text :: "u8 \<Rightarrow> u8 list" where
  "hex8_text v = hex4_text (drop_bit 4 v) @ hex4_text (v AND 0x0F)"

definition hex16_text :: "u16 \<Rightarrow> u8 list" where
  "hex16_text v = hex8_text (ucast (drop_bit 8 v)) @ hex8_text (ucast (v AND 0xFF))"

definition hex32_text :: "u32 \<Rightarrow> u8 list" where
  "hex32_text v = hex16_text (ucast (drop_bit 16 v)) @ hex16_text (ucast (v AND 0xFFFF))"

text \<open>\<open>for (t = 0; v >= P; v -= P, t++);\<close> (every \<open>P\<close> of the source is positive)\<close>

function sub_loop :: "u32 \<Rightarrow> u32 \<Rightarrow> u8 \<Rightarrow> u32 \<times> u8" where
  "sub_loop P v t = (if 0 < P \<and> P \<le> v then sub_loop P (v - P) (t + 1) else (v, t))"
  by pat_completeness auto
termination
  by (relation "measure (\<lambda>(P, v, t). unat v)")
    (auto simp: word_less_nat_alt word_le_nat_alt unat_sub)

declare sub_loop.simps [simp del]

type_synonym dec_state = "u8 list \<times> u32 \<times> u8"

definition dec_stage :: "u32 \<Rightarrow> dec_state \<Rightarrow> dec_state" where
  "dec_stage P = (\<lambda>(out, v, t).
     if v \<ge> P then let (v, t) = sub_loop P v 0 in (out @ [t + 48], v, t)
     else if t \<noteq> 0 then (out @ [48], v, t)
     else (out, v, t))"

definition dec_div_stage :: "u32 \<Rightarrow> dec_state \<Rightarrow> dec_state" where
  "dec_div_stage P = (\<lambda>(out, v, t).
     if v \<ge> P then let t = ucast (v div P) in (out @ [t + 48], v - ucast t * P, t)
     else if t \<noteq> 0 then (out @ [48], v, t)
     else (out, v, t))"

definition uint32_text :: "u32 \<Rightarrow> u8 list" where
  "uint32_text v =
    (let s = ([], v, 0);
       s = dec_stage 1000000000 s;
       s = dec_stage 100000000 s;
       s = dec_stage 10000000 s;
       s = dec_stage 1000000 s;
       s = dec_stage 100000 s;
       s = dec_stage 10000 s;
       s = dec_stage 1000 s;
       s = dec_div_stage 100 s;
       s = dec_div_stage 10 s
     in case s of (out, v, t) \<Rightarrow> out @ [ucast v + 48])"

text \<open>The argument of \<^verbatim>\<open>serwrite_int32\<close> is the 32-bit pattern of the \<^verbatim>\<open>int32_t\<close>; negation wraps.\<close>

definition int32_text :: "u32 \<Rightarrow> u8 list" where
  "int32_text v = (if v <s 0 then [45] @ uint32_text (- v) else uint32_text v)"

abbreviation serial_text :: "u8 list \<Rightarrow> usb_serial \<Rightarrow> usb_serial option" where
  "serial_text \<equiv> write_all (\<lambda>c s. serial_writechar s c)"

definition serwrite_hex4 :: "u8 \<Rightarrow> usb_serial \<Rightarrow> usb_serial option" where
  "serwrite_hex4 v = serial_text (hex4_text v)"

definition serwrite_hex8 :: "u8 \<Rightarrow> usb_serial \<Rightarrow> usb_serial option" where
  "serwrite_hex8 v = serial_text (hex8_text v)"

definition serwrite_hex16 :: "u16 \<Rightarrow> usb_serial \<Rightarrow> usb_serial option" where
  "serwrite_hex16 v = serial_text (hex16_text v)"

definition serwrite_hex32 :: "u32 \<Rightarrow> usb_serial \<Rightarrow> usb_serial option" where
  "serwrite_hex32 v = serial_text (hex32_text v)"

definition serwrite_uint32 :: "u32 \<Rightarrow> usb_serial \<Rightarrow> usb_serial option" where
  "serwrite_uint32 v = serial_text (uint32_text v)"

definition serwrite_int32 :: "u32 \<Rightarrow> usb_serial \<Rightarrow> usb_serial option" where
  "serwrite_int32 v = serial_text (int32_text v)"

section \<open>sersendf.c\<close>

text \<open>
  The variadic arguments are a list; an argument of another type than the conversion asks for, and
  a missing one, are undefined (\<open>None\<close>), as is a format without its terminating NUL. \<open>j\<close> is the
  state of the scanner: 0 outside a conversion, 2 after \<^verbatim>\<open>%\<close>, 4 after \<^verbatim>\<open>%l\<close>.
\<close>

datatype 'd ser_arg = SInt u32 | SStr "u8 list" | SDouble 'd

definition str_ox :: "u8 list" where
  "str_ox = [48, 120, 0]"

definition ser_conv :: "('d \<Rightarrow> usb_serial \<Rightarrow> usb_serial option) \<Rightarrow> u8 \<Rightarrow> u8 \<Rightarrow> 'd ser_arg list \<Rightarrow> usb_serial
    \<Rightarrow> (u8 \<times> 'd ser_arg list \<times> usb_serial) option" where
  "ser_conv serwrite_double c j args s =
    (if c = 108 then Some (4, args, s)
     else if c = 117 then (case args of SInt v # args \<Rightarrow> do { s \<leftarrow> serwrite_uint32 v s; Some (0, args, s) }
                           | _ \<Rightarrow> None)
     else if c = 100 then (case args of SInt v # args \<Rightarrow> do { s \<leftarrow> serwrite_int32 v s; Some (0, args, s) }
                           | _ \<Rightarrow> None)
     else if c = 103 then (case args of SDouble v # args \<Rightarrow> do { s \<leftarrow> serwrite_double v s; Some (0, args, s) }
                           | _ \<Rightarrow> None)
     else if c = 112 \<or> c = 120 then
       (case args of SInt v # args \<Rightarrow> do {
            s \<leftarrow> serial_writestr str_ox s;
            s \<leftarrow> (if j = 4 then serwrite_hex32 v s else serwrite_hex16 (ucast v) s);
            Some (0, args, s) }
        | _ \<Rightarrow> None)
     else if c = 99 then (case args of SInt v # args \<Rightarrow> do { s \<leftarrow> serial_writechar s (ucast v); Some (0, args, s) }
                          | _ \<Rightarrow> None)
     else if c = 115 then (case args of SStr v # args \<Rightarrow> do { s \<leftarrow> serial_writestr v s; Some (0, args, s) }
                           | _ \<Rightarrow> None)
     else Some (0, args, s))"

fun sersendf_from :: "('d \<Rightarrow> usb_serial \<Rightarrow> usb_serial option) \<Rightarrow> u8 list \<Rightarrow> u8 \<Rightarrow> 'd ser_arg list \<Rightarrow> usb_serial
    \<Rightarrow> usb_serial option" where
  "sersendf_from dbl [] j args s = None"
| "sersendf_from dbl (c # format) j args s =
    (if c = 0 then Some s
     else if j \<noteq> 0 then do {
       (j, args, s) \<leftarrow> ser_conv dbl c j args s;
       sersendf_from dbl format j args s }
     else if c = 37 then sersendf_from dbl format 2 args s
     else do { s \<leftarrow> serial_writechar s c; sersendf_from dbl format 0 args s })"

definition sersendf :: "('d \<Rightarrow> usb_serial \<Rightarrow> usb_serial option) \<Rightarrow> u8 list \<Rightarrow> 'd ser_arg list \<Rightarrow> usb_serial
    \<Rightarrow> usb_serial option" where
  "sersendf dbl format args s = sersendf_from dbl format 0 args s"

section \<open>uart.c\<close>

text \<open>
  The debug UART: the values that successive reads of the line status register give, and the bytes
  written to the transmitter. \<^verbatim>\<open>uart_send\<close> waits for bit 5 (\<^verbatim>\<open>THRE\<close>); \<open>None\<close> is a wait that has not
  ended when the given reads are used up.
\<close>

record dbg_uart =
  lsr_reads :: "u8 list"
  sent :: "u8 list"

definition UART_SendByte :: "u8 \<Rightarrow> dbg_uart \<Rightarrow> dbg_uart" where
  "UART_SendByte b u = u\<lparr>sent := sent u @ [b]\<rparr>"

definition uart_data_available :: "u8 \<Rightarrow> u8" where
  "uart_data_available lsr = lsr AND 0x01"

fun uart_wait_thre :: "u8 list \<Rightarrow> u8 list option" where
  "uart_wait_thre [] = None"
| "uart_wait_thre (lsr # reads) = (if lsr AND 0x20 = 0 then uart_wait_thre reads else Some reads)"

definition uart_send :: "u8 \<Rightarrow> dbg_uart \<Rightarrow> dbg_uart option" where
  "uart_send b u = do {
     reads \<leftarrow> uart_wait_thre (lsr_reads u);
     Some (UART_SendByte b (u\<lparr>lsr_reads := reads\<rparr>)) }"

partial_function (option) uart_writestr_from :: "u8 list \<Rightarrow> u8 \<Rightarrow> dbg_uart \<Rightarrow> dbg_uart option" where
  "uart_writestr_from data i u =
     Option.bind (c_read data (uint i)) (\<lambda>r.
       if r = 0 then Some u
       else Option.bind (uart_send r u) (\<lambda>u. uart_writestr_from data (i + 1) u))"

definition uart_writestr :: "u8 list \<Rightarrow> dbg_uart \<Rightarrow> dbg_uart option" where
  "uart_writestr data u = uart_writestr_from data 0 u"

function uart_send_32_Hex :: "u8 \<Rightarrow> dbg_uart \<Rightarrow> dbg_uart" where
  "uart_send_32_Hex Data u =
    (if Data \<ge> 0x10 then uart_send_32_Hex (Data mod 0x10) (uart_send_32_Hex (Data div 0x10) u)
     else if Data < 0xA then UART_SendByte (Data + 48) u
     else UART_SendByte ((Data - 0x0A) + 65) u)"
  by pat_completeness auto
termination
  by (relation "measure (\<lambda>(d, u). unat d)") (auto simp: word_le_nat_alt unat_div unat_mod)

declare uart_send_32_Hex.simps [simp del]

definition uart_uint32 :: "u32 \<Rightarrow> dbg_uart \<Rightarrow> dbg_uart option" where
  "uart_uint32 v = write_all uart_send (uint32_text v)"

section \<open>Correctness of the printers\<close>

lemma sub_loop_eq:
  "0 < P \<Longrightarrow> sub_loop P v t = (v mod P, t + of_nat (unat v div unat P))"
proof (induction P v t rule: sub_loop.induct)
  case (1 P v t)
  show ?case
  proof (cases "P \<le> v")
    case True
    then have sub: "unat (v - P) = unat v - unat P" "unat P \<le> unat v" "0 < unat P"
      using 1(2) by (simp_all add: unat_sub word_le_nat_alt word_less_nat_alt)
    then have "unat v div unat P = Suc (unat (v - P) div unat P)" "unat (v mod P) = unat ((v - P) mod P)"
      by (simp_all add: le_div_geq le_mod_geq unat_mod)
    moreover from this(2) have "(v - P) mod P = v mod P"
      by (metis unsigned_word_eqI)
    ultimately show ?thesis
      using True 1 by (simp add: sub_loop.simps[of P v])
  next
    case False
    then have *: "unat v < unat P"
      by (simp add: word_less_nat_alt word_le_nat_alt)
    then have "unat (v mod P) = unat v"
      by (simp add: unat_mod)
    then have "v mod P = v"
      by (rule unsigned_word_eqI)
    with False * show ?thesis
      by (simp add: sub_loop.simps[of P v])
  qed
qed

text \<open>
  What is still to be printed of \<open>n\<close> when the stages below \<open>10 ^ Suc k\<close> are left: with zeros once a
  digit has been printed.
\<close>

definition dec_rest :: "bool \<Rightarrow> nat \<Rightarrow> nat \<Rightarrow> nat list" where
  "dec_rest b n k = (if b then pad_digits 10 k n else num_digits 10 n)"

lemma dec_rest_Suc:
  assumes "n < 10 ^ Suc (Suc k)"
  shows "dec_rest b n (Suc k) = (if n div 10 ^ Suc k \<noteq> 0 \<or> b then [n div 10 ^ Suc k] else []) @
    dec_rest (b \<or> n div 10 ^ Suc k \<noteq> 0) (n mod 10 ^ Suc k) k"
proof (cases "b \<or> n < 10 ^ Suc k")
  case False
  with assms have "pad_digits 10 (Suc k) n = num_digits 10 n"
    by (intro pad_digits_num_digits) auto
  then have "num_digits 10 n = n div 10 ^ Suc k # pad_digits 10 k (n mod 10 ^ Suc k)"
    by (simp only: pad_digits.simps)
  moreover have "n div 10 ^ Suc k \<noteq> 0"
    using False by (simp add: div_eq_0_iff)
  ultimately show ?thesis
    by (simp add: dec_rest_def)
qed (auto simp: dec_rest_def)

definition dec_ok :: "nat \<Rightarrow> nat \<Rightarrow> dec_state \<Rightarrow> bool" where
  "dec_ok n k = (\<lambda>(out, v, t).
     out @ map digit_char (dec_rest (t \<noteq> 0) (unat v) k) = map digit_char (num_digits 10 n) \<and>
     unat v < 10 ^ Suc k)"

lemma digit_char_dec: "d < 10 \<Longrightarrow> digit_char d = of_nat d + 48"
  by (simp add: digit_char_def)

lemma dec_ok_step:
  assumes ok: "dec_ok n (Suc k) (out, v, t)" and P: "unat P = 10 ^ Suc k"
    and v': "unat v' = unat v mod unat P"
    and t': "t' = (if v \<ge> P then of_nat (unat v div unat P) else t)"
    and out': "out' = out @ (if v \<ge> P then [of_nat (unat v div unat P) + 48] else if t \<noteq> 0 then [48] else [])"
  shows "dec_ok n k (out', v', t')"
proof -
  let ?d = "unat v div unat P"
  have v: "unat v < 10 ^ Suc (Suc k)"
    using ok by (simp add: dec_ok_def)
  then have d: "?d < 10"
    by (simp add: P less_mult_imp_div_less)
  have ge: "v \<ge> P \<longleftrightarrow> ?d \<noteq> 0"
    using P by (simp add: word_le_nat_alt div_eq_0_iff not_less)
  have nz: "(of_nat ?d :: u8) \<noteq> 0 \<longleftrightarrow> ?d \<noteq> 0"
    using d unat_eq_zero[of "of_nat ?d :: u8"]
    by (simp only: unsigned_of_nat take_bit_nat_eq_self) (simp add: take_bit_nat_eq_self)
  have "dec_rest (t \<noteq> 0) (unat v) (Suc k) = (if ?d \<noteq> 0 \<or> t \<noteq> 0 then [?d] else []) @
      dec_rest (t' \<noteq> 0) (unat v') k"
    using dec_rest_Suc[OF v, of "t \<noteq> 0"] nz by (auto simp: P t' v' ge)
  moreover have "out' = out @ map digit_char (if ?d \<noteq> 0 \<or> t \<noteq> 0 then [?d] else [])"
    using d by (simp add: out' ge digit_char_dec)
  ultimately show ?thesis
    using ok by (simp add: dec_ok_def v' P)
qed

lemma dec_stage_eq:
  assumes "0 < P"
  shows "dec_stage P (out, v, t) =
    (out @ (if v \<ge> P then [of_nat (unat v div unat P) + 48] else if t \<noteq> 0 then [48] else []),
     if v \<ge> P then v mod P else v, if v \<ge> P then of_nat (unat v div unat P) else t)"
  using assms by (simp add: dec_stage_def sub_loop_eq)

lemma dec_div_stage_eq:
  assumes "unat v < 10 * unat P"
  shows "dec_div_stage P (out, v, t) =
    (out @ (if v \<ge> P then [of_nat (unat v div unat P) + 48] else if t \<noteq> 0 then [48] else []),
     if v \<ge> P then v mod P else v, if v \<ge> P then of_nat (unat v div unat P) else t)"
proof -
  let ?t = "ucast (v div P) :: u8"
  have "unat (v div P) < 10"
    using assms by (simp add: unat_div less_mult_imp_div_less)
  then have "unat (ucast ?t :: u32) = unat (v div P)"
    by (simp add: unat_ucast_mod)
  then have "ucast ?t = v div P"
    by (rule unsigned_word_eqI)
  moreover have "?t = of_nat (unat v div unat P)"
    by (simp flip: unat_div)
  ultimately show ?thesis
    by (simp add: dec_div_stage_def Let_def minus_div_mult_eq_mod)
qed

lemma dec_ok_stage:
  assumes "dec_ok n (Suc k) (out, v, t)" "unat P = 10 ^ Suc k"
  shows "dec_ok n k
    (out @ (if v \<ge> P then [of_nat (unat v div unat P) + 48] else if t \<noteq> 0 then [48] else []),
     if v \<ge> P then v mod P else v, if v \<ge> P then of_nat (unat v div unat P) else t)"
  by (rule dec_ok_step[OF assms]) (simp_all add: unat_mod word_le_nat_alt)

lemma dec_stage_ok:
  assumes "dec_ok n (Suc k) s" "unat P = 10 ^ Suc k"
  shows "dec_ok n k (dec_stage P s)" "dec_ok n k (dec_div_stage P s)"
proof -
  obtain out v t where s: "s = (out, v, t)"
    by (cases s)
  have "0 < P" "unat v < 10 * unat P"
    using assms s by (simp_all add: word_less_nat_alt dec_ok_def)
  then show "dec_ok n k (dec_stage P s)" "dec_ok n k (dec_div_stage P s)"
    using dec_ok_stage[of n k out v t P] assms unfolding s by (simp_all only: dec_stage_eq dec_div_stage_eq)
qed

lemma uint32_text_eq: "uint32_text v = map digit_char (num_digits 10 (unat v))"
proof -
  define s where "s = dec_div_stage 10 (dec_div_stage 100 (dec_stage 1000 (dec_stage 10000
    (dec_stage 100000 (dec_stage 1000000 (dec_stage 10000000 (dec_stage 100000000
    (dec_stage 1000000000 ([], v, 0)))))))))"
  have "dec_ok (unat v) (Suc (Suc (Suc (Suc (Suc (Suc (Suc (Suc (Suc 0))))))))) ([], v, 0)"
    using unsigned_less[of v, where 'a = nat] by (simp add: dec_ok_def dec_rest_def)
  then have "dec_ok (unat v) 0 s"
    unfolding s_def by (intro dec_stage_ok) simp_all
  moreover obtain out v' t where s: "s = (out, v', t)"
    by (cases s)
  ultimately have "unat v' < 10" and out: "out @ [digit_char (unat v')] = map digit_char (num_digits 10 (unat v))"
    by (auto simp: dec_ok_def dec_rest_def num_digits_small split: if_splits)
  then have "digit_char (unat v') = ucast v' + 48"
    by (simp add: digit_char_dec)
  with out s show ?thesis
    by (simp add: uint32_text_def s_def)
qed

lemma hex4_text_eq: "hex4_text v = [digit_char (unat v mod 16)]"
proof -
  have n: "unat (v AND 0xF) = unat v mod 16"
    using unat_and_mask[of v 4] by (simp add: mask_eq_exp_minus_1)
  then have "v AND 0xF < 10 \<longleftrightarrow> unat v mod 16 < 10" "v AND 0xF = of_nat (unat v mod 16)"
    by (simp_all add: word_less_nat_alt flip: n)
  then show ?thesis
    by (simp add: hex4_text_def digit_char_def)
qed

lemma hex8_text_eq: "hex8_text v = map digit_char (pad_digits 16 1 (unat v))"
proof -
  have "unat (drop_bit 4 v) = unat v div 16"
    by (simp only: unat_drop_bit) simp
  moreover have "unat (v AND 0xF) = unat v mod 16"
    using unat_and_mask[of v 4] by (simp add: mask_eq_exp_minus_1)
  moreover have "unat v div 16 < 16"
    using unat_u8_less[of v] by (simp only: less_mult_imp_div_less)
  ultimately show ?thesis
    by (simp add: hex8_text_def hex4_text_eq)
qed

lemma hex16_text_eq: "hex16_text v = map digit_char (pad_digits 16 3 (unat v))"
proof -
  have "unat (drop_bit 8 v) = unat v div 256"
    by (simp only: unat_drop_bit) simp
  moreover have "unat (v AND 0xFF) = unat v mod 256"
    using unat_and_mask[of v 8] by (simp add: mask_eq_exp_minus_1)
  moreover have "unat v div 256 < 256"
    using unsigned_less[of v, where 'a = nat] by (simp add: less_mult_imp_div_less)
  ultimately show ?thesis
    using pad_digits_append[of 16 1 1 "unat v"]
    by (simp add: hex16_text_def hex8_text_eq unat_ucast_mod numeral_3_eq_3 del: pad_digits.simps)
qed

lemma hex32_text_eq: "hex32_text v = map digit_char (pad_digits 16 7 (unat v))"
proof -
  have "unat (drop_bit 16 v) = unat v div 65536"
    by (simp only: unat_drop_bit) simp
  moreover have "unat (v AND 0xFFFF) = unat v mod 65536"
    using unat_and_mask[of v 16] by (simp add: mask_eq_exp_minus_1)
  moreover have "unat v div 65536 < 65536"
    using unsigned_less[of v, where 'a = nat] by (simp add: less_mult_imp_div_less)
  ultimately show ?thesis
    using pad_digits_append[of 16 3 3 "unat v"]
    by (simp add: hex32_text_def hex16_text_eq unat_ucast_mod del: pad_digits.simps)
qed

lemma int32_text_eq:
  "int32_text v = (if sint v < 0 then [45] else []) @ map digit_char (num_digits 10 (nat \<bar>sint v\<bar>))"
  using unat_abs_sint[of v] by (simp add: int32_text_def word_sless_alt uint32_text_eq split: if_splits)

lemma serial_text_eq: "serial_text cs s = serial_put_all s cs"
proof (induction cs arbitrary: s)
  case (Cons c cs)
  then have "serial_text cs = (\<lambda>s. serial_put_all s cs)"
    by blast
  then show ?case
    by (simp add: serial_put_all_Cons)
qed simp

lemma num_digits_u32_length: "length (num_digits 10 (unat (v :: u32))) \<le> 10"
  using num_digits_length[of 10 "unat v" 9] unsigned_less[of v, where 'a = nat] by simp

lemma serial_text_fits:
  assumes "serial_inv s" "length (fifo_list (txfifo s)) + length cs \<le> 1023"
  shows "\<exists>s'. serial_text cs s = Some s' \<and> serial_inv s' \<and>
    fifo_list (txfifo s') = fifo_list (txfifo s) @ cs"
  using serial_put_all_contents[OF assms(1), of cs] assms(2) by (auto simp: serial_text_eq)

lemma uart_send_32_Hex_eq:
  "uart_send_32_Hex Data u = u\<lparr>sent := sent u @ map digit_char (num_digits 16 (unat Data))\<rparr>"
proof (induction Data u rule: uart_send_32_Hex.induct)
  case (1 Data u)
  have q: "unat (Data div 16) = unat Data div 16" "unat (Data mod 16) = unat Data mod 16"
    by (simp_all add: unat_div unat_mod)
  show ?case
  proof (cases "Data \<ge> 0x10")
    case True
    then have "num_digits 16 (unat Data) = num_digits 16 (unat Data div 16) @ [unat Data mod 16]"
      by (simp add: num_digits_big word_le_nat_alt)
    with True 1 q show ?thesis
      by (subst uart_send_32_Hex.simps) (simp add: num_digits_small)
  next
    case False
    then have "num_digits 16 (unat Data) = [unat Data]" "Data < 10 \<longleftrightarrow> unat Data < 10"
      by (simp_all add: num_digits_small word_le_nat_alt word_less_nat_alt)
    with False show ?thesis
      by (subst uart_send_32_Hex.simps) (simp add: UART_SendByte_def digit_char_def)
  qed
qed

lemma uart_text_ready:
  assumes "length cs \<le> length (lsr_reads u)" "\<forall>r \<in> set (lsr_reads u). r AND 0x20 \<noteq> 0"
  shows "write_all uart_send cs u =
    Some (u\<lparr>lsr_reads := drop (length cs) (lsr_reads u), sent := sent u @ cs\<rparr>)"
  using assms
proof (induction cs arbitrary: u)
  case (Cons c cs)
  then obtain r rs where "lsr_reads u = r # rs"
    by (cases "lsr_reads u") auto
  with Cons show ?case
    by (simp add: uart_send_def UART_SendByte_def)
qed simp

section \<open>Properties\<close>

text \<open>
  Decimal printing. With room for ten characters in the transmit FIFO, \<^verbatim>\<open>serwrite_uint32\<close> appends
  the shortest decimal notation of its argument: digits whose value is the number, the first of
  them not zero unless the number is zero. \<^verbatim>\<open>serwrite_int32\<close> puts a minus sign before the absolute
  value of a negative number, the smallest one included.
\<close>

theorem serwrite_decimal:
  assumes "serial_inv s" "length (fifo_list (txfifo s)) \<le> 1012"
  shows "(\<exists>s' ds. serwrite_uint32 v s = Some s' \<and> serial_inv s' \<and>
      fifo_list (txfifo s') = fifo_list (txfifo s) @ map digit_char ds \<and>
      digits_value 10 ds = unat v \<and> (\<forall>d \<in> set ds. d < 10) \<and> (v \<noteq> 0 \<longrightarrow> 0 < hd ds)) \<and>
    (\<exists>s' ds. serwrite_int32 v s = Some s' \<and> serial_inv s' \<and>
      fifo_list (txfifo s') = fifo_list (txfifo s) @ (if sint v < 0 then [45] else []) @ map digit_char ds \<and>
      int (digits_value 10 ds) = \<bar>sint v\<bar> \<and> (\<forall>d \<in> set ds. d < 10) \<and> (v \<noteq> 0 \<longrightarrow> 0 < hd ds))"
proof -
  let ?ds = "num_digits 10 (unat v)" and ?es = "num_digits 10 (nat \<bar>sint v\<bar>)"
  have fits: "length (fifo_list (txfifo s)) + length (uint32_text v) \<le> 1023"
    "length (fifo_list (txfifo s)) + length (int32_text v) \<le> 1023"
    using assms(2) num_digits_u32_length[of v] num_digits_u32_length[of "if sint v < 0 then - v else v"]
    by (auto simp: uint32_text_eq int32_text_eq unat_abs_sint)
  have nz: "v \<noteq> 0 \<longrightarrow> 0 < hd ?ds" "v \<noteq> 0 \<longrightarrow> 0 < hd ?es"
    using signed_word_eqI[of v 0] by (auto intro!: num_digits_hd simp: unat_gt_0)
  have "\<exists>s'. serwrite_uint32 v s = Some s' \<and> serial_inv s' \<and>
      fifo_list (txfifo s') = fifo_list (txfifo s) @ map digit_char ?ds"
    using serial_text_fits[OF assms(1) fits(1)] by (simp add: serwrite_uint32_def uint32_text_eq)
  moreover have "\<exists>s'. serwrite_int32 v s = Some s' \<and> serial_inv s' \<and>
      fifo_list (txfifo s') = fifo_list (txfifo s) @ (if sint v < 0 then [45] else []) @ map digit_char ?es"
    using serial_text_fits[OF assms(1) fits(2)] by (simp add: serwrite_int32_def int32_text_eq)
  moreover have "digits_value 10 ?ds = unat v \<and> (\<forall>d \<in> set ?ds. d < 10)"
    "int (digits_value 10 ?es) = \<bar>sint v\<bar> \<and> (\<forall>d \<in> set ?es. d < 10)"
    by (auto simp: digits_value_num_digits intro: num_digits_less[of 10, simplified])
  ultimately show ?thesis
    using nz by blast
qed

theorem serwrite_decimal_witness:
  "\<exists>s' ds. serwrite_int32 (- 42) usb_serial_start = Some s' \<and>
     fifo_list (txfifo s') = 45 # map digit_char ds \<and> int (digits_value 10 ds) = 42"
  using serwrite_decimal[OF usb_serial_start_inv, of "- 42"]
  by (auto simp: usb_serial_start_tx signed_take_bit_eq_if_positive sint_uint)

text \<open>
  Hexadecimal printing. \<^verbatim>\<open>serwrite_hex32\<close> writes exactly eight upper-case digits whose value is the
  argument, and \<^verbatim>\<open>serwrite_hex8\<close> two; on the debug UART \<^verbatim>\<open>uart_send_32_Hex\<close> sends the shortest notation.
\<close>

theorem serwrite_hexadecimal:
  assumes "serial_inv s" "length (fifo_list (txfifo s)) \<le> 1015"
  shows "(\<exists>s' ds. serwrite_hex32 v s = Some s' \<and> fifo_list (txfifo s') = fifo_list (txfifo s) @ map digit_char ds \<and>
      length ds = 8 \<and> digits_value 16 ds = unat v) \<and>
    (\<exists>s' ds. serwrite_hex8 b s = Some s' \<and> fifo_list (txfifo s') = fifo_list (txfifo s) @ map digit_char ds \<and>
      length ds = 2 \<and> digits_value 16 ds = unat b) \<and>
    (\<exists>ds. sent (uart_send_32_Hex b u) = sent u @ map digit_char ds \<and> digits_value 16 ds = unat b \<and>
      length ds = (if b < 16 then 1 else 2))"
proof -
  have len: "length (pad_digits r k n) = Suc k" for r k n
    by (induction k arbitrary: n) auto
  have "\<exists>s'. serwrite_hex32 v s = Some s' \<and> fifo_list (txfifo s') = fifo_list (txfifo s) @ map digit_char (pad_digits 16 7 (unat v))"
    using serial_text_fits[OF assms(1), of "hex32_text v"] assms(2) by (auto simp: serwrite_hex32_def hex32_text_eq len)
  moreover have "\<exists>s'. serwrite_hex8 b s = Some s' \<and> fifo_list (txfifo s') = fifo_list (txfifo s) @ map digit_char (pad_digits 16 1 (unat b))"
    using serial_text_fits[OF assms(1), of "hex8_text b"] assms(2)
    by (auto simp: serwrite_hex8_def hex8_text_eq len simp del: pad_digits.simps One_nat_def)
  moreover have "length (num_digits 16 (unat b)) = (if b < 16 then 1 else 2)"
  proof (cases "b < 16")
    case False
    moreover have "unat b div 16 < 16"
      using unat_u8_less[of b] by (simp only: less_mult_imp_div_less)
    ultimately show ?thesis
      by (simp add: num_digits_big num_digits_small word_less_nat_alt)
  qed (simp add: num_digits_small word_less_nat_alt)
  ultimately show ?thesis
    using len[of 16 7 "unat v"] len[of 16 1 "unat b"] digits_value_pad_digits digits_value_num_digits[of 16]
    by (simp add: uart_send_32_Hex_eq del: pad_digits.simps) (metis One_nat_def numeral_2_eq_2)
qed

theorem serwrite_hexadecimal_witness:
  "\<exists>s' ds. serwrite_hex32 0xBEEF usb_serial_start = Some s' \<and> fifo_list (txfifo s') = map digit_char ds \<and>
     length ds = 8 \<and> digits_value 16 ds = 0xBEEF"
  using serwrite_hexadecimal[OF usb_serial_start_inv, of "0xBEEF"] by (auto simp: usb_serial_start_tx)

text \<open>
  The two decimal printers agree: when the transmitter is ready at every poll, \<^verbatim>\<open>uart_uint32\<close> sends
  on the debug UART the very characters that \<^verbatim>\<open>serwrite_uint32\<close> puts into an empty USB FIFO.
\<close>

theorem uart_uint32_agrees:
  assumes "\<forall>r \<in> set (lsr_reads u). r AND 0x20 \<noteq> 0" "10 \<le> length (lsr_reads u)"
    and "serial_inv s" "fifo_list (txfifo s) = []"
  shows "\<exists>u' s'. uart_uint32 v u = Some u' \<and> serwrite_uint32 v s = Some s' \<and>
    sent u' = sent u @ fifo_list (txfifo s')"
proof -
  have "length (uint32_text v) \<le> 10"
    using num_digits_u32_length[of v] by (simp add: uint32_text_eq)
  with assms uart_text_ready[of "uint32_text v" u] serial_text_fits[of s "uint32_text v"] show ?thesis
    by (auto simp: uart_uint32_def serwrite_uint32_def)
qed

theorem uart_uint32_agrees_witness:
  "\<exists>u' s'. uart_uint32 1758 \<lparr>lsr_reads = replicate 10 0x60, sent = []\<rparr> = Some u' \<and>
     serwrite_uint32 1758 usb_serial_start = Some s' \<and> sent u' = fifo_list (txfifo s')"
  using uart_uint32_agrees[OF _ _ usb_serial_start_inv usb_serial_start_tx,
      of "\<lparr>lsr_reads = replicate 10 0x60, sent = []\<rparr>" 1758] by simp

end
