(* ===== verification/Term_IO.thy ===== *)
theory Term_IO
  imports Digits
begin

text \<open>
  The terminal layer \<^verbatim>\<open>Equinox/term_io.c\<close>: number reading (\<open>xatoi\<close>), number printing (\<open>xitoa\<close>), the
  formatter \<open>xprintf\<close>, the hexadecimal dump and the line editors. The output routines only send
  characters with \<^verbatim>\<open>comm_put\<close>, so each is modelled by the text it sends; \<open>None\<close> is an access outside
  an object, a missing or ill-typed argument, or a loop that does not end. A string is the list of
  the bytes from the pointer to the end of its object, so \<open>[]\<close> is the position behind the object.
\<close>

section \<open>Definitions\<close>

subsection \<open>xatoi\<close>

text \<open>\<open>while ((c = **str) == ' ') (*str)++;\<close>\<close>

fun skip_spaces :: "u8 list \<Rightarrow> (u8 \<times> u8 list) option" where
  "skip_spaces [] = None"
| "skip_spaces (c # cs) = (if c = 32 then skip_spaces cs else Some (c, c # cs))"

text \<open>\<open>c = *(++(*str))\<close>\<close>

fun c_next :: "u8 list \<Rightarrow> (u8 \<times> u8 list) option" where
  "c_next (_ # c # cs) = Some (c, c # cs)"
| "c_next _ = None"

text \<open>The value of a digit character, \<open>None\<close> for the early \<open>return 0\<close>.\<close>

definition xatoi_digit :: "u8 \<Rightarrow> u8 option" where
  "xatoi_digit c =
    (let c = (if c \<ge> 97 then c - 0x20 else c);
       c = c - 48
     in if c \<ge> 17 then let c = c - 7 in if c \<le> 9 then None else Some c
        else Some c)"

text \<open>
  The digit loop: \<open>Some (None, str)\<close> is \<open>return 0\<close>, \<open>Some (Some val, str)\<close> the end of the number.
\<close>

fun xatoi_loop :: "u8 \<Rightarrow> u8 list \<Rightarrow> u32 \<Rightarrow> (u32 option \<times> u8 list) option" where
  "xatoi_loop radix [] val = None"
| "xatoi_loop radix (c # cs) val =
    (if c > 32 then
       (case xatoi_digit c of
          None \<Rightarrow> Some (None, c # cs)
        | Some d \<Rightarrow>
            if d \<ge> radix then Some (None, c # cs)
            else xatoi_loop radix cs (val * ucast radix + ucast d))
     else Some (Some val, c # cs))"

definition xatoi_number :: "bool \<Rightarrow> u8 \<Rightarrow> u8 list \<Rightarrow> u32 \<Rightarrow> (bool \<times> u8 list \<times> u32) option" where
  "xatoi_number s radix str res = do {
     (r, str) \<leftarrow> xatoi_loop radix str 0;
     Some (case r of
         None \<Rightarrow> (False, str, res)
       | Some val \<Rightarrow> (True, str, if s then - val else val)) }"

definition xatoi :: "u8 list \<Rightarrow> u32 \<Rightarrow> (bool \<times> u8 list \<times> u32) option" where
  "xatoi str res = do {
     (c, str) \<leftarrow> skip_spaces str;
     (s, c, str) \<leftarrow> (if c = 45 then do { (c, str) \<leftarrow> c_next str; Some (True, c, str) }
                     else Some (False, c, str));
     if c = 48 then do {
       (c, str) \<leftarrow> c_next str;
       if c \<le> 32 then Some (True, str, 0)
       else if c = 120 then do { (c, str) \<leftarrow> c_next str; xatoi_number s 16 str res }
       else if c = 98 then do { (c, str) \<leftarrow> c_next str; xatoi_number s 2 str res }
       else if c \<ge> 48 \<and> c \<le> 57 then xatoi_number s 8 str res
       else Some (False, str, res) }
     else if c < 49 \<or> c > 57 then Some (False, str, res)
     else xatoi_number s 10 str res }"

subsection \<open>xputc, xputs, xitoa\<close>

definition xputc :: "u8 \<Rightarrow> u8 list" where
  "xputc c = (if c = 10 then [13] else []) @ [c]"

fun xputs :: "u8 list \<Rightarrow> u8 list option" where
  "xputs [] = None"
| "xputs (c # str) = (if c = 0 then Some [] else do { t \<leftarrow> xputs str; Some (xputc c @ t) })"

text \<open>
  The buffer \<open>s\<close> has 20 elements and every store is checked, so its index is a natural number at
  most 20. The radix is reduced to a \<^verbatim>\<open>uint8_t\<close>, zero makes \<open>v % r\<close> undefined.
\<close>

definition xitoa_char :: "u8 \<Rightarrow> u8" where
  "xitoa_char c = (if c \<ge> 10 then c + 7 else c) + 48"

function xitoa_digits :: "u8 \<Rightarrow> u32 \<Rightarrow> u8 list \<Rightarrow> nat \<Rightarrow> (u8 list \<times> nat) option" where
  "xitoa_digits r v s i =
    (if r = 0 then None
     else if i < length s then
       (let s = s[i := xitoa_char (ucast (v mod ucast r))]; v = v div ucast r in
        if v \<noteq> 0 then xitoa_digits r v s (i + 1) else Some (s, i + 1))
     else None)"
  by pat_completeness auto
termination
  by (relation "measure (\<lambda>(r, v, s, i). length s - i)") auto

declare xitoa_digits.simps [simp del]

fun xitoa_pad :: "u8 \<Rightarrow> nat \<Rightarrow> u8 list \<times> nat \<Rightarrow> (u8 list \<times> nat) option" where
  "xitoa_pad pad 0 (s, i) = Some (s, i)"
| "xitoa_pad pad (Suc n) (s, i) = (if i < length s then xitoa_pad pad n (s[i := pad], i + 1) else None)"

fun xitoa_emit :: "u8 list \<Rightarrow> nat \<Rightarrow> u8 list" where
  "xitoa_emit s 0 = []"
| "xitoa_emit s (Suc i) = xputc (s ! i) @ xitoa_emit s i"

definition xitoa :: "u32 \<Rightarrow> int \<Rightarrow> int \<Rightarrow> u8 list option" where
  "xitoa val radix len =
    (let (radix, val, sgn) =
           (if radix < 0 then (- radix, if val <s 0 then - val else val, if val <s 0 then 45 else 0)
            else (radix, val, 0 :: u8));
       v = val;
       r = word_of_int radix;
       (len, pad) = (if len < 0 then (- len, 48) else (len, 32))
     in if len > 20 then Some []
        else do {
          (s, i) \<leftarrow> xitoa_digits r v (replicate 20 0) 0;
          (s, i) \<leftarrow> (if sgn \<noteq> 0 then if i < length s then Some (s[i := sgn], i + 1) else None
                     else Some (s, i));
          (s, i) \<leftarrow> xitoa_pad pad (nat len - i) (s, i);
          Some (xitoa_emit s i) })"

subsection \<open>xprintf\<close>

datatype xarg = XInt u32 | XStr "u8 list"

text \<open>\<open>d = *str++\<close>\<close>

fun c_fetch :: "u8 list \<Rightarrow> (u8 \<times> u8 list) option" where
  "c_fetch [] = None"
| "c_fetch (d # str) = Some (d, str)"

fun xp_width :: "u8 \<Rightarrow> u8 list \<Rightarrow> int \<Rightarrow> (u8 \<times> u8 list \<times> int) option" where
  "xp_width d str w =
    (if d \<ge> 48 \<and> d \<le> 57 then
       (case str of [] \<Rightarrow> None | d' # str \<Rightarrow> xp_width d' str (w + (w * 10 + (uint d - 48))))
     else Some (d, str, w))"

text \<open>Flag, width and length modifier of a conversion, from the character behind the percent sign.\<close>

definition xp_spec :: "u8 list \<Rightarrow> (u8 \<times> u8 list \<times> int \<times> bool) option" where
  "xp_spec str = do {
     (d, str) \<leftarrow> c_fetch str;
     (d, str, s) \<leftarrow> (if d = 48 then do { (d, str) \<leftarrow> c_fetch str; Some (d, str, True) }
                     else Some (d, str, False));
     (d, str, w) \<leftarrow> xp_width d str 0;
     let w = (if s then - w else w);
     if d = 108 then do { (d, str) \<leftarrow> c_fetch str; Some (d, str, w, True) }
     else Some (d, str, w, False) }"

definition xp_radix :: "u8 \<Rightarrow> int" where
  "xp_radix d = (if d = 117 then 10 else if d = 100 then - 10 else if d = 88 \<or> d = 120 then 16
     else if d = 98 then 2 else 0)"

text \<open>
  \<^verbatim>\<open>long\<close> and \<^verbatim>\<open>int\<close> have the same width, so the length modifier changes nothing in the conversion.
\<close>

definition xp_conv :: "u8 \<Rightarrow> int \<Rightarrow> bool \<Rightarrow> xarg list \<Rightarrow> (u8 list \<times> xarg list) option" where
  "xp_conv d w l args =
    (case args of
       XStr p # args \<Rightarrow> if d = 115 then do { t \<leftarrow> xputs p; Some (t, args) } else None
     | XInt n # args \<Rightarrow>
         if d = 115 then None
         else if d = 99 then Some (xputc (ucast n), args)
         else do { t \<leftarrow> xitoa n (xp_radix d) w; Some (t, args) }
     | [] \<Rightarrow> None)"

lemma xp_width_shrinks: "xp_width d str w = Some (d', str', w') \<Longrightarrow> length str' \<le> length str"
  by (induction d str w rule: xp_width.induct) (auto split: if_splits list.splits simp: le_SucI)

declare xp_width.simps [simp del]

lemma c_fetch_eq_Some [simp]: "c_fetch str = Some (d, str') \<longleftrightarrow> str = d # str'"
  by (cases str) auto

lemma xp_spec_shrinks: "xp_spec str = Some (d, str', w, l) \<Longrightarrow> length str' < length str"
  by (auto simp: xp_spec_def bind_eq_Some_conv Let_def split: if_splits dest!: xp_width_shrinks)

function xprintf :: "u8 list \<Rightarrow> xarg list \<Rightarrow> u8 list option" where
  "xprintf str args =
    (case str of
       [] \<Rightarrow> None
     | d # str \<Rightarrow>
         if d = 0 then Some []
         else if d \<noteq> 37 then do { t \<leftarrow> xprintf str args; Some (xputc d @ t) }
         else (case xp_spec str of
             None \<Rightarrow> None
           | Some (d, str, w, l) \<Rightarrow>
               if d = 0 then Some []
               else if d \<noteq> 115 \<and> d \<noteq> 99 \<and> xp_radix d = 0 then Some []
               else (case xp_conv d w l args of
                   None \<Rightarrow> None
                 | Some (c, args) \<Rightarrow> do { t \<leftarrow> xprintf str args; Some (c @ t) })))"
  by pat_completeness auto
termination
  by (relation "measure (length \<circ> fst)") (auto dest!: xp_spec_shrinks)

declare xprintf.simps [simp del]

subsection \<open>put_dump\<close>

text \<open>The counter \<open>n\<close> of the two loops is a \<^verbatim>\<open>uint8_t\<close>, the bound \<open>cnt\<close> an \<^verbatim>\<open>int\<close>.\<close>

partial_function (option) put_dump_loop ::
    "(u8 \<Rightarrow> u8 list option) \<Rightarrow> u8 list \<Rightarrow> int \<Rightarrow> u8 \<Rightarrow> u8 list \<Rightarrow> u8 list option" where
  "put_dump_loop f buff cnt n out =
    (if uint n < cnt then
       Option.bind (c_read buff (uint n)) (\<lambda>b.
       Option.bind (f b) (\<lambda>t. put_dump_loop f buff cnt (n + 1) (out @ t)))
     else Some out)"

definition dump_hex :: "u8 \<Rightarrow> u8 list option" where
  "dump_hex b = xprintf [32, 37, 48, 50, 88, 0] [XInt (ucast b)]"

definition dump_char :: "u8 \<Rightarrow> u8 list option" where
  "dump_char b = Some (if b < 0x20 \<or> b \<ge> 0x7F then xputc 46 else xputc b)"

definition put_dump :: "u8 list \<Rightarrow> u32 \<Rightarrow> int \<Rightarrow> u8 list option" where
  "put_dump buff ofs cnt = do {
     out \<leftarrow> xprintf [37, 48, 56, 108, 88, 32, 0] [XInt ofs];
     out \<leftarrow> put_dump_loop dump_hex buff cnt 0 out;
     let out = out @ xputc 32;
     out \<leftarrow> put_dump_loop dump_char buff cnt 0 out;
     Some (out @ xputc 10) }"

subsection \<open>Line editing\<close>

text \<open>
  The input is the list of the characters that \<^verbatim>\<open>xgetc\<close> returns; the result is the text sent, the
  buffer and, for \<^verbatim>\<open>get_line_r\<close>, the return value and the index.
\<close>

definition line_key :: "u8 \<Rightarrow> int \<Rightarrow> u8 list \<times> int \<Rightarrow> (u8 list \<times> u8 list \<times> int) option" where
  "line_key c len = (\<lambda>(buff, idx). do {
     let (echo, idx) = (if c = 8 \<and> idx \<noteq> 0 then (xputc c @ xputc 32 @ xputc c, idx - 1) else ([], idx));
     if c \<ge> 32 \<and> idx < len - 1 then do {
       buff \<leftarrow> c_write buff idx c;
       Some (echo @ xputc c, buff, idx + 1) }
     else Some (echo, buff, idx) })"

fun get_line_loop :: "u8 list \<Rightarrow> int \<Rightarrow> u8 list \<times> int \<Rightarrow> u8 list \<Rightarrow> (u8 list \<times> u8 list \<times> int) option" where
  "get_line_loop [] len st out = None"
| "get_line_loop (c # cs) len st out =
    (if c = 13 \<or> c = 10 then Some (out, st)
     else do { (echo, st) \<leftarrow> line_key c len st; get_line_loop cs len st (out @ echo) })"

definition get_line :: "u8 list \<Rightarrow> u8 list \<Rightarrow> int \<Rightarrow> (u8 list \<times> u8 list) option" where
  "get_line input buff len = do {
     out \<leftarrow> xprintf [37, 115, 123, 10, 0] [XStr [103, 101, 116, 95, 108, 105, 110, 101, 0]];
     (out, buff, idx) \<leftarrow> get_line_loop input len (buff, 0) out;
     buff \<leftarrow> c_write buff idx 0;
     Some (out @ xputc 10, buff) }"

definition get_line_r :: "u8 option \<Rightarrow> u8 list \<Rightarrow> int \<Rightarrow> int \<Rightarrow> (int \<times> u8 list \<times> u8 list \<times> int) option" where
  "get_line_r avail buff len idx =
    (case avail of
       None \<Rightarrow> Some (0, [], buff, idx)
     | Some c \<Rightarrow>
         if c = 13 then do { buff \<leftarrow> c_write buff idx 0; Some (1, xputc 10, buff, idx) }
         else do { (echo, buff, idx) \<leftarrow> line_key c len (buff, idx); Some (0, echo, buff, idx) })"

section \<open>Number printing\<close>

lemma xputc_printable [simp]: "c \<noteq> 10 \<Longrightarrow> xputc c = [c]"
  by (simp add: xputc_def)

lemma digit_char_not_newline: "d < 16 \<Longrightarrow> digit_char d \<noteq> 10"
  using unat_digit_char[of d] by (auto split: if_splits)

lemma xitoa_char_eq:
  assumes "unat c < 16"
  shows "xitoa_char c = digit_char (unat c)"
  using assms by (simp add: xitoa_char_def digit_char_def word_le_nat_alt)

lemma xitoa_digit_step:
  assumes r: "2 \<le> unat (r :: u8)" "unat r \<le> 16"
  shows "xitoa_char (ucast ((v :: u32) mod ucast r)) = digit_char (unat v mod unat r)"
    "unat (v div ucast r) = unat v div unat r"
proof -
  have u: "unat (ucast r :: u32) = unat r"
    by (simp add: unat_ucast_mod mod_less[OF less_trans[OF unat_u8_less]])
  then have m: "unat (v mod ucast r) = unat v mod unat r"
    by (simp add: unat_mod)
  moreover have "unat v mod unat r < 16"
    using r by (intro less_le_trans[OF mod_less_divisor]) auto
  ultimately have "unat (ucast (v mod ucast r) :: u8) = unat v mod unat r"
    by (simp add: unat_ucast_mod)
  with \<open>unat v mod unat r < 16\<close> show "xitoa_char (ucast (v mod ucast r)) = digit_char (unat v mod unat r)"
    by (simp add: xitoa_char_eq)
  show "unat (v div ucast r) = unat v div unat r"
    using u by (simp add: unat_div)
qed

lemma take_upd_snoc: "i < length s \<Longrightarrow> take (Suc i) (s[i := x]) = take i s @ [x]"
  by (simp add: take_Suc_conv_app_nth)

lemma xitoa_digits_eq:
  assumes "2 \<le> unat r" "unat r \<le> 16"
  shows "if i + length (num_digits (unat r) (unat v)) \<le> length s
    then \<exists>s'. xitoa_digits r v s i = Some (s', i + length (num_digits (unat r) (unat v))) \<and>
      length s' = length s \<and>
      take (i + length (num_digits (unat r) (unat v))) s' =
        take i s @ rev (map digit_char (num_digits (unat r) (unat v)))
    else xitoa_digits r v s i = None"
  using assms
proof (induction r v s i rule: xitoa_digits.induct)
  case (1 r v s i)
  note step = xitoa_digit_step[OF 1(2,3), of v]
  have r0: "r \<noteq> 0"
    using 1(2) by auto
  let ?s = "s[i := xitoa_char (ucast (v mod ucast r))]"
  show ?case
  proof (cases "i < length s")
    case False
    moreover have "0 < length (num_digits (unat r) (unat v))"
      by simp
    ultimately show ?thesis
      by (simp add: xitoa_digits.simps[of r v s i] del: length_greater_0_conv)
  next
    case i: True
    show ?thesis
    proof (cases "v div ucast r = 0")
      case True
      then have "unat v < unat r"
        using step(2) 1(2) by (simp add: div_eq_0_iff)
      with True i r0 step(1) show ?thesis
        by (simp add: xitoa_digits.simps[of r v s i] num_digits_small take_upd_snoc)
    next
      case False
      then have "unat v div unat r \<noteq> 0"
        using step(2) by (metis unat_eq_zero)
      then have "num_digits (unat r) (unat v) = num_digits (unat r) (unat v div unat r) @ [unat v mod unat r]"
        using 1(2) by (intro num_digits_big) (auto simp: div_eq_0_iff)
      moreover have "xitoa_digits r v s i = xitoa_digits r (v div ucast r) ?s (i + 1)"
        using False i r0 by (simp add: xitoa_digits.simps[of r v s i])
      ultimately show ?thesis
        using 1(1)[OF r0 i refl refl False 1(2,3)] i step
        by (simp add: take_upd_snoc split: if_splits)
    qed
  qed
qed

lemma xitoa_pad_eq:
  "i + n \<le> length s \<Longrightarrow> \<exists>s'. xitoa_pad pad n (s, i) = Some (s', i + n) \<and> length s' = length s \<and>
     take (i + n) s' = take i s @ replicate n pad"
proof (induction n arbitrary: s i)
  case (Suc n)
  then have "\<exists>s'. xitoa_pad pad n (s[i := pad], Suc i) = Some (s', Suc i + n) \<and> length s' = length s \<and>
      take (Suc i + n) s' = take (Suc i) (s[i := pad]) @ replicate n pad"
    using Suc.IH[of "Suc i" "s[i := pad]"] by simp
  with Suc.prems show ?case
    by (simp add: take_upd_snoc)
qed simp

lemma xitoa_emit_eq: "i \<le> length s \<Longrightarrow> xitoa_emit s i = concat (map xputc (rev (take i s)))"
  by (induction i) (auto simp: take_Suc_conv_app_nth)

lemma concat_xputc: "10 \<notin> set cs \<Longrightarrow> concat (map xputc cs) = cs"
  by (induction cs) auto

text \<open>The text of a number: padding, sign, digits.\<close>

definition number_text :: "u32 \<Rightarrow> int \<Rightarrow> int \<Rightarrow> u8 list" where
  "number_text val radix len =
    (let n = (if radix < 0 then nat \<bar>sint val\<bar> else unat val);
       body = (if radix < 0 \<and> sint val < 0 then [45] else []) @ map digit_char (num_digits (nat \<bar>radix\<bar>) n)
     in replicate (nat \<bar>len\<bar> - length body) (if len < 0 then 48 else 32) @ body)"

lemma xitoa_eq:
  fixes val :: u32 and radix len :: int
  defines "n \<equiv> if radix < 0 then nat \<bar>sint val\<bar> else unat val"
    and "neg \<equiv> radix < 0 \<and> sint val < 0"
  assumes r: "2 \<le> \<bar>radix\<bar>" "\<bar>radix\<bar> \<le> 16" and len: "\<bar>len\<bar> \<le> 20"
  shows "if length (num_digits (nat \<bar>radix\<bar>) n) + (if neg then 1 else 0) \<le> 20
    then xitoa val radix len = Some (number_text val radix len)
    else xitoa val radix len = None"
proof -
  let ?rr = "word_of_int \<bar>radix\<bar> :: u8" and ?v = "if neg then - val else val"
    and ?pad = "if len < 0 then 48 else 32 :: u8" and ?len = "nat \<bar>len\<bar>"
  let ?ds = "num_digits (nat \<bar>radix\<bar>) n"
  have rr: "unat ?rr = nat \<bar>radix\<bar>"
    using r by (simp add: unsigned_of_int take_bit_int_eq_self)
  have v: "unat ?v = n"
    using unat_abs_sint[of val] by (simp add: neg_def n_def split: if_splits)
  have ds: "10 \<notin> set (map digit_char ?ds)"
    using r digit_char_not_newline num_digits_less[of "nat \<bar>radix\<bar>"] by fastforce
  have unfold: "xitoa val radix len = do {
      (s, i) \<leftarrow> xitoa_digits ?rr ?v (replicate 20 0) 0;
      (s, i) \<leftarrow> (if neg then if i < length s then Some (s[i := 45], i + 1) else None else Some (s, i));
      (s, i) \<leftarrow> xitoa_pad ?pad (?len - i) (s, i);
      Some (xitoa_emit s i) }"
    using len by (auto simp: xitoa_def neg_def word_sless_alt Let_def split: prod.splits
        intro!: Option.bind_cong)
  note digits = xitoa_digits_eq[of ?rr 0 ?v "replicate 20 0", unfolded rr v]
  have "2 \<le> nat \<bar>radix\<bar>" "nat \<bar>radix\<bar> \<le> 16"
    using r by auto
  note digits = digits[OF this]
  show ?thesis
  proof (cases "length ?ds \<le> 20")
    case False
    with digits r show ?thesis
      by (simp add: unfold)
  next
    case True
    with digits r obtain s where s: "xitoa_digits ?rr ?v (replicate 20 0) 0 = Some (s, length ?ds)"
      "length s = 20" "take (length ?ds) s = rev (map digit_char ?ds)"
      by (auto split: if_splits)
    show ?thesis
    proof (cases "neg \<and> length ?ds = 20")
      case True
      with s show ?thesis
        by (simp add: unfold)
    next
      case False
      define s1 where "s1 = (if neg then s[length ?ds := 45] else s)"
      define i1 where "i1 = length ?ds + (if neg then 1 else 0)"
      let ?text = "replicate (?len - i1) ?pad @ (if neg then [45] else []) @ map digit_char ?ds"
      have s1: "length s1 = 20" "i1 \<le> 20"
        "take i1 s1 = rev (map digit_char ?ds) @ (if neg then [45] else [])"
        using False \<open>length ?ds \<le> 20\<close> s(2,3) by (auto simp: s1_def i1_def take_upd_snoc)
      have "i1 + (?len - i1) \<le> length s1"
        using s1 len by simp
      from xitoa_pad_eq[OF this, of ?pad] s1(1) obtain s2 where
        s2: "xitoa_pad ?pad (?len - i1) (s1, i1) = Some (s2, i1 + (?len - i1))" "length s2 = 20"
        "take (i1 + (?len - i1)) s2 = take i1 s1 @ replicate (?len - i1) ?pad"
        by auto
      have "xitoa val radix len = Some (xitoa_emit s2 (i1 + (?len - i1)))"
        using s(1,2) s2(1) False \<open>length ?ds \<le> 20\<close>
        by (auto simp: unfold s1_def i1_def)
      also have "xitoa_emit s2 (i1 + (?len - i1)) = concat (map xputc (rev (take (i1 + (?len - i1)) s2)))"
        using s2(2) s1 \<open>i1 + (?len - i1) \<le> length s1\<close> by (intro xitoa_emit_eq) simp
      also have "rev (take (i1 + (?len - i1)) s2) = ?text"
        unfolding s2(3) s1(3) by simp
      also have "concat (map xputc ?text) = ?text"
        using ds by (intro concat_xputc) auto
      also have "?text = number_text val radix len"
        by (simp add: number_text_def Let_def i1_def neg_def flip: n_def)
      finally show ?thesis
        using False \<open>length ?ds \<le> 20\<close> by auto
    qed
  qed
qed

section \<open>Number reading\<close>

lemma xatoi_digit_char:
  assumes "d < 16"
  shows "xatoi_digit (digit_char d) = Some (of_nat d)" "digit_char d > 32"
proof -
  have "list_all (\<lambda>d. xatoi_digit (digit_char d) = Some (of_nat d) \<and> digit_char d > 32) [0..<16]"
    by code_simp
  with assms show "xatoi_digit (digit_char d) = Some (of_nat d)" "digit_char d > 32"
    by (simp_all add: list_all_iff)
qed

lemma foldl_of_nat:
  "foldl (\<lambda>a d. a * of_nat r + of_nat d) (of_nat a :: u32) ds = of_nat (foldl (\<lambda>a d. a * r + d) a ds)"
proof (induction ds arbitrary: a)
  case (Cons d ds)
  then show ?case
    using Cons[of "a * r + d"] by simp
qed simp

lemma ucast_of_nat_small: "unat (of_nat d :: u8) = d \<Longrightarrow> ucast (of_nat d :: u8) = (of_nat d :: u32)"
  by (metis of_nat_unat)

lemma xatoi_loop_digits:
  assumes "\<forall>d \<in> set ds. d < r" "r \<le> 16" "t \<le> 32"
  shows "xatoi_loop (of_nat r) (map digit_char ds @ t # rest) val =
    Some (Some (foldl (\<lambda>a d. a * of_nat r + of_nat d) val ds), t # rest)"
  using assms(1)
proof (induction ds arbitrary: val)
  case Nil
  from assms(3) have "\<not> t > 32"
    by (simp add: not_less)
  then show ?case by simp
next
  case (Cons d ds)
  then have d: "d < 16" "d < r"
    using assms(2) by auto
  then have "unat (of_nat d :: u8) = d" "unat (of_nat r :: u8) = r"
    using assms(2) by (simp_all add: unsigned_of_nat take_bit_nat_eq_self)
  then have "\<not> (of_nat r :: u8) \<le> of_nat d"
    using d by (simp add: word_le_nat_alt)
  moreover have "ucast (of_nat d :: u8) = (of_nat d :: u32)" "ucast (of_nat r :: u8) = (of_nat r :: u32)"
    using \<open>unat (of_nat d :: u8) = d\<close> \<open>unat (of_nat r :: u8) = r\<close> by (simp_all add: ucast_of_nat_small)
  ultimately show ?case
    using Cons xatoi_digit_char[OF d(1)] by simp
qed

lemma xatoi_number_digits:
  assumes "2 \<le> r" "r \<le> 16" "t \<le> 32"
  shows "xatoi_number s (of_nat r) (map digit_char (num_digits r (unat v)) @ t # rest) res =
    Some (True, t # rest, if s then - v else v)"
proof -
  have "\<forall>d \<in> set (num_digits r (unat v)). d < r"
    using assms(1) by (auto intro: num_digits_less)
  from xatoi_loop_digits[OF this assms(2,3), of rest 0] show ?thesis
    using foldl_of_nat[of r 0 "num_digits r (unat v)"] digits_value_num_digits[OF assms(1), of "unat v"]
    by (simp add: xatoi_number_def digits_value_def)
qed

lemma xatoi_decimal:
  assumes "t \<le> 32" "v \<noteq> 0"
  shows "xatoi ((if s then [45] else []) @ map digit_char (num_digits 10 (unat v)) @ t # rest) res =
    Some (True, t # rest, if s then - v else v)"
proof -
  let ?ds = "num_digits 10 (unat v)"
  obtain d ds where ds: "?ds = d # ds"
    by (cases ?ds) auto
  have "0 < d" "d < 10"
    using num_digits_hd[of 10 "unat v"] num_digits_less[of 10 d "unat v"] assms(2) ds by (auto simp: unat_gt_0)
  moreover have "list_all (\<lambda>d. digit_char d \<noteq> 32 \<and> digit_char d \<noteq> 45 \<and> digit_char d \<noteq> 48 \<and>
      \<not> digit_char d < 49 \<and> \<not> digit_char d > 57) [1..<10]"
    by code_simp
  ultimately have "digit_char d \<noteq> 32" "digit_char d \<noteq> 45" "digit_char d \<noteq> 48" "\<not> digit_char d < 49"
    "\<not> digit_char d > 57"
    by (simp_all add: list_all_iff)
  then show ?thesis
    using xatoi_number_digits[of 10 t s v rest res] assms(1) ds by (cases s) (simp_all add: xatoi_def)
qed

section \<open>Formatted output\<close>

lemma xp_width_digits:
  assumes "\<not> (d \<ge> 48 \<and> d \<le> 57)" "\<forall>x \<in> set ds. x < 10"
  shows "map digit_char ds @ d # rest = c # str \<Longrightarrow>
    xp_width c str w = Some (d, rest, foldl (\<lambda>w x. w * 11 + int x) w ds)"
  using assms(2)
proof (induction ds arbitrary: c str w)
  case Nil
  with assms(1) show ?case
    by (auto simp: xp_width.simps)
next
  case (Cons x ds)
  then obtain c' str' where c': "str = c' # str'"
    by (cases str) auto
  have "x < 10" and c: "c = digit_char x"
    using Cons.prems by auto
  then have u: "uint c = 48 + int x" "c \<ge> 48" "c \<le> 57"
    using unat_digit_char[of x] by (simp_all add: uint_nat word_le_nat_alt)
  have "xp_width c str w = xp_width c' str' (w * 11 + int x)"
    using u by (subst xp_width.simps) (simp add: c' algebra_simps)
  with Cons.IH[of c' str' "w * 11 + int x"] Cons.prems c' show ?case
    by simp
qed

lemma foldl_int_digits_value: "foldl (\<lambda>w x. w * int r + int x) (int a) ds = int (foldl (\<lambda>a d. a * r + d) a ds)"
proof (induction ds arbitrary: a)
  case (Cons d ds)
  then show ?case
    using Cons[of "a * r + d"] by simp
qed simp

text \<open>
  A format as a sequence of items: a literal character, or a conversion with its flag, a width of
  at most one digit, length modifier, conversion character and argument.
\<close>

datatype ftok = Lit u8 | Conv bool nat bool u8 xarg

fun tok_fmt :: "ftok \<Rightarrow> u8 list" where
  "tok_fmt (Lit c) = [c]"
| "tok_fmt (Conv z w l d a) = [37] @ (if z then [48] else []) @ (if w = 0 then [] else [digit_char w]) @
     (if l then [108] else []) @ [d]"

fun tok_args :: "ftok \<Rightarrow> xarg list" where
  "tok_args (Lit c) = []"
| "tok_args (Conv z w l d a) = [a]"

fun tok_wf :: "ftok \<Rightarrow> bool" where
  "tok_wf (Lit c) \<longleftrightarrow> c \<noteq> 0 \<and> c \<noteq> 37"
| "tok_wf (Conv z w l d (XInt n)) \<longleftrightarrow> w \<le> 9 \<and>
     (d \<in> {99, 117, 100, 88, 120} \<or> d = 98 \<and> unat n < 2 ^ 20)"
| "tok_wf (Conv z w l d (XStr p)) \<longleftrightarrow> w \<le> 9 \<and> d = 115 \<and> 0 \<in> set p"

fun tok_text :: "ftok \<Rightarrow> u8 list" where
  "tok_text (Lit c) = xputc c"
| "tok_text (Conv z w l d (XInt n)) =
     (if d = 99 then xputc (ucast n) else number_text n (xp_radix d) (if z then - int w else int w))"
| "tok_text (Conv z w l d (XStr p)) = concat (map xputc (takeWhile (\<lambda>c. c \<noteq> 0) p))"

lemma xputs_eq: "0 \<in> set p \<Longrightarrow> xputs p = Some (concat (map xputc (takeWhile (\<lambda>c. c \<noteq> 0) p)))"
  by (induction p) auto

lemma xp_spec_conv:
  assumes "w \<le> 9" "\<not> (d \<ge> 48 \<and> d \<le> 57)" "d \<noteq> 108"
  shows "xp_spec ((if z then [48] else []) @ (if w = 0 then [] else [digit_char w]) @
    (if l then [108] else []) @ d # rest) = Some (d, rest, if z then - int w else int w, l)"
proof -
  let ?e = "if l then 108 else d" and ?r = "if l then d # rest else rest"
  have e: "\<not> (?e \<ge> 48 \<and> ?e \<le> 57)"
    using assms by simp
  obtain c str where c: "map digit_char (if w = 0 then [] else [w]) @ ?e # ?r = c # str"
    by (cases "w = 0") auto
  from xp_width_digits[OF e _ c, of 0] assms(1) have w: "xp_width c str 0 = Some (?e, ?r, int w)"
    by (simp split: if_splits)
  have "(if w = 0 then [] else [digit_char w]) @ (if l then [108] else []) @ d # rest = c # str"
    using c by (simp split: if_splits)
  moreover have "c \<noteq> 48"
  proof (cases "w = 0")
    case True
    with c e show ?thesis by auto
  next
    case False
    with c digit_char_inj[of w 0] assms(1) show ?thesis
      by (auto simp: digit_char_def)
  qed
  ultimately show ?thesis
    using w assms(3) by (simp add: xp_spec_def Let_def)
qed

lemma u32_digits_fit: "length (num_digits 10 (unat (v :: u32))) \<le> 10" "length (num_digits 16 (unat v)) \<le> 8"
  using num_digits_length[of 10 "unat v" 9] num_digits_length[of 16 "unat v" 7]
    unsigned_less[of v, where 'a = nat] by simp_all

lemma xitoa_fits:
  assumes "radix = 10 \<or> radix = - 10 \<or> radix = 16 \<or> radix = 2 \<and> unat val < 2 ^ 20" "\<bar>len\<bar> \<le> 20"
  shows "xitoa val radix len = Some (number_text val radix len)"
  using assms xitoa_eq[of radix len val] u32_digits_fit[of val] num_digits_length[of 2 "unat val" 19]
    u32_digits_fit[of "if sint val < 0 then - val else val"]
  by (auto simp: unat_abs_sint split: if_splits)

lemma xprintf_tok:
  assumes "tok_wf k"
  shows "xprintf (tok_fmt k @ str) (tok_args k @ args) =
    Option.bind (xprintf str args) (\<lambda>t. Some (tok_text k @ t))"
proof (cases k)
  case (Lit c)
  with assms show ?thesis
    by (simp add: xprintf.simps[of "c # str"])
next
  case (Conv z w l d a)
  then have "w \<le> 9" and d: "d \<in> {99, 117, 100, 88, 120, 98, 115}"
    using assms by (cases a; auto)+
  with xp_spec_conv[of w d z l str] Conv
  have fmt: "xprintf (tok_fmt k @ str) (tok_args k @ args) =
      (case xp_conv d (if z then - int w else int w) l (a # args) of
         None \<Rightarrow> None | Some (c, args) \<Rightarrow> do { t \<leftarrow> xprintf str args; Some (c @ t) })"
    by (subst xprintf.simps) (auto simp: xp_radix_def)
  have "xp_conv d (if z then - int w else int w) l (a # args) = Some (tok_text k, args)"
    using assms Conv \<open>w \<le> 9\<close>
    by (cases a) (auto simp: xp_conv_def xputs_eq xp_radix_def xitoa_fits)
  then show ?thesis
    by (simp add: fmt)
qed

lemma xprintf_toks:
  "list_all tok_wf ks \<Longrightarrow> xprintf (concat (map tok_fmt ks) @ [0]) (concat (map tok_args ks)) =
    Some (concat (map tok_text ks))"
proof (induction ks)
  case Nil
  then show ?case by (simp add: xprintf.simps[of "[0]"])
next
  case (Cons k ks)
  then show ?case by (simp add: xprintf_tok)
qed

section \<open>Dump and line editing\<close>

lemma put_dump_loop_eq:
  assumes "\<And>b. f b = Some (g b)" "unat n \<le> nat cnt" "cnt \<le> 255" "cnt \<le> int (length buff)"
  shows "put_dump_loop f buff cnt n out =
    Some (out @ concat (map g (take (nat cnt - unat n) (drop (unat n) buff))))"
  using assms(2)
proof (induction "nat cnt - unat n" arbitrary: n out)
  case 0
  then have "\<not> uint n < cnt"
    using uint_less_nat[of n "nat cnt"] by (auto simp: nat_le_iff)
  with 0 show ?case
    by (subst put_dump_loop.simps) simp
next
  case (Suc k)
  then have n: "unat n < nat cnt" "unat n < length buff" "unat n < 255"
    using assms(3,4) by auto
  then have n1: "unat (n + 1) = Suc (unat n)"
    by (subst unat_add_small) auto
  have lt: "uint n < cnt"
    using uint_less_nat[of n "nat cnt"] n(1) by (simp split: if_splits)
  have k: "k = nat cnt - Suc (unat n)"
    using Suc.hyps(2) by simp
  have "put_dump_loop f buff cnt (n + 1) (out @ g (buff ! unat n)) =
      Some ((out @ g (buff ! unat n)) @ concat (map g (take k (drop (Suc (unat n)) buff))))"
    using Suc.hyps(1)[of "n + 1" "out @ g (buff ! unat n)"] k n n1 by simp
  moreover have "take (Suc k) (drop (unat n) buff) = buff ! unat n # take k (drop (Suc (unat n)) buff)"
    using n by (simp add: Cons_nth_drop_Suc[symmetric])
  ultimately show ?case
    using n Suc.hyps(2)[symmetric] assms(1)
    by (subst put_dump_loop.simps) (simp add: c_read_word lt)
qed

lemma dump_hex_eq: "dump_hex b = Some (32 # number_text (ucast b) 16 (- 2))"
  using xprintf_toks[of "[Lit 32, Conv True 2 False 88 (XInt (ucast b))]"]
  by (simp add: dump_hex_def digit_char_def xp_radix_def)

text \<open>What one key does to the text of the line.\<close>

definition line_edit :: "int \<Rightarrow> u8 list \<Rightarrow> u8 \<Rightarrow> u8 list" where
  "line_edit len l c =
    (let l = (if c = 8 then butlast l else l) in if c \<ge> 32 \<and> int (length l) < len - 1 then l @ [c] else l)"

lemma line_key_edit:
  assumes "int (length l) \<le> len - 1" "len \<le> int (length buff)" "take (length l) buff = l"
  shows "\<exists>echo buff'. line_key c len (buff, int (length l)) =
      Some (echo, buff', int (length (line_edit len l c))) \<and> length buff' = length buff \<and>
    take (length (line_edit len l c)) buff' = line_edit len l c \<and>
    drop (length l + 1) buff' = drop (length l + 1) buff \<and> int (length (line_edit len l c)) \<le> len - 1"
proof -
  have len: "length l < length buff"
    using assms(1,2) by simp
  consider (bs) "c = 8" "l \<noteq> []" | (key) "c \<ge> 32" "int (length l) < len - 1" "\<not> (c = 8 \<and> l \<noteq> [])"
    | (other) "\<not> (c \<ge> 32 \<and> int (length l) < len - 1)" "\<not> (c = 8 \<and> l \<noteq> [])"
    by blast
  then show ?thesis
  proof cases
    case bs
    have "take (length l - 1) buff = butlast l"
      using assms(3) by (metis butlast_take len less_imp_le)
    with bs assms show ?thesis
      by (cases l) (simp_all add: line_key_def line_edit_def Let_def)
  next
    case key
    then show ?thesis
      using len assms by (auto simp: line_key_def line_edit_def Let_def take_upd_snoc)
  next
    case other
    then show ?thesis
      using assms by (auto simp: line_key_def line_edit_def Let_def)
  qed
qed

lemma get_line_loop_edit:
  assumes "\<forall>c \<in> set cs. c \<noteq> 13 \<and> c \<noteq> 10" "e = 13 \<or> e = 10"
    and "int (length l) \<le> len - 1" "len \<le> int (length buff)" "take (length l) buff = l"
  shows "\<exists>out' buff'. get_line_loop (cs @ e # rest) len (buff, int (length l)) out =
      Some (out', buff', int (length (foldl (line_edit len) l cs))) \<and> length buff' = length buff \<and>
    take (length (foldl (line_edit len) l cs)) buff' = foldl (line_edit len) l cs \<and>
    int (length (foldl (line_edit len) l cs)) \<le> len - 1"
  using assms
proof (induction cs arbitrary: buff l out)
  case Nil
  then show ?case by auto
next
  case (Cons c cs)
  from line_key_edit[OF Cons.prems(3-5), of c] obtain echo buff' where
    k: "line_key c len (buff, int (length l)) = Some (echo, buff', int (length (line_edit len l c)))"
    "length buff' = length buff" "take (length (line_edit len l c)) buff' = line_edit len l c"
    "int (length (line_edit len l c)) \<le> len - 1"
    by blast
  with Cons.IH[of "line_edit len l c" buff' "out @ echo"] Cons.prems show ?case
    by simp
qed

section \<open>Properties\<close>

text \<open>
  C22: Formatted output. For a format of literal characters and conversions \<^verbatim>\<open>%c %s %d %u %x %X\<close>, and \<^verbatim>\<open>%b\<close>
  of numbers below \<open>2 ^ 20\<close>, each with an optional zero flag, a width of at most one digit and the modifier \<^verbatim>\<open>l\<close>, and arguments of the
  right types, \<^verbatim>\<open>xprintf\<close> sends the concatenation of the texts of the items: numbers in the shortest
  notation of their radix behind their padding, strings up to their NUL, a carriage return before
  every newline. It stays inside the 20-byte buffer of \<^verbatim>\<open>xitoa\<close> and inside its strings.
\<close>

theorem xprintf_formats:
  assumes "list_all tok_wf ks"
  shows "xprintf (concat (map tok_fmt ks) @ [0]) (concat (map tok_args ks)) = Some (concat (map tok_text ks))"
  using assms by (rule xprintf_toks)

theorem xprintf_formats_witness:
  "xprintf [84, 61, 37, 48, 50, 100, 37, 115, 10, 0] [XInt 7, XStr [67, 0]] = Some [84, 61, 48, 55, 67, 13, 10]"
proof -
  have 7: "num_digits 10 7 = [7]"
    by (simp add: num_digits_small)
  show ?thesis
    using xprintf_formats[of "[Lit 84, Lit 61, Conv True 2 False 100 (XInt 7), Conv False 0 False 115 (XStr [67, 0]), Lit 10]"]
    by (simp add: digit_char_def number_text_def xp_radix_def 7 xputc_def)
qed

text \<open>
  C4: Reading inverts printing, for the two formats that carry their radix with them. \<^verbatim>\<open>xatoi\<close> reads back every 32-bit
  number that \<^verbatim>\<open>xprintf("%d")\<close> printed, without a width and with its sign, and every number that
  \<^verbatim>\<open>xprintf("0x%X")\<close> printed, and stops at the terminating NUL. (Decimal digits behind a zero flag, as of \<^verbatim>\<open>%02d\<close>,
  would be read as octal, and hexadecimal digits without the prefix as decimal.)
\<close>

theorem xatoi_reads_xitoa:
  fixes v res :: u32
  shows "\<exists>dec hex. xprintf [37, 100, 0] [XInt v] = Some dec \<and> xatoi (dec @ [0]) res = Some (True, [0], v) \<and>
    xprintf [48, 120, 37, 88, 0] [XInt v] = Some hex \<and> xatoi (hex @ [0]) res = Some (True, [0], v)"
proof -
  let ?dec = "number_text v (- 10) 0" and ?hex = "48 # 120 # number_text v 16 0"
  have "xprintf [37, 100, 0] [XInt v] = Some ?dec" "xprintf [48, 120, 37, 88, 0] [XInt v] = Some ?hex"
    using xprintf_toks[of "[Conv False 0 False 100 (XInt v)]"]
      xprintf_toks[of "[Lit 48, Lit 120, Conv False 0 False 88 (XInt v)]"]
    by (simp_all add: xp_radix_def)
  moreover have "xatoi (?dec @ [0]) res = Some (True, [0], v)"
  proof (cases "v = 0")
    case True
    then show ?thesis
      by (simp add: number_text_def num_digits_small digit_char_def xatoi_def)
  next
    case False
    let ?a = "if sint v < 0 then - v else v"
    have "?dec = (if sint v < 0 then [45] else []) @ map digit_char (num_digits 10 (unat ?a))"
      unfolding unat_abs_sint by (simp add: number_text_def)
    with xatoi_decimal[of 0 ?a "sint v < 0" "[]" res] False show ?thesis
      by (simp split: if_splits)
  qed
  moreover have "xatoi (?hex @ [0]) res = Some (True, [0], v)"
  proof -
    obtain c cs where "map digit_char (num_digits 16 (unat v)) @ [0] = c # cs"
      by (cases "map digit_char (num_digits 16 (unat v)) @ [0]") auto
    then show ?thesis
      using xatoi_number_digits[of 16 0 False v "[]" res] by (simp add: xatoi_def number_text_def)
  qed
  ultimately show ?thesis
    by blast
qed

text \<open>
  The field width of \<^verbatim>\<open>xprintf\<close> is read in base eleven (the loop adds \<^verbatim>\<open>w * 10 + digit\<close> to \<^verbatim>\<open>w\<close>):
  right for one digit, too large for every width of two or more digits.
\<close>

theorem xprintf_width_base_eleven:
  assumes "ds \<noteq> []" "\<forall>x \<in> set ds. x < 10" "0 < hd ds" "d \<in> {99, 117, 100, 88, 120, 115}"
  shows "xp_spec (map digit_char ds @ d # rest) = Some (d, rest, int (digits_value 11 ds), False) \<and>
    (digits_value 11 ds = digits_value 10 ds \<longleftrightarrow> length ds = 1)"
proof -
  obtain x xs where ds: "ds = x # xs"
    using assms(1) by (cases ds) auto
  have "\<not> (d \<ge> 48 \<and> d \<le> 57)" "d \<noteq> 108"
    using assms(4) by auto
  from xp_width_digits[OF this(1) assms(2), of rest "digit_char x" _ 0] ds
  have "xp_width (digit_char x) (map digit_char xs @ d # rest) 0 = Some (d, rest, int (digits_value 11 ds))"
    using foldl_int_digits_value[of 11 0 ds] by (simp add: digits_value_def)
  moreover have "digit_char x \<noteq> 48"
    using assms(2,3) ds digit_char_inj[of x 0] by (auto simp: digit_char_def)
  ultimately have "xp_spec (map digit_char ds @ d # rest) = Some (d, rest, int (digits_value 11 ds), False)"
    using \<open>d \<noteq> 108\<close> ds by (simp add: xp_spec_def)
  moreover have "0 < a \<Longrightarrow> a \<le> b \<Longrightarrow> foldl (\<lambda>a d. a * 10 + d) a ys \<le> foldl (\<lambda>a d. a * 11 + d) b ys \<and>
      (a < b \<longrightarrow> foldl (\<lambda>a d. a * 10 + d) a ys < foldl (\<lambda>a d. a * 11 + d) b ys)" for a b and ys :: "nat list"
    by (induction ys arbitrary: a b) (simp, fastforce)
  from this[of "x * 10 + hd xs" "x * 11 + hd xs" "tl xs"]
  have "length ds \<noteq> 1 \<Longrightarrow> digits_value 10 ds < digits_value 11 ds"
    using assms(3) ds by (cases xs) (auto simp: digits_value_def)
  moreover have "length ds = 1 \<Longrightarrow> digits_value 11 ds = digits_value 10 ds"
    using ds by (auto simp: digits_value_def)
  ultimately show ?thesis
    by (metis less_irrefl)
qed

theorem xprintf_width_base_eleven_witness:
  "xp_spec [49, 48, 100, 0] = Some (100, [0], 11, False)"
  using xprintf_width_base_eleven[of "[1, 0]" 100 "[0]"] by (simp add: digit_char_def digits_value_def)

text \<open>
  Binary output overruns. \<^verbatim>\<open>xitoa\<close> with radix 2 stays inside its 20-byte buffer exactly for numbers
  below \<open>2 ^ 20\<close>; for any larger number it writes behind the buffer.
\<close>

theorem xitoa_binary_overflow:
  assumes "\<bar>len\<bar> \<le> 20"
  shows "xitoa v 2 len = None \<longleftrightarrow> unat v \<ge> 2 ^ 20"
proof -
  have le: "length (num_digits 2 n) \<le> Suc k \<longleftrightarrow> n < 2 ^ Suc k" for n k
  proof (induction k arbitrary: n)
    case 0
    have "length (num_digits 2 n) \<le> 1 \<Longrightarrow> n < 2"
      using num_digits_big[of 2 n] num_digits_not_Nil[of 2 "n div 2"] by (cases "n < 2") auto
    then show ?case by (auto simp: num_digits_small)
  next
    case (Suc k)
    then show ?case
      by (cases "n < 2") (auto simp: num_digits_small num_digits_big less_mult_imp_div_less
          dest!: iffD1[OF Suc] simp flip: Suc intro: less_le_trans)
  qed
  show ?thesis
    using xitoa_eq[of 2 len v] assms le[of "unat v" 19] by (auto split: if_splits)
qed

theorem xitoa_binary_overflow_witness: "xitoa 0x100000 2 0 = None"
  using xitoa_binary_overflow[of 0 "0x100000"] by simp

text \<open>
  Line input. For a buffer of at least \<open>len > 0\<close> bytes and input that ends with a carriage return
  or newline, \<^verbatim>\<open>get_line\<close> returns, writes only inside the first \<open>len\<close> bytes, and leaves the edited
  line there with its NUL: characters below the blank ignored, backspace removing the last
  character, at most \<open>len - 1\<close> characters.
\<close>

theorem get_line_edits:
  assumes "\<forall>c \<in> set cs. c \<noteq> 13 \<and> c \<noteq> 10" "e = 13 \<or> e = 10" "0 < len" "len \<le> int (length buff)"
  shows "\<exists>out buff'. get_line (cs @ e # rest) buff len = Some (out, buff') \<and> length buff' = length buff \<and>
    (let l = foldl (line_edit len) [] cs in
      take (length l + 1) buff' = l @ [0] \<and> int (length l) < len)"
proof -
  let ?l = "foldl (line_edit len) [] cs"
  obtain out0 where out0: "xprintf [37, 115, 123, 10, 0] [XStr [103, 101, 116, 95, 108, 105, 110, 101, 0]] = Some out0"
    using xprintf_toks[of "[Conv False 0 False 115 (XStr [103, 101, 116, 95, 108, 105, 110, 101, 0]), Lit 123, Lit 10]"]
    by simp
  from get_line_loop_edit[OF assms(1,2), of "[]" len buff rest out0] assms(3,4) obtain out' buff' where
    "get_line_loop (cs @ e # rest) len (buff, 0) out0 = Some (out', buff', int (length ?l))"
    "length buff' = length buff" "take (length ?l) buff' = ?l" "int (length ?l) \<le> len - 1"
    by auto
  with out0 assms(4) show ?thesis
    by (simp add: get_line_def Let_def take_upd_snoc)
qed

theorem get_line_edits_witness:
  "\<exists>out buff'. get_line [97, 98, 8, 99, 13] (replicate 10 0) 10 = Some (out, buff') \<and> take 3 buff' = [97, 99, 0]"
  using get_line_edits[of "[97, 98, 8, 99]" 13 10 "replicate 10 0" "[]"]
  by (auto simp: line_edit_def Let_def numeral_3_eq_3)

text \<open>
  \<^verbatim>\<open>put_dump\<close> of up to 255 bytes returns and prints the offset with eight hexadecimal digits, every
  byte with two, and the bytes again as characters, a dot for each one that cannot be printed.
\<close>

theorem put_dump_layout:
  assumes "0 \<le> cnt" "cnt \<le> 255" "cnt \<le> int (length buff)"
  shows "put_dump buff ofs cnt = Some (number_text ofs 16 (- 8) @ [32] @
    concat (map (\<lambda>b. 32 # number_text (ucast b) 16 (- 2)) (take (nat cnt) buff)) @ [32] @
    map (\<lambda>b. if b < 0x20 \<or> b \<ge> 0x7F then 46 else b) (take (nat cnt) buff) @ [13, 10])"
proof -
  have ofs: "xprintf [37, 48, 56, 108, 88, 32, 0] [XInt ofs] = Some (number_text ofs 16 (- 8) @ [32])"
    using xprintf_toks[of "[Conv True 8 True 88 (XInt ofs), Lit 32]"] by (simp add: digit_char_def xp_radix_def)
  have "dump_char b = Some [if b < 0x20 \<or> b \<ge> 0x7F then 46 else b]" for b
    by (auto simp: dump_char_def xputc_def)
  note char = put_dump_loop_eq[of dump_char, OF this, of 0 cnt buff]
  note hex = put_dump_loop_eq[of dump_hex, OF dump_hex_eq, of 0 cnt buff]
  have "concat (map (\<lambda>b. [if b < 0x20 \<or> b \<ge> 0x7F then 46 else b]) bs) =
      map (\<lambda>b. if b < 0x20 \<or> b \<ge> 0x7F then 46 else b :: u8) bs" for bs
    by (induction bs) auto
  with char hex assms show ?thesis
    by (simp add: put_dump_def ofs Let_def xputc_def)
qed

theorem put_dump_layout_witness:
  "\<exists>t. put_dump [65, 7] 0 2 = Some (t @ [32, 65, 46, 13, 10])"
  using put_dump_layout[of 2 "[65, 7]" 0] by simp

end
