(* ===== verification/Colour.thy ===== *)
theory Colour
  imports Prelude
begin

text \<open>
  Colour conversion, \<^verbatim>\<open>libraries/LED/hsv2rgb.c\<close>: the table \<open>RGB_LOOKUP\<close> of 360 fully saturated
  colours, transcribed in six parts of sixty rows, its access \<open>lookup_hsv2rgb\<close> with the reductions
  of the green and blue channels, and the computed conversion \<open>hsv2rgb\<close> in 32-bit arithmetic. The
  property compares the two: the table is the conversion with rounding instead of truncation.
\<close>

section \<open>The table\<close>

type_synonym rgb = "u8 \<times> u8 \<times> u8"

definition RGB_LOOKUP_0 :: "rgb list" where
  "RGB_LOOKUP_0 = [
     (255, 0, 0), (255, 4, 0), (255, 9, 0), (255, 13, 0), (255, 17, 0),
     (255, 21, 0), (255, 26, 0), (255, 30, 0), (255, 34, 0), (255, 38, 0),
     (255, 43, 0), (255, 47, 0), (255, 51, 0), (255, 55, 0), (255, 60, 0),
     (255, 64, 0), (255, 68, 0), (255, 72, 0), (255, 77, 0), (255, 81, 0),
     (255, 85, 0), (255, 89, 0), (255, 94, 0), (255, 98, 0), (255, 102, 0),
     (255, 106, 0), (255, 111, 0), (255, 115, 0), (255, 119, 0), (255, 123, 0),
     (255, 128, 0), (255, 132, 0), (255, 136, 0), (255, 140, 0), (255, 145, 0),
     (255, 149, 0), (255, 153, 0), (255, 157, 0), (255, 162, 0), (255, 166, 0),
     (255, 170, 0), (255, 174, 0), (255, 179, 0), (255, 183, 0), (255, 187, 0),
     (255, 191, 0), (255, 196, 0), (255, 200, 0), (255, 204, 0), (255, 208, 0),
     (255, 213, 0), (255, 217, 0), (255, 221, 0), (255, 225, 0), (255, 230, 0),
     (255, 234, 0), (255, 238, 0), (255, 242, 0), (255, 247, 0), (255, 251, 0)]"

definition RGB_LOOKUP_60 :: "rgb list" where
  "RGB_LOOKUP_60 = [
     (255, 255, 0), (251, 255, 0), (247, 255, 0), (242, 255, 0), (238, 255, 0),
     (234, 255, 0), (230, 255, 0), (225, 255, 0), (221, 255, 0), (217, 255, 0),
     (213, 255, 0), (208, 255, 0), (204, 255, 0), (200, 255, 0), (196, 255, 0),
     (191, 255, 0), (187, 255, 0), (183, 255, 0), (179, 255, 0), (174, 255, 0),
     (170, 255, 0), (166, 255, 0), (162, 255, 0), (157, 255, 0), (153, 255, 0),
     (149, 255, 0), (145, 255, 0), (140, 255, 0), (136, 255, 0), (132, 255, 0),
     (128, 255, 0), (123, 255, 0), (119, 255, 0), (115, 255, 0), (111, 255, 0),
     (106, 255, 0), (102, 255, 0), (98, 255, 0), (94, 255, 0), (89, 255, 0),
     (85, 255, 0), (81, 255, 0), (77, 255, 0), (72, 255, 0), (68, 255, 0),
     (64, 255, 0), (60, 255, 0), (55, 255, 0), (51, 255, 0), (47, 255, 0),
     (43, 255, 0), (38, 255, 0), (34, 255, 0), (30, 255, 0), (26, 255, 0),
     (21, 255, 0), (17, 255, 0), (13, 255, 0), (9, 255, 0), (4, 255, 0)]"

definition RGB_LOOKUP_120 :: "rgb list" where
  "RGB_LOOKUP_120 = [
     (0, 255, 0), (0, 255, 4), (0, 255, 9), (0, 255, 13), (0, 255, 17),
     (0, 255, 21), (0, 255, 26), (0, 255, 30), (0, 255, 34), (0, 255, 38),
     (0, 255, 43), (0, 255, 47), (0, 255, 51), (0, 255, 55), (0, 255, 60),
     (0, 255, 64), (0, 255, 68), (0, 255, 72), (0, 255, 77), (0, 255, 81),
     (0, 255, 85), (0, 255, 89), (0, 255, 94), (0, 255, 98), (0, 255, 102),
     (0, 255, 106), (0, 255, 111), (0, 255, 115), (0, 255, 119), (0, 255, 123),
     (0, 255, 128), (0, 255, 132), (0, 255, 136), (0, 255, 140), (0, 255, 145),
     (0, 255, 149), (0, 255, 153), (0, 255, 157), (0, 255, 162), (0, 255, 166),
     (0, 255, 170), (0, 255, 174), (0, 255, 179), (0, 255, 183), (0, 255, 187),
     (0, 255, 191), (0, 255, 196), (0, 255, 200), (0, 255, 204), (0, 255, 208),
     (0, 255, 213), (0, 255, 217), (0, 255, 221), (0, 255, 225), (0, 255, 230),
     (0, 255, 234), (0, 255, 238), (0, 255, 242), (0, 255, 247), (0, 255, 251)]"

definition RGB_LOOKUP_180 :: "rgb list" where
  "RGB_LOOKUP_180 = [
     (0, 255, 255), (0, 251, 255), (0, 247, 255), (0, 242, 255), (0, 238, 255),
     (0, 234, 255), (0, 230, 255), (0, 225, 255), (0, 221, 255), (0, 217, 255),
     (0, 213, 255), (0, 208, 255), (0, 204, 255), (0, 200, 255), (0, 196, 255),
     (0, 191, 255), (0, 187, 255), (0, 183, 255), (0, 179, 255), (0, 174, 255),
     (0, 170, 255), (0, 166, 255), (0, 162, 255), (0, 157, 255), (0, 153, 255),
     (0, 149, 255), (0, 145, 255), (0, 140, 255), (0, 136, 255), (0, 132, 255),
     (0, 128, 255), (0, 123, 255), (0, 119, 255), (0, 115, 255), (0, 111, 255),
     (0, 106, 255), (0, 102, 255), (0, 98, 255), (0, 94, 255), (0, 89, 255),
     (0, 85, 255), (0, 81, 255), (0, 77, 255), (0, 72, 255), (0, 68, 255),
     (0, 64, 255), (0, 60, 255), (0, 55, 255), (0, 51, 255), (0, 47, 255),
     (0, 43, 255), (0, 38, 255), (0, 34, 255), (0, 30, 255), (0, 26, 255),
     (0, 21, 255), (0, 17, 255), (0, 13, 255), (0, 9, 255), (0, 4, 255)]"

definition RGB_LOOKUP_240 :: "rgb list" where
  "RGB_LOOKUP_240 = [
     (0, 0, 255), (4, 0, 255), (9, 0, 255), (13, 0, 255), (17, 0, 255),
     (21, 0, 255), (26, 0, 255), (30, 0, 255), (34, 0, 255), (38, 0, 255),
     (43, 0, 255), (47, 0, 255), (51, 0, 255), (55, 0, 255), (60, 0, 255),
     (64, 0, 255), (68, 0, 255), (72, 0, 255), (77, 0, 255), (81, 0, 255),
     (85, 0, 255), (89, 0, 255), (94, 0, 255), (98, 0, 255), (102, 0, 255),
     (106, 0, 255), (111, 0, 255), (115, 0, 255), (119, 0, 255), (123, 0, 255),
     (128, 0, 255), (132, 0, 255), (136, 0, 255), (140, 0, 255), (145, 0, 255),
     (149, 0, 255), (153, 0, 255), (157, 0, 255), (162, 0, 255), (166, 0, 255),
     (170, 0, 255), (174, 0, 255), (179, 0, 255), (183, 0, 255), (187, 0, 255),
     (191, 0, 255), (196, 0, 255), (200, 0, 255), (204, 0, 255), (208, 0, 255),
     (213, 0, 255), (217, 0, 255), (221, 0, 255), (225, 0, 255), (230, 0, 255),
     (234, 0, 255), (238, 0, 255), (242, 0, 255), (247, 0, 255), (251, 0, 255)]"

definition RGB_LOOKUP_300 :: "rgb list" where
  "RGB_LOOKUP_300 = [
     (255, 0, 255), (255, 0, 251), (255, 0, 247), (255, 0, 242), (255, 0, 238),
     (255, 0, 234), (255, 0, 230), (255, 0, 225), (255, 0, 221), (255, 0, 217),
     (255, 0, 213), (255, 0, 208), (255, 0, 204), (255, 0, 200), (255, 0, 196),
     (255, 0, 191), (255, 0, 187), (255, 0, 183), (255, 0, 179), (255, 0, 174),
     (255, 0, 170), (255, 0, 166), (255, 0, 162), (255, 0, 157), (255, 0, 153),
     (255, 0, 149), (255, 0, 145), (255, 0, 140), (255, 0, 136), (255, 0, 132),
     (255, 0, 128), (255, 0, 123), (255, 0, 119), (255, 0, 115), (255, 0, 111),
     (255, 0, 106), (255, 0, 102), (255, 0, 98), (255, 0, 94), (255, 0, 89),
     (255, 0, 85), (255, 0, 81), (255, 0, 77), (255, 0, 72), (255, 0, 68),
     (255, 0, 64), (255, 0, 60), (255, 0, 55), (255, 0, 51), (255, 0, 47),
     (255, 0, 43), (255, 0, 38), (255, 0, 34), (255, 0, 30), (255, 0, 26),
     (255, 0, 21), (255, 0, 17), (255, 0, 13), (255, 0, 9), (255, 0, 4)]"

definition RGB_LOOKUP :: "rgb list" where
  "RGB_LOOKUP = RGB_LOOKUP_0 @ RGB_LOOKUP_60 @ RGB_LOOKUP_120 @ RGB_LOOKUP_180 @ RGB_LOOKUP_240 @ RGB_LOOKUP_300"

definition RED_REDUCTION :: int where "RED_REDUCTION = 255"
definition GREEN_REDUCTION :: int where "GREEN_REDUCTION = (RED_REDUCTION div 136) * 255 * 3"
definition BLUE_REDUCTION :: int where "BLUE_REDUCTION = (RED_REDUCTION div 136) * 255 * 3"

section \<open>Conversions\<close>

text \<open>
  The products of two bytes are computed as \<^verbatim>\<open>int\<close> and are not negative. The result of \<^verbatim>\<open>hsv2rgb\<close> is
  written through pointers; a hue of 360 or more leaves the old values in place, and scales them.
\<close>

definition scale_channel :: "u8 \<Rightarrow> u8 \<Rightarrow> int \<Rightarrow> u8" where
  "scale_channel c maxBrightness reduction = word_of_int (uint c * uint maxBrightness div reduction)"

definition hsv2rgb :: "u32 \<Rightarrow> u32 \<Rightarrow> u32 \<Rightarrow> rgb \<Rightarrow> u8 \<Rightarrow> rgb" where
  "hsv2rgb hue sat val old maxBrightness =
    (let H_accent = hue div 60;
       bottom = drop_bit 8 ((255 - sat) * val);
       top = val;
       rising = ucast (((top - bottom) * (hue mod 60)) div 60 + bottom) :: u8;
       falling = ucast (((top - bottom) * (60 - hue mod 60)) div 60 + bottom) :: u8;
       (r, g, b) =
         (if H_accent = 0 then (ucast top, rising, ucast bottom)
          else if H_accent = 1 then (falling, ucast top, ucast bottom)
          else if H_accent = 2 then (ucast bottom, ucast top, rising)
          else if H_accent = 3 then (ucast bottom, falling, ucast top)
          else if H_accent = 4 then (rising, ucast bottom, ucast top)
          else if H_accent = 5 then (ucast top, ucast bottom, falling)
          else old)
     in (scale_channel r maxBrightness 255, scale_channel g maxBrightness 255, scale_channel b maxBrightness 255))"

definition lookup_hsv2rgb :: "u32 \<Rightarrow> u8 \<Rightarrow> rgb option" where
  "lookup_hsv2rgb hue maxBrightness = do {
     (r, g, b) \<leftarrow> c_read RGB_LOOKUP (uint hue);
     Some (scale_channel r maxBrightness RED_REDUCTION,
           scale_channel g maxBrightness GREEN_REDUCTION,
           scale_channel b maxBrightness BLUE_REDUCTION) }"

section \<open>The table against the computed conversion\<close>

text \<open>Two bytes that differ by at most one, and triples of them.\<close>

definition near :: "u8 \<Rightarrow> u8 \<Rightarrow> bool" where
  "near a b \<longleftrightarrow> \<bar>uint a - uint b\<bar> \<le> 1"

definition near_rgb :: "rgb \<Rightarrow> rgb \<Rightarrow> bool" where
  "near_rgb x y \<longleftrightarrow> near (fst x) (fst y) \<and> near (fst (snd x)) (fst (snd y)) \<and> near (snd (snd x)) (snd (snd y))"

text \<open>The rows of a part of the table, whose first row is that of the hue \<open>h\<close>.\<close>

fun rows_near :: "u32 \<Rightarrow> rgb list \<Rightarrow> bool" where
  "rows_near h [] \<longleftrightarrow> True"
| "rows_near h (x # xs) \<longleftrightarrow> near_rgb x (hsv2rgb h 255 255 (0, 0, 0) 255) \<and> rows_near (h + 1) xs"

lemma rows_near_append: "rows_near h (xs @ ys) \<longleftrightarrow> rows_near h xs \<and> rows_near (h + of_nat (length xs)) ys"
  by (induction xs arbitrary: h) (auto simp: add.assoc)

lemma rows_near_nth: "rows_near h xs \<Longrightarrow> i < length xs \<Longrightarrow>
    near_rgb (xs ! i) (hsv2rgb (h + of_nat i) 255 255 (0, 0, 0) 255)"
proof (induction xs arbitrary: h i)
  case (Cons x xs)
  then show ?case
    by (cases i) (auto simp: add.assoc dest: Cons.IH[of "h + 1"])
qed simp

lemma rows_near_0: "rows_near 0 RGB_LOOKUP_0"
  by code_simp

lemma rows_near_60: "rows_near 60 RGB_LOOKUP_60"
  by code_simp

lemma rows_near_120: "rows_near 120 RGB_LOOKUP_120"
  by code_simp

lemma rows_near_180: "rows_near 180 RGB_LOOKUP_180"
  by code_simp

lemma rows_near_240: "rows_near 240 RGB_LOOKUP_240"
  by code_simp

lemma rows_near_300: "rows_near 300 RGB_LOOKUP_300"
  by code_simp

lemmas rows_near_parts = rows_near_0 rows_near_60 rows_near_120 rows_near_180 rows_near_240 rows_near_300

lemma RGB_LOOKUP_lengths:
  "length RGB_LOOKUP_0 = 60" "length RGB_LOOKUP_60 = 60" "length RGB_LOOKUP_120 = 60"
  "length RGB_LOOKUP_180 = 60" "length RGB_LOOKUP_240 = 60" "length RGB_LOOKUP_300 = 60"
  by code_simp+

lemma RGB_LOOKUP_length: "length RGB_LOOKUP = 360"
  by (simp add: RGB_LOOKUP_def RGB_LOOKUP_lengths)

lemma rows_near_table: "rows_near 0 RGB_LOOKUP"
  using rows_near_parts by (simp add: RGB_LOOKUP_def rows_near_append RGB_LOOKUP_lengths)

lemma scale_channel_full: "scale_channel c 255 255 = c" "scale_channel c 255 765 = c div 3"
proof -
  have "uint c * 255 div 765 = uint c div 3"
    using div_mult_mult2[of 255 "uint c" 3] by simp
  then show "scale_channel c 255 765 = c div 3"
    by (simp add: scale_channel_def word_div_def)
qed (simp add: scale_channel_def)

lemma hsv2rgb_old:
  assumes "hue < 360"
  shows "hsv2rgb hue sat val old m = hsv2rgb hue sat val old' m"
proof -
  have "unat (hue div 60) < 6"
    using assms by (simp add: unat_div word_less_nat_alt less_mult_imp_div_less)
  then have "hue div 60 \<in> {0, 1, 2, 3, 4, 5}"
    by (simp add: word_unat_eq_iff) arith
  then show ?thesis
    by (auto simp: hsv2rgb_def Let_def)
qed

lemma lookup_total: "hue < 360 \<Longrightarrow> \<exists>c. lookup_hsv2rgb hue m = Some c"
  by (auto simp: lookup_hsv2rgb_def c_read_word RGB_LOOKUP_length word_less_nat_alt split: prod.splits)

section \<open>Properties\<close>

text \<open>
  C39: The lookup table agrees with the computed conversion. For every hue below 360 the table gives
  at full brightness the red channel, and a third of the green and of the blue channel, of a colour
  that differs from \<^verbatim>\<open>hsv2rgb\<close> at full saturation and value by at most one in each channel; a hue of
  360 or more reads outside the table.
\<close>

theorem lookup_matches_hsv2rgb:
  "if hue < 360
   then \<exists>r g b. lookup_hsv2rgb hue 255 = Some (r, g div 3, b div 3) \<and>
     near_rgb (r, g, b) (hsv2rgb hue 255 255 old 255)
   else lookup_hsv2rgb hue 255 = None"
proof (cases "hue < 360")
  case True
  then have i: "unat hue < length RGB_LOOKUP"
    by (simp add: RGB_LOOKUP_length word_less_nat_alt)
  obtain r g b where rgb: "RGB_LOOKUP ! unat hue = (r, g, b)"
    by (cases "RGB_LOOKUP ! unat hue")
  from rows_near_nth[OF rows_near_table i] rgb
  have "near_rgb (r, g, b) (hsv2rgb hue 255 255 (0, 0, 0) 255)"
    by simp
  then have "near_rgb (r, g, b) (hsv2rgb hue 255 255 old 255)"
    using hsv2rgb_old[OF True] by metis
  moreover have "lookup_hsv2rgb hue 255 = Some (r, g div 3, b div 3)"
    using i rgb by (simp add: lookup_hsv2rgb_def c_read_word RED_REDUCTION_def GREEN_REDUCTION_def
        BLUE_REDUCTION_def scale_channel_full)
  ultimately show ?thesis
    using True by auto
next
  case False
  then show ?thesis
    by (simp add: lookup_hsv2rgb_def c_read_word RGB_LOOKUP_length word_less_nat_alt)
qed

end
