(* ===== verification/I2C_Dev.thy ===== *)
theory I2C_Dev
  imports Term_IO
begin

text \<open>
  The two devices on the I2C bus: the digital potentiometer that sets the LED current
  (\<^verbatim>\<open>libraries/I2C/MCP4018.c\<close>) and the temperature sensor (\<^verbatim>\<open>libraries/I2C/tmp100.c\<close>), and the set-up in
  \<^verbatim>\<open>i2c.c\<close>. The bus driver of the chip vendor is a parameter \<open>bus\<close>: from the transfer that is
  requested it gives the status and the bytes that the device sends.
\<close>

text \<open>\<^verbatim>\<open>I2C_M_SETUP_Type\<close>, as far as the callers fill it in.\<close>

record i2c_setup =
  sl_addr7bit :: u8
  tx_data :: "u8 list"
  rx_length :: nat
  retransmissions_max :: nat

type_synonym i2c_bus = "i2c_setup \<Rightarrow> u8 \<times> u8 list"

definition MCP4018_ADDR :: u8 where "MCP4018_ADDR = 0x2f"
definition TMP100_ADDR :: u8 where "TMP100_ADDR = 0x48"

definition setPot_request :: "u8 \<Rightarrow> i2c_setup" where
  "setPot_request pot =
    (let pot = (if pot > 0x7f then 0x7f else pot);
       pot = (if pot < 0x01 then 0x01 else pot)
     in \<lparr>sl_addr7bit = MCP4018_ADDR, tx_data = [pot], rx_length = 0, retransmissions_max = 3\<rparr>)"

definition setPot :: "i2c_bus \<Rightarrow> u8 \<Rightarrow> u8" where
  "setPot bus pot = fst (bus (setPot_request pot))"

text \<open>The receive buffers are not initialised: their old contents are arguments.\<close>

definition received :: "u8 list \<Rightarrow> u8 list \<Rightarrow> u8 list" where
  "received old rx = take (length old) rx @ drop (length rx) old"

definition readPot :: "i2c_bus \<Rightarrow> u8 list \<Rightarrow> u8 option" where
  "readPot bus Rx_Buf =
    (let req = \<lparr>sl_addr7bit = MCP4018_ADDR, tx_data = [], rx_length = 1, retransmissions_max = 3\<rparr>;
       Rx_Buf = received Rx_Buf (take 1 (snd (bus req)))
     in c_read Rx_Buf 0)"

definition tmp100_conf :: "i2c_bus \<Rightarrow> u8 list \<Rightarrow> u8 \<Rightarrow> u8 option" where
  "tmp100_conf bus Rx_Buf cfg =
    (let req = \<lparr>sl_addr7bit = TMP100_ADDR, tx_data = [0x01, cfg], rx_length = 1, retransmissions_max = 3\<rparr>;
       Rx_Buf = received Rx_Buf (take 1 (snd (bus req)))
     in c_read Rx_Buf 0)"

text \<open>
  \<^verbatim>\<open>tmp100_gettemp\<close> prints the first byte received; it returns a \<^verbatim>\<open>float\<close> that was never assigned, so
  only the text is a result here (the location suffix that \<^verbatim>\<open>FFL_()\<close> appends is left out).
\<close>

definition tmp100_gettemp :: "i2c_bus \<Rightarrow> u8 list \<Rightarrow> u8 list option" where
  "tmp100_gettemp bus Rx_Buf =
    (let req = \<lparr>sl_addr7bit = TMP100_ADDR, tx_data = [0x00], rx_length = 2, retransmissions_max = 3\<rparr>;
       Rx_Buf = received Rx_Buf (take 2 (snd (bus req)))
     in do {
       b \<leftarrow> c_read Rx_Buf 0;
       xprintf [37, 100, 32, 100, 101, 103, 67, 0] [XInt (ucast b)] })"

section \<open>Properties\<close>

text \<open>
  Whatever brightness is asked for, \<^verbatim>\<open>setPot\<close> sends one byte between 1 and 127 to the
  potentiometer, the asked value itself where it lies in that range, and the byte is monotone in
  the request.
\<close>

theorem setPot_clamps:
  "sl_addr7bit (setPot_request p) = MCP4018_ADDR \<and>
   tx_data (setPot_request p) = [max 1 (min 0x7f p)] \<and>
   (p \<le> q \<longrightarrow> hd (tx_data (setPot_request p)) \<le> hd (tx_data (setPot_request q)))"
  by (auto simp: setPot_request_def Let_def max_def min_def not_less not_le u8_one_le)

theorem setPot_clamps_witness: "tx_data (setPot_request 200) = [127] \<and> hd (tx_data (setPot_request 0)) \<le> 5"
  using setPot_clamps[of 200 200] setPot_clamps[of 0 5] by (simp add: max_def min_def)

end
