(* ===== verification/Led.thy ===== *)
theory Led
  imports Colour I2C_Dev
begin

text \<open>
  The LED driver \<^verbatim>\<open>libraries/LED/ShiftPWM.c\<close>: 60 RGB LEDs on 12 shift registers, dimmed by binary code
  modulation. \<open>LED_RAW\<close> holds a byte per LED, \<open>LED_PRECALC\<close> for every register and every bit of the
  byte the 16-bit word that the DMA sends, \<open>LinkerList\<close> the DMA chains. The timer interrupts cycle
  through the bits; the main loop calls \<open>LED_loop\<close>, which draws the selected pattern. What the code
  does to pins, SSP, DMA and the I2C bus is a trace of events in order (\<open>hw\<close>); timers are their
  enable bits and match values. A model of the shift registers and their latch (\<open>panel\<close>) turns the trace into
  light. Diagnostic console messages and pin multiplexing are left out.
\<close>

section \<open>State\<close>

datatype hw_event =
    Pin_LE bool | Pin_OE bool | Ssp_Send u16 | Delay_ms nat
  | Dma_Setup nat nat | Dma_Enable | I2C_Request i2c_setup

text \<open>
  A linker list item: the register and bit of the \<open>LED_PRECALC\<close> word it sends, and the index of the
  next item, \<open>None\<close> for the address 0. (\<^verbatim>\<open>BUFFERS\<close> is 1, so the last index of the arrays is 0.)
\<close>

record lli =
  SrcAddr :: "nat \<times> nat"
  NextLLI :: "(nat \<times> nat) option"

type_synonym colour = "u32 \<times> u32 \<times> u32"

record led =
  LED_RAW :: "u8 list"
  LED_PRECALC :: "u16 list list"
  LinkerList :: "lli list list"
  SEQ_BIT :: "u16 list"
  SEQ_TIME :: "u32 list"
  SENDSEQ :: u8
  DELAY_TIME :: u32
  SEND_BIT :: u8
  LED_PATTERN :: u8
  PREV_LED_PATTERN :: u8
  MILLI_DELAY :: u16
  BRIGHTNESS :: u8
  LED_INT_OCCURED :: bool
  LED_Loop :: int
  LED_Loop_v1 :: int
  LED_Loop_v2 :: int
  LED_Loop_v3 :: int
  Led_loopp :: u32
  loop_count :: u32
  HC :: colour
  MC :: colour
  SC :: colour
  BC :: colour
  tim0_on :: bool
  tim1_on :: bool
  tim2_on :: bool
  tim0_match :: u32
  tim2_match :: u32
  hw :: "hw_event list"

abbreviation RGBS :: nat where "RGBS \<equiv> 60"
abbreviation REGS :: nat where "REGS \<equiv> 12"
abbreviation LEDS :: nat where "LEDS \<equiv> 180"
abbreviation LEDS_P_REG :: u8 where "LEDS_P_REG \<equiv> 15"
abbreviation BITS :: nat where "BITS \<equiv> 8"
abbreviation no_SEQ_BITS :: nat where "no_SEQ_BITS \<equiv> 16"
abbreviation MAX_BRIGHTNESS :: u8 where "MAX_BRIGHTNESS \<equiv> 0xff"

definition BITORDER :: "u8 list" where
  "BITORDER = [0, 1, 2, 3, 4, 5, 6, 7, 0, 1, 2, 3, 4, 5, 6, 7]"

definition BITTIME :: "u32 list" where
  "BITTIME = [1024 div 128, 1024 div 64, 1024 div 32, 1024 div 16, 1024 div 8, 1024 div 4, 1024 div 2, 1024]"

definition event :: "hw_event list \<Rightarrow> led \<Rightarrow> led" where
  "event es s = s\<lparr>hw := hw s @ es\<rparr>"

section \<open>Interrupt handlers\<close>

definition TIMER0_IRQHandler :: "bool \<Rightarrow> led \<Rightarrow> led option" where
  "TIMER0_IRQHandler mr0 s =
    (if mr0 then do {
       time \<leftarrow> c_read (SEQ_TIME s) (uint (SENDSEQ s));
       b \<leftarrow> c_read (SEQ_BIT s) (uint (SENDSEQ s));
       let s = s\<lparr>DELAY_TIME := time, SEND_BIT := ucast b\<rparr>;
       let s = s\<lparr>SENDSEQ := SENDSEQ s + 1\<rparr>;
       let s = (if unat (SENDSEQ s) \<ge> no_SEQ_BITS then s\<lparr>SENDSEQ := 0\<rparr> else s);
       let s = event [Dma_Setup 0 (unat (SEND_BIT s)), Dma_Enable] s;
       let s = s\<lparr>tim0_match := DELAY_TIME s\<rparr>;
       Some (event [Pin_OE True] s) }
     else Some s)"

definition LatchIn :: "led \<Rightarrow> led" where
  "LatchIn s = event [Pin_LE True, Pin_LE False, Pin_OE False] s"

definition TIMER1_IRQHandler :: "bool \<Rightarrow> led \<Rightarrow> led" where
  "TIMER1_IRQHandler mr0 s = (if mr0 then LatchIn s else s)"

definition TIMER2_IRQHandler :: "bool \<Rightarrow> led \<Rightarrow> led" where
  "TIMER2_IRQHandler mr0 s = (if mr0 then s\<lparr>LED_INT_OCCURED := True\<rparr> else s)"

text \<open>The arguments are the interrupt, terminal count and error status of DMA channel 0.\<close>

definition DMA_IRQHandler :: "bool \<Rightarrow> bool \<Rightarrow> bool \<Rightarrow> led \<Rightarrow> led" where
  "DMA_IRQHandler int_stat tc err s = (if int_stat \<and> tc then s\<lparr>tim1_on := True\<rparr> else s)"

section \<open>Setting LEDs\<close>

definition SetRGB :: "int \<Rightarrow> u8 \<Rightarrow> u8 \<Rightarrow> u8 \<Rightarrow> led \<Rightarrow> led option" where
  "SetRGB grp r g b s = do {
     raw \<leftarrow> c_write (LED_RAW s) (grp * 3) (r AND MAX_BRIGHTNESS);
     raw \<leftarrow> c_write raw (grp * 3 + 1) (g AND MAX_BRIGHTNESS);
     raw \<leftarrow> c_write raw (grp * 3 + 2) (b AND MAX_BRIGHTNESS);
     Some (s\<lparr>LED_RAW := raw\<rparr>) }"

definition SetRGBALL :: "u8 \<Rightarrow> u8 \<Rightarrow> u8 \<Rightarrow> led \<Rightarrow> led option" where
  "SetRGBALL r g b s = for_each (\<lambda>t. SetRGB (int t) r g b) [0..<RGBS] s"

definition SetHue :: "u32 \<Rightarrow> u32 \<Rightarrow> led \<Rightarrow> led option" where
  "SetHue led hue s = do {
     (red, green, blue) \<leftarrow> lookup_hsv2rgb hue MAX_BRIGHTNESS;
     SetRGB (sint led) red green blue s }"

definition SetLED :: "u8 \<Rightarrow> u8 \<Rightarrow> led \<Rightarrow> led option" where
  "SetLED led v0 s = do {
     raw \<leftarrow> c_write (LED_RAW s) (uint led) (v0 AND MAX_BRIGHTNESS);
     Some (s\<lparr>LED_RAW := raw\<rparr>) }"

definition resetLeds :: "led \<Rightarrow> led option" where
  "resetLeds s = do {
     raw \<leftarrow> for_each (\<lambda>a raw. c_write raw (int a) 0) [0..<LEDS] (LED_RAW s);
     Some (s\<lparr>LED_RAW := raw\<rparr>) }"

section \<open>Bit planes\<close>

text \<open>
  The innermost loop \<open>for (t = 14; t < LEDS_P_REG; t--, led++)\<close> counts down with a \<^verbatim>\<open>uint8_t\<close> and ends
  when \<open>t\<close> wraps around from 0 to 255.
\<close>

lemma u8_countdown:
  assumes "(t :: u8) < 15"
  shows "(if t - 1 < 15 then Suc (unat (t - 1)) else 0) < Suc (unat t)"
proof (cases "t = 0")
  case True
  moreover have "\<not> (0 - 1 :: u8) < 15"
    by code_simp
  ultimately show ?thesis
    by (simp only: if_False zero_less_Suc)
next
  case False
  then have "unat (t - 1) = unat t - 1" "0 < unat t"
    by (simp_all add: unat_minus_one unat_gt_0)
  then show ?thesis
    by simp
qed

function mibam_reg :: "u8 list \<Rightarrow> nat \<Rightarrow> u8 \<Rightarrow> u8 \<Rightarrow> nat \<Rightarrow> u16 list \<Rightarrow> (u8 \<times> u16 list) option" where
  "mibam_reg raw bt t led bitinreg tt =
    (if t < LEDS_P_REG then
       (case c_read raw (uint led) of
          None \<Rightarrow> None
        | Some v \<Rightarrow>
            let l = ucast (drop_bit bt v) :: u16 in
            (case c_write tt (uint t)
                (ucast (push_bit bitinreg (ucast l :: u32) AND push_bit bitinreg 1)) of
               None \<Rightarrow> None
             | Some tt \<Rightarrow> mibam_reg raw bt (t - 1) (led + 1) (bitinreg + 1) tt))
     else Some (led, tt))"
  by pat_completeness auto
termination
proof (relation "measure (\<lambda>(raw, bt, t, led, bi, tt). if t < 15 then Suc (unat t) else 0)", goal_cases)
  case (2 raw bt t led bitinreg tt)
  then show ?case
    using u8_countdown[of t] by simp
qed simp

declare mibam_reg.simps [simp del]

definition mibam_word :: "u8 list \<Rightarrow> nat \<Rightarrow> u8 \<Rightarrow> (u8 \<times> u16) option" where
  "mibam_word raw bt led = do {
     (led, tt) \<leftarrow> mibam_reg raw bt 14 led 0 (replicate 16 0);
     tt \<leftarrow> c_write tt 15 0;
     Some (led, foldl (OR) 0 tt) }"

definition mibam_plane :: "u8 list \<Rightarrow> nat \<Rightarrow> u16 list list \<Rightarrow> u16 list list option" where
  "mibam_plane raw bt pre = do {
     (led, pre) \<leftarrow> for_each (\<lambda>reg (led, pre). do {
         (led, w) \<leftarrow> mibam_word raw bt led;
         row \<leftarrow> c_read pre (int reg);
         row \<leftarrow> c_write row (int bt) w;
         pre \<leftarrow> c_write pre (int reg) row;
         Some (led, pre) }) [0..<REGS] (0, pre);
     Some pre }"

definition calulateLEDMIBAMBits :: "led \<Rightarrow> led option" where
  "calulateLEDMIBAMBits s = do {
     pre \<leftarrow> for_each (mibam_plane (LED_RAW s)) [0..<BITS] (LED_PRECALC s);
     Some (s\<lparr>LED_PRECALC := pre\<rparr>) }"

section \<open>Pattern control\<close>

definition SetBrightness :: "i2c_bus \<Rightarrow> u8 \<Rightarrow> led \<Rightarrow> u8 \<times> led" where
  "SetBrightness bus bri s =
    (let s = s\<lparr>BRIGHTNESS := bri\<rparr> in
     (setPot bus (BRIGHTNESS s), event [I2C_Request (setPot_request (BRIGHTNESS s))] s))"

definition GetBrightness :: "led \<Rightarrow> u8" where
  "GetBrightness s = BRIGHTNESS s"

definition Set_LED_Pattern :: "i2c_bus \<Rightarrow> u8 \<Rightarrow> u16 \<Rightarrow> u8 \<Rightarrow> led \<Rightarrow> led option" where
  "Set_LED_Pattern bus no delay bri s = do {
     let s = (if no = 9 \<or> no = 10 then s\<lparr>PREV_LED_PATTERN := LED_PATTERN s, LED_PATTERN := no\<rparr>
              else s\<lparr>LED_PATTERN := no\<rparr>);
     let s = (if delay \<noteq> 0 then s\<lparr>MILLI_DELAY := delay, tim2_match := ucast delay\<rparr> else s);
     let s = (if bri \<noteq> 0 then snd (SetBrightness bus bri s) else s);
     s \<leftarrow> resetLeds s;
     Some (s\<lparr>LED_Loop := 0, LED_Loop_v1 := 0, LED_Loop_v2 := 0, LED_Loop_v3 := 0,
             tim0_on := True, tim2_on := True\<rparr>) }"

definition Get_LED_Pattern :: "led \<Rightarrow> u8 \<times> u16 \<times> u8" where
  "Get_LED_Pattern s = (LED_PATTERN s, MILLI_DELAY s, GetBrightness s)"

definition LED_off :: "led \<Rightarrow> led option" where
  "LED_off s = do {
     s \<leftarrow> resetLeds (s\<lparr>tim0_on := False\<rparr>);
     calulateLEDMIBAMBits s }"

definition LED_on :: "led \<Rightarrow> led option" where
  "LED_on s = do {
     s \<leftarrow> resetLeds s;
     s \<leftarrow> calulateLEDMIBAMBits s;
     Some (s\<lparr>tim0_on := True\<rparr>) }"

definition Pause :: "led \<Rightarrow> led" where
  "Pause s = s\<lparr>LED_PATTERN := PREV_LED_PATTERN s, tim2_on := False\<rparr>"

definition Play :: "led \<Rightarrow> led" where
  "Play s = s\<lparr>LED_PATTERN := PREV_LED_PATTERN s, tim2_on := True\<rparr>"

section \<open>Patterns\<close>

text \<open>A colour at \<open>n\<close> fifths of its brightness, as the arguments \<^verbatim>\<open>C_R/5*n\<close>, and at full brightness.\<close>

definition SetColour :: "int \<Rightarrow> colour \<Rightarrow> led \<Rightarrow> led option" where
  "SetColour grp = (\<lambda>(r, g, b). SetRGB grp (ucast r) (ucast g) (ucast b))"

definition fifths :: "u32 \<Rightarrow> colour \<Rightarrow> colour" where
  "fifths n = (\<lambda>(r, g, b). (r div 5 * n, g div 5 * n, b div 5 * n))"

text \<open>
  The clock. \<open>HH\<close>, \<open>MM\<close> and \<open>SS\<close> are what \<^verbatim>\<open>GetHH\<close>, \<^verbatim>\<open>GetMM\<close> and \<^verbatim>\<open>GetSS\<close> return; \<open>tail\<close> is a statement
  \<open>SS<n ? SetRGB((SS+60)-n, ...) : SetRGB(SS-n, ...)\<close> of the source.
\<close>

definition hand_tail :: "u8 \<Rightarrow> int \<Rightarrow> colour \<Rightarrow> led \<Rightarrow> led option" where
  "hand_tail pos n c = SetColour (if uint pos < n then (uint pos + 60) - n else uint pos - n) c"

definition LED_time_sec_min :: "u8 \<Rightarrow> u8 \<Rightarrow> led \<Rightarrow> led option" where
  "LED_time_sec_min MM SS s = do {
     s \<leftarrow> for_each (\<lambda>i. case BC s of (r, g, b) \<Rightarrow> SetRGBALL (ucast r) (ucast g) (ucast b)) [0..<RGBS] s;
     s \<leftarrow> SetColour (uint SS) (SC s) s;
     s \<leftarrow> hand_tail SS 1 (fifths 4 (SC s)) s;
     s \<leftarrow> hand_tail SS 2 (fifths 3 (SC s)) s;
     s \<leftarrow> hand_tail SS 3 (fifths 2 (SC s)) s;
     s \<leftarrow> hand_tail SS 4 (fifths 1 (SC s)) s;
     s \<leftarrow> SetColour (uint MM) (MC s) s;
     s \<leftarrow> hand_tail MM 1 (fifths 4 (MC s)) s;
     s \<leftarrow> hand_tail MM 2 (fifths 3 (MC s)) s;
     hand_tail MM 3 (fifths 2 (MC s)) s }"

definition LED_time_hour :: "u8 \<Rightarrow> led \<Rightarrow> led option" where
  "LED_time_hour HH s = do {
     s \<leftarrow> SetColour ((uint HH + 12) * 5) (HC s) s;
     s \<leftarrow> SetColour (if uint HH < 1 then (uint HH + 12) * 5 - 1 else uint HH * 5 - 1) (fifths 4 (HC s)) s;
     SetColour (if uint HH < 1 then (uint HH + 12) * 5 - 2 else uint HH * 5 - 2) (fifths 3 (HC s)) s }"

definition LED_time :: "u8 \<Rightarrow> u8 \<Rightarrow> u8 \<Rightarrow> led \<Rightarrow> led option" where
  "LED_time HH MM SS s = do {
     s \<leftarrow> resetLeds s;
     let HH = (if HH > 11 then HH - 12 else HH);
     s \<leftarrow> LED_time_sec_min MM SS s;
     s \<leftarrow> LED_time_hour HH s;
     calulateLEDMIBAMBits s }"

definition LED_one_by_one :: "led \<Rightarrow> led option" where
  "LED_one_by_one s = do {
     s \<leftarrow> SetLED (word_of_int (LED_Loop s)) MAX_BRIGHTNESS s;
     s \<leftarrow> calulateLEDMIBAMBits s;
     s \<leftarrow> SetLED (word_of_int (LED_Loop s)) 0 s;
     let s = s\<lparr>LED_Loop := LED_Loop s + 1\<rparr>;
     Some (if LED_Loop s > int LEDS then s\<lparr>LED_Loop := 0\<rparr> else s) }"

definition smooth_brighter :: "u8 \<Rightarrow> led \<Rightarrow> led option" where
  "smooth_brighter colour s = do {
     s \<leftarrow> SetLED (word_of_int (LED_Loop s + uint colour)) (word_of_int (LED_Loop_v2 s)) s;
     s \<leftarrow> calulateLEDMIBAMBits s;
     let s = s\<lparr>LED_Loop_v2 := LED_Loop_v2 s + 1\<rparr>;
     let s = (if LED_Loop_v2 s > 255 then s\<lparr>LED_Loop_v2 := 0, LED_Loop := LED_Loop s + 3\<rparr> else s);
     Some (if LED_Loop s > int LEDS then s\<lparr>LED_Loop_v1 := 1, LED_Loop_v2 := 255, LED_Loop := 0\<rparr> else s) }"

definition smooth_duller :: "u8 \<Rightarrow> led \<Rightarrow> led option" where
  "smooth_duller colour s = do {
     s \<leftarrow> SetLED (word_of_int (LED_Loop s + uint colour)) (word_of_int (LED_Loop_v2 s)) s;
     s \<leftarrow> calulateLEDMIBAMBits s;
     let s = s\<lparr>LED_Loop_v2 := LED_Loop_v2 s - 1\<rparr>;
     let s = (if LED_Loop_v2 s < 0 then s\<lparr>LED_Loop_v2 := 255, LED_Loop := LED_Loop s + 3\<rparr> else s);
     Some (if LED_Loop s > int LEDS
           then s\<lparr>LED_Loop := 0, LED_Loop_v1 := 0, LED_Loop_v2 := 0, LED_Loop_v3 := 0\<rparr> else s) }"

definition LED_one_by_one_smooth_all_on_all_off :: "u8 \<Rightarrow> led \<Rightarrow> led option" where
  "LED_one_by_one_smooth_all_on_all_off colour s = do {
     s \<leftarrow> (if LED_Loop s smod 3 = 0 \<and> LED_Loop_v1 s = 0 then smooth_brighter colour s else Some s);
     if LED_Loop s smod 3 = 0 \<and> LED_Loop_v1 s = 1 then smooth_duller colour s else Some s }"

text \<open>One of the four loops of the colour test: sixteen times a frame with one register lit.\<close>

definition all_colors_frame :: "u16 \<Rightarrow> hw_event list" where
  "all_colors_frame w = [Pin_LE False] @ replicate 11 (Ssp_Send 0) @ [Ssp_Send w] @
     [Pin_LE True, Pin_LE False, Pin_OE False, Delay_ms 150]"

definition LED_simple_all_colors :: "led \<Rightarrow> led" where
  "LED_simple_all_colors s =
    (let s = s\<lparr>tim0_on := False\<rparr>;
       s = event (concat (replicate 16 (all_colors_frame 0x1249))) s;
       s = event (concat (replicate 16 (all_colors_frame 0x2492))) s;
       s = event (concat (replicate 16 (all_colors_frame 0x4924))) s;
       s = event (concat (replicate 16 (all_colors_frame 0xffff))) s
     in s\<lparr>tim0_on := True, LED_PATTERN := 0\<rparr>)"

definition LED_rotating_rainbow :: "led \<Rightarrow> led option" where
  "LED_rotating_rainbow s = do {
     let s = s\<lparr>LED_Loop := LED_Loop s + 1\<rparr>;
     let s = (if LED_Loop s = 360 then s\<lparr>LED_Loop := 0\<rparr> else s);
     s \<leftarrow> for_each (\<lambda>led s. do {
         let hue = (int led * 360 sdiv (int RGBS - 1) + LED_Loop s) smod 360;
         (red, green, blue) \<leftarrow> lookup_hsv2rgb (word_of_int hue) MAX_BRIGHTNESS;
         SetRGB (int led) red green blue s }) [0..<RGBS] s;
     calulateLEDMIBAMBits s }"

definition LED_rainbow_all :: "led \<Rightarrow> led option" where
  "LED_rainbow_all s = do {
     (red, green, blue) \<leftarrow> lookup_hsv2rgb (word_of_int (LED_Loop s)) MAX_BRIGHTNESS;
     s \<leftarrow> for_each (\<lambda>led. SetRGB (int led) red green blue) [0..<RGBS] s;
     s \<leftarrow> calulateLEDMIBAMBits s;
     let s = s\<lparr>LED_Loop := LED_Loop s + 1\<rparr>;
     Some (if LED_Loop s = 360 then s\<lparr>LED_Loop := 0\<rparr> else s) }"

definition LED_pattern_step :: "u8 \<Rightarrow> u8 \<Rightarrow> u8 \<Rightarrow> led \<Rightarrow> led option" where
  "LED_pattern_step HH MM SS s =
    (let p = LED_PATTERN s in
     if p = 0 then LED_off s
     else if p = 1 then LED_time HH MM SS s
     else if p = 2 then LED_one_by_one s
     else if p = 3 then LED_rotating_rainbow s
     else if p = 4 then Some (LED_simple_all_colors s)
     else if p = 5 then LED_one_by_one_smooth_all_on_all_off 0 s
     else if p = 6 then LED_one_by_one_smooth_all_on_all_off 1 s
     else if p = 7 then LED_one_by_one_smooth_all_on_all_off 2 s
     else if p = 8 then LED_rainbow_all s
     else if p = 9 then Some (Pause s)
     else if p = 10 then Some (Play s)
     else if p = 99 then Some s
     else LED_time HH MM SS s)"

definition LED_loop :: "u8 \<Rightarrow> u8 \<Rightarrow> u8 \<Rightarrow> led \<Rightarrow> led option" where
  "LED_loop HH MM SS s = do {
     let s = s\<lparr>Led_loopp := Led_loopp s + 1\<rparr>;
     if LED_INT_OCCURED s then do {
       let s = s\<lparr>loop_count := loop_count s + 1, Led_loopp := 0\<rparr>;
       s \<leftarrow> LED_pattern_step HH MM SS s;
       Some (s\<lparr>LED_INT_OCCURED := False\<rparr>) }
     else Some s }"

section \<open>Initialisation\<close>

definition put_lli :: "nat \<Rightarrow> nat \<Rightarrow> nat \<Rightarrow> (nat \<times> nat) option \<Rightarrow> lli list list \<Rightarrow> lli list list option" where
  "put_lli no bt reg next ll = do {
     row \<leftarrow> c_read ll (int no);
     row \<leftarrow> c_write row (int bt) \<lparr>SrcAddr = (reg, bt), NextLLI = next\<rparr>;
     c_write ll (int no) row }"

text \<open>The chain of one bit: registers 5 down to 1, then 0, 11 down to 7, and 6 as the last item.\<close>

definition dma_chain :: "nat \<Rightarrow> lli list list \<Rightarrow> lli list list option" where
  "dma_chain bt ll = do {
     (no, ll) \<leftarrow> for_each (\<lambda>reg (no, ll). do {
         ll \<leftarrow> put_lli no bt reg (Some (no + 1, bt)) ll; Some (no + 1, ll) }) [5, 4, 3, 2, 1] (0, ll);
     ll \<leftarrow> put_lli no bt 0 (Some (no + 1, bt)) ll;
     let no = no + 1;
     (no, ll) \<leftarrow> for_each (\<lambda>reg (no, ll). do {
         ll \<leftarrow> put_lli no bt reg (Some (no + 1, bt)) ll; Some (no + 1, ll) }) [11, 10, 9, 8, 7] (no, ll);
     put_lli no bt 6 None ll }"

definition LED_init_dma :: "led \<Rightarrow> led option" where
  "LED_init_dma s = do {
     ll \<leftarrow> for_each dma_chain [0..<BITS] (LinkerList s);
     Some (s\<lparr>LinkerList := ll\<rparr>) }"

definition LED_init :: "i2c_bus \<Rightarrow> led \<Rightarrow> led option" where
  "LED_init bus s = do {
     let s = event [Pin_OE True] s;
     let s = LatchIn s;
     let s = event [Pin_LE False] s;
     s \<leftarrow> for_each (\<lambda>tmp s. do {
         b \<leftarrow> c_read BITORDER (int tmp);
         sb \<leftarrow> c_write (SEQ_BIT s) (int tmp) (ucast b);
         time \<leftarrow> c_read BITTIME (uint b);
         st \<leftarrow> c_write (SEQ_TIME s) (int tmp) time;
         Some (s\<lparr>SEQ_BIT := sb, SEQ_TIME := st\<rparr>) }) [0..<no_SEQ_BITS] s;
     s \<leftarrow> resetLeds s;
     s \<leftarrow> calulateLEDMIBAMBits s;
     time \<leftarrow> c_read BITTIME 0;
     let s = s\<lparr>tim0_match := time, tim2_match := 256\<rparr>;
     let s = event [Dma_Setup 0 0] s;
     s \<leftarrow> LED_init_dma s;
     let s = s\<lparr>tim0_on := True, tim2_on := True\<rparr>;
     Set_LED_Pattern bus 1 121 65 s }"

section \<open>The bit planes are the transposed bytes\<close>

definition led_inv :: "led \<Rightarrow> bool" where
  "led_inv s \<longleftrightarrow> length (LED_RAW s) = LEDS \<and> length (LED_PRECALC s) = REGS \<and>
     (\<forall>row \<in> set (LED_PRECALC s). length row = BITS)"

definition plane_bit :: "u8 \<Rightarrow> nat \<Rightarrow> nat \<Rightarrow> u16" where
  "plane_bit v bt n = (if bit v bt then push_bit n 1 else 0)"

lemma plane_bit_eq:
  "n < 15 \<Longrightarrow> ucast (push_bit n (ucast (ucast (drop_bit bt v) :: u16) :: u32) AND push_bit n 1) = plane_bit v bt n"
  by (rule bit_word_eqI) (auto simp: plane_bit_def bit_simps)

lemma bit_plane_bit: "j < 15 \<Longrightarrow> bit (plane_bit v bt j) k \<longleftrightarrow> j = k \<and> bit v bt"
  by (auto simp: plane_bit_def bit_simps)

lemma rev_map_upt_Suc: "rev (map f [0..<Suc n]) = rev (map (\<lambda>j. f (Suc j)) [0..<n]) @ [f 0]"
  by (simp add: upt_conv_Cons map_Suc_upt[symmetric] del: upt_Suc)

lemma mibam_reg_eq:
  assumes "unat t \<le> 14" "bi + unat t = 14" "unat led + unat t < length raw" "length raw \<le> 255" "length tt = 16"
  shows "mibam_reg raw bt t led bi tt = Some (led + t + 1,
    rev (map (\<lambda>j. plane_bit (raw ! (unat led + j)) bt (bi + j)) [0..<Suc (unat t)]) @ drop (Suc (unat t)) tt)"
  using assms
proof (induction "unat t" arbitrary: t led bi tt)
  case 0
  then have "t = 0" and le: "unat led < length raw"
    by (auto simp: unat_eq_zero)
  have "\<not> (0 - 1 :: u8) < 15"
    by code_simp
  then have "mibam_reg raw bt (0 - 1) (led + 1) (bi + 1) tt' = Some (led + 1, tt')" for tt'
    by (subst mibam_reg.simps) (simp only: if_False)
  moreover have "tt[0 := x] = x # drop (Suc 0) tt" for x
    using 0(6) by (cases tt) auto
  ultimately show ?case
    using 0 le \<open>t = 0\<close> plane_bit_eq[of 14 bt "raw ! unat led"] by (subst mibam_reg.simps) (simp add: c_read_word plane_bit_eq)
next
  case (Suc n)
  let ?x = "plane_bit (raw ! unat led) bt bi"
  have "t \<noteq> 0"
    using Suc.hyps(2) by auto
  then have t: "t < 15" "unat t < 16" "unat (t - 1) = n"
    using Suc.hyps(2) Suc.prems(1) by (auto simp: word_less_nat_alt unat_minus_one)
  have led: "unat led < length raw" "unat (led + 1) = Suc (unat led)"
    using Suc.prems by (auto simp: unat_add_small)
  have "mibam_reg raw bt t led bi tt = mibam_reg raw bt (t - 1) (led + 1) (bi + 1) (tt[unat t := ?x])"
    using t led Suc.prems plane_bit_eq[of bi bt "raw ! unat led"]
    by (subst mibam_reg.simps) (simp add: c_read_word c_write_word)
  also have "\<dots> = Some (led + 1 + (t - 1) + 1,
      rev (map (\<lambda>j. plane_bit (raw ! (unat (led + 1) + j)) bt (bi + 1 + j)) [0..<Suc (unat (t - 1))]) @
      drop (Suc (unat (t - 1))) (tt[unat t := ?x]))"
    using Suc.prems Suc.hyps(2) t led by (intro Suc.hyps(1)) auto
  also have "drop (Suc (unat (t - 1))) (tt[unat t := ?x]) = ?x # drop (Suc (unat t)) tt"
    using t Suc.hyps(2) Suc.prems(5) by (simp add: drop_update_swap Cons_nth_drop_Suc[symmetric])
  finally show ?case
    using t led Suc.hyps(2) by (simp only: rev_map_upt_Suc) (simp add: algebra_simps)
qed

lemma bit_foldl_or: "bit (foldl (OR) (a :: u16) xs) k \<longleftrightarrow> bit a k \<or> (\<exists>x \<in> set xs. bit x k)"
  by (induction xs arbitrary: a) (auto simp: bit_or_iff)

text \<open>A word shows bit \<open>bt\<close> of the fifteen LEDs of register \<open>reg\<close>, and its highest bit is off.\<close>

definition shows_plane :: "u8 list \<Rightarrow> nat \<Rightarrow> nat \<Rightarrow> u16 \<Rightarrow> bool" where
  "shows_plane raw reg bt w \<longleftrightarrow> (\<forall>k. bit w k \<longleftrightarrow> k < 15 \<and> bit (raw ! (15 * reg + k)) bt)"

lemma mibam_word_eq:
  assumes "length raw = 180" "reg < 12"
  shows "\<exists>w. mibam_word raw bt (of_nat (15 * reg)) = Some (of_nat (15 * Suc reg), w) \<and> shows_plane raw reg bt w"
proof -
  let ?f = "\<lambda>j. plane_bit (raw ! (15 * reg + j)) bt j"
  let ?tt = "rev (map ?f [0..<15]) @ [0]"
  have u: "unat (of_nat (15 * reg) :: u8) = 15 * reg"
    using assms by (simp only: unsigned_of_nat) (simp add: take_bit_nat_eq_self)
  have "mibam_reg raw bt 14 (of_nat (15 * reg)) 0 (replicate 16 0) = Some (of_nat (15 * reg) + 14 + 1, ?tt)"
    using mibam_reg_eq[of 14 0 "of_nat (15 * reg)" raw "replicate 16 0" bt] assms
    by (simp add: u del: upt_Suc of_nat_mult)
  moreover have "c_write ?tt 15 0 = Some ?tt"
    by (simp add: list_update_append del: upt_Suc rev_map)
  moreover have "of_nat (15 * reg) + 14 + 1 = (of_nat (15 * Suc reg) :: u8)"
    by simp
  moreover have "(\<exists>x \<in> set ?tt. bit x k) \<longleftrightarrow> (\<exists>j < 15. bit (?f j) k)" for k
    by (auto simp del: upt_Suc)
  then have "shows_plane raw reg bt (foldl (OR) 0 ?tt)"
    unfolding shows_plane_def bit_foldl_or by (auto simp: bit_plane_bit simp del: upt_Suc)
  ultimately show ?thesis
    by (simp add: mibam_word_def del: upt_Suc foldl_append)
qed

definition planes_upto :: "u8 list \<Rightarrow> nat \<Rightarrow> u16 list list \<Rightarrow> bool" where
  "planes_upto raw n pre \<longleftrightarrow> length pre = REGS \<and> (\<forall>row \<in> set pre. length row = BITS) \<and>
     (\<forall>reg < REGS. \<forall>bt < n. shows_plane raw reg bt (pre ! reg ! bt))"

lemma mibam_plane_eq:
  assumes "length raw = 180" "planes_upto raw bt pre" "bt < 8"
  shows "\<exists>pre'. mibam_plane raw bt pre = Some pre' \<and> planes_upto raw (Suc bt) pre'"
proof -
  define body where "body = (\<lambda>(reg :: nat) (led, pre :: u16 list list). do {
    (led, w) \<leftarrow> mibam_word raw bt led;
    row \<leftarrow> c_read pre (int reg);
    row \<leftarrow> c_write row (int bt) w;
    pre \<leftarrow> c_write pre (int reg) row;
    Some (led, pre) })"
  define P where "P = (\<lambda>n (led :: u8, pre'). led = of_nat (15 * n) \<and> planes_upto raw bt pre' \<and>
    (\<forall>reg < n. shows_plane raw reg bt (pre' ! reg ! bt)))"
  have "\<exists>s'. for_each body [0..<REGS] (0, pre) = Some s' \<and> P REGS s'"
  proof (rule for_each_upt)
    show "P 0 (0, pre)"
      using assms(2) by (simp add: P_def)
  next
    fix k s
    assume k: "k < REGS" and "P k s"
    then obtain pr where s: "s = (of_nat (15 * k), pr)" and pr: "planes_upto raw bt pr"
      "\<forall>reg < k. shows_plane raw reg bt (pr ! reg ! bt)"
      by (cases s) (auto simp: P_def)
    from mibam_word_eq[OF assms(1) k, of bt] obtain w where
      w: "mibam_word raw bt (of_nat (15 * k)) = Some (of_nat (15 * Suc k), w)" "shows_plane raw k bt w"
      by blast
    have len: "length pr = REGS" "length (pr ! k) = BITS"
      using pr(1) k by (auto simp: planes_upto_def)
    let ?pr = "pr[k := (pr ! k)[bt := w]]"
    have "body k s = Some (of_nat (15 * Suc k), ?pr)"
      using w(1) len k assms(3) by (simp add: body_def s del: of_nat_mult of_nat_Suc)
    moreover have "planes_upto raw bt ?pr"
      using pr(1) len k by (auto simp: planes_upto_def nth_list_update dest!: set_update_subset_insert[THEN subsetD])
    moreover have "\<forall>reg < Suc k. shows_plane raw reg bt (?pr ! reg ! bt)"
      using pr(2) w(2) len k assms(3) by (auto simp: nth_list_update less_Suc_eq)
    ultimately show "\<exists>s'. body k s = Some s' \<and> P (Suc k) s'"
      by (auto simp: P_def)
  qed
  then obtain l pre' where "for_each body [0..<REGS] (0, pre) = Some (l, pre')" "P REGS (l, pre')"
    by auto
  then show ?thesis
    by (auto simp: mibam_plane_def P_def planes_upto_def less_Suc_eq simp flip: body_def)
qed

lemma calulateLEDMIBAMBits_ok:
  assumes "led_inv s"
  shows "\<exists>pre. calulateLEDMIBAMBits s = Some (s\<lparr>LED_PRECALC := pre\<rparr>) \<and> planes_upto (LED_RAW s) BITS pre"
proof -
  have "\<exists>pre. for_each (mibam_plane (LED_RAW s)) [0..<BITS] (LED_PRECALC s) = Some pre \<and>
      planes_upto (LED_RAW s) BITS pre"
    using assms mibam_plane_eq[of "LED_RAW s"]
    by (intro for_each_upt) (auto simp: led_inv_def planes_upto_def)
  then show ?thesis
    by (auto simp: calulateLEDMIBAMBits_def)
qed

lemma led_inv_precalc: "led_inv s \<Longrightarrow> planes_upto raw n pre \<Longrightarrow> led_inv (s\<lparr>LED_PRECALC := pre\<rparr>)"
  by (simp add: led_inv_def planes_upto_def)

section \<open>The frame buffer\<close>

text \<open>The abstraction of \<open>LED_RAW\<close>: the sixty colours in order.\<close>

definition rgb_at :: "u8 list \<Rightarrow> nat \<Rightarrow> rgb" where
  "rgb_at raw i = (raw ! (3 * i), raw ! (3 * i + 1), raw ! (3 * i + 2))"

definition frame :: "led \<Rightarrow> rgb list" where
  "frame s = map (rgb_at (LED_RAW s)) [0..<RGBS]"

lemma length_frame [simp]: "length (frame s) = 60"
  by (simp add: frame_def)

lemma frame_PRECALC [simp]: "frame (s\<lparr>LED_PRECALC := p\<rparr>) = frame s"
  by (simp add: frame_def)

lemma and_max_brightness [simp]: "(v :: u8) AND 0xff = v"
proof -
  have "(0xff :: u8) = - 1"
    by simp
  then show ?thesis
    by (simp only: and.right_neutral)
qed

lemma SetRGB_ok:
  assumes "led_inv s" "i < 60"
  shows "\<exists>raw. SetRGB (int i) r g b s = Some (s\<lparr>LED_RAW := raw\<rparr>) \<and> led_inv (s\<lparr>LED_RAW := raw\<rparr>) \<and>
    frame (s\<lparr>LED_RAW := raw\<rparr>) = (frame s)[i := (r, g, b)]"
proof -
  let ?raw = "(LED_RAW s)[3 * i := r, 3 * i + 1 := g, 3 * i + 2 := b]"
  have len: "length (LED_RAW s) = 180"
    using assms(1) by (simp add: led_inv_def)
  have n: "nat (int i * 3) = 3 * i" "nat (int i * 3 + 1) = 3 * i + 1" "nat (int i * 3 + 2) = 3 * i + 2"
    by auto
  have "SetRGB (int i) r g b s = Some (s\<lparr>LED_RAW := ?raw\<rparr>)"
    using len assms(2) by (simp add: SetRGB_def n)
  moreover have "rgb_at ?raw j = (if j = i then (r, g, b) else rgb_at (LED_RAW s) j)" if "j < 60" for j
    using that len assms(2) by (auto simp: rgb_at_def nth_list_update)
  then have "frame (s\<lparr>LED_RAW := ?raw\<rparr>) = (frame s)[i := (r, g, b)]"
    by (intro nth_equalityI) (auto simp: frame_def nth_list_update)
  ultimately show ?thesis
    using assms(1) by (auto simp: led_inv_def)
qed

lemma SetRGB_outside: "led_inv s \<Longrightarrow> 60 \<le> grp \<Longrightarrow> SetRGB grp r g b s = None"
  by (simp add: SetRGB_def c_write_def led_inv_def)

lemma resetLeds_ok:
  assumes "led_inv s"
  shows "resetLeds s = Some (s\<lparr>LED_RAW := replicate 180 0\<rparr>)"
proof -
  have "\<exists>raw. for_each (\<lambda>a raw. c_write raw (int a) 0) [0..<LEDS] (LED_RAW s) = Some raw \<and>
      (length raw = 180 \<and> (\<forall>i < LEDS. raw ! i = 0))"
    by (rule for_each_upt) (use assms in \<open>auto simp: led_inv_def nth_list_update less_Suc_eq\<close>)
  then obtain raw where raw: "for_each (\<lambda>a raw. c_write raw (int a) 0) [0..<LEDS] (LED_RAW s) = Some raw"
    "length raw = 180" "\<forall>i < LEDS. raw ! i = 0"
    by blast
  then have "raw = replicate 180 0"
    by (intro nth_equalityI) auto
  with raw(1) show ?thesis
    by (simp add: resetLeds_def del: upt_Suc)
qed

lemma led_inv_reset: "led_inv s \<Longrightarrow> led_inv (s\<lparr>LED_RAW := replicate 180 0\<rparr>)"
  by (simp add: led_inv_def)

lemma frame_reset: "frame (s\<lparr>LED_RAW := replicate 180 0\<rparr>) = replicate 60 (0, 0, 0)"
  by (intro nth_equalityI) (auto simp: frame_def rgb_at_def)

text \<open>A loop that sets the LEDs one after the other to given colours.\<close>

lemma SetRGB_all:
  assumes inv: "led_inv s"
    and body: "\<And>i s'. i < 60 \<Longrightarrow> s' = s\<lparr>LED_RAW := LED_RAW s'\<rparr> \<Longrightarrow>
      body i s' = (case c i of (r, g, b) \<Rightarrow> SetRGB (int i) r g b s')"
  shows "\<exists>raw. for_each body [0..<RGBS] s = Some (s\<lparr>LED_RAW := raw\<rparr>) \<and> led_inv (s\<lparr>LED_RAW := raw\<rparr>) \<and>
    frame (s\<lparr>LED_RAW := raw\<rparr>) = map c [0..<60]"
proof -
  define P where "P = (\<lambda>n s'. s' = s\<lparr>LED_RAW := LED_RAW s'\<rparr> \<and> led_inv s' \<and> (\<forall>i < n. frame s' ! i = c i))"
  have "\<exists>s'. for_each body [0..<RGBS] s = Some s' \<and> P RGBS s'"
  proof (rule for_each_upt)
    show "P 0 s"
      using inv by (simp add: P_def)
  next
    fix k s'
    assume k: "k < RGBS" and "P k s'"
    then have s': "s' = s\<lparr>LED_RAW := LED_RAW s'\<rparr>" "led_inv s'" "\<forall>i < k. frame s' ! i = c i"
      by (auto simp: P_def)
    obtain r g b where c: "c k = (r, g, b)"
      by (cases "c k")
    from SetRGB_ok[OF s'(2) k, of r g b] obtain raw where
      raw: "SetRGB (int k) r g b s' = Some (s'\<lparr>LED_RAW := raw\<rparr>)" "led_inv (s'\<lparr>LED_RAW := raw\<rparr>)"
      "frame (s'\<lparr>LED_RAW := raw\<rparr>) = (frame s')[k := (r, g, b)]"
      by blast
    moreover have "s'\<lparr>LED_RAW := raw\<rparr> = s\<lparr>LED_RAW := raw\<rparr>"
      by (subst s'(1)) simp
    ultimately have "P (Suc k) (s'\<lparr>LED_RAW := raw\<rparr>)"
      using s'(3) k c by (auto simp: P_def nth_list_update less_Suc_eq)
    then show "\<exists>s''. body k s' = Some s'' \<and> P (Suc k) s''"
      using raw(1) body[OF k s'(1)] c by auto
  qed
  then obtain s' where "for_each body [0..<RGBS] s = Some s'" "s' = s\<lparr>LED_RAW := LED_RAW s'\<rparr>"
    "led_inv s'" "\<forall>i < 60. frame s' ! i = c i"
    by (auto simp: P_def)
  moreover from this(4) have "frame s' = map c [0..<60]"
    by (intro nth_equalityI) auto
  ultimately show ?thesis
    by metis
qed

section \<open>Patterns\<close>

definition low_bytes :: "colour \<Rightarrow> rgb" where
  "low_bytes = (\<lambda>(r, g, b). (ucast r, ucast g, ucast b))"

lemma SetColour_ok:
  assumes "led_inv s" "i < 60"
  shows "\<exists>raw. SetColour (int i) c s = Some (s\<lparr>LED_RAW := raw\<rparr>) \<and> led_inv (s\<lparr>LED_RAW := raw\<rparr>) \<and>
    frame (s\<lparr>LED_RAW := raw\<rparr>) = (frame s)[i := low_bytes c]"
  using SetRGB_ok[OF assms] by (cases c) (simp add: SetColour_def low_bytes_def)

lemma hand_tail_index:
  assumes "unat (pos :: u8) < 60" "n \<le> 60"
  shows "(if uint pos < int n then (uint pos + 60) - int n else uint pos - int n) = int ((unat pos + 60 - n) mod 60)"
proof -
  have "(unat pos + 60 - n) mod 60 = (if unat pos < n then unat pos + 60 - n else unat pos - n)"
    using assms by (auto simp: mod_if)
  then show ?thesis
    using assms by (auto simp: uint_less_nat of_nat_diff)
qed

lemma hand_tail_ok:
  assumes "led_inv s" "unat (pos :: u8) < 60" "n \<le> 60"
  shows "\<exists>raw. hand_tail pos (int n) c s = Some (s\<lparr>LED_RAW := raw\<rparr>) \<and> led_inv (s\<lparr>LED_RAW := raw\<rparr>) \<and>
    frame (s\<lparr>LED_RAW := raw\<rparr>) = (frame s)[(unat pos + 60 - n) mod 60 := low_bytes c]"
  unfolding hand_tail_def hand_tail_index[OF assms(2,3)]
  by (rule SetColour_ok[OF assms(1)]) simp

definition paint :: "rgb list \<Rightarrow> nat \<times> colour \<Rightarrow> rgb list" where
  "paint f = (\<lambda>(i, c). f[i := low_bytes c])"

text \<open>The strokes of a hand at \<open>pos\<close>: its colour, then the fading tail behind it, around the dial.\<close>

definition hand :: "nat \<Rightarrow> colour \<Rightarrow> nat \<Rightarrow> (nat \<times> colour) list" where
  "hand pos c n = (pos, c) # map (\<lambda>k. ((pos + 60 - k) mod 60, fifths (5 - of_nat k) c)) [1..<Suc n]"

lemma LED_time_background:
  assumes "led_inv s"
  shows "\<exists>raw. for_each (\<lambda>i. case BC s of (r, g, b) \<Rightarrow> SetRGBALL (ucast r) (ucast g) (ucast b)) [0..<RGBS] s =
      Some (s\<lparr>LED_RAW := raw\<rparr>) \<and> led_inv (s\<lparr>LED_RAW := raw\<rparr>) \<and>
    frame (s\<lparr>LED_RAW := raw\<rparr>) = replicate 60 (low_bytes (BC s))"
proof -
  obtain r g b where c: "BC s = (r, g, b)"
    by (cases "BC s")
  define P where "P = (\<lambda>n s'. s' = s\<lparr>LED_RAW := LED_RAW s'\<rparr> \<and> led_inv s' \<and>
    (n \<noteq> (0 :: nat) \<longrightarrow> frame s' = replicate 60 (low_bytes (BC s))))"
  have rep: "map (\<lambda>i. x) [0..<60] = replicate 60 x" for x :: rgb
    by (intro nth_equalityI) auto
  have "\<exists>s'. for_each (\<lambda>i :: nat. SetRGBALL (ucast r) (ucast g) (ucast b)) [0..<RGBS] s = Some s' \<and> P RGBS s'"
  proof (rule for_each_upt)
    show "P 0 s"
      using assms by (simp add: P_def)
  next
    fix k :: nat and s'
    assume "P k s'"
    then have s': "s' = s\<lparr>LED_RAW := LED_RAW s'\<rparr>" "led_inv s'"
      by (auto simp: P_def)
    from SetRGB_all[OF s'(2), of "\<lambda>t. SetRGB (int t) (ucast r) (ucast g) (ucast b)" "\<lambda>_. low_bytes (BC s)"]
    obtain raw where "SetRGBALL (ucast r) (ucast g) (ucast b) s' = Some (s'\<lparr>LED_RAW := raw\<rparr>)"
      "led_inv (s'\<lparr>LED_RAW := raw\<rparr>)" "frame (s'\<lparr>LED_RAW := raw\<rparr>) = replicate 60 (low_bytes (BC s))"
      by (auto simp: SetRGBALL_def low_bytes_def c rep simp del: upt_Suc)
    moreover have "s'\<lparr>LED_RAW := raw\<rparr> = s\<lparr>LED_RAW := raw\<rparr>"
      by (subst s'(1)) simp
    ultimately show "\<exists>s''. SetRGBALL (ucast r) (ucast g) (ucast b) s' = Some s'' \<and> P (Suc k) s''"
      by (auto simp: P_def)
  qed
  then obtain s' where "for_each (\<lambda>i :: nat. SetRGBALL (ucast r) (ucast g) (ucast b)) [0..<RGBS] s = Some s'"
    and s': "s\<lparr>LED_RAW := LED_RAW s'\<rparr> = s'" "led_inv s'" "frame s' = replicate 60 (low_bytes (BC s))"
    by (auto simp: P_def)
  then show ?thesis
    by (intro exI[of _ "LED_RAW s'"]) (simp add: c s'(1) del: upt_Suc)
qed

text \<open>An operation that sets the LED \<open>i\<close> of the frame, and how such strokes follow one another.\<close>

definition draws :: "(led \<Rightarrow> led option) \<Rightarrow> nat \<Rightarrow> colour \<Rightarrow> bool" where
  "draws op i c \<longleftrightarrow> (\<forall>s. led_inv s \<longrightarrow> (\<exists>raw. op s = Some (s\<lparr>LED_RAW := raw\<rparr>) \<and>
     led_inv (s\<lparr>LED_RAW := raw\<rparr>) \<and> frame (s\<lparr>LED_RAW := raw\<rparr>) = paint (frame s) (i, c)))"

lemma draws_SetColour: "unat (pos :: u8) < 60 \<Longrightarrow> draws (SetColour (uint pos) c) (unat pos) c"
  using SetColour_ok[of _ "unat pos" c] by (simp add: draws_def paint_def)

lemma draws_tail: "unat pos < 60 \<Longrightarrow> n \<le> 60 \<Longrightarrow> draws (hand_tail pos (int n) c) ((unat pos + 60 - n) mod 60) c"
  using hand_tail_ok[of _ pos n c] by (simp add: draws_def paint_def)

lemmas draws_tails = draws_tail[where n = 1, simplified] draws_tail[where n = 2, simplified]
  draws_tail[where n = 3, simplified] draws_tail[where n = 4, simplified]

definition drawn :: "led \<Rightarrow> rgb list \<Rightarrow> led option \<Rightarrow> bool" where
  "drawn s f r \<longleftrightarrow> (\<exists>raw. r = Some (s\<lparr>LED_RAW := raw\<rparr>) \<and> led_inv (s\<lparr>LED_RAW := raw\<rparr>) \<and>
     frame (s\<lparr>LED_RAW := raw\<rparr>) = f)"

lemma drawn_bind:
  assumes "drawn s f r" "draws op i c"
    and "\<And>raw. k (s\<lparr>LED_RAW := raw\<rparr>) = op (s\<lparr>LED_RAW := raw\<rparr>)"
  shows "drawn s (paint f (i, c)) (Option.bind r k)"
  using assms unfolding drawn_def draws_def by fastforce

lemma LED_time_sec_min_ok:
  assumes "led_inv s" "unat MM < 60" "unat SS < 60"
  shows "drawn s (foldl paint (replicate 60 (low_bytes (BC s)))
      (hand (unat SS) (SC s) 4 @ hand (unat MM) (MC s) 3)) (LED_time_sec_min MM SS s)"
proof -
  let ?bg = "for_each (\<lambda>i. case BC s of (r, g, b) \<Rightarrow> SetRGBALL (ucast r) (ucast g) (ucast b)) [0..<RGBS] s"
  have bg: "drawn s (replicate 60 (low_bytes (BC s))) ?bg"
    using LED_time_background[OF assms(1)] by (simp add: drawn_def del: upt_Suc)
  note d = draws_SetColour draws_tails
  note 1 = drawn_bind[OF bg d(1)[OF assms(3), of "SC s"], of "\<lambda>s. SetColour (uint SS) (SC s) s"]
  note 2 = drawn_bind[OF 1 d(2)[OF assms(3), of "fifths 4 (SC s)"], of "\<lambda>s. hand_tail SS 1 (fifths 4 (SC s)) s"]
  note 3 = drawn_bind[OF 2 d(3)[OF assms(3), of "fifths 3 (SC s)"], of "\<lambda>s. hand_tail SS 2 (fifths 3 (SC s)) s"]
  note 4 = drawn_bind[OF 3 d(4)[OF assms(3), of "fifths 2 (SC s)"], of "\<lambda>s. hand_tail SS 3 (fifths 2 (SC s)) s"]
  note 5 = drawn_bind[OF 4 d(5)[OF assms(3), of "fifths 1 (SC s)"], of "\<lambda>s. hand_tail SS 4 (fifths 1 (SC s)) s"]
  note 6 = drawn_bind[OF 5 d(1)[OF assms(2), of "MC s"], of "\<lambda>s. SetColour (uint MM) (MC s) s"]
  note 7 = drawn_bind[OF 6 d(2)[OF assms(2), of "fifths 4 (MC s)"], of "\<lambda>s. hand_tail MM 1 (fifths 4 (MC s)) s"]
  note 8 = drawn_bind[OF 7 d(3)[OF assms(2), of "fifths 3 (MC s)"], of "\<lambda>s. hand_tail MM 2 (fifths 3 (MC s)) s"]
  note 9 = drawn_bind[OF 8 d(4)[OF assms(2), of "fifths 2 (MC s)"], of "\<lambda>s. hand_tail MM 3 (fifths 2 (MC s)) s"]
  have "LED_time_sec_min MM SS s =
      ?bg \<bind> (\<lambda>s. SetColour (uint SS) (SC s) s) \<bind> (\<lambda>s. hand_tail SS 1 (fifths 4 (SC s)) s) \<bind>
      (\<lambda>s. hand_tail SS 2 (fifths 3 (SC s)) s) \<bind> (\<lambda>s. hand_tail SS 3 (fifths 2 (SC s)) s) \<bind>
      (\<lambda>s. hand_tail SS 4 (fifths 1 (SC s)) s) \<bind> (\<lambda>s. SetColour (uint MM) (MC s) s) \<bind>
      (\<lambda>s. hand_tail MM 1 (fifths 4 (MC s)) s) \<bind> (\<lambda>s. hand_tail MM 2 (fifths 3 (MC s)) s) \<bind>
      (\<lambda>s. hand_tail MM 3 (fifths 2 (MC s)) s)"
    by (simp add: LED_time_sec_min_def)
  then show ?thesis
    using 9 by (simp add: hand_def upt_rec)
qed

section \<open>The modulation cycle\<close>

text \<open>The tables that \<^verbatim>\<open>LED_init\<close> fills in, and a place in the sequence.\<close>

definition seq_ok :: "led \<Rightarrow> bool" where
  "seq_ok s \<longleftrightarrow> SEQ_BIT s = map (\<lambda>i. of_nat (i mod 8)) [0..<16] \<and>
     SEQ_TIME s = map (\<lambda>i. 8 * 2 ^ (i mod 8)) [0..<16] \<and> unat (SENDSEQ s) < 16"

lemma seq_step:
  assumes "seq_ok s" "unat (SENDSEQ s) = i"
  shows "\<exists>s'. TIMER0_IRQHandler True s = Some s' \<and> seq_ok s' \<and> unat (SENDSEQ s') = Suc i mod 16 \<and>
    unat (tim0_match s') = 8 * 2 ^ (i mod 8) \<and> hw s' = hw s @ [Dma_Setup 0 (i mod 8), Dma_Enable, Pin_OE True] \<and>
    LED_PRECALC s' = LED_PRECALC s \<and> LED_RAW s' = LED_RAW s \<and> LinkerList s' = LinkerList s"
proof -
  have i: "i < 16"
    using assms by (simp add: seq_ok_def)
  have len: "length (SEQ_BIT s) = 16" "length (SEQ_TIME s) = 16"
    using assms(1) by (simp_all add: seq_ok_def)
  have nth: "SEQ_BIT s ! i = of_nat (i mod 8)" "SEQ_TIME s ! i = 8 * 2 ^ (i mod 8)"
    using assms(1) i by (simp_all add: seq_ok_def del: upt_Suc)
  have "unat (ucast (of_nat (i mod 8) :: u16) :: u8) = i mod 8"
    by (simp add: unat_ucast_mod unsigned_of_nat take_bit_nat_eq_self)
  moreover have "unat (8 * 2 ^ (i mod 8) :: u32) = 8 * 2 ^ (i mod 8)"
  proof -
    have "list_all (\<lambda>k. unat (8 * 2 ^ k :: u32) = 8 * 2 ^ k) [0..<8]"
      by code_simp
    then show ?thesis
      by (simp add: list_all_iff)
  qed
  moreover have "unat (SENDSEQ s + 1) = Suc i"
    using assms(2) i by (simp add: unat_add_small)
  moreover have "Suc i mod 16 = (if 15 \<le> i then 0 else Suc i)"
    using i by (cases "i = 15") auto
  ultimately show ?thesis
    using assms i len nth
    by (auto simp: TIMER0_IRQHandler_def c_read_word event_def Let_def seq_ok_def simp del: upt_Suc)
qed

lemma byte_as_sum: "(\<Sum>b \<leftarrow> [0..<8]. if bit (v :: u8) b then 2 ^ b else 0) = unat v"
proof -
  have "(\<Sum>b \<leftarrow> [0..<n]. if bit v b then 2 ^ b else 0) = take_bit n (unat v)" for n
    by (induction n) (simp_all add: take_bit_Suc_from_most bit_unsigned_iff)
  from this[of 8] show ?thesis
    by (simp add: take_bit_nat_eq_self del: upt_Suc)
qed

section \<open>The DMA chain\<close>

definition ll_shape :: "lli list list \<Rightarrow> bool" where
  "ll_shape ll \<longleftrightarrow> length ll = REGS \<and> (\<forall>row \<in> set ll. length row = BITS)"

definition send_order :: "nat list" where
  "send_order = [5, 4, 3, 2, 1, 0, 11, 10, 9, 8, 7, 6]"

lemma length_send_order: "length send_order = 12"
  by (simp add: send_order_def)

definition chain_item :: "nat \<Rightarrow> nat \<Rightarrow> lli" where
  "chain_item bt no = \<lparr>SrcAddr = (send_order ! no, bt), NextLLI = (if no = 11 then None else Some (no + 1, bt))\<rparr>"

text \<open>What the DMA controller does: it sends the word of an item and goes on with the next one.\<close>

fun dma_follow :: "lli list list \<Rightarrow> nat \<Rightarrow> (nat \<times> nat) option \<Rightarrow> (nat \<times> nat) list option" where
  "dma_follow ll n None = Some []"
| "dma_follow ll 0 (Some p) = None"
| "dma_follow ll (Suc n) (Some (no, bt)) = do {
     row \<leftarrow> c_read ll (int no);
     item \<leftarrow> c_read row (int bt);
     rest \<leftarrow> dma_follow ll n (NextLLI item);
     Some (SrcAddr item # rest) }"

lemma put_lli_ok:
  assumes "ll_shape ll" "no < 12" "bt < 8"
  shows "put_lli no bt reg next ll = Some (ll[no := (ll ! no)[bt := \<lparr>SrcAddr = (reg, bt), NextLLI = next\<rparr>]])"
    "ll_shape (ll[no := (ll ! no)[bt := \<lparr>SrcAddr = (reg, bt), NextLLI = next\<rparr>]])"
proof -
  have "length (ll ! no) = 8" "length ll = 12"
    using assms by (auto simp: ll_shape_def)
  then show "put_lli no bt reg next ll = Some (ll[no := (ll ! no)[bt := \<lparr>SrcAddr = (reg, bt), NextLLI = next\<rparr>]])"
    "ll_shape (ll[no := (ll ! no)[bt := \<lparr>SrcAddr = (reg, bt), NextLLI = next\<rparr>]])"
    using assms by (auto simp: put_lli_def ll_shape_def dest!: set_update_subset_insert[THEN subsetD])
qed

text \<open>The loop body of \<open>dma_chain\<close> for the items from \<open>no\<close> on, as one loop over the item numbers.\<close>

definition chain_body :: "nat \<Rightarrow> nat \<Rightarrow> lli list list \<Rightarrow> lli list list option" where
  "chain_body bt no ll = put_lli no bt (send_order ! no) (if no = 11 then None else Some (no + 1, bt)) ll"

lemma dma_chain_eq: "dma_chain bt ll = for_each (chain_body bt) [0..<12] ll"
proof -
  have "[0..<12] = [0, 1, 2, 3, 4, 5, 6, 7, 8, 9, 10, 11]"
    by code_simp
  then show ?thesis
    by (simp add: dma_chain_def chain_body_def send_order_def for_each_Cons_fun for_each_Nil_fun del: upt_Suc)
      (simp add: numeral_eq_Suc)
qed

lemma dma_chain_ok:
  assumes "ll_shape ll" "bt < 8"
  shows "\<exists>ll'. dma_chain bt ll = Some ll' \<and> ll_shape ll' \<and>
    (\<forall>no < 12. \<forall>b < 8. ll' ! no ! b = (if b = bt then chain_item bt no else ll ! no ! b))"
proof -
  define P where "P = (\<lambda>n ll'. ll_shape ll' \<and>
    (\<forall>no < 12. \<forall>b < 8. ll' ! no ! b = (if b = bt \<and> no < n then chain_item bt no else ll ! no ! b)))"
  have "\<exists>ll'. for_each (chain_body bt) [0..<12] ll = Some ll' \<and> P 12 ll'"
  proof (rule for_each_upt)
    show "P 0 ll"
      using assms by (simp add: P_def)
  next
    fix k l
    assume k: "k < 12" and "P k l"
    then have l: "ll_shape l" "\<forall>no < 12. \<forall>b < 8. l ! no ! b = (if b = bt \<and> no < k then chain_item bt no else ll ! no ! b)"
      by (auto simp: P_def)
    have len: "length l = 12" "length (l ! k) = 8"
      using l(1) k by (auto simp: ll_shape_def)
    let ?l = "l[k := (l ! k)[bt := chain_item bt k]]"
    have "chain_body bt k l = Some ?l" "ll_shape ?l"
      using put_lli_ok[OF l(1) k assms(2)] by (simp_all add: chain_body_def chain_item_def)
    moreover have "\<forall>no < 12. \<forall>b < 8. ?l ! no ! b = (if b = bt \<and> no < Suc k then chain_item bt no else ll ! no ! b)"
      using l(2) len k by (auto simp: nth_list_update less_Suc_eq)
    ultimately show "\<exists>l'. chain_body bt k l = Some l' \<and> P (Suc k) l'"
      by (auto simp: P_def)
  qed
  then show ?thesis
    by (auto simp: P_def dma_chain_eq)
qed

lemma LED_init_dma_ok:
  assumes "ll_shape (LinkerList s)"
  shows "\<exists>ll. LED_init_dma s = Some (s\<lparr>LinkerList := ll\<rparr>) \<and> ll_shape ll \<and>
    (\<forall>no < 12. \<forall>b < 8. ll ! no ! b = chain_item b no)"
proof -
  have "\<exists>ll. for_each dma_chain [0..<BITS] (LinkerList s) = Some ll \<and>
      (ll_shape ll \<and> (\<forall>no < 12. \<forall>b < BITS. ll ! no ! b = chain_item b no))"
  proof (rule for_each_upt)
    fix k ll
    assume k: "k < BITS" and "ll_shape ll \<and> (\<forall>no < 12. \<forall>b < k. ll ! no ! b = chain_item b no)"
    with dma_chain_ok[of ll k] obtain ll' where "dma_chain k ll = Some ll'" "ll_shape ll'"
      "\<forall>no < 12. \<forall>b < 8. ll' ! no ! b = (if b = k then chain_item k no else ll ! no ! b)"
      "\<forall>no < 12. \<forall>b < k. ll ! no ! b = chain_item b no"
      by blast
    with k show "\<exists>ll'. dma_chain k ll = Some ll' \<and> ll_shape ll' \<and>
        (\<forall>no < 12. \<forall>b < Suc k. ll' ! no ! b = chain_item b no)"
      by (auto simp: less_Suc_eq)
  qed (use assms in simp)
  then show ?thesis
    by (auto simp: LED_init_dma_def)
qed

lemma dma_follow_chain:
  assumes "ll_shape ll" "bt < 8" "\<forall>no < 12. ll ! no ! bt = chain_item bt no" "no < 12"
  shows "dma_follow ll (12 - no) (Some (no, bt)) = Some (map (\<lambda>r. (r, bt)) (drop no send_order))"
  using assms(4)
proof (induction "12 - no" arbitrary: no)
  case (Suc n)
  have len: "length ll = 12" "length (ll ! no) = 8"
    using assms(1) Suc.prems by (auto simp: ll_shape_def)
  have item: "ll ! no ! bt = chain_item bt no"
    using assms(3) Suc.prems by blast
  have drop: "drop no send_order = send_order ! no # drop (Suc no) send_order"
    using Suc.prems Cons_nth_drop_Suc[of no send_order] by (simp add: length_send_order)
  show ?case
  proof (cases "no = 11")
    case True
    with len item assms(2) show ?thesis
      by (simp add: chain_item_def send_order_def)
  next
    case False
    moreover have "n = 12 - Suc no"
      using Suc.hyps(2) by simp
    ultimately have "dma_follow ll n (Some (Suc no, bt)) = Some (map (\<lambda>r. (r, bt)) (drop (Suc no) send_order))"
      using Suc.hyps(1)[of "Suc no"] Suc.prems by simp
    with False len item assms(2) Suc.prems Suc.hyps(2)[symmetric] drop show ?thesis
      by (simp add: chain_item_def)
  qed
qed simp

section \<open>The panel\<close>

text \<open>
  What the events do to the LEDs: twelve shift registers in a chain, of which each word that is sent moves all words on by one; their
  outputs, which take over the words while \<^verbatim>\<open>LE\<close> is high; and the common switch \<^verbatim>\<open>OE\<close>, which is off while high. A started DMA
  channel sends first the word \<open>w\<close> that its own registers name (address 0, whatever is there), and then those of the chain.
\<close>

record panel =
  shift_regs :: "u16 list"
  outputs :: "u16 list"
  dark :: bool
  dma_start :: "(nat \<times> nat) option"

definition push_word :: "u16 list \<Rightarrow> u16 \<Rightarrow> u16 list" where
  "push_word xs v = drop 1 (xs @ [v])"

definition precalc_word :: "led \<Rightarrow> nat \<times> nat \<Rightarrow> u16 option" where
  "precalc_word s = (\<lambda>(reg, bt). do { row \<leftarrow> c_read (LED_PRECALC s) (int reg); c_read row (int bt) })"

fun panel_event :: "u16 \<Rightarrow> led \<Rightarrow> hw_event \<Rightarrow> panel \<Rightarrow> panel option" where
  "panel_event w s (Pin_LE b) p = Some (if b then p\<lparr>outputs := shift_regs p\<rparr> else p)"
| "panel_event w s (Pin_OE b) p = Some (p\<lparr>dark := b\<rparr>)"
| "panel_event w s (Ssp_Send v) p = Some (p\<lparr>shift_regs := push_word (shift_regs p) v\<rparr>)"
| "panel_event w s (Dma_Setup no bt) p = Some (p\<lparr>dma_start := Some (no, bt)\<rparr>)"
| "panel_event w s Dma_Enable p = do {
     path \<leftarrow> dma_follow (LinkerList s) 12 (dma_start p);
     words \<leftarrow> those (map (precalc_word s) path);
     Some (p\<lparr>shift_regs := foldl push_word (shift_regs p) (w # words)\<rparr>) }"
| "panel_event w s (Delay_ms n) p = Some p"
| "panel_event w s (I2C_Request r) p = Some p"

fun panel_events :: "u16 \<Rightarrow> led \<Rightarrow> hw_event list \<Rightarrow> panel \<Rightarrow> panel option" where
  "panel_events w s [] p = Some p"
| "panel_events w s (e # es) p = do { p \<leftarrow> panel_event w s e p; panel_events w s es p }"

text \<open>The word that was sent first is in the last register of the chain.\<close>

definition led_lit :: "nat \<Rightarrow> nat \<Rightarrow> panel \<Rightarrow> bool" where
  "led_lit reg k p \<longleftrightarrow> \<not> dark p \<and> bit (outputs p ! (if reg < 6 then 5 - reg else 17 - reg)) k"

text \<open>
  One period of timer 0: its interrupt; the interrupt of the DMA transfer, which starts timer 1; and, \<open>d\<close> microseconds after the first,
  when the transfer is over, the interrupt of timer 1, which then stops. If the next interrupt of timer 0 comes first, timer 1
  goes on into the next period. The first result is the time for which the LED of bit \<open>k\<close> of register \<open>reg\<close> is lit in the period.
\<close>

definition led_period :: "u16 \<Rightarrow> nat \<Rightarrow> nat \<Rightarrow> nat \<Rightarrow> led \<Rightarrow> panel \<Rightarrow> (nat \<times> led \<times> panel) option" where
  "led_period w d reg k s p = do {
     s1 \<leftarrow> TIMER0_IRQHandler True s;
     p1 \<leftarrow> panel_events w s1 (drop (length (hw s)) (hw s1)) p;
     let s2 = DMA_IRQHandler True True False s1;
     let s3 = (if tim1_on s2 \<and> d < unat (tim0_match s2) then (TIMER1_IRQHandler True s2)\<lparr>tim1_on := False\<rparr> else s2);
     p3 \<leftarrow> panel_events w s3 (drop (length (hw s1)) (hw s3)) p1;
     Some ((if led_lit reg k p1 then min d (unat (tim0_match s1)) else 0) + (if led_lit reg k p3 then unat (tim0_match s3) - d else 0), s3, p3) }"

fun led_periods :: "u16 \<Rightarrow> (nat \<Rightarrow> nat) \<Rightarrow> nat \<Rightarrow> nat \<Rightarrow> nat \<Rightarrow> nat \<Rightarrow> led \<Rightarrow> panel \<Rightarrow> (nat \<times> led \<times> panel) option" where
  "led_periods w d reg k 0 i s p = Some (0, s, p)"
| "led_periods w d reg k (Suc n) i s p = do {
     (t, s, p) \<leftarrow> led_period w (d i) reg k s p;
     (t', s, p) \<leftarrow> led_periods w d reg k n (Suc i) s p;
     Some (t + t', s, p) }"

lemma push_words:
  assumes "length xs = n" "length ws = n"
  shows "foldl push_word xs (w # ws) = ws"
proof -
  have "foldl push_word ys us = drop (length us) (ys @ us)" for ys us
  proof (induction us arbitrary: ys)
    case (Cons u us)
    then show ?case by (cases ys) (simp_all add: push_word_def del: drop_append)
  qed simp
  then show ?thesis
    using assms by (simp add: push_word_def)
qed

text \<open>The state in the cycle: the bit planes belong to \<open>raw\<close>, the chains and the sequence are set up.\<close>

definition cycle_ok :: "u8 list \<Rightarrow> nat \<Rightarrow> led \<Rightarrow> bool" where
  "cycle_ok raw i s \<longleftrightarrow> seq_ok s \<and> unat (SENDSEQ s) = i mod 16 \<and> planes_upto raw BITS (LED_PRECALC s) \<and>
     ll_shape (LinkerList s) \<and> (\<forall>no < 12. \<forall>b < 8. LinkerList s ! no ! b = chain_item b no)"

lemma dma_sends_plane:
  assumes "cycle_ok raw i s" "bt < 8" "length (shift_regs p) = 12" "dma_start p = Some (0, bt)"
  shows "panel_event w s Dma_Enable p = Some (p\<lparr>shift_regs := map (\<lambda>r. LED_PRECALC s ! r ! bt) send_order\<rparr>)"
proof -
  have "dma_follow (LinkerList s) 12 (Some (0, bt)) = Some (map (\<lambda>r. (r, bt)) send_order)"
    using dma_follow_chain[of "LinkerList s" bt 0] assms(1,2) by (simp add: cycle_ok_def)
  moreover have "those (map (precalc_word s) (map (\<lambda>r. (r, bt)) send_order)) = Some (map (\<lambda>r. LED_PRECALC s ! r ! bt) send_order)"
  proof -
    have "precalc_word s (r, bt) = Some (LED_PRECALC s ! r ! bt)" if "r < 12" for r
      using assms(1,2) that by (simp add: precalc_word_def cycle_ok_def planes_upto_def)
    then show ?thesis
      by (simp add: send_order_def)
  qed
  moreover have "length (map (\<lambda>r. LED_PRECALC s ! r ! bt) send_order) = 12"
    by (simp add: send_order_def)
  ultimately show ?thesis
    using assms(3,4) push_words[of "shift_regs p" 12 "map (\<lambda>r. LED_PRECALC s ! r ! bt) send_order" w] by simp
qed

lemma sent_position:
  assumes "reg < 12"
  shows "map f send_order ! (if reg < 6 then 5 - reg else 17 - reg) = f reg"
proof -
  have "list_all (\<lambda>reg. (if reg < 6 then 5 - reg else 17 - reg) < 12 \<and> send_order ! (if reg < 6 then 5 - reg else 17 - reg) = reg) [0..<12]"
    by code_simp
  with assms show ?thesis
    by (simp add: list_all_iff length_send_order del: if_split)
qed

lemma led_period_ok:
  assumes "cycle_ok raw i s" "length (shift_regs p) = 12" "reg < 12" "k < 15"
  shows "\<exists>s' p'. led_period w d reg k s p = Some (if bit (raw ! (15 * reg + k)) (i mod 8) then 8 * 2 ^ (i mod 8) - d else 0, s', p') \<and>
    cycle_ok raw (Suc i) s' \<and> length (shift_regs p') = 12"
proof -
  have i: "i mod 16 mod 8 = i mod 8"
    by (rule mod_mod_cancel) simp
  obtain s1 where s1: "TIMER0_IRQHandler True s = Some s1" "seq_ok s1" "unat (SENDSEQ s1) = Suc (i mod 16) mod 16"
    "unat (tim0_match s1) = 8 * 2 ^ (i mod 8)" "hw s1 = hw s @ [Dma_Setup 0 (i mod 8), Dma_Enable, Pin_OE True]"
    "LED_PRECALC s1 = LED_PRECALC s" "LinkerList s1 = LinkerList s"
    using seq_step[of s "i mod 16"] assms(1) by (auto simp: cycle_ok_def i)
  have ok: "cycle_ok raw (Suc i) s1"
    using assms(1) s1 by (simp add: cycle_ok_def mod_Suc_eq)
  let ?ws = "map (\<lambda>r. LED_PRECALC s1 ! r ! (i mod 8)) send_order"
  let ?p1 = "p\<lparr>dma_start := Some (0, i mod 8), shift_regs := ?ws, dark := True\<rparr>"
  let ?p3 = "if d < 8 * 2 ^ (i mod 8) then ?p1\<lparr>outputs := ?ws, dark := False\<rparr> else ?p1"
  let ?s2 = "s1\<lparr>tim1_on := True\<rparr>"
  let ?s3 = "if d < 8 * 2 ^ (i mod 8) then (LatchIn ?s2)\<lparr>tim1_on := False\<rparr> else ?s2"
  have p1: "panel_events w s1 (drop (length (hw s)) (hw s1)) p = Some ?p1"
    using dma_sends_plane[OF ok, of "i mod 8" "p\<lparr>dma_start := Some (0, i mod 8)\<rparr>" w] assms(2) by (simp add: s1(5))
  have p3: "panel_events w ?s3 (drop (length (hw s1)) (hw ?s3)) ?p1 = Some ?p3"
    by (simp add: LatchIn_def event_def)
  have "bit (?ws ! (if reg < 6 then 5 - reg else 17 - reg)) k \<longleftrightarrow> bit (raw ! (15 * reg + k)) (i mod 8)"
    unfolding sent_position[OF assms(3)] using ok assms(3,4) by (simp add: cycle_ok_def planes_upto_def shows_plane_def)
  then have lit: "led_lit reg k ?p3 \<longleftrightarrow> d < 8 * 2 ^ (i mod 8) \<and> bit (raw ! (15 * reg + k)) (i mod 8)" "\<not> led_lit reg k ?p1"
    by (cases "d < 8 * 2 ^ (i mod 8)", simp_all add: led_lit_def split del: if_split)
  have match: "unat (tim0_match (LatchIn ?s2)) = 8 * 2 ^ (i mod 8)"
    using s1(4) by (simp add: LatchIn_def event_def)
  have "led_period w d reg k s p = Some (if bit (raw ! (15 * reg + k)) (i mod 8) then 8 * 2 ^ (i mod 8) - d else 0, ?s3, ?p3)"
  proof (cases "d < 8 * 2 ^ (i mod 8)")
    case True
    with p1 p3 lit match show ?thesis
      by (simp add: led_period_def s1(1,4) DMA_IRQHandler_def TIMER1_IRQHandler_def)
  next
    case False
    with p1 lit show ?thesis
      by (simp add: led_period_def s1(1,4) DMA_IRQHandler_def)
  qed
  moreover have "cycle_ok raw (Suc i) ?s3"
    using ok by (simp add: cycle_ok_def seq_ok_def LatchIn_def event_def)
  ultimately show ?thesis
    by (simp add: length_send_order)
qed

lemma led_periods_ok:
  assumes "cycle_ok raw i s" "length (shift_regs p) = 12" "reg < 12" "k < 15"
  shows "\<exists>s' p'. led_periods w d reg k n i s p =
      Some (\<Sum>j \<leftarrow> [i..<i + n]. if bit (raw ! (15 * reg + k)) (j mod 8) then 8 * 2 ^ (j mod 8) - d j else 0, s', p') \<and>
    cycle_ok raw (i + n) s' \<and> length (shift_regs p') = 12"
  using assms(1,2)
proof (induction n arbitrary: i s p)
  case (Suc n)
  obtain s1 p1 where s1: "led_period w (d i) reg k s p = Some (if bit (raw ! (15 * reg + k)) (i mod 8) then 8 * 2 ^ (i mod 8) - d i else 0, s1, p1)"
    "cycle_ok raw (Suc i) s1" "length (shift_regs p1) = 12"
    using led_period_ok[OF Suc.prems assms(3,4)] by blast
  have "[i..<i + Suc n] = i # [Suc i..<Suc i + n]"
    by (simp add: upt_conv_Cons)
  with s1(1) Suc.IH[OF s1(2,3)] show ?case
    by (auto simp del: upt_Suc)
qed simp

section \<open>Properties\<close>

definition led_start :: led where
  "led_start = \<lparr>LED_RAW = replicate 180 0, LED_PRECALC = replicate 12 (replicate 8 0),
     LinkerList = replicate 12 (replicate 8 \<lparr>SrcAddr = (0, 0), NextLLI = None\<rparr>),
     SEQ_BIT = map (\<lambda>i. of_nat (i mod 8)) [0..<16], SEQ_TIME = map (\<lambda>i. 8 * 2 ^ (i mod 8)) [0..<16],
     SENDSEQ = 0, DELAY_TIME = 0, SEND_BIT = 0, LED_PATTERN = 0, PREV_LED_PATTERN = 0, MILLI_DELAY = 121,
     BRIGHTNESS = 0, LED_INT_OCCURED = True, LED_Loop = 0, LED_Loop_v1 = 0, LED_Loop_v2 = 0, LED_Loop_v3 = 0,
     Led_loopp = 0, loop_count = 0, HC = (255, 0, 0), MC = (0, 255, 0), SC = (0, 0, 255), BC = (0, 0, 0),
     tim0_on = False, tim1_on = False, tim2_on = False, tim0_match = 0, tim2_match = 0, hw = []\<rparr>"

lemma led_start_ok: "led_inv led_start" "seq_ok led_start" "ll_shape (LinkerList led_start)"
  by (simp_all add: led_start_def led_inv_def seq_ok_def ll_shape_def)

text \<open>
  C7: Binary code modulation. After the DMA chains are set up and the bit planes are computed from \<open>LED_RAW\<close>, sixteen
  periods of timer 0 light every LED for 16 microseconds per step of its byte, less the time before the latch in the
  periods of its set bits: in each period the LEDs are dark from the interrupt of timer 0 to the interrupt of timer 1, then they show the words that
  the DMA chain of that bit has put into the shift registers, until the match value that the handler has written; a period without
  an interrupt of timer 1 stays dark. Then the cycle begins anew. (The DMA transfer of a period ends before its latch.)
\<close>

theorem modulation_time:
  assumes "led_inv s" "seq_ok s" "SENDSEQ s = 0" "ll_shape (LinkerList s)" "length (shift_regs p) = 12" "reg < 12" "k < 15"
  shows "\<exists>s0 s1 s2 p' t. LED_init_dma s = Some s0 \<and> calulateLEDMIBAMBits s0 = Some s1 \<and> led_periods w d reg k 16 0 s1 p = Some (t, s2, p') \<and>
    SENDSEQ s2 = 0 \<and> (let v = LED_RAW s ! (15 * reg + k) in
      t + (\<Sum>j \<leftarrow> [0..<16]. if bit v (j mod 8) then min (d j) (8 * 2 ^ (j mod 8)) else 0) = 16 * unat v)"
proof -
  obtain ll where s0: "LED_init_dma s = Some (s\<lparr>LinkerList := ll\<rparr>)" "ll_shape ll" "\<forall>no < 12. \<forall>b < 8. ll ! no ! b = chain_item b no"
    using LED_init_dma_ok[OF assms(4)] by blast
  have "led_inv (s\<lparr>LinkerList := ll\<rparr>)"
    using assms(1) by (simp add: led_inv_def)
  then obtain pre where s1: "calulateLEDMIBAMBits (s\<lparr>LinkerList := ll\<rparr>) = Some (s\<lparr>LinkerList := ll, LED_PRECALC := pre\<rparr>)" "planes_upto (LED_RAW s) BITS pre"
    using calulateLEDMIBAMBits_ok[of "s\<lparr>LinkerList := ll\<rparr>"] by auto
  let ?s1 = "s\<lparr>LinkerList := ll, LED_PRECALC := pre\<rparr>" and ?v = "LED_RAW s ! (15 * reg + k)"
  have "cycle_ok (LED_RAW s) 0 ?s1"
    using assms(2,3) s0(2,3) s1(2) by (simp add: cycle_ok_def seq_ok_def)
  from led_periods_ok[OF this assms(5-7), of w d 16] obtain s2 p' where
    run: "led_periods w d reg k 16 0 ?s1 p = Some (\<Sum>j \<leftarrow> [0..<16]. if bit ?v (j mod 8) then 8 * 2 ^ (j mod 8) - d j else 0, s2, p')"
      "cycle_ok (LED_RAW s) 16 s2"
    by (auto simp del: upt_Suc)
  have "(\<Sum>j \<leftarrow> [0..<16]. if bit ?v (j mod 8) then 8 * 2 ^ (j mod 8) - d j else 0) + (\<Sum>j \<leftarrow> [0..<16]. if bit ?v (j mod 8) then min (d j) (8 * 2 ^ (j mod 8)) else 0) =
      (\<Sum>j \<leftarrow> [0..<16]. (if bit ?v (j mod 8) then 8 * 2 ^ (j mod 8) - d j else 0) + (if bit ?v (j mod 8) then min (d j) (8 * 2 ^ (j mod 8)) else 0))"
    by (simp only: sum_list_addf)
  also have "\<dots> = (\<Sum>j \<leftarrow> [0..<16]. 8 * (if bit ?v (j mod 8) then 2 ^ (j mod 8) else 0))"
    by (intro arg_cong[where f = sum_list] map_cong) auto
  also have "\<dots> = 8 * (\<Sum>j \<leftarrow> [0..<8] @ map (\<lambda>j. j + 8) [0..<8]. if bit ?v (j mod 8) then 2 ^ (j mod 8) else 0)"
  proof -
    have "[0..<16] = [0..<8] @ map (\<lambda>i. i + 8) [0..<8]"
      by code_simp
    then show ?thesis
      by (simp only: sum_list_const_mult)
  qed
  also have "\<dots> = 8 * (2 * (\<Sum>j \<leftarrow> [0..<8]. if bit ?v (j mod 8) then 2 ^ (j mod 8) else 0))"
    by (simp add: comp_def del: upt_Suc cong: if_cong)
  also have "(\<Sum>j \<leftarrow> [0..<8]. if bit ?v (j mod 8) then 2 ^ (j mod 8) else 0) = (\<Sum>j \<leftarrow> [0..<8]. if bit ?v j then 2 ^ j else 0)"
    by (intro arg_cong[where f = sum_list] map_cong) auto
  also have "8 * (2 * (\<Sum>j \<leftarrow> [0..<8]. if bit ?v j then 2 ^ j else 0)) = 16 * unat ?v"
    by (simp only: byte_as_sum)
  finally show ?thesis
    using s0(1) s1(1) run by (auto simp: Let_def cycle_ok_def unat_eq_zero simp del: upt_Suc)
qed

definition panel_start :: panel where
  "panel_start = \<lparr>shift_regs = replicate 12 0, outputs = replicate 12 0, dark = True, dma_start = None\<rparr>"

text \<open>With a latch 15 microseconds after the start of a period, the periods of 8 microseconds stay dark, and the others lose 15 microseconds.\<close>

theorem modulation_time_witness:
  "\<exists>s0 s1 s2 p' t. LED_init_dma (led_start\<lparr>LED_RAW := replicate 180 77\<rparr>) = Some s0 \<and> calulateLEDMIBAMBits s0 = Some s1 \<and>
     led_periods 0xffff (\<lambda>_. 15) 3 4 16 0 s1 panel_start = Some (t, s2, p') \<and> t = 16 * 77 - 2 * (8 + 3 * 15)"
proof -
  have "led_inv (led_start\<lparr>LED_RAW := replicate 180 77\<rparr>)" "seq_ok (led_start\<lparr>LED_RAW := replicate 180 77\<rparr>)"
    "SENDSEQ (led_start\<lparr>LED_RAW := replicate 180 77\<rparr>) = 0" "ll_shape (LinkerList (led_start\<lparr>LED_RAW := replicate 180 77\<rparr>))"
    using led_start_ok by (simp_all add: led_inv_def seq_ok_def led_start_def del: upt_Suc)
  moreover have "(\<Sum>j \<leftarrow> [0..<16]. if bit (77 :: u8) (j mod 8) then min 15 (8 * 2 ^ (j mod 8)) else 0) = (106 :: nat)"
    by code_simp
  ultimately show ?thesis
    using modulation_time[of "led_start\<lparr>LED_RAW := replicate 180 77\<rparr>" panel_start 3 4 "0xffff" "\<lambda>_. 15"]
    by (auto simp: Let_def led_start_def panel_start_def simp del: upt_Suc)
qed

text \<open>
  The DMA chains. After the set-up in \<^verbatim>\<open>LED_init\<close>, the DMA controller that starts at the first
  item of a bit sends twelve words and stops: those of registers 5 down to 0, then 11 down to 6,
  all of that bit.
\<close>

theorem dma_chain_order:
  assumes "ll_shape (LinkerList s)" "bt < 8"
  shows "\<exists>s'. LED_init_dma s = Some s' \<and> dma_follow (LinkerList s') 12 (Some (0, bt)) =
    Some (map (\<lambda>r. (r, bt)) [5, 4, 3, 2, 1, 0, 11, 10, 9, 8, 7, 6])"
proof -
  from LED_init_dma_ok[OF assms(1)] obtain ll where ll: "LED_init_dma s = Some (s\<lparr>LinkerList := ll\<rparr>)"
    "ll_shape ll" "\<forall>no < 12. \<forall>b < 8. ll ! no ! b = chain_item b no"
    by blast
  from dma_follow_chain[OF ll(2) assms(2), of 0] ll(3) assms(2)
  have "dma_follow ll 12 (Some (0, bt)) = Some (map (\<lambda>r. (r, bt)) send_order)"
    by simp
  with ll(1) show ?thesis
    by (simp add: send_order_def)
qed

theorem dma_chain_order_witness:
  "\<exists>s'. LED_init_dma led_start = Some s' \<and> dma_follow (LinkerList s') 12 (Some (0, 7)) =
     Some [(5, 7), (4, 7), (3, 7), (2, 7), (1, 7), (0, 7), (11, 7), (10, 7), (9, 7), (8, 7), (7, 7), (6, 7)]"
  using dma_chain_order[OF led_start_ok(3), of 7] by simp

text \<open>
  The second and minute hands of the clock. For a time in range the frame before the hour hand is
  the background with, in this order, the second hand and its tail of four fading LEDs and the
  minute hand with a tail of three painted over it, wrapping around at the top of the dial.
\<close>

theorem clock_hands:
  assumes "led_inv s" "MM < 60" "SS < 60"
  shows "\<exists>s'. LED_time_sec_min MM SS s = Some s' \<and> led_inv s' \<and>
    frame s' = foldl paint (replicate 60 (low_bytes (BC s))) (hand (unat SS) (SC s) 4 @ hand (unat MM) (MC s) 3)"
  using LED_time_sec_min_ok[of s MM SS] assms by (auto simp: drawn_def word_less_nat_alt)

theorem clock_hands_witness:
  "\<exists>s'. LED_time_sec_min 30 0 led_start = Some s' \<and> frame s' ! 0 = (0, 0, 255) \<and> frame s' ! 59 = (0, 0, 204) \<and>
     frame s' ! 30 = (0, 255, 0)"
proof -
  have "BC led_start = (0, 0, 0)" "SC led_start = (0, 0, 255)" "MC led_start = (0, 255, 0)"
    by (simp_all add: led_start_def)
  moreover have "hand 0 (0, 0, 255) 4 = [(0, 0, 0, 255), (59, 0, 0, 204), (58, 0, 0, 153), (57, 0, 0, 102), (56, 0, 0, 51)]"
    "hand 30 (0, 255, 0) 3 = [(30, 0, 255, 0), (29, 0, 204, 0), (28, 0, 153, 0), (27, 0, 102, 0)]"
    by code_simp+
  ultimately show ?thesis
    using clock_hands[OF led_start_ok(1), of 30 0] by (auto simp: paint_def low_bytes_def)
qed

text \<open>
  The hour hand is written outside the LED array. Whatever the time, the clock pattern stores the
  hour colour at LED \<open>(HH + 12) * 5\<close>, which is 60 or more, so that every call of \<^verbatim>\<open>LED_time\<close> with valid
  minutes and seconds accesses memory behind \<open>LED_RAW\<close>.
\<close>

theorem hour_hand_outside:
  assumes "led_inv s" "MM < 60" "SS < 60"
  shows "LED_time HH MM SS s = None"
proof -
  define h where "h = (if HH > 11 then HH - 12 else HH)"
  let ?s = "s\<lparr>LED_RAW := replicate 180 0\<rparr>"
  from LED_time_sec_min_ok[OF led_inv_reset[OF assms(1)], of MM SS] assms(2,3) obtain s' where
    s': "LED_time_sec_min MM SS ?s = Some s'" "led_inv s'"
    by (auto simp: drawn_def word_less_nat_alt)
  have "60 \<le> (uint h + 12) * 5"
    by simp
  then have "SetColour ((uint h + 12) * 5) (HC s') s' = None"
    by (auto simp: SetColour_def SetRGB_outside[OF s'(2)] split: prod.splits)
  then have "LED_time_hour h s' = None"
    by (simp only: LED_time_hour_def Option.bind.simps)
  with s'(1) show ?thesis
    by (simp only: LED_time_def resetLeds_ok[OF assms(1)] Option.bind.simps Let_def flip: h_def)
qed

theorem hour_hand_outside_witness: "LED_time 12 30 0 led_start = None"
  using hour_hand_outside[OF led_start_ok(1), of 30 0 12] by simp

text \<open>
  The rainbow patterns stay inside the LED array and the colour table: for a loop counter from 0
  to 359 each call returns, keeps the counter in that range, moves it on by one modulo 360, and
  shows on LED \<open>i\<close> the table colour of hue \<open>i * 360 / 59\<close> plus the counter (rotating), or on all LEDs
  the colour of the counter.
\<close>

theorem rainbow_patterns:
  assumes "led_inv s" "0 \<le> LED_Loop s" "LED_Loop s < 360"
  shows "(\<exists>s'. LED_rotating_rainbow s = Some s' \<and> led_inv s' \<and> LED_Loop s' = (LED_Loop s + 1) mod 360 \<and>
      (\<forall>i < 60. lookup_hsv2rgb (word_of_int ((int i * 360 div 59 + LED_Loop s') mod 360)) 255 = Some (frame s' ! i))) \<and>
    (\<exists>s'. LED_rainbow_all s = Some s' \<and> led_inv s' \<and> LED_Loop s' = (LED_Loop s + 1) mod 360 \<and>
      (\<forall>i < 60. lookup_hsv2rgb (word_of_int (LED_Loop s)) 255 = Some (frame s' ! i)))"
proof -
  let ?n = "(LED_Loop s + 1) mod 360"
  have n: "?n = (if LED_Loop s + 1 = 360 then 0 else LED_Loop s + 1)"
    using assms(2,3) by auto
  have total: "\<exists>c. lookup_hsv2rgb (word_of_int h) 255 = Some c" if "0 \<le> h" "h < 360" for h
    using that by (intro lookup_total) (simp add: word_less_nat_alt unsigned_of_int take_bit_int_eq_self nat_less_iff)
  define hue where "hue = (\<lambda>i. (int i * 360 div 59 + ?n) mod 360)"
  define col where "col = (\<lambda>i. the (lookup_hsv2rgb (word_of_int (hue i)) 255))"
  have col: "lookup_hsv2rgb (word_of_int (hue i)) 255 = Some (col i)" for i
    using total[of "hue i"] by (auto simp: hue_def col_def)
  define s0 where "s0 = s\<lparr>LED_Loop := ?n\<rparr>"
  have inv0: "led_inv s0"
    using assms(1) by (simp add: s0_def led_inv_def)
  define body where "body = (\<lambda>led s. do {
    let h = (int led * 360 sdiv (int RGBS - 1) + LED_Loop s) smod 360;
    (red, green, blue) \<leftarrow> lookup_hsv2rgb (word_of_int h) MAX_BRIGHTNESS;
    SetRGB (int led) red green blue s })"
  have "body i s' = (case col i of (r, g, b) \<Rightarrow> SetRGB (int i) r g b s')" if "s' = s0\<lparr>LED_RAW := LED_RAW s'\<rparr>" for i s'
  proof -
    have "LED_Loop s' = ?n"
      by (subst that) (simp add: s0_def)
    then show ?thesis
      using col[of i] by (simp add: body_def hue_def)
  qed
  from SetRGB_all[OF inv0, of body col, OF this] obtain raw where
    raw: "for_each body [0..<RGBS] s0 = Some (s0\<lparr>LED_RAW := raw\<rparr>)" "led_inv (s0\<lparr>LED_RAW := raw\<rparr>)"
    "frame (s0\<lparr>LED_RAW := raw\<rparr>) = map col [0..<60]"
    by blast
  from calulateLEDMIBAMBits_ok[OF raw(2)] obtain pre where
    pre: "calulateLEDMIBAMBits (s0\<lparr>LED_RAW := raw\<rparr>) = Some (s0\<lparr>LED_RAW := raw, LED_PRECALC := pre\<rparr>)"
    "planes_upto (LED_RAW (s0\<lparr>LED_RAW := raw\<rparr>)) BITS pre"
    by auto
  have rot: "LED_rotating_rainbow s = Some (s0\<lparr>LED_RAW := raw, LED_PRECALC := pre\<rparr>)"
  proof -
    have "LED_rotating_rainbow s = Option.bind (for_each body [0..<RGBS] s0) calulateLEDMIBAMBits"
      by (cases "LED_Loop s + 1 = 360") (simp_all add: LED_rotating_rainbow_def body_def s0_def n Let_def del: upt_Suc)
    with raw(1) pre(1) show ?thesis
      by simp
  qed
  obtain r g b where c: "lookup_hsv2rgb (word_of_int (LED_Loop s)) 255 = Some (r, g, b)"
    using total[OF assms(2,3)] by auto
  from SetRGB_all[OF assms(1), of "\<lambda>led. SetRGB (int led) r g b" "\<lambda>_. (r, g, b)"] obtain raw' where
    raw': "for_each (\<lambda>led. SetRGB (int led) r g b) [0..<RGBS] s = Some (s\<lparr>LED_RAW := raw'\<rparr>)"
    "led_inv (s\<lparr>LED_RAW := raw'\<rparr>)" "frame (s\<lparr>LED_RAW := raw'\<rparr>) = map (\<lambda>_. (r, g, b)) [0..<60]"
    by auto
  from calulateLEDMIBAMBits_ok[OF raw'(2)] obtain pre' where
    pre': "calulateLEDMIBAMBits (s\<lparr>LED_RAW := raw'\<rparr>) = Some (s\<lparr>LED_RAW := raw', LED_PRECALC := pre'\<rparr>)"
    "planes_upto (LED_RAW (s\<lparr>LED_RAW := raw'\<rparr>)) BITS pre'"
    by auto
  have all: "LED_rainbow_all s = Some (s\<lparr>LED_RAW := raw', LED_PRECALC := pre', LED_Loop := ?n\<rparr>)"
    using c raw'(1) pre'(1) n by (simp add: LED_rainbow_all_def Let_def split: if_splits)
  have frames: "frame (s0\<lparr>LED_RAW := raw, LED_PRECALC := pre\<rparr>) = map col [0..<60]"
    "frame (s\<lparr>LED_RAW := raw', LED_PRECALC := pre', LED_Loop := ?n\<rparr>) = map (\<lambda>_. (r, g, b)) [0..<60]"
    using raw(3) raw'(3) by (simp_all add: frame_def del: upt_Suc)
  have "led_inv (s0\<lparr>LED_RAW := raw, LED_PRECALC := pre\<rparr>)"
    "led_inv (s\<lparr>LED_RAW := raw', LED_PRECALC := pre', LED_Loop := ?n\<rparr>)"
    using led_inv_precalc[OF raw(2) pre(2)] led_inv_precalc[OF raw'(2) pre'(2)] by (simp_all add: led_inv_def)
  with rot all frames col c show ?thesis
    by (intro conjI exI[of _ "s0\<lparr>LED_RAW := raw, LED_PRECALC := pre\<rparr>"]
        exI[of _ "s\<lparr>LED_RAW := raw', LED_PRECALC := pre', LED_Loop := ?n\<rparr>"])
      (simp_all add: s0_def hue_def del: upt_Suc)
qed

theorem rainbow_patterns_witness:
  "\<exists>s'. LED_rainbow_all led_start = Some s' \<and> LED_Loop s' = 1 \<and>
     (\<forall>i < 60. lookup_hsv2rgb 0 255 = Some (frame s' ! i))"
proof -
  have "LED_Loop led_start = 0"
    by (simp add: led_start_def)
  with rainbow_patterns[OF led_start_ok(1)] show ?thesis
    by auto
qed

text \<open>
  The running light. While its counter is below 180 a step returns, shows LED number counter at
  full brightness over the rest of the array, clears that LED again and moves on; but the counter is
  reset only beyond 180, so that after every round the step with counter 180 writes behind the array.
\<close>

theorem one_by_one_overrun:
  assumes "led_inv s" "0 \<le> LED_Loop s" "LED_Loop s \<le> 180"
  shows "if LED_Loop s < 180
    then \<exists>s'. LED_one_by_one s = Some s' \<and> led_inv s' \<and> LED_Loop s' = LED_Loop s + 1 \<and>
      LED_RAW s' = (LED_RAW s)[nat (LED_Loop s) := 0] \<and>
      planes_upto ((LED_RAW s)[nat (LED_Loop s) := 255]) BITS (LED_PRECALC s')
    else LED_one_by_one s = None"
proof -
  let ?n = "nat (LED_Loop s)"
  have len: "length (LED_RAW s) = 180"
    using assms(1) by (simp add: led_inv_def)
  have u: "uint (word_of_int (LED_Loop s) :: u8) = LED_Loop s"
    using assms(2,3) by (simp add: unsigned_of_int take_bit_int_eq_self)
  show ?thesis
  proof (cases "LED_Loop s < 180")
    case True
    let ?s1 = "s\<lparr>LED_RAW := (LED_RAW s)[?n := 255]\<rparr>"
    have "led_inv ?s1"
      using assms(1) by (simp add: led_inv_def)
    from calulateLEDMIBAMBits_ok[OF this] obtain pre where
      pre: "calulateLEDMIBAMBits ?s1 = Some (?s1\<lparr>LED_PRECALC := pre\<rparr>)" "planes_upto ((LED_RAW s)[?n := 255]) BITS pre"
      by auto
    have "LED_one_by_one s = Some (s\<lparr>LED_RAW := (LED_RAW s)[?n := 0], LED_PRECALC := pre, LED_Loop := LED_Loop s + 1\<rparr>)"
      using True assms(2) len pre(1) by (simp add: LED_one_by_one_def SetLED_def u Let_def)
    moreover have "led_inv (s\<lparr>LED_RAW := (LED_RAW s)[?n := 0], LED_PRECALC := pre, LED_Loop := LED_Loop s + 1\<rparr>)"
      using len pre(2) by (simp add: led_inv_def planes_upto_def)
    ultimately show ?thesis
      using True pre(2) by simp
  next
    case False
    with assms(3) len show ?thesis
      by (simp add: LED_one_by_one_def SetLED_def u c_write_def)
  qed
qed

theorem one_by_one_overrun_witness: "LED_one_by_one (led_start\<lparr>LED_Loop := 180\<rparr>) = None"
proof -
  have "led_inv (led_start\<lparr>LED_Loop := 180\<rparr>)"
    using led_start_ok(1) by (simp add: led_inv_def)
  from one_by_one_overrun[OF this] show ?thesis
    by simp
qed

lemma Set_LED_Pattern_ok:
  assumes "led_inv s"
  shows "\<exists>s'. Set_LED_Pattern bus no delay bri s = Some s' \<and> led_inv s' \<and>
    Get_LED_Pattern s' = (no, if delay = 0 then MILLI_DELAY s else delay, if bri = 0 then BRIGHTNESS s else bri) \<and>
    frame s' = replicate 60 (0, 0, 0) \<and> LED_Loop s' = 0 \<and> tim0_on s' \<and> tim2_on s' \<and>
    hw s' = hw s @ (if bri = 0 then [] else [I2C_Request (setPot_request bri)]) \<and>
    (no = 9 \<longrightarrow> (\<exists>s''. LED_loop HH MM SS (TIMER2_IRQHandler True s') = Some s'' \<and>
       LED_PATTERN s'' = LED_PATTERN s \<and> \<not> tim2_on s'' \<and> \<not> LED_INT_OCCURED s''))"
proof -
  let ?a = "if no = 9 \<or> no = 10 then s\<lparr>PREV_LED_PATTERN := LED_PATTERN s, LED_PATTERN := no\<rparr> else s\<lparr>LED_PATTERN := no\<rparr>"
  let ?b = "if delay \<noteq> 0 then ?a\<lparr>MILLI_DELAY := delay, tim2_match := ucast delay\<rparr> else ?a"
  let ?c = "if bri \<noteq> 0 then snd (SetBrightness bus bri ?b) else ?b"
  have "led_inv ?c"
    using assms by (simp add: led_inv_def SetBrightness_def event_def Let_def)
  note reset = resetLeds_ok[OF this]
  let ?s' = "?c\<lparr>LED_RAW := replicate 180 0, LED_Loop := 0, LED_Loop_v1 := 0, LED_Loop_v2 := 0, LED_Loop_v3 := 0,
    tim0_on := True, tim2_on := True\<rparr>"
  have set: "Set_LED_Pattern bus no delay bri s = Some ?s'"
    using reset by (simp add: Set_LED_Pattern_def Let_def)
  have get: "LED_PATTERN ?s' = no" "MILLI_DELAY ?s' = (if delay = 0 then MILLI_DELAY s else delay)"
    "BRIGHTNESS ?s' = (if bri = 0 then BRIGHTNESS s else bri)"
    "hw ?s' = hw s @ (if bri = 0 then [] else [I2C_Request (setPot_request bri)])"
    "no = 9 \<longrightarrow> PREV_LED_PATTERN ?s' = LED_PATTERN s"
    by (simp_all add: SetBrightness_def event_def Let_def)
  have inv: "led_inv ?s'"
    using assms by (simp add: led_inv_def SetBrightness_def event_def Let_def)
  have "frame ?s' = replicate 60 (0, 0, 0)"
    using frame_reset[of s] by (simp add: frame_def del: upt_Suc)
  moreover have "no = 9 \<longrightarrow> (\<exists>s''. LED_loop HH MM SS (TIMER2_IRQHandler True ?s') = Some s'' \<and>
      LED_PATTERN s'' = LED_PATTERN s \<and> \<not> tim2_on s'' \<and> \<not> LED_INT_OCCURED s'')"
    using get(1,5) by (simp add: LED_loop_def TIMER2_IRQHandler_def LED_pattern_step_def Let_def Pause_def)
  ultimately show ?thesis
    using set get inv by (intro exI[of _ ?s']) (simp add: Get_LED_Pattern_def GetBrightness_def)
qed

text \<open>
  Choosing a pattern. \<^verbatim>\<open>Set_LED_Pattern\<close> returns, \<^verbatim>\<open>Get_LED_Pattern\<close> then gives the values that were
  set (a delay or brightness of zero keeps the old one), the LEDs are dark, the loop counters start
  at zero and both timers run. Pausing (pattern 9) remembers the pattern that was shown: the next
  round of the main loop stops the pattern timer with that pattern selected again.
\<close>

theorem pattern_control:
  assumes "led_inv s"
  shows "\<exists>s'. Set_LED_Pattern bus no delay bri s = Some s' \<and> led_inv s' \<and>
    Get_LED_Pattern s' = (no, if delay = 0 then MILLI_DELAY s else delay, if bri = 0 then BRIGHTNESS s else bri) \<and>
    frame s' = replicate 60 (0, 0, 0) \<and> LED_Loop s' = 0 \<and> tim0_on s' \<and> tim2_on s' \<and>
    hw s' = hw s @ (if bri = 0 then [] else [I2C_Request (setPot_request bri)]) \<and>
    (no = 9 \<longrightarrow> (\<exists>s''. LED_loop HH MM SS (TIMER2_IRQHandler True s') = Some s'' \<and>
       LED_PATTERN s'' = LED_PATTERN s \<and> \<not> tim2_on s'' \<and> \<not> LED_INT_OCCURED s''))"
  using assms by (rule Set_LED_Pattern_ok)

theorem pattern_control_witness:
  "\<exists>s'. Set_LED_Pattern (\<lambda>_. (0, [])) 3 50 0 led_start = Some s' \<and> Get_LED_Pattern s' = (3, 50, 0)"
proof -
  have "MILLI_DELAY led_start = 121" "BRIGHTNESS led_start = 0"
    by (simp_all add: led_start_def)
  with pattern_control[OF led_start_ok(1), of "\<lambda>_. (0, [])" 3 50 0 0 0 0] show ?thesis
    by auto
qed

end
