(* ===== verification/Usb_Hw.thy ===== *)
theory Usb_Hw
  imports Prelude
begin

text \<open>
  The hardware layer of the USB stack, \<^verbatim>\<open>libraries/LPCUSB/src/usbhw_lpc.c\<close>: commands to the protocol
  engine, endpoint configuration, and reading and writing of endpoint buffers through 32-bit data
  registers. What the code writes to the controller is a trace of register writes; what it reads is
  input: the answers of the protocol engine (\<open>cmd_data\<close>) and the received packets (\<open>rx_packets\<close>). The
  wait for a command to finish (\<^verbatim>\<open>Wait4DevInt\<close>) is taken to end. The lemmas show that a packet that is
  read is delivered byte by byte and never beyond the caller's limit, and that the words written
  for a packet carry exactly its bytes. The state record is extended by the layers above.
\<close>

section \<open>State\<close>

datatype usb_write =
    DevIntClr u32 | CmdCode u32 | EpInd u32 | MaxPSize u32 | EpIntClr u32
  | Ctrl u32 | TxPLen u32 | TxData u32 | ReEp u32 | EpIntEn u32 | DevIntEn u32

text \<open>A received packet: the values of successive reads of \<^verbatim>\<open>USBRxPLen\<close> and of \<^verbatim>\<open>USBRxData\<close>.\<close>

record rx_packet =
  plen_reads :: "u32 list"
  data_words :: "u32 list"

record usb_hw =
  USBReEP :: u32
  USBEpIntEn :: u32
  USBDevIntEn :: u32
  cmd_data :: "u8 list"
  rx_packets :: "rx_packet list"
  usb_trace :: "usb_write list"

definition usb_out :: "usb_write list \<Rightarrow> 'z usb_hw_scheme \<Rightarrow> 'z usb_hw_scheme" where
  "usb_out ws s = s\<lparr>usb_trace := usb_trace s @ ws\<rparr>"

section \<open>Operations\<close>

definition EP2IDX :: "u8 \<Rightarrow> u8" where
  "EP2IDX bEP = push_bit 1 (bEP AND 0xF) OR drop_bit 7 (bEP AND 0x80)"

definition IDX2EP :: "u8 \<Rightarrow> u8" where
  "IDX2EP idx = (push_bit 7 idx AND 0x80) OR (drop_bit 1 idx AND 0xF)"

definition Wait4DevInt :: "u32 \<Rightarrow> 'z usb_hw_scheme \<Rightarrow> 'z usb_hw_scheme" where
  "Wait4DevInt dwIntr s = usb_out [DevIntClr dwIntr] s"

definition USBHwCmd :: "u8 \<Rightarrow> 'z usb_hw_scheme \<Rightarrow> 'z usb_hw_scheme" where
  "USBHwCmd bCmd s =
    (let s = usb_out [DevIntClr (0x20 OR 0x10)] s;
       s = usb_out [CmdCode (0x00000500 OR push_bit 16 (ucast bCmd))] s
     in Wait4DevInt 0x10 s)"

definition USBHwCmdWrite :: "u8 \<Rightarrow> u16 \<Rightarrow> 'z usb_hw_scheme \<Rightarrow> 'z usb_hw_scheme" where
  "USBHwCmdWrite bCmd bData s =
    (let s = USBHwCmd bCmd s;
       s = usb_out [CmdCode (0x00000100 OR push_bit 16 (ucast bData))] s
     in Wait4DevInt 0x10 s)"

definition USBHwCmdRead :: "u8 \<Rightarrow> 'z usb_hw_scheme \<Rightarrow> (u8 \<times> 'z usb_hw_scheme) option" where
  "USBHwCmdRead bCmd s =
    (let s = USBHwCmd bCmd s;
       s = usb_out [CmdCode (0x00000200 OR push_bit 16 (ucast bCmd))] s;
       s = Wait4DevInt 0x20 s
     in case cmd_data s of [] \<Rightarrow> None | d # ds \<Rightarrow> Some (d, s\<lparr>cmd_data := ds\<rparr>))"

definition USBHwEPRealize :: "u8 \<Rightarrow> u16 \<Rightarrow> 'z usb_hw_scheme \<Rightarrow> 'z usb_hw_scheme" where
  "USBHwEPRealize idx wMaxPSize s =
    (let s = s\<lparr>USBReEP := USBReEP s OR push_bit (unat idx) 1\<rparr>;
       s = usb_out [ReEp (USBReEP s), EpInd (ucast idx), MaxPSize (ucast wMaxPSize)] s
     in Wait4DevInt 0x100 s)"

definition USBHwEPEnable :: "u8 \<Rightarrow> bool \<Rightarrow> 'z usb_hw_scheme \<Rightarrow> 'z usb_hw_scheme" where
  "USBHwEPEnable idx fEnable s = USBHwCmdWrite (0x40 OR idx) (if fEnable then 0 else 0x20) s"

definition USBHwEPConfig :: "u8 \<Rightarrow> u16 \<Rightarrow> 'z usb_hw_scheme \<Rightarrow> 'z usb_hw_scheme" where
  "USBHwEPConfig bEP wMaxPacketSize s =
    (let idx = EP2IDX bEP in USBHwEPEnable idx True (USBHwEPRealize idx wMaxPacketSize s))"

definition USBHwSetAddress :: "u8 \<Rightarrow> 'z usb_hw_scheme \<Rightarrow> 'z usb_hw_scheme" where
  "USBHwSetAddress bAddr s = USBHwCmdWrite 0xD0 (0x80 OR ucast bAddr) s"

definition USBHwConnect :: "bool \<Rightarrow> 'z usb_hw_scheme \<Rightarrow> 'z usb_hw_scheme" where
  "USBHwConnect fConnect s = USBHwCmdWrite 0xFE (if fConnect then 1 else 0) s"

definition USBHwNakIntEnable :: "u8 \<Rightarrow> 'z usb_hw_scheme \<Rightarrow> 'z usb_hw_scheme" where
  "USBHwNakIntEnable bIntBits s = USBHwCmdWrite 0xF3 (ucast bIntBits) s"

definition USBHwEPGetStatus :: "u8 \<Rightarrow> 'z usb_hw_scheme \<Rightarrow> (u8 \<times> 'z usb_hw_scheme) option" where
  "USBHwEPGetStatus bEP s = USBHwCmdRead (0x00 OR EP2IDX bEP) s"

definition USBHwEPStall :: "u8 \<Rightarrow> bool \<Rightarrow> 'z usb_hw_scheme \<Rightarrow> 'z usb_hw_scheme" where
  "USBHwEPStall bEP fStall s = USBHwCmdWrite (0x40 OR EP2IDX bEP) (if fStall then 1 else 0) s"

definition USBHwConfigDevice :: "bool \<Rightarrow> 'z usb_hw_scheme \<Rightarrow> 'z usb_hw_scheme" where
  "USBHwConfigDevice fConfigured s = USBHwCmdWrite 0xD8 (if fConfigured then 1 else 0) s"

text \<open>
  Writing a packet: \<open>pbBuf\<close> is the memory from the pointer to the end of its object. The controller
  keeps \<^verbatim>\<open>WR_EN\<close> set until the announced number of bytes has been written, four at a time, and the
  code reads four bytes for every word, the last ones possibly beyond \<open>iLen\<close>.
\<close>

fun tx_words :: "nat \<Rightarrow> u8 list \<Rightarrow> u32 list option" where
  "tx_words 0 pbBuf = Some []"
| "tx_words (Suc n) (b0 # b1 # b2 # b3 # pbBuf) = do {
     ws \<leftarrow> tx_words n pbBuf;
     Some ((push_bit 24 (ucast b3) OR push_bit 16 (ucast b2) OR push_bit 8 (ucast b1) OR ucast b0) # ws) }"
| "tx_words (Suc n) pbBuf = None"

definition USBHwEPWrite :: "u8 \<Rightarrow> u8 list \<Rightarrow> nat \<Rightarrow> 'z usb_hw_scheme \<Rightarrow> 'z usb_hw_scheme option" where
  "USBHwEPWrite bEP pbBuf iLen s = do {
     let idx = EP2IDX bEP;
     let s = usb_out [Ctrl (0x2 OR push_bit 2 (ucast (bEP AND 0xF))), TxPLen (of_nat iLen)] s;
     ws \<leftarrow> tx_words ((iLen + 3) div 4) pbBuf;
     let s = usb_out (map TxData ws) s;
     let s = USBHwCmd (0x00 OR idx) s;
     Some (USBHwCmd 0xFA s) }"

text \<open>Reading a packet: the wait for \<^verbatim>\<open>PKT_RDY\<close>, the validity bit, and the byte loop.\<close>

fun rx_wait :: "u32 list \<Rightarrow> u32 option" where
  "rx_wait [] = None"
| "rx_wait (dwLen # reads) = (if dwLen AND 0x800 = 0 then rx_wait reads else Some dwLen)"

function rx_bytes :: "nat \<Rightarrow> nat \<Rightarrow> u32 \<Rightarrow> u32 list \<Rightarrow> u8 list option \<Rightarrow> int \<Rightarrow> u8 list option option" where
  "rx_bytes i dwLen dwData words pbBuf iMaxLen =
    (if i < dwLen then
       (case (if i mod 4 = 0 then (case words of [] \<Rightarrow> None | w # ws \<Rightarrow> Some (w, ws)) else Some (dwData, words)) of
          None \<Rightarrow> None
        | Some (dwData, words) \<Rightarrow>
            (case (case pbBuf of
                 None \<Rightarrow> Some None
               | Some buf \<Rightarrow> if int i < iMaxLen then map_option Some (c_write buf (int i) (ucast (dwData AND 0xFF)))
                   else Some (Some buf)) of
               None \<Rightarrow> None
             | Some pbBuf \<Rightarrow> rx_bytes (i + 1) dwLen (drop_bit 8 dwData) words pbBuf iMaxLen))
     else Some pbBuf)"
  by pat_completeness auto
termination
  by (relation "measure (\<lambda>(i, dwLen, _). dwLen - i)") auto

declare rx_bytes.simps [simp del]

definition USBHwEPRead :: "u8 \<Rightarrow> u8 list option \<Rightarrow> int \<Rightarrow> 'z usb_hw_scheme \<Rightarrow> (int \<times> u8 list option \<times> 'z usb_hw_scheme) option" where
  "USBHwEPRead bEP pbBuf iMaxLen s =
    (case rx_packets s of
       [] \<Rightarrow> None
     | p # ps \<Rightarrow> do {
         let idx = EP2IDX bEP;
         let s = usb_out [Ctrl (0x1 OR push_bit 2 (ucast (bEP AND 0xF)))] (s\<lparr>rx_packets := ps\<rparr>);
         dwLen \<leftarrow> rx_wait (plen_reads p);
         if dwLen AND 0x400 = 0 then Some (- 1, pbBuf, s)
         else do {
           let dwLen = dwLen AND 0x3FF;
           pbBuf \<leftarrow> rx_bytes 0 (unat dwLen) 0 (data_words p) pbBuf iMaxLen;
           let s = usb_out [Ctrl 0] s;
           let s = USBHwCmd (0x00 OR idx) s;
           Some (int (unat dwLen), pbBuf, USBHwCmd 0xF2 s) } })"

section \<open>Packets\<close>

text \<open>Little-endian words, their bytes, and the packet that carries given bytes.\<close>

definition le_word :: "u8 \<Rightarrow> u8 \<Rightarrow> u8 \<Rightarrow> u8 \<Rightarrow> u32" where
  "le_word b0 b1 b2 b3 = push_bit 24 (ucast b3) OR push_bit 16 (ucast b2) OR push_bit 8 (ucast b1) OR ucast b0"

definition word_bytes :: "u32 \<Rightarrow> u8 list" where
  "word_bytes w = map (\<lambda>k. ucast (drop_bit (8 * k) w AND 0xFF)) [0..<4]"

lemma word_bytes_eq: "word_bytes w = [ucast w, ucast (drop_bit 8 w), ucast (drop_bit 16 w), ucast (drop_bit 24 w)]"
proof -
  have "ucast (x AND 0xFF) = (ucast x :: u8)" for x :: u32
  proof -
    have "unat (x AND 0xFF) = unat x mod 256"
      using unat_and_mask[of x 8] by (simp add: mask_eq_exp_minus_1)
    then have "unat (ucast (x AND 0xFF) :: u8) = unat (ucast x :: u8)"
      by (simp add: unat_ucast_mod)
    then show ?thesis
      by (rule unsigned_word_eqI)
  qed
  then show ?thesis
    by (simp add: word_bytes_def upt_rec)
qed

lemma u8_high_bit: "8 \<le> k \<Longrightarrow> \<not> bit (b :: u8) k"
  by (auto dest: bit_imp_le_length)

lemma word_bytes_le_word: "word_bytes (le_word b0 b1 b2 b3) = [b0, b1, b2, b3]"
proof -
  have "ucast (le_word b0 b1 b2 b3) = b0" "ucast (drop_bit 8 (le_word b0 b1 b2 b3)) = b1"
    "ucast (drop_bit 16 (le_word b0 b1 b2 b3)) = b2" "ucast (drop_bit 24 (le_word b0 b1 b2 b3)) = b3"
    by (auto simp: le_word_def bit_simps u8_high_bit intro!: bit_word_eqI)
  then show ?thesis
    by (simp add: word_bytes_eq)
qed

definition words_bytes :: "u32 list \<Rightarrow> u8 list" where
  "words_bytes ws = concat (map word_bytes ws)"

lemma length_word_bytes [simp]: "length (word_bytes w) = 4"
  by (simp add: word_bytes_def)

lemma length_words_bytes: "length (words_bytes ws) = 4 * length ws"
  by (induction ws) (auto simp: words_bytes_def)

lemma take_4_Cons: "take (4 + n) (b0 # b1 # b2 # b3 # xs) = b0 # b1 # b2 # b3 # take n xs"
  by (simp add: eval_nat_numeral)

text \<open>The words written for a packet are the bytes of the buffer, four by four.\<close>

lemma tx_words_bytes:
  "4 * n \<le> length pbBuf \<Longrightarrow> \<exists>ws. tx_words n pbBuf = Some ws \<and> length ws = n \<and> words_bytes ws = take (4 * n) pbBuf"
proof (induction n pbBuf rule: tx_words.induct)
  case (2 n b0 b1 b2 b3 pbBuf)
  then obtain ws where "tx_words n pbBuf = Some ws" "length ws = n" "words_bytes ws = take (4 * n) pbBuf"
    by auto
  then show ?case
    using word_bytes_le_word[of b0 b1 b2 b3] by (simp add: words_bytes_def le_word_def take_4_Cons)
qed (auto simp: words_bytes_def)

text \<open>
  The byte loop: before byte \<open>i\<close> the shifted word holds the rest of the word that byte \<open>i\<close> belongs
  to, \<open>rest\<close> being the bytes still to come.
\<close>

lemma rx_step_word: "word_bytes w = b0 # bs \<Longrightarrow> ucast (w AND 0xFF) = b0"
  by (simp add: word_bytes_def upt_rec)

definition rx_pending :: "nat \<Rightarrow> u32 \<Rightarrow> u32 list \<Rightarrow> u8 list" where
  "rx_pending i dwData words =
    (if i mod 4 = 0 then [] else take (4 - i mod 4) (word_bytes dwData)) @ words_bytes words"

lemma rx_pending_step:
  assumes "rx_pending i dwData words = b # bs"
  shows "\<exists>w ws. (if i mod 4 = 0 then (case words of [] \<Rightarrow> None | w # ws \<Rightarrow> Some (w, ws)) else Some (dwData, words)) =
      Some (w, ws) \<and> ucast (w AND 0xFF) = b \<and> rx_pending (i + 1) (drop_bit 8 w) ws = bs"
proof (cases "i mod 4 = 0")
  case True
  then have i1: "(i + 1) mod 4 = 1"
    by (simp add: mod_Suc)
  from True assms obtain w ws where w: "words = w # ws" "word_bytes w @ words_bytes ws = b # bs"
    by (cases words) (auto simp: rx_pending_def words_bytes_def)
  then have "ucast (w AND 0xFF) = b"
    by (auto simp: word_bytes_def upt_rec)
  moreover have "take 3 (word_bytes (drop_bit 8 w)) @ words_bytes ws = bs"
    using w(2) by (simp add: word_bytes_eq drop_bit_drop_bit numeral_3_eq_3)
  ultimately show ?thesis
    using True w i1 by (simp add: rx_pending_def)
next
  case False
  then have cases: "i mod 4 = 1 \<or> i mod 4 = 2 \<or> i mod 4 = 3"
    by presburger
  have "ucast (dwData AND 0xFF) = (ucast dwData :: u8)"
    using word_bytes_eq[of dwData] by (simp add: word_bytes_def upt_rec)
  with assms cases show ?thesis
    by (auto simp: rx_pending_def word_bytes_eq drop_bit_drop_bit mod_Suc numeral_3_eq_3 numeral_2_eq_2)
qed

lemma rx_bytes_deliver:
  assumes "dwLen - i \<le> length (rx_pending i dwData words)" "i \<le> dwLen" "min dwLen m \<le> length buf"
  shows "\<exists>buf'. rx_bytes i dwLen dwData words (Some buf) (int m) = Some (Some buf') \<and> length buf' = length buf \<and>
    take (min dwLen m) buf' = take (min i m) buf @ take (min dwLen m - i) (rx_pending i dwData words) \<and>
    drop (min dwLen m) buf' = drop (min dwLen m) buf"
  using assms
proof (induction "dwLen - i" arbitrary: i dwData words buf)
  case 0
  then show ?case
    by (subst rx_bytes.simps) simp
next
  case (Suc n)
  then obtain b bs where pend: "rx_pending i dwData words = b # bs" and i: "i < dwLen"
    by (cases "rx_pending i dwData words") auto
  from rx_pending_step[OF pend] obtain w ws where
    w: "(if i mod 4 = 0 then (case words of [] \<Rightarrow> None | w # ws \<Rightarrow> Some (w, ws)) else Some (dwData, words)) = Some (w, ws)"
    "ucast (w AND 0xFF) = b" "rx_pending (i + 1) (drop_bit 8 w) ws = bs"
    by blast
  let ?buf = "if i < m then buf[i := b] else buf"
  have "rx_bytes i dwLen dwData words (Some buf) (int m) = rx_bytes (i + 1) dwLen (drop_bit 8 w) ws (Some ?buf) (int m)"
    using i w(2) Suc.prems(3) by (subst rx_bytes.simps) (simp add: w(1))
  moreover have "\<exists>buf'. rx_bytes (i + 1) dwLen (drop_bit 8 w) ws (Some ?buf) (int m) = Some (Some buf') \<and>
      length buf' = length ?buf \<and>
      take (min dwLen m) buf' = take (min (i + 1) m) ?buf @ take (min dwLen m - (i + 1)) (rx_pending (i + 1) (drop_bit 8 w) ws) \<and>
      drop (min dwLen m) buf' = drop (min dwLen m) ?buf"
    using Suc.hyps(2) Suc.prems i pend w(3) by (intro Suc.hyps(1)) auto
  moreover have "take (min (i + 1) m) ?buf @ take (min dwLen m - (i + 1)) bs =
      take (min i m) buf @ take (min dwLen m - i) (b # bs)"
  proof (cases "i < m")
    case True
    then have "min (i + 1) m = Suc i" "min i m = i" "min dwLen m - i = Suc (min dwLen m - (i + 1))" "i < length buf"
      using i Suc.prems(3) by auto
    with True show ?thesis
      by (simp add: take_Suc_conv_app_nth)
  qed (use i in auto)
  ultimately show ?case
    using i w(3) by (auto simp: pend split: if_splits)
qed

lemma rx_bytes_null: "dwLen - i \<le> length (rx_pending i dwData words) \<Longrightarrow> i \<le> dwLen \<Longrightarrow>
    rx_bytes i dwLen dwData words None m = Some None"
proof (induction "dwLen - i" arbitrary: i dwData words)
  case 0
  then show ?case
    by (subst rx_bytes.simps) simp
next
  case (Suc n)
  then obtain b bs where pend: "rx_pending i dwData words = b # bs" and i: "i < dwLen"
    by (cases "rx_pending i dwData words") auto
  from rx_pending_step[OF pend] obtain w ws where
    w: "(if i mod 4 = 0 then (case words of [] \<Rightarrow> None | w # ws \<Rightarrow> Some (w, ws)) else Some (dwData, words)) = Some (w, ws)"
    "rx_pending (i + 1) (drop_bit 8 w) ws = bs"
    by blast
  have "rx_bytes (i + 1) dwLen (drop_bit 8 w) ws None m = Some None"
    using Suc.hyps(2) Suc.prems i pend w(2) by (intro Suc.hyps(1)) auto
  then show ?case
    using i by (subst rx_bytes.simps) (simp add: w(1))
qed

text \<open>A received packet that carries the bytes \<open>bs\<close>.\<close>

definition carries :: "rx_packet \<Rightarrow> u8 list \<Rightarrow> bool" where
  "carries p bs \<longleftrightarrow> (\<exists>d. rx_wait (plen_reads p) = Some d \<and> d AND 0x400 \<noteq> 0 \<and> unat (d AND 0x3FF) = length bs) \<and>
     take (length bs) (words_bytes (data_words p)) = bs"

text \<open>Operations that only append to the trace.\<close>

definition logs :: "'z usb_hw_scheme \<Rightarrow> usb_write list \<Rightarrow> 'z usb_hw_scheme \<Rightarrow> bool" where
  "logs s t s' \<longleftrightarrow> s' = s\<lparr>usb_trace := usb_trace s @ t\<rparr>"

lemmas usb_cmd_defs = usb_out_def USBHwCmd_def Wait4DevInt_def USBHwCmdWrite_def Let_def

text \<open>The packets that the controller sends, from the trace: the control word and the bytes.\<close>

fun tx_prefix :: "usb_write list \<Rightarrow> u32 list" where
  "tx_prefix (TxData w # ws) = w # tx_prefix ws"
| "tx_prefix _ = []"

fun sent_packets :: "usb_write list \<Rightarrow> (u32 \<times> u8 list) list" where
  "sent_packets (Ctrl c # TxPLen n # ws) = (c, take (unat n) (words_bytes (tx_prefix ws))) # sent_packets ws"
| "sent_packets (_ # ws) = sent_packets ws"
| "sent_packets [] = []"

lemma sent_packets_TxData: "sent_packets (map TxData ws @ t) = sent_packets t"
  by (induction ws) auto

lemma tx_prefix_map: "tx_prefix (map TxData ws @ CmdCode c # t) = ws" "tx_prefix (map TxData ws @ DevIntClr c # t) = ws"
  by (induction ws) auto

text \<open>A stretch of the trace that can be appended without changing the packets before it.\<close>

definition starts_fresh :: "usb_write list \<Rightarrow> bool" where
  "starts_fresh t \<longleftrightarrow> (case t of [] \<Rightarrow> True | TxData _ # _ \<Rightarrow> False | TxPLen _ # _ \<Rightarrow> False | _ \<Rightarrow> True)"

lemma tx_prefix_append: "starts_fresh t \<Longrightarrow> tx_prefix (ws @ t) = tx_prefix ws"
  by (induction ws rule: tx_prefix.induct) (auto simp: starts_fresh_def split: list.splits usb_write.splits)

lemma sent_packets_append: "starts_fresh t \<Longrightarrow> sent_packets (ws @ t) = sent_packets ws @ sent_packets t"
  by (induction ws rule: sent_packets.induct)
    (auto simp: tx_prefix_append, auto simp: starts_fresh_def split: list.splits usb_write.splits)

lemma USBHwEPRead_delivers:
  assumes "rx_packets s = p # ps" "carries p bs" "min (length bs) m \<le> length buf"
  shows "\<exists>t. USBHwEPRead bEP (Some buf) (int m) s = Some (int (length bs),
      Some (take (min (length bs) m) bs @ drop (min (length bs) m) buf),
      s\<lparr>rx_packets := ps, usb_trace := usb_trace s @ t\<rparr>) \<and> starts_fresh t \<and> sent_packets t = []"
proof -
  from assms(2) obtain d where d: "rx_wait (plen_reads p) = Some d" "d AND 0x400 \<noteq> 0" "unat (d AND 0x3FF) = length bs"
    and bs: "take (length bs) (words_bytes (data_words p)) = bs"
    by (auto simp: carries_def)
  then have len: "length bs \<le> length (words_bytes (data_words p))"
    by (metis length_take min.bounded_iff order_refl min_def)
  have "length bs - 0 \<le> length (rx_pending 0 0 (data_words p))"
    using len by (simp add: rx_pending_def)
  from rx_bytes_deliver[OF this _ assms(3)] obtain buf' where
    buf': "rx_bytes 0 (length bs) 0 (data_words p) (Some buf) (int m) = Some (Some buf')" "length buf' = length buf"
    "take (min (length bs) m) buf' = take (min (length bs) m) (words_bytes (data_words p))"
    "drop (min (length bs) m) buf' = drop (min (length bs) m) buf"
    by (auto simp: rx_pending_def)
  have "take (min (length bs) m) (words_bytes (data_words p)) = take (min (length bs) m) bs"
    by (subst (2) bs[symmetric]) (simp add: min.commute)
  then have "buf' = take (min (length bs) m) bs @ drop (min (length bs) m) buf"
    using buf'(3,4) by (metis append_take_drop_id)
  moreover have "uint (d AND 0x3FF) = int (length bs)"
    by (simp flip: d(3))
  ultimately show ?thesis
    using d buf'(1) assms(1) by (auto simp: USBHwEPRead_def usb_cmd_defs starts_fresh_def)
qed

lemma USBHwEPWrite_sends:
  assumes "4 * ((iLen + 3) div 4) \<le> length pbBuf" "iLen < 2 ^ 32"
  shows "\<exists>t. USBHwEPWrite bEP pbBuf iLen s = Some (s\<lparr>usb_trace := usb_trace s @ t\<rparr>) \<and>
    sent_packets (usb_trace s @ t) = sent_packets (usb_trace s) @ [(0x2 OR push_bit 2 (ucast (bEP AND 0xF)), take iLen pbBuf)]"
proof -
  from tx_words_bytes[OF assms(1)] obtain ws where
    ws: "tx_words ((iLen + 3) div 4) pbBuf = Some ws" "words_bytes ws = take (4 * ((iLen + 3) div 4)) pbBuf"
    by blast
  have "iLen \<le> 4 * ((iLen + 3) div 4)"
    by presburger
  then have "take iLen (take (4 * ((iLen + 3) div 4)) pbBuf) = take iLen pbBuf"
    by (simp add: min_def)
  moreover have "unat (of_nat iLen :: u32) = iLen"
    using assms(2) by (simp add: unsigned_of_nat take_bit_nat_eq_self)
  moreover let ?t = "Ctrl (0x2 OR push_bit 2 (ucast (bEP AND 0xF))) # TxPLen (of_nat iLen) # map TxData ws @
    [DevIntClr 0x30, CmdCode (0x500 OR push_bit 16 (ucast (EP2IDX bEP))), DevIntClr 0x10,
     DevIntClr 0x30, CmdCode 0xFA0500, DevIntClr 0x10]"
  have "USBHwEPWrite bEP pbBuf iLen s = Some (s\<lparr>usb_trace := usb_trace s @ ?t\<rparr>)"
    using ws(1) by (simp add: USBHwEPWrite_def usb_cmd_defs)
  moreover have "sent_packets (usb_trace s @ ?t) = sent_packets (usb_trace s) @
      [(0x2 OR push_bit 2 (ucast (bEP AND 0xF)), take (unat (of_nat iLen :: u32)) (words_bytes ws))]"
    by (simp add: sent_packets_append starts_fresh_def sent_packets_TxData tx_prefix_map)
  ultimately show ?thesis
    using ws(2) by metis
qed

text \<open>Every byte string of a length that the register can announce is carried by a packet.\<close>

definition packet :: "u8 list \<Rightarrow> rx_packet" where
  "packet bs = \<lparr>plen_reads = [0xC00 OR ucast (of_nat (length bs) :: 10 word)],
     data_words = the (tx_words ((length bs + 3) div 4) (bs @ [0, 0, 0]))\<rparr>"

lemma packet_length:
  fixes y :: "10 word"
  defines "d \<equiv> 0xC00 OR ucast y :: u32"
  shows "d AND 0x800 \<noteq> 0" "d AND 0x400 \<noteq> 0" "d AND 0x3FF = ucast y"
proof -
  have "bit (d AND 0x800) 11" "bit (d AND 0x400) 10"
    by (simp_all add: d_def bit_simps bit_numeral_rec)
  then show "d AND 0x800 \<noteq> 0" "d AND 0x400 \<noteq> 0"
    by auto
  have m: "(0x3FF :: u32) = mask 10"
    by (simp add: mask_eq_exp_minus_1)
  have low: "n < 10 \<Longrightarrow> \<not> bit (0xC00 :: int) n" for n
    using bit_push_bit_iff[where 'a = int, of 10 3 n] by simp
  show "d AND 0x3FF = ucast y"
    by (intro bit_word_eqI) (auto simp: d_def m bit_simps low dest: bit_imp_le_length)
qed

lemma carries_packet: "length bs < 1024 \<Longrightarrow> carries (packet bs) bs"
proof -
  assume len: "length bs < 1024"
  have "4 * ((length bs + 3) div 4) \<le> length (bs @ [0, 0, 0])"
    by simp
  from tx_words_bytes[OF this] obtain ws where ws: "tx_words ((length bs + 3) div 4) (bs @ [0, 0, 0]) = Some ws"
    "words_bytes ws = take (4 * ((length bs + 3) div 4)) (bs @ [0, 0, 0])"
    by blast
  have "length bs \<le> 4 * ((length bs + 3) div 4)"
    by presburger
  then have "take (length bs) (words_bytes ws) = bs"
    by (simp add: ws(2) min_def)
  moreover have "unat (ucast (of_nat (length bs) :: 10 word) :: u32) = length bs"
    using len by (simp add: unat_ucast_mod unsigned_of_nat take_bit_nat_eq_self)
  ultimately show ?thesis
    using ws(1) by (simp add: carries_def packet_def packet_length)
qed

section \<open>A packet longer than its buffer\<close>

lemma rx_bytes_overflow:
  assumes "dwLen - i \<le> length (rx_pending i dwData words)" "i \<le> length buf" "length buf < min dwLen m"
  shows "rx_bytes i dwLen dwData words (Some buf) (int m) = None"
  using assms
proof (induction "dwLen - i" arbitrary: i dwData words buf)
  case (Suc n)
  then obtain b bs where pend: "rx_pending i dwData words = b # bs" and i: "i < dwLen"
    by (cases "rx_pending i dwData words") auto
  from rx_pending_step[OF pend] obtain w ws where
    w: "(if i mod 4 = 0 then (case words of [] \<Rightarrow> None | w # ws \<Rightarrow> Some (w, ws)) else Some (dwData, words)) = Some (w, ws)"
    "ucast (w AND 0xFF) = b" "rx_pending (i + 1) (drop_bit 8 w) ws = bs"
    by blast
  show ?case
  proof (cases "i = length buf")
    case True
    then have "c_write buf (int i) b = None" "i < m"
      using Suc.prems(3) by (simp_all add: c_write_def)
    then show ?thesis
      using i w(2) by (subst rx_bytes.simps) (simp add: w(1))
  next
    case False
    then have "rx_bytes (i + 1) dwLen (drop_bit 8 w) ws (Some (buf[i := b])) (int m) = None"
      using Suc.hyps(2) Suc.prems i pend w(3) by (intro Suc.hyps(1)) auto
    then show ?thesis
      using False i w(2) Suc.prems by (subst rx_bytes.simps) (simp add: w(1))
  qed
qed simp

lemma USBHwEPRead_overflow:
  assumes "rx_packets s = p # ps" "carries p bs" "length buf < min (length bs) m"
  shows "USBHwEPRead bEP (Some buf) (int m) s = None"
proof -
  from assms(2) obtain d where d: "rx_wait (plen_reads p) = Some d" "d AND 0x400 \<noteq> 0" "unat (d AND 0x3FF) = length bs"
    and bs: "take (length bs) (words_bytes (data_words p)) = bs"
    by (auto simp: carries_def)
  then have "length bs \<le> length (words_bytes (data_words p))"
    by (metis length_take min.bounded_iff order_refl min_def)
  then have "rx_bytes 0 (length bs) 0 (data_words p) (Some buf) (int m) = None"
    using assms(3) by (intro rx_bytes_overflow) (simp_all add: rx_pending_def)
  with d assms(1) show ?thesis
    by (simp add: USBHwEPRead_def usb_cmd_defs)
qed

end
