(* ===== verification/Usb_Control.thy ===== *)
theory Usb_Control
  imports Usb_Hw
begin

text \<open>
  Control transfers on endpoint 0: the standard requests (\<^verbatim>\<open>libraries/LPCUSB/src/usbstdreq.c\<close>), the CDC
  class requests (\<^verbatim>\<open>HandleClassRequest\<close> of \<^verbatim>\<open>libraries/R2C2/usb.c\<close>) and the transfer state machine
  (\<^verbatim>\<open>libraries/LPCUSB/src/usbcontrol.c\<close>). The C code keeps a pointer into one of four objects: the data
  store of the standard or class requests, the descriptor table, or the line coding; a pointer is the
  object and an offset, and every access is checked. The firmware installs no custom request
  handler, so the test for one in \<^verbatim>\<open>USBHandleStandardRequest\<close> is left out, as are the debug messages.
\<close>

section \<open>State\<close>

datatype usb_obj = StdReqData | ClassReqData | Descrip | LineCoding

datatype usb_ptr = Null | Ptr usb_obj nat

datatype req_handler = Handle_Standard | Handle_Class

text \<open>The setup packet is kept as its eight bytes; the fields are little-endian.\<close>

record usb_dev = usb_hw +
  Setup :: "u8 list"
  pbData :: usb_ptr
  iResidue :: int
  iLen :: int
  apfnReqHandlers :: "req_handler option list"
  apbDataStore :: "usb_ptr list"
  bConfiguration :: u8
  pabDescrip :: "u8 list"
  abStdReqData :: "u8 list"
  abClassReqData :: "u8 list"
  line_coding :: "u8 list"

abbreviation (input) MAX_PACKET_SIZE0 :: nat where "MAX_PACKET_SIZE0 \<equiv> 64"

definition le16 :: "u8 \<Rightarrow> u8 \<Rightarrow> u16" where
  "le16 lo hi = ucast lo OR push_bit 8 (ucast hi)"

definition bmRequestType :: "'z usb_dev_scheme \<Rightarrow> u8" where "bmRequestType s = Setup s ! 0"
definition bRequest :: "'z usb_dev_scheme \<Rightarrow> u8" where "bRequest s = Setup s ! 1"
definition wValue :: "'z usb_dev_scheme \<Rightarrow> u16" where "wValue s = le16 (Setup s ! 2) (Setup s ! 3)"
definition wIndex :: "'z usb_dev_scheme \<Rightarrow> u16" where "wIndex s = le16 (Setup s ! 4) (Setup s ! 5)"
definition wLength :: "'z usb_dev_scheme \<Rightarrow> u16" where "wLength s = le16 (Setup s ! 6) (Setup s ! 7)"

definition REQTYPE_GET_DIR :: "u8 \<Rightarrow> u8" where "REQTYPE_GET_DIR x = drop_bit 7 x AND 0x01"
definition REQTYPE_GET_TYPE :: "u8 \<Rightarrow> u8" where "REQTYPE_GET_TYPE x = drop_bit 5 x AND 0x03"
definition REQTYPE_GET_RECIP :: "u8 \<Rightarrow> u8" where "REQTYPE_GET_RECIP x = x AND 0x1F"

fun usb_mem :: "usb_obj \<Rightarrow> 'z usb_dev_scheme \<Rightarrow> u8 list" where
  "usb_mem StdReqData s = abStdReqData s"
| "usb_mem ClassReqData s = abClassReqData s"
| "usb_mem Descrip s = pabDescrip s"
| "usb_mem LineCoding s = line_coding s"

fun set_usb_mem :: "usb_obj \<Rightarrow> u8 list \<Rightarrow> 'z usb_dev_scheme \<Rightarrow> 'z usb_dev_scheme" where
  "set_usb_mem StdReqData m s = s\<lparr>abStdReqData := m\<rparr>"
| "set_usb_mem ClassReqData m s = s\<lparr>abClassReqData := m\<rparr>"
| "set_usb_mem Descrip m s = s"
| "set_usb_mem LineCoding m s = s\<lparr>line_coding := m\<rparr>"

text \<open>The part of an object that can be written: the descriptor table is constant.\<close>

definition usb_wmem :: "usb_obj \<Rightarrow> 'z usb_dev_scheme \<Rightarrow> u8 list" where
  "usb_wmem ob s = (if ob = Descrip then [] else usb_mem ob s)"

fun usb_store :: "usb_ptr \<Rightarrow> nat \<Rightarrow> u8 \<Rightarrow> 'z usb_dev_scheme \<Rightarrow> 'z usb_dev_scheme option" where
  "usb_store Null i v s = None"
| "usb_store (Ptr ob off) i v s = do {
     m \<leftarrow> c_write (usb_wmem ob s) (int (off + i)) v;
     Some (set_usb_mem ob m s) }"

section \<open>Standard requests\<close>

definition USBRegisterDescriptors :: "u8 list \<Rightarrow> 'z usb_dev_scheme \<Rightarrow> 'z usb_dev_scheme" where
  "USBRegisterDescriptors pabDescriptors s = s\<lparr>pabDescrip := pabDescriptors\<rparr>"

lemma walk_measure: "c_read d (int pab) = Some b \<Longrightarrow> b \<noteq> 0 \<Longrightarrow> length d - (pab + unat b) < length d - pab"
  using unat_gt_0[of b] by (auto simp: c_read_def split: if_splits)

text \<open>
  The walk over the descriptor list from offset \<open>pab\<close>: \<open>Some None\<close> when no descriptor matches,
  \<open>Some (Some (len, off))\<close> for the length and place of the one found.
\<close>

function find_desc :: "u8 list \<Rightarrow> nat \<Rightarrow> u8 \<Rightarrow> u8 \<Rightarrow> nat \<Rightarrow> (int \<times> nat) option option" where
  "find_desc d pab bType bIndex iCurIndex =
    (case c_read d (int pab) of
       None \<Rightarrow> None
     | Some blen \<Rightarrow>
         if blen = 0 then Some None
         else (case c_read d (int pab + 1) of
             None \<Rightarrow> None
           | Some t \<Rightarrow>
               if t = bType \<and> iCurIndex = unat bIndex then
                 (if bType = 2 then do {
                    lo \<leftarrow> c_read d (int pab + 2);
                    hi \<leftarrow> c_read d (int pab + 2 + 1);
                    Some (Some (int (unat (le16 lo hi)), pab)) }
                  else Some (Some (int (unat blen), pab)))
               else find_desc d (pab + unat blen) bType bIndex (if t = bType then iCurIndex + 1 else iCurIndex)))"
  by pat_completeness auto
termination
  by (relation "measure (\<lambda>(d, pab, _). length d - pab)") (auto intro: walk_measure)

declare find_desc.simps [simp del]

type_synonym 'z req_result = "(bool \<times> int \<times> usb_ptr \<times> 'z usb_dev_scheme) option"

definition USBGetDescriptor :: "u16 \<Rightarrow> u16 \<Rightarrow> int \<Rightarrow> usb_ptr \<Rightarrow> 'z usb_dev_scheme \<Rightarrow> 'z req_result" where
  "USBGetDescriptor wTypeIndex wLangID len p s = do {
     let bType = ucast (drop_bit 8 wTypeIndex AND 0xFF);
     let bIndex = ucast (wTypeIndex AND 0xFF);
     r \<leftarrow> find_desc (pabDescrip s) 0 bType bIndex 0;
     Some (case r of
         None \<Rightarrow> (False, len, p, s)
       | Some (l, off) \<Rightarrow> (True, l, Ptr Descrip off, s)) }"

function set_config_loop :: "u8 list \<Rightarrow> nat \<Rightarrow> u8 \<Rightarrow> u8 \<Rightarrow> u8 \<Rightarrow> u8 \<Rightarrow> 'z usb_hw_scheme \<Rightarrow> 'z usb_hw_scheme option" where
  "set_config_loop d pab bConfigIndex bAltSetting bCurConfig bCurAltSetting s =
    (case c_read d (int pab) of
       None \<Rightarrow> None
     | Some blen \<Rightarrow>
         if blen = 0 then Some s
         else (case c_read d (int pab + 1) of
             None \<Rightarrow> None
           | Some t \<Rightarrow>
               if t = 2 then
                 (case c_read d (int pab + 5) of None \<Rightarrow> None
                  | Some c \<Rightarrow> set_config_loop d (pab + unat blen) bConfigIndex bAltSetting c bCurAltSetting s)
               else if t = 4 then
                 (case c_read d (int pab + 3) of None \<Rightarrow> None
                  | Some a \<Rightarrow> set_config_loop d (pab + unat blen) bConfigIndex bAltSetting bCurConfig a s)
               else if t = 5 \<and> bCurConfig = bConfigIndex \<and> bCurAltSetting = bAltSetting then
                 (case (c_read d (int pab + 2), c_read d (int pab + 4), c_read d (int pab + 4 + 1)) of
                    (Some bEP, Some lo, Some hi) \<Rightarrow>
                      set_config_loop d (pab + unat blen) bConfigIndex bAltSetting bCurConfig bCurAltSetting
                        (USBHwEPConfig bEP (le16 lo hi) s)
                  | _ \<Rightarrow> None)
               else set_config_loop d (pab + unat blen) bConfigIndex bAltSetting bCurConfig bCurAltSetting s))"
  by pat_completeness auto
termination
  by (relation "measure (\<lambda>(d, pab, _). length d - pab)") (auto intro: walk_measure)

declare set_config_loop.simps [simp del]

definition USBSetConfiguration :: "u8 \<Rightarrow> u8 \<Rightarrow> 'z usb_dev_scheme \<Rightarrow> (bool \<times> 'z usb_dev_scheme) option" where
  "USBSetConfiguration bConfigIndex bAltSetting s =
    (if bConfigIndex = 0 then Some (True, USBHwConfigDevice False s)
     else do {
       s \<leftarrow> set_config_loop (pabDescrip s) 0 bConfigIndex bAltSetting 0xFF 0xFF s;
       Some (True, USBHwConfigDevice True s) })"

definition HandleStdDeviceReq :: "int \<Rightarrow> usb_ptr \<Rightarrow> 'z usb_dev_scheme \<Rightarrow> 'z req_result" where
  "HandleStdDeviceReq len p s =
    (let r = bRequest s in
     if r = 0x00 then do {
       s \<leftarrow> usb_store p 0 0 s;
       s \<leftarrow> usb_store p 1 0 s;
       Some (True, 2, p, s) }
     else if r = 0x05 then Some (True, len, p, USBHwSetAddress (ucast (wValue s)) s)
     else if r = 0x06 then USBGetDescriptor (wValue s) (wIndex s) len p s
     else if r = 0x08 then do {
       s \<leftarrow> usb_store p 0 (bConfiguration s) s;
       Some (True, 1, p, s) }
     else if r = 0x09 then do {
       (ok, s) \<leftarrow> USBSetConfiguration (ucast (wValue s AND 0xFF)) 0 s;
       if \<not> ok then Some (False, len, p, s)
       else Some (True, len, p, s\<lparr>bConfiguration := ucast (wValue s AND 0xFF)\<rparr>) }
     else Some (False, len, p, s))"

definition HandleStdInterfaceReq :: "int \<Rightarrow> usb_ptr \<Rightarrow> 'z usb_dev_scheme \<Rightarrow> 'z req_result" where
  "HandleStdInterfaceReq len p s =
    (let r = bRequest s in
     if r = 0x00 then do {
       s \<leftarrow> usb_store p 0 0 s;
       s \<leftarrow> usb_store p 1 0 s;
       Some (True, 2, p, s) }
     else if r = 0x0A then do {
       s \<leftarrow> usb_store p 0 0 s;
       Some (True, 1, p, s) }
     else if r = 0x0B then
       (if wValue s \<noteq> 0 then Some (False, len, p, s) else Some (True, 0, p, s))
     else Some (False, len, p, s))"

definition HandleStdEndPointReq :: "int \<Rightarrow> usb_ptr \<Rightarrow> 'z usb_dev_scheme \<Rightarrow> 'z req_result" where
  "HandleStdEndPointReq len p s =
    (let r = bRequest s in
     if r = 0x00 then do {
       (st, s) \<leftarrow> USBHwEPGetStatus (ucast (wIndex s)) s;
       s \<leftarrow> usb_store p 0 (if st AND 0x02 \<noteq> 0 then 1 else 0) s;
       s \<leftarrow> usb_store p 1 0 s;
       Some (True, 2, p, s) }
     else if r = 0x01 then
       (if wValue s = 0 then Some (True, len, p, USBHwEPStall (ucast (wIndex s)) False s)
        else Some (False, len, p, s))
     else if r = 0x03 then
       (if wValue s = 0 then Some (True, len, p, USBHwEPStall (ucast (wIndex s)) True s)
        else Some (False, len, p, s))
     else Some (False, len, p, s))"

definition USBHandleStandardRequest :: "int \<Rightarrow> usb_ptr \<Rightarrow> 'z usb_dev_scheme \<Rightarrow> 'z req_result" where
  "USBHandleStandardRequest len p s =
    (let recip = REQTYPE_GET_RECIP (bmRequestType s) in
     if recip = 0 then HandleStdDeviceReq len p s
     else if recip = 1 then HandleStdInterfaceReq len p s
     else if recip = 2 then HandleStdEndPointReq len p s
     else Some (False, len, p, s))"

section \<open>The descriptor table\<close>

text \<open>\<^verbatim>\<open>LE_WORD\<close> for a constant of 16 bits.\<close>

definition LE_WORD :: "nat \<Rightarrow> u8 list" where
  "LE_WORD x = [of_nat (x mod 256), of_nat (x div 256)]"

definition device_descriptor :: "u8 list" where
  "device_descriptor = [0x12, 1] @ LE_WORD 0x0101 @ [0x02, 0x00, 0x00, 64] @ LE_WORD 0xFFFF @ LE_WORD 0x55aa @ LE_WORD 0x0100 @
     [0x01, 0x02, 0x03, 0x01]"

definition configuration_descriptor :: "u8 list" where
  "configuration_descriptor = [0x09, 2] @ LE_WORD 147 @ [0x02, 0x01, 0x00, 0xC0, 0x32]"

definition control_interface_descriptors :: "u8 list" where
  "control_interface_descriptors =
     [0x09, 4, 0x00, 0x00, 0x01, 0x02, 0x02, 0x01, 0x00] @
     [0x05, 0x24, 0x00] @ LE_WORD 0x0110 @
     [0x05, 0x24, 0x01, 0x01, 0x01] @
     [0x04, 0x24, 0x02, 0x02] @
     [0x05, 0x24, 0x06, 0x00, 0x01] @
     [0x07, 5, 0x81, 0x03] @ LE_WORD 8 @ [0x0A]"

definition data_interface_descriptors :: "u8 list" where
  "data_interface_descriptors =
     [0x09, 4, 0x01, 0x00, 0x02, 0x0A, 0x00, 0x00, 0x00] @
     [0x07, 5, 0x05, 0x02] @ LE_WORD 64 @ [0x00] @
     [0x07, 5, 0x82, 0x02] @ LE_WORD 64 @ [0x00]"

definition utf16 :: "u8 list \<Rightarrow> u8 list" where
  "utf16 cs = concat (map (\<lambda>c. [c, 0]) cs)"

definition string_descriptors :: "u8 list" where
  "string_descriptors =
     [0x04, 3] @ LE_WORD 0x0409 @
     [14, 3] @ utf16 [98, 105, 116, 66, 79, 88] @
     [58, 3] @ utf16 ([69, 113, 117, 105, 110, 111, 120] @
       [32, 67, 108, 111, 99, 107, 32, 83, 101, 114, 105, 97, 108, 32, 32, 32, 32, 32, 32, 32, 32]) @
     [4, 3] @ utf16 [49]"

definition abDescriptors :: "u8 list" where
  "abDescriptors = device_descriptor @ configuration_descriptor @ control_interface_descriptors @
     data_interface_descriptors @ string_descriptors @ [0]"

section \<open>Class requests\<close>

text \<open>\<open>memcpy((U8 *)&LineCoding, *ppbData, 7)\<close>\<close>

definition copy_line_coding :: "usb_ptr \<Rightarrow> 'z usb_dev_scheme \<Rightarrow> 'z usb_dev_scheme option" where
  "copy_line_coding p s =
    (case p of
       Null \<Rightarrow> None
     | Ptr ob off \<Rightarrow>
         if off + 7 \<le> length (usb_mem ob s) \<and> 7 \<le> length (line_coding s)
         then Some (s\<lparr>line_coding := take 7 (drop off (usb_mem ob s)) @ drop 7 (line_coding s)\<rparr>)
         else None)"

definition HandleClassRequest :: "int \<Rightarrow> usb_ptr \<Rightarrow> 'z usb_dev_scheme \<Rightarrow> 'z req_result" where
  "HandleClassRequest len p s =
    (let r = bRequest s in
     if r = 0x20 then do { s \<leftarrow> copy_line_coding p s; Some (True, 7, p, s) }
     else if r = 0x21 then Some (True, 7, Ptr LineCoding 0, s)
     else if r = 0x22 then Some (True, len, p, s)
     else Some (False, len, p, s))"

section \<open>The transfer state machine\<close>

fun call_handler :: "req_handler \<Rightarrow> int \<Rightarrow> usb_ptr \<Rightarrow> 'z usb_dev_scheme \<Rightarrow> 'z req_result" where
  "call_handler Handle_Standard len p s = USBHandleStandardRequest len p s"
| "call_handler Handle_Class len p s = HandleClassRequest len p s"

text \<open>\<^verbatim>\<open>_HandleRequest(&Setup, &iLen, &pbData)\<close>: the success flag and the state with the new values.\<close>

definition HandleRequest :: "'z usb_dev_scheme \<Rightarrow> (bool \<times> 'z usb_dev_scheme) option" where
  "HandleRequest s = do {
     let iType = REQTYPE_GET_TYPE (bmRequestType s);
     h \<leftarrow> c_read (apfnReqHandlers s) (uint iType);
     case h of
       None \<Rightarrow> Some (False, s)
     | Some handler \<Rightarrow> do {
         (ok, len, p, s) \<leftarrow> call_handler handler (iLen s) (pbData s) s;
         Some (ok, s\<lparr>iLen := len, pbData := p\<rparr>) } }"

definition StallControlPipe :: "u8 \<Rightarrow> 'z usb_dev_scheme \<Rightarrow> 'z usb_dev_scheme" where
  "StallControlPipe bEPStat s = USBHwEPStall 0x80 True s"

text \<open>
  The memory that a packet is sent from; nothing is read of it for an empty packet. A residue
  below zero, which an OUT packet longer than announced leaves behind, would be announced to the
  controller as a huge length: no value.
\<close>

fun ptr_bytes :: "usb_ptr \<Rightarrow> 'z usb_dev_scheme \<Rightarrow> u8 list" where
  "ptr_bytes Null s = []"
| "ptr_bytes (Ptr ob off) s = drop off (usb_mem ob s)"

fun ptr_plus :: "usb_ptr \<Rightarrow> nat \<Rightarrow> usb_ptr" where
  "ptr_plus Null n = Null"
| "ptr_plus (Ptr ob off) n = Ptr ob (off + n)"

definition DataIn :: "'z usb_dev_scheme \<Rightarrow> 'z usb_dev_scheme option" where
  "DataIn s = do {
     let iChunk = min (int MAX_PACKET_SIZE0) (iResidue s);
     _ \<leftarrow> (if iChunk < 0 then None else Some ());
     s \<leftarrow> USBHwEPWrite 0x80 (ptr_bytes (pbData s) s) (nat iChunk) s;
     Some (s\<lparr>pbData := ptr_plus (pbData s) (nat iChunk), iResidue := iResidue s - iChunk\<rparr>) }"

definition control_setup :: "u8 \<Rightarrow> 'z usb_dev_scheme \<Rightarrow> 'z usb_dev_scheme option" where
  "control_setup bEPStat s = do {
     (n, buf, s) \<leftarrow> USBHwEPRead 0x00 (Some (Setup s)) 8 s;
     let s = s\<lparr>Setup := the buf\<rparr>;
     let iType = REQTYPE_GET_TYPE (bmRequestType s);
     p \<leftarrow> c_read (apbDataStore s) (uint iType);
     let s = s\<lparr>pbData := p, iResidue := uint (wLength s), iLen := uint (wLength s)\<rparr>;
     if wLength s = 0 \<or> REQTYPE_GET_DIR (bmRequestType s) = 1 then do {
       (ok, s) \<leftarrow> HandleRequest s;
       if \<not> ok then Some (StallControlPipe bEPStat s)
       else DataIn (s\<lparr>iResidue := min (iLen s) (uint (wLength s))\<rparr>) }
     else Some s }"

text \<open>Reading into the object that \<open>pbData\<close> points into, from its offset on.\<close>

definition control_data_read :: "'z usb_dev_scheme \<Rightarrow> (int \<times> 'z usb_dev_scheme) option" where
  "control_data_read s =
    (case pbData s of
       Null \<Rightarrow> None
     | Ptr ob off \<Rightarrow>
         if off \<le> length (usb_mem ob s) then do {
           (n, buf, s) \<leftarrow> USBHwEPRead 0x00 (Some (drop off (usb_wmem ob s))) (iResidue s) s;
           Some (n, set_usb_mem ob (take off (usb_wmem ob s) @ the buf) s) }
         else None)"

definition control_out :: "u8 \<Rightarrow> 'z usb_dev_scheme \<Rightarrow> 'z usb_dev_scheme option" where
  "control_out bEPStat s =
    (if iResidue s > 0 then do {
       (iChunk, s) \<leftarrow> control_data_read s;
       if iChunk < 0 then Some (StallControlPipe bEPStat s)
       else do {
         let s = s\<lparr>pbData := ptr_plus (pbData s) (nat iChunk), iResidue := iResidue s - iChunk\<rparr>;
         if iResidue s = 0 then do {
           let iType = REQTYPE_GET_TYPE (bmRequestType s);
           p \<leftarrow> c_read (apbDataStore s) (uint iType);
           (ok, s) \<leftarrow> HandleRequest (s\<lparr>pbData := p\<rparr>);
           if \<not> ok then Some (StallControlPipe bEPStat s)
           else DataIn s }
         else Some s } }
     else do {
       (n, buf, s) \<leftarrow> USBHwEPRead 0x00 None 0 s;
       Some s })"

definition USBHandleControlTransfer :: "u8 \<Rightarrow> u8 \<Rightarrow> 'z usb_dev_scheme \<Rightarrow> 'z usb_dev_scheme option" where
  "USBHandleControlTransfer bEP bEPStat s =
    (if bEP = 0x00 then
       (if bEPStat AND 0x04 \<noteq> 0 then control_setup bEPStat s else control_out bEPStat s)
     else if bEP = 0x80 then DataIn s
     else Some s)"

definition USBRegisterRequestHandler :: "nat \<Rightarrow> req_handler \<Rightarrow> usb_ptr \<Rightarrow> 'z usb_dev_scheme \<Rightarrow> 'z usb_dev_scheme option" where
  "USBRegisterRequestHandler iType h p s = do {
     hs \<leftarrow> c_write (apfnReqHandlers s) (int iType) (Some h);
     ps \<leftarrow> c_write (apbDataStore s) (int iType) p;
     Some (s\<lparr>apfnReqHandlers := hs, apbDataStore := ps\<rparr>) }"

lemma abDescriptors_eq: "abDescriptors =
     [18, 1, 1, 1, 2, 0, 0, 64, 255, 255, 170, 85, 0, 1, 1, 2, 3, 1, 9, 2, 147, 0, 2, 1, 0, 192, 50, 9, 4, 0, 0, 1,
     2, 2, 1, 0, 5, 36, 0, 16, 1, 5, 36, 1, 1, 1, 4, 36, 2, 2, 5, 36, 6, 0, 1, 7, 5, 129, 3, 8, 0, 10, 9, 4, 1, 0,
     2, 10, 0, 0, 0, 7, 5, 5, 2, 64, 0, 0, 7, 5, 130, 2, 64, 0, 0, 4, 3, 9, 4, 14, 3, 98, 0, 105, 0, 116, 0, 66, 0,
     79, 0, 88, 0, 58, 3, 69, 0, 113, 0, 117, 0, 105, 0, 110, 0, 111, 0, 120, 0, 32, 0, 67, 0, 108, 0, 111, 0, 99,
     0, 107, 0, 32, 0, 83, 0, 101, 0, 114, 0, 105, 0, 97, 0, 108, 0, 32, 0, 32, 0, 32, 0, 32, 0, 32, 0, 32, 0, 32,
     0, 32, 0, 4, 3, 49, 0, 0]"
  by (simp add: abDescriptors_def device_descriptor_def configuration_descriptor_def control_interface_descriptors_def
      data_interface_descriptors_def string_descriptors_def LE_WORD_def utf16_def)

lemma length_abDescriptors: "length abDescriptors = 166"
  by (simp add: abDescriptors_eq)

lemma find_desc_table:
  "find_desc abDescriptors 0 1 0 0 = Some (Some (18, 0))" "find_desc abDescriptors 0 1 1 0 = Some None"
  "find_desc abDescriptors 0 2 0 0 = Some (Some (147, 18))" "find_desc abDescriptors 0 2 1 0 = Some None"
  "find_desc abDescriptors 0 3 0 0 = Some (Some (4, 85))" "find_desc abDescriptors 0 3 1 0 = Some (Some (14, 89))"
  "find_desc abDescriptors 0 3 2 0 = Some (Some (58, 103))" "find_desc abDescriptors 0 3 3 0 = Some (Some (4, 161))"
  "find_desc abDescriptors 0 3 4 0 = Some None" "find_desc abDescriptors 0 6 0 0 = Some None"
  by (simp_all add: abDescriptors_eq find_desc.simps c_read_def le16_def)

section \<open>Control transfers to the host\<close>

lemma usb_mem_hw [simp]:
  "usb_mem ob (s\<lparr>usb_trace := t\<rparr>) = usb_mem ob s" "usb_mem ob (s\<lparr>rx_packets := r\<rparr>) = usb_mem ob s"
  "usb_mem ob (s\<lparr>pbData := p\<rparr>) = usb_mem ob s" "usb_mem ob (s\<lparr>iResidue := n\<rparr>) = usb_mem ob s"
  "usb_mem ob (s\<lparr>Setup := b\<rparr>) = usb_mem ob s" "usb_mem ob (s\<lparr>iLen := n\<rparr>) = usb_mem ob s"
  by (cases ob; simp)+

text \<open>The control word that selects endpoint 0 for writing is 2.\<close>

lemma DataIn_sends:
  assumes "pbData s = Ptr ob off" "iResidue s = int r" "off + 4 * ((r + 3) div 4) \<le> length (usb_mem ob s)"
  shows "\<exists>t. DataIn s = Some (s\<lparr>usb_trace := usb_trace s @ t, pbData := Ptr ob (off + min 64 r),
      iResidue := int (r - min 64 r)\<rparr>) \<and>
    sent_packets (usb_trace s @ t) = sent_packets (usb_trace s) @ [(2, take 64 (take r (drop off (usb_mem ob s))))]"
proof -
  have "(min 64 r + 3) div 4 \<le> (r + 3) div 4"
    by (intro div_le_mono) simp
  then have "4 * ((min 64 r + 3) div 4) \<le> length (drop off (usb_mem ob s))"
    using assms(3) by simp
  moreover have "min 64 r < 2 ^ 32"
    by (rule le_less_trans[of _ 64]) simp_all
  ultimately obtain t where
    t: "USBHwEPWrite 0x80 (drop off (usb_mem ob s)) (min 64 r) s = Some (s\<lparr>usb_trace := usb_trace s @ t\<rparr>)"
    "sent_packets (usb_trace s @ t) = sent_packets (usb_trace s) @ [(2, take (min 64 r) (drop off (usb_mem ob s)))]"
    using USBHwEPWrite_sends[of "min 64 r" "drop off (usb_mem ob s)" "0x80" s] by auto
  have "min 64 (int r) = int (min 64 r)"
    by simp
  then show ?thesis
    using t assms(1,2) by (simp add: DataIn_def Let_def del: of_nat_min)
      (auto simp: min_def nat_diff_distrib)
qed

text \<open>Further IN tokens on endpoint 0, each answered with the next chunk.\<close>

fun in_polls :: "nat \<Rightarrow> 'z usb_dev_scheme \<Rightarrow> 'z usb_dev_scheme option" where
  "in_polls 0 s = Some s"
| "in_polls (Suc k) s = do { s \<leftarrow> USBHandleControlTransfer 0x80 0 s; in_polls k s }"

definition chunk :: "u8 list \<Rightarrow> nat \<Rightarrow> u8 list" where
  "chunk data j = take 64 (drop (64 * j) data)"

lemma chunk_Suc: "chunk (take r m) (Suc j) = chunk (take (r - min 64 r) (drop (min 64 r) m)) j"
  by (cases "64 \<le> r") (auto simp: chunk_def drop_take min_def add.commute)

lemma in_polls_sends:
  assumes "pbData s = Ptr ob off" "iResidue s = int r" "off + 4 * ((r + 3) div 4) \<le> length (usb_mem ob s)"
  shows "\<exists>s'. in_polls k s = Some s' \<and> sent_packets (usb_trace s') = sent_packets (usb_trace s) @
    map (\<lambda>j. (2, chunk (take r (drop off (usb_mem ob s))) j)) [0..<k]"
  using assms
proof (induction k arbitrary: s off r)
  case (Suc k)
  from DataIn_sends[OF Suc.prems] obtain t where
    t: "DataIn s = Some (s\<lparr>usb_trace := usb_trace s @ t, pbData := Ptr ob (off + min 64 r), iResidue := int (r - min 64 r)\<rparr>)"
    (is "_ = Some ?s") "sent_packets (usb_trace s @ t) = sent_packets (usb_trace s) @ [(2, take 64 (take r (drop off (usb_mem ob s))))]"
    by blast
  have "off + min 64 r + 4 * ((r - min 64 r + 3) div 4) \<le> length (usb_mem ob s)"
  proof (cases "64 \<le> r")
    case True
    then obtain q where q: "r = 64 + q"
      using le_Suc_ex by blast
    have "(q + 3 + 16 * 4) div 4 = 16 + (q + 3) div 4"
      by (rule div_mult_self1) simp
    then show ?thesis
      using Suc.prems(3) by (simp add: q add.commute)
  qed (use Suc.prems(3) in \<open>simp add: min_def\<close>)
  with Suc.IH[of ?s "off + min 64 r" "r - min 64 r"] obtain s' where
    s': "in_polls k ?s = Some s'" "sent_packets (usb_trace s') = sent_packets (usb_trace s @ t) @
      map (\<lambda>j. (2, chunk (take (r - min 64 r) (drop (off + min 64 r) (usb_mem ob s))) j)) [0..<k]"
    by auto
  have "chunk (take (r - min 64 r) (drop (off + min 64 r) (usb_mem ob s))) = (\<lambda>j. chunk (take r (drop off (usb_mem ob s))) (Suc j))"
    by (simp add: chunk_Suc fun_eq_iff add.commute)
  then show ?case
    using s' t by (simp add: USBHandleControlTransfer_def upt_conv_Cons map_Suc_upt[symmetric] chunk_def del: upt_Suc)
qed simp

text \<open>The stack as it is set up: the handlers and data stores by request type, and the sizes of the buffers.\<close>

definition stack_wired :: "'z usb_dev_scheme \<Rightarrow> bool" where
  "stack_wired s \<longleftrightarrow> apfnReqHandlers s = [Some Handle_Standard, Some Handle_Class, None, None] \<and>
     apbDataStore s = [Ptr StdReqData 0, Ptr ClassReqData 0, Null, Null] \<and> length (Setup s) = 8 \<and>
     length (abStdReqData s) = 8 \<and> length (abClassReqData s) = 8 \<and> length (line_coding s) = 8"

text \<open>A device that is set up and about to receive the given packets.\<close>

definition usb_dev_with :: "rx_packet list \<Rightarrow> usb_dev" where
  "usb_dev_with ps = \<lparr>USBReEP = 3, USBEpIntEn = 0xFFFFFFFF, USBDevIntEn = 0, cmd_data = [], rx_packets = ps, usb_trace = [],
     Setup = replicate 8 0, pbData = Null, iResidue = 0, iLen = 0,
     apfnReqHandlers = [Some Handle_Standard, Some Handle_Class, None, None],
     apbDataStore = [Ptr StdReqData 0, Ptr ClassReqData 0, Null, Null],
     bConfiguration = 0, pabDescrip = abDescriptors, abStdReqData = replicate 8 0, abClassReqData = replicate 8 0,
     line_coding = [0x00, 0xC2, 0x01, 0x00, 0, 0, 8, 0]\<rparr>"

lemma usb_dev_with_wired: "stack_wired (usb_dev_with ps)"
  by (simp add: stack_wired_def usb_dev_with_def)

lemma usb_dev_with_simps [simp]: "rx_packets (usb_dev_with ps) = ps" "pabDescrip (usb_dev_with ps) = abDescriptors"
  "usb_trace (usb_dev_with ps) = []"
  by (simp_all add: usb_dev_with_def)

lemma setup_read:
  assumes "stack_wired s" "rx_packets s = p # ps" "carries p bs" "length bs = 8"
  shows "\<exists>t. USBHwEPRead 0 (Some (Setup s)) 8 s = Some (8, Some bs, s\<lparr>rx_packets := ps, usb_trace := usb_trace s @ t\<rparr>) \<and>
    sent_packets (usb_trace s @ t) = sent_packets (usb_trace s)"
proof -
  from USBHwEPRead_delivers[OF assms(2,3), of 8 "Setup s" 0] assms(1,4) obtain t where
    "USBHwEPRead 0 (Some (Setup s)) 8 s = Some (8, Some bs, s\<lparr>rx_packets := ps, usb_trace := usb_trace s @ t\<rparr>)"
    "starts_fresh t" "sent_packets t = []"
    by (auto simp: stack_wired_def)
  then show ?thesis
    by (auto simp: sent_packets_append)
qed

lemmas setup_fields = bmRequestType_def bRequest_def wValue_def wIndex_def wLength_def

text \<open>What the SETUP stage does up to the request handler.\<close>

lemma control_setup_request:
  assumes "stack_wired s" "rx_packets s = p # ps" "carries p [rt, rq, v0, v1, i0, i1, l0, l1]"
    "le16 l0 l1 = 0 \<or> REQTYPE_GET_DIR rt = 1"
  shows "\<exists>t. sent_packets (usb_trace s @ t) = sent_packets (usb_trace s) \<and>
    control_setup st s =
      (let s1 = s\<lparr>rx_packets := ps, usb_trace := usb_trace s @ t, Setup := [rt, rq, v0, v1, i0, i1, l0, l1],
          pbData := apbDataStore s ! unat (REQTYPE_GET_TYPE rt), iResidue := uint (le16 l0 l1), iLen := uint (le16 l0 l1)\<rparr>
       in do {
         (ok, s2) \<leftarrow> HandleRequest s1;
         if \<not> ok then Some (StallControlPipe st s2)
         else DataIn (s2\<lparr>iResidue := min (iLen s2) (uint (wLength s2))\<rparr>) })"
proof -
  from setup_read[OF assms(1-3)] obtain t where
    t: "USBHwEPRead 0 (Some (Setup s)) 8 s = Some (8, Some [rt, rq, v0, v1, i0, i1, l0, l1], s\<lparr>rx_packets := ps, usb_trace := usb_trace s @ t\<rparr>)"
    "sent_packets (usb_trace s @ t) = sent_packets (usb_trace s)"
    by auto
  have "unat (REQTYPE_GET_TYPE rt) < 4"
    using unat_and_mask[of "drop_bit 5 rt" 2] by (simp add: REQTYPE_GET_TYPE_def mask_eq_exp_minus_1)
  moreover have "length (apbDataStore s) = 4"
    using assms(1) by (simp add: stack_wired_def)
  ultimately show ?thesis
    using t assms(4) by (intro exI[of _ t]) (simp add: control_setup_def setup_fields c_read_word Let_def)
qed

lemma le16_bytes: "ucast (drop_bit 8 (le16 lo hi) AND 0xFF) = hi" "ucast (le16 lo hi AND 0xFF) = lo"
proof -
  have ff: "(0xFF :: u16) = mask 8"
    by (simp add: mask_eq_exp_minus_1)
  show "ucast (drop_bit 8 (le16 lo hi) AND 0xFF) = hi" "ucast (le16 lo hi AND 0xFF) = lo"
    by (auto simp: ff le16_def intro!: bit_word_eqI simp: bit_simps u8_high_bit)
qed

lemma u8_less_4: "unat (x :: u8) < 4 \<Longrightarrow> x = 0 \<or> x = 1 \<or> x = 2 \<or> x = 3"
  by (auto simp: word_unat_eq_iff)

lemma wired_handler:
  assumes "stack_wired s" "Setup s = rt # bs"
  shows "HandleRequest s =
    (if REQTYPE_GET_TYPE rt = 0 then do {
       (ok, len, p, s) \<leftarrow> USBHandleStandardRequest (iLen s) (pbData s) s; Some (ok, s\<lparr>iLen := len, pbData := p\<rparr>) }
     else if REQTYPE_GET_TYPE rt = 1 then do {
       (ok, len, p, s) \<leftarrow> HandleClassRequest (iLen s) (pbData s) s; Some (ok, s\<lparr>iLen := len, pbData := p\<rparr>) }
     else Some (False, s))"
proof -
  have "unat (REQTYPE_GET_TYPE rt) < 4"
    using unat_and_mask[of "drop_bit 5 rt" 2] by (simp add: REQTYPE_GET_TYPE_def mask_eq_exp_minus_1)
  then consider "REQTYPE_GET_TYPE rt = 0" | "REQTYPE_GET_TYPE rt = 1" | "REQTYPE_GET_TYPE rt = 2" | "REQTYPE_GET_TYPE rt = 3"
    using u8_less_4 by blast
  then show ?thesis
    using assms by cases (simp_all add: HandleRequest_def stack_wired_def setup_fields Let_def)
qed

text \<open>
  C29: A GET_DESCRIPTOR request for a descriptor of the registered list is answered with exactly the
  first \<open>min wLength len\<close> bytes of that descriptor, in order and in packets of at most 64 bytes: the
  SETUP stage sends the first and every further IN token on endpoint 0 the next.
\<close>

theorem descriptor_delivered:
  assumes "stack_wired s" "rx_packets s = p # ps" "carries p [0x80, 6, i, t, i0, i1, l0, l1]" "st AND 4 \<noteq> 0"
    "find_desc (pabDescrip s) 0 t i 0 = Some (Some (int l, off))" "r = min l (unat (le16 l0 l1))"
    "off + 4 * ((r + 3) div 4) \<le> length (pabDescrip s)"
  shows "\<exists>s1 s'. USBHandleControlTransfer 0 st s = Some s1 \<and> in_polls k s1 = Some s' \<and>
    sent_packets (usb_trace s') = sent_packets (usb_trace s) @
      map (\<lambda>j. (2, chunk (take r (drop off (pabDescrip s))) j)) [0..<Suc k]"
proof -
  let ?bs = "[0x80, 6, i, t, i0, i1, l0, l1]"
  from control_setup_request[OF assms(1-3), of st] obtain tr where
    tr: "sent_packets (usb_trace s @ tr) = sent_packets (usb_trace s)" and
    cs: "control_setup st s =
      (let s1 = s\<lparr>rx_packets := ps, usb_trace := usb_trace s @ tr, Setup := ?bs,
          pbData := Ptr StdReqData 0, iResidue := uint (le16 l0 l1), iLen := uint (le16 l0 l1)\<rparr>
       in do {
         (ok, s2) \<leftarrow> HandleRequest s1;
         if \<not> ok then Some (StallControlPipe st s2)
         else DataIn (s2\<lparr>iResidue := min (iLen s2) (uint (wLength s2))\<rparr>) })"
    using assms(1) by (auto simp: REQTYPE_GET_DIR_def REQTYPE_GET_TYPE_def stack_wired_def)
  let ?s1 = "s\<lparr>rx_packets := ps, usb_trace := usb_trace s @ tr, Setup := ?bs,
          pbData := Ptr StdReqData 0, iResidue := uint (le16 l0 l1), iLen := uint (le16 l0 l1)\<rparr>"
  note v = le16_bytes[of i t]
  have "HandleRequest ?s1 = Some (True, ?s1\<lparr>iLen := int l, pbData := Ptr Descrip off\<rparr>)"
    using assms(1,5) v
    by (subst wired_handler[where rt = "0x80" and bs = "tl ?bs"])
      (auto simp: stack_wired_def REQTYPE_GET_TYPE_def USBHandleStandardRequest_def REQTYPE_GET_RECIP_def
        HandleStdDeviceReq_def setup_fields USBGetDescriptor_def Let_def)
  moreover have r: "min (int l) (uint (le16 l0 l1)) = int r"
    unfolding assms(6) by (simp add: of_nat_min)
  ultimately have "control_setup st s = DataIn (?s1\<lparr>iLen := int l, pbData := Ptr Descrip off, iResidue := int r\<rparr>)"
    unfolding cs using r by (simp add: setup_fields Let_def)
  then have run: "Option.bind (USBHandleControlTransfer 0 st s) (in_polls k) =
      in_polls (Suc k) (?s1\<lparr>iLen := int l, pbData := Ptr Descrip off, iResidue := int r\<rparr>)"
    using assms(4) by (simp add: USBHandleControlTransfer_def)
  from in_polls_sends[of "?s1\<lparr>iLen := int l, pbData := Ptr Descrip off, iResidue := int r\<rparr>" Descrip off r "Suc k"] assms(7) tr
  show ?thesis
    unfolding run[symmetric] by (auto simp: bind_eq_Some_conv)
qed

theorem descriptor_delivered_witness:
  "\<exists>s1 s'. USBHandleControlTransfer 0 4 (usb_dev_with [packet [0x80, 6, 0, 2, 0, 0, 255, 0]]) = Some s1 \<and> in_polls 2 s1 = Some s' \<and>
    sent_packets (usb_trace s') = map (\<lambda>j. (2, chunk (take 147 (drop 18 abDescriptors)) j)) [0..<Suc 2]"
  using descriptor_delivered[where ps = "[]" and k = 2 and l = 147 and off = 18 and r = 147 and st = 4,
      OF usb_dev_with_wired usb_dev_with_simps(1) carries_packet]
  by (simp add: find_desc_table le16_def length_abDescriptors)

text \<open>
  The requests that none of the handlers knows: vendor and reserved types, unknown recipients, and
  unknown request codes of the standard and CDC class requests.
\<close>

definition unsupported :: "u8 \<Rightarrow> u8 \<Rightarrow> bool" where
  "unsupported rt rq \<longleftrightarrow>
    (let ty = REQTYPE_GET_TYPE rt; rc = REQTYPE_GET_RECIP rt in
       ty = 2 \<or> ty = 3 \<or> ty = 1 \<and> rq \<notin> {0x20, 0x21, 0x22} \<or>
       ty = 0 \<and> (rc = 0 \<and> rq \<notin> {0, 5, 6, 8, 9} \<or> rc = 1 \<and> rq \<notin> {0, 0xA, 0xB} \<or> rc = 2 \<and> rq \<notin> {0, 1, 3} \<or> rc \<notin> {0, 1, 2}))"

definition stall_ep0_writes :: "usb_write list" where
  "stall_ep0_writes = [DevIntClr 0x30, CmdCode 0x410500, DevIntClr 0x10, CmdCode 0x010100, DevIntClr 0x10]"

lemma StallControlPipe_writes: "StallControlPipe st s = s\<lparr>usb_trace := usb_trace s @ stall_ep0_writes\<rparr>"
  by (simp add: StallControlPipe_def USBHwEPStall_def usb_cmd_defs EP2IDX_def stall_ep0_writes_def)

lemma standard_refused:
  assumes "unsupported (bmRequestType s) (bRequest s)" "REQTYPE_GET_TYPE (bmRequestType s) = 0"
  shows "USBHandleStandardRequest len p s = Some (False, len, p, s)"
proof -
  let ?rc = "REQTYPE_GET_RECIP (bmRequestType s)" and ?rq = "bRequest s"
  consider "?rc = 0" "?rq \<notin> {0, 5, 6, 8, 9}" | "?rc = 1" "?rq \<notin> {0, 0xA, 0xB}" | "?rc = 2" "?rq \<notin> {0, 1, 3}" | "?rc \<notin> {0, 1, 2}"
    using assms by (auto simp: unsupported_def Let_def)
  then show ?thesis
    by cases (simp_all add: USBHandleStandardRequest_def HandleStdDeviceReq_def HandleStdInterfaceReq_def HandleStdEndPointReq_def)
qed

lemma unsupported_refused:
  assumes "stack_wired s" "Setup s = rt # rq # bs" "unsupported rt rq"
  shows "HandleRequest s = Some (False, s)"
proof -
  have f: "bmRequestType s = rt" "bRequest s = rq"
    using assms(2) by (simp_all add: setup_fields)
  consider "REQTYPE_GET_TYPE rt = 0" | "REQTYPE_GET_TYPE rt = 1" "rq \<notin> {0x20, 0x21, 0x22}" | "REQTYPE_GET_TYPE rt \<notin> {0, 1}"
    using assms(3) by (auto simp: unsupported_def Let_def)
  then show ?thesis
    using standard_refused[of s] assms(3)
    by cases (simp_all add: wired_handler[OF assms(1,2)] f HandleClassRequest_def)
qed

text \<open>
  C36: A request that the device does not support and that has no data stage from the host is answered
  by stalling the control endpoint, once and as the last thing that is written, and with no packet.
\<close>

theorem unsupported_request_stalls:
  assumes "stack_wired s" "rx_packets s = p # ps" "carries p [rt, rq, v0, v1, i0, i1, l0, l1]" "st AND 4 \<noteq> 0"
    "unsupported rt rq" "le16 l0 l1 = 0 \<or> REQTYPE_GET_DIR rt = 1"
  shows "\<exists>s' t. USBHandleControlTransfer 0 st s = Some s' \<and> usb_trace s' = usb_trace s @ t @ stall_ep0_writes \<and>
    sent_packets (usb_trace s') = sent_packets (usb_trace s) \<and> stack_wired s'"
proof -
  let ?s1 = "\<lambda>tr. s\<lparr>rx_packets := ps, usb_trace := usb_trace s @ tr, Setup := [rt, rq, v0, v1, i0, i1, l0, l1],
          pbData := apbDataStore s ! unat (REQTYPE_GET_TYPE rt), iResidue := uint (le16 l0 l1), iLen := uint (le16 l0 l1)\<rparr>"
  have wired: "stack_wired (?s1 tr)" for tr
    using assms(1) by (simp add: stack_wired_def)
  then have "HandleRequest (?s1 tr) = Some (False, ?s1 tr)" for tr
    by (rule unsupported_refused) (use assms(5) in simp_all)
  with control_setup_request[OF assms(1-3,6), of st] obtain tr where
    tr: "sent_packets (usb_trace s @ tr) = sent_packets (usb_trace s)" "control_setup st s = Some (StallControlPipe st (?s1 tr))"
    by auto
  then have "sent_packets ((usb_trace s @ tr) @ stall_ep0_writes) = sent_packets (usb_trace s)"
    by (subst sent_packets_append) (simp_all add: starts_fresh_def stall_ep0_writes_def)
  then show ?thesis
    using tr(2) assms(4) wired[of tr] by (simp add: USBHandleControlTransfer_def StallControlPipe_writes stack_wired_def)
qed

theorem unsupported_request_stalls_witness:
  "\<exists>s' t. USBHandleControlTransfer 0 4 (usb_dev_with [packet [0xC0, 1, 0, 0, 0, 0, 8, 0]]) = Some s' \<and>
    usb_trace s' = t @ stall_ep0_writes \<and> sent_packets (usb_trace s') = [] \<and> stack_wired s'"
  using unsupported_request_stalls[where ps = "[]" and st = 4, OF usb_dev_with_wired usb_dev_with_simps(1) carries_packet,
      of "0xC0" 1 0 0 0 0 8 0]
  by (simp add: unsupported_def REQTYPE_GET_TYPE_def REQTYPE_GET_DIR_def)

section \<open>Control transfers from the host\<close>

lemma control_setup_out:
  assumes "stack_wired s" "rx_packets s = p # ps" "carries p [rt, rq, v0, v1, i0, i1, l0, l1]"
    "le16 l0 l1 \<noteq> 0" "REQTYPE_GET_DIR rt \<noteq> 1"
  shows "\<exists>t. sent_packets (usb_trace s @ t) = sent_packets (usb_trace s) \<and>
    control_setup st s = Some (s\<lparr>rx_packets := ps, usb_trace := usb_trace s @ t, Setup := [rt, rq, v0, v1, i0, i1, l0, l1],
          pbData := apbDataStore s ! unat (REQTYPE_GET_TYPE rt), iResidue := uint (le16 l0 l1), iLen := uint (le16 l0 l1)\<rparr>)"
proof -
  from setup_read[OF assms(1-3)] obtain t where
    t: "USBHwEPRead 0 (Some (Setup s)) 8 s = Some (8, Some [rt, rq, v0, v1, i0, i1, l0, l1], s\<lparr>rx_packets := ps, usb_trace := usb_trace s @ t\<rparr>)"
    "sent_packets (usb_trace s @ t) = sent_packets (usb_trace s)"
    by auto
  have "unat (REQTYPE_GET_TYPE rt) < 4"
    using unat_and_mask[of "drop_bit 5 rt" 2] by (simp add: REQTYPE_GET_TYPE_def mask_eq_exp_minus_1)
  moreover have "length (apbDataStore s) = 4"
    using assms(1) by (simp add: stack_wired_def)
  ultimately show ?thesis
    using t assms(4,5) by (intro exI[of _ t]) (simp add: control_setup_def setup_fields c_read_word Let_def)
qed

text \<open>The data stage: a packet no longer than the rest of the data store goes into it.\<close>

lemma class_data_read:
  assumes "stack_wired s" "rx_packets s = p # ps" "carries p bs" "pbData s = Ptr ClassReqData 0" "iResidue s = int n"
    "length bs = n" "n \<le> 8"
  shows "\<exists>t. control_data_read s = Some (int n, s\<lparr>rx_packets := ps, usb_trace := usb_trace s @ t,
      abClassReqData := bs @ drop n (abClassReqData s)\<rparr>) \<and> sent_packets (usb_trace s @ t) = sent_packets (usb_trace s)"
proof -
  from USBHwEPRead_delivers[OF assms(2,3), of n "abClassReqData s" 0] assms(1,6,7) obtain t where
    "USBHwEPRead 0 (Some (abClassReqData s)) (int n) s = Some (int n, Some (bs @ drop n (abClassReqData s)),
      s\<lparr>rx_packets := ps, usb_trace := usb_trace s @ t\<rparr>)" "starts_fresh t" "sent_packets t = []"
    by (auto simp: stack_wired_def)
  then show ?thesis
    using assms(4,5) by (auto simp: control_data_read_def usb_wmem_def sent_packets_append)
qed

text \<open>Endpoint interrupts one after the other: the endpoint and the status of each.\<close>

fun control_run :: "(u8 \<times> u8) list \<Rightarrow> 'z usb_dev_scheme \<Rightarrow> 'z usb_dev_scheme option" where
  "control_run [] s = Some s"
| "control_run ((bEP, st) # es) s = do { s \<leftarrow> USBHandleControlTransfer bEP st s; control_run es s }"

lemma set_line_coding_run:
  assumes "stack_wired s" "rx_packets s = p1 # p2 # ps" "carries p1 [0x21, 0x20, v0, v1, i0, i1, 7, 0]"
    "carries p2 bs" "length bs = 7"
  shows "\<exists>s'. control_run [(0, 4), (0, 0)] s = Some s' \<and> stack_wired s' \<and> rx_packets s' = ps \<and>
    line_coding s' = bs @ drop 7 (line_coding s) \<and> pbData s' = Ptr ClassReqData 0 \<and> iResidue s' = 0 \<and>
    sent_packets (usb_trace s') = sent_packets (usb_trace s) @ [(2, [])]"
proof -
  let ?bs = "[0x21, 0x20, v0, v1, i0, i1, 7, 0]"
  let ?s1 = "\<lambda>t. s\<lparr>rx_packets := p2 # ps, usb_trace := usb_trace s @ t, Setup := ?bs,
      pbData := Ptr ClassReqData 0, iResidue := 7, iLen := 7\<rparr>"
  have "le16 7 0 = 7"
    by (simp add: le16_def)
  with control_setup_out[OF assms(1-3), of 4] assms(1) obtain t where
    t: "sent_packets (usb_trace s @ t) = sent_packets (usb_trace s)" "control_setup 4 s = Some (?s1 t)"
    by (auto simp: REQTYPE_GET_DIR_def REQTYPE_GET_TYPE_def stack_wired_def)
  have w1: "stack_wired (?s1 t)"
    using assms(1) by (simp add: stack_wired_def)
  let ?s2 = "\<lambda>u. (?s1 t)\<lparr>rx_packets := ps, usb_trace := usb_trace s @ t @ u, abClassReqData := bs @ drop 7 (abClassReqData s)\<rparr>"
  from class_data_read[OF w1, of p2 ps bs 7] assms(4,5) t(1) obtain u where
    u: "control_data_read (?s1 t) = Some (7, ?s2 u)" "sent_packets (usb_trace s @ t @ u) = sent_packets (usb_trace s)"
    by auto
  let ?s3 = "(?s2 u)\<lparr>line_coding := bs @ drop 7 (line_coding s), iResidue := 0\<rparr>"
  have "HandleRequest ((?s2 u)\<lparr>iResidue := 0, pbData := Ptr ClassReqData 0\<rparr>) = Some (True, ?s3)"
    using assms(1,5) by (subst wired_handler[where rt = "0x21" and bs = "tl ?bs"])
      (simp_all add: stack_wired_def REQTYPE_GET_TYPE_def HandleClassRequest_def copy_line_coding_def setup_fields)
  then have out: "control_out 0 (?s1 t) = DataIn ?s3"
    using u(1) assms(1) by (simp add: control_out_def Let_def stack_wired_def setup_fields REQTYPE_GET_TYPE_def)
  from DataIn_sends[of ?s3 ClassReqData 0 0] obtain x where
    "DataIn ?s3 = Some (?s3\<lparr>usb_trace := usb_trace ?s3 @ x, pbData := Ptr ClassReqData 0, iResidue := 0\<rparr>)"
    "sent_packets (usb_trace ?s3 @ x) = sent_packets (usb_trace ?s3) @ [(2, [])]"
    by auto
  with out t(2) u(2) assms(1,5) show ?thesis
    by (simp add: USBHandleControlTransfer_def stack_wired_def)
qed

lemma get_line_coding_run:
  assumes "stack_wired s" "rx_packets s = p # ps" "carries p [0xA1, 0x21, v0, v1, i0, i1, 7, 0]"
  shows "\<exists>s'. USBHandleControlTransfer 0 4 s = Some s' \<and> stack_wired s' \<and> line_coding s' = line_coding s \<and>
    sent_packets (usb_trace s') = sent_packets (usb_trace s) @ [(2, take 7 (line_coding s))]"
proof -
  let ?bs = "[0xA1, 0x21, v0, v1, i0, i1, 7, 0]"
  let ?s1 = "\<lambda>t. s\<lparr>rx_packets := ps, usb_trace := usb_trace s @ t, Setup := ?bs,
      pbData := Ptr ClassReqData 0, iResidue := 7, iLen := 7\<rparr>"
  have le: "le16 7 0 = 7"
    by (simp add: le16_def)
  have h: "HandleRequest (?s1 t) = Some (True, (?s1 t)\<lparr>pbData := Ptr LineCoding 0\<rparr>)" for t
    using assms(1) by (subst wired_handler[where rt = "0xA1" and bs = "tl ?bs"])
      (simp_all add: stack_wired_def REQTYPE_GET_TYPE_def HandleClassRequest_def setup_fields)
  from control_setup_request[OF assms, of 4] assms(1) le obtain t where
    t: "sent_packets (usb_trace s @ t) = sent_packets (usb_trace s)"
    "control_setup 4 s = DataIn ((?s1 t)\<lparr>pbData := Ptr LineCoding 0, iResidue := 7\<rparr>)"
    by (auto simp: REQTYPE_GET_DIR_def REQTYPE_GET_TYPE_def stack_wired_def h setup_fields Let_def)
  let ?s2 = "(?s1 t)\<lparr>pbData := Ptr LineCoding 0, iResidue := 7\<rparr>"
  from DataIn_sends[of ?s2 LineCoding 0 7] assms(1) obtain x where
    "DataIn ?s2 = Some (?s2\<lparr>usb_trace := usb_trace s @ t @ x, pbData := Ptr LineCoding 7, iResidue := 0\<rparr>)"
    "sent_packets (usb_trace s @ t @ x) = sent_packets (usb_trace s @ t) @ [(2, take 7 (line_coding s))]"
    by (auto simp: stack_wired_def)
  with t assms(1) show ?thesis
    by (simp add: USBHandleControlTransfer_def stack_wired_def)
qed

text \<open>
  C37: The line coding that the host sets with SET_LINE_CODING is what a following GET_LINE_CODING
  returns: the seven bytes of the data stage are sent back unchanged and in order, after the empty
  status packets of the first transfer.
\<close>

theorem line_coding_roundtrip:
  assumes "stack_wired s" "rx_packets s = p1 # p2 # p3 # ps" "carries p1 [0x21, 0x20, v0, v1, i0, i1, 7, 0]"
    "carries p2 bs" "length bs = 7" "carries p3 [0xA1, 0x21, w0, w1, j0, j1, 7, 0]"
  shows "\<exists>s'. control_run [(0, 4), (0, 0), (0x80, 0), (0, 4)] s = Some s' \<and>
    sent_packets (usb_trace s') = sent_packets (usb_trace s) @ [(2, []), (2, []), (2, bs)]"
proof -
  from set_line_coding_run[OF assms(1-5)] obtain s1 where
    s1: "control_run [(0, 4), (0, 0)] s = Some s1" "stack_wired s1" "rx_packets s1 = p3 # ps"
    "line_coding s1 = bs @ drop 7 (line_coding s)" "pbData s1 = Ptr ClassReqData 0" "iResidue s1 = 0"
    "sent_packets (usb_trace s1) = sent_packets (usb_trace s) @ [(2, [])]"
    by blast
  from DataIn_sends[of s1 ClassReqData 0 0] s1(5,6) obtain x where
    x: "DataIn s1 = Some (s1\<lparr>usb_trace := usb_trace s1 @ x, pbData := Ptr ClassReqData 0, iResidue := 0\<rparr>)" "sent_packets (usb_trace s1 @ x) = sent_packets (usb_trace s1) @ [(2, [])]"
    by auto
  let ?s2 = "s1\<lparr>usb_trace := usb_trace s1 @ x, pbData := Ptr ClassReqData 0, iResidue := 0\<rparr>"
  have "stack_wired ?s2" "rx_packets ?s2 = p3 # ps"
    using s1(2,3) by (simp_all add: stack_wired_def)
  from get_line_coding_run[OF this assms(6)] obtain s3 where
    "USBHandleControlTransfer 0 4 ?s2 = Some s3" "sent_packets (usb_trace s3) = sent_packets (usb_trace s1 @ x) @ [(2, bs)]"
    using s1(4) assms(5) by auto
  with s1(1,7) x show ?thesis
    by (auto simp: USBHandleControlTransfer_def[of "0x80"] bind_eq_Some_conv)
qed

theorem line_coding_roundtrip_witness:
  "\<exists>s'. control_run [(0, 4), (0, 0), (0x80, 0), (0, 4)] (usb_dev_with [packet [0x21, 0x20, 0, 0, 0, 0, 7, 0],
      packet [0x80, 0x25, 0, 0, 0, 0, 8], packet [0xA1, 0x21, 0, 0, 0, 0, 7, 0]]) = Some s' \<and>
    sent_packets (usb_trace s') = [(2, []), (2, []), (2, [0x80, 0x25, 0, 0, 0, 0, 8])]"
  using line_coding_roundtrip[where ps = "[]", OF usb_dev_with_wired usb_dev_with_simps(1) carries_packet carries_packet _ carries_packet,
      of 0 0 0 0 "[0x80, 0x25, 0, 0, 0, 0, 8]" 0 0 0 0]
  by simp

text \<open>
  The length of a data stage from the host is not compared with the size of the data store: a class
  request that announces more than eight bytes and whose first data packet carries more than eight
  is written past the end of the eight-byte store.
\<close>

theorem out_data_overflow:
  assumes "stack_wired s" "rx_packets s = p1 # p2 # ps" "carries p1 [0x21, rq, v0, v1, i0, i1, l0, l1]"
    "8 < unat (le16 l0 l1)" "carries p2 bs" "8 < length bs"
  shows "control_run [(0, 4), (0, 0)] s = None"
proof -
  have "le16 l0 l1 \<noteq> 0"
    using assms(4) by auto
  from control_setup_out[OF assms(1-3) this, of 4] assms(1) obtain t where
    t: "control_setup 4 s = Some (s\<lparr>rx_packets := p2 # ps, usb_trace := usb_trace s @ t, Setup := [0x21, rq, v0, v1, i0, i1, l0, l1],
      pbData := Ptr ClassReqData 0, iResidue := uint (le16 l0 l1), iLen := uint (le16 l0 l1)\<rparr>)" (is "_ = Some ?s1")
    by (auto simp: REQTYPE_GET_DIR_def REQTYPE_GET_TYPE_def stack_wired_def)
  have "USBHwEPRead 0 (Some (abClassReqData s)) (int (unat (le16 l0 l1))) ?s1 = None"
    using assms(1,4,5,6) by (intro USBHwEPRead_overflow[of _ p2 ps bs]) (simp_all add: stack_wired_def)
  moreover have "0 < uint (le16 l0 l1)"
    using assms(4) by (subst zero_less_nat_eq[symmetric]) simp
  ultimately show ?thesis
    using t by (simp add: USBHandleControlTransfer_def control_out_def control_data_read_def usb_wmem_def)
qed

theorem out_data_overflow_witness:
  "control_run [(0, 4), (0, 0)] (usb_dev_with [packet [0x21, 0x20, 0, 0, 0, 0, 16, 0], packet (replicate 16 0)]) = None"
  using out_data_overflow[where ps = "[]", OF usb_dev_with_wired usb_dev_with_simps(1) carries_packet _ carries_packet,
      of "0x20" 0 0 0 0 16 0 "replicate 16 0"]
  by (simp add: le16_def)

section \<open>The descriptor table and the configuration\<close>

text \<open>
  The descriptor table is walked to its end without leaving it, and every descriptor that a host
  asks for is found with its length: the device, the configuration with all that follows it, the
  language list and the three strings; nothing else of these types is found. The configuration is
  announced with 147 bytes, which reach over the strings to the byte before the final zero.
\<close>

theorem descriptors_found:
  "length abDescriptors = 166 \<and>
   map (\<lambda>(t, i). find_desc abDescriptors 0 t i 0) [(1, 0), (1, 1), (2, 0), (2, 1), (3, 0), (3, 1), (3, 2), (3, 3), (3, 4), (6, 0)] =
     [Some (Some (18, 0)), Some None, Some (Some (147, 18)), Some None, Some (Some (4, 85)), Some (Some (14, 89)),
      Some (Some (58, 103)), Some (Some (4, 161)), Some None, Some None] \<and>
   length (configuration_descriptor @ control_interface_descriptors @ data_interface_descriptors) = 67"
  by (simp add: find_desc_table length_abDescriptors configuration_descriptor_def control_interface_descriptors_def
      data_interface_descriptors_def LE_WORD_def)


lemma set_config_table:
  "set_config_loop abDescriptors 0 1 0 0xFF 0xFF s = Some (USBHwEPConfig 0x82 64 (USBHwEPConfig 0x05 64 (USBHwEPConfig 0x81 8 s)))"
  by (simp add: abDescriptors_eq set_config_loop.simps c_read_def le16_def)

text \<open>
  SET_CONFIGURATION 1 realises and enables exactly the endpoints of the descriptor table, in its order and
  with its packet sizes (interrupt IN 1 with 8 bytes, bulk OUT 5 and bulk IN 2 with 64), then
  sets the configured bit; configuration 0 only clears the bit.
\<close>

theorem configuration_endpoints:
  assumes "pabDescrip s = abDescriptors"
  shows "USBSetConfiguration 1 0 s =
      Some (True, USBHwConfigDevice True (USBHwEPConfig 0x82 64 (USBHwEPConfig 0x05 64 (USBHwEPConfig 0x81 8 s)))) \<and>
    USBSetConfiguration 0 0 s = Some (True, USBHwConfigDevice False s)"
  using assms by (simp add: USBSetConfiguration_def set_config_table)

theorem configuration_endpoints_witness:
  "\<exists>s'. USBSetConfiguration 1 0 (usb_dev_with []) = Some (True, s') \<and> USBReEP s' = 0x42B"
  using configuration_endpoints[of "usb_dev_with []"]
  by (simp add: USBHwConfigDevice_def USBHwEPConfig_def USBHwEPRealize_def USBHwEPEnable_def usb_cmd_defs EP2IDX_def usb_dev_with_def)

end
