(* ===== verification/Usb_Cdc.thy ===== *)
theory Usb_Cdc
  imports Usb_Control Serial_Fifo Line_Buffer
begin

text \<open>
  The USB serial port (\<^verbatim>\<open>libraries/R2C2/usb.c\<close>): the bulk endpoint handlers that move bytes between
  the controller, the two FIFOs and the command line, the set-up of the stack (\<^verbatim>\<open>usbinit.c\<close> and
  \<^verbatim>\<open>USBSerial_Init\<close>) and the interrupt routine that dispatches to the handlers (\<^verbatim>\<open>USBHwISR\<close> of
  \<^verbatim>\<open>usbhw_lpc.c\<close>). The lemmas show that received bytes reach the receive FIFO and the command
  line in order and none is lost, that the transmit FIFO is drained in order, and that the
  set-up wires every endpoint to its handler. \<^verbatim>\<open>ASSERT\<close> and \<^verbatim>\<open>DBG\<close> are empty macros in this build.
\<close>

section \<open>State\<close>

datatype ep_handler = Ep_Control | Ep_BulkIn | Ep_BulkOut

record usb_cdc = usb_dev +
  ser :: usb_serial
  line :: line_buf
  abBulkBuf :: "u8 list"
  apfnEPIntHandlers :: "ep_handler option list"
  pfnDevIntHandler :: bool
  pfnFrameHandler :: bool

section \<open>Bulk endpoints\<close>

function bulk_out_loop :: "int \<Rightarrow> int \<Rightarrow> usb_cdc \<Rightarrow> usb_cdc option" where
  "bulk_out_loop i len s =
    (if i < len then
       (case c_read (abBulkBuf s) i of
          None \<Rightarrow> None
        | Some tmpc \<Rightarrow>
            (case fifo_put_raw (rxfifo (ser s)) tmpc of
               None \<Rightarrow> None
             | Some (ok, f) \<Rightarrow>
                 let s = s\<lparr>ser := (ser s)\<lparr>rxfifo := f\<rparr>\<rparr> in
                 if \<not> ok then Some s
                 else (case line_input tmpc (line s) of
                     None \<Rightarrow> None
                   | Some l \<Rightarrow> bulk_out_loop (i + 1) len (s\<lparr>line := l\<rparr>))))
     else Some s)"
  by pat_completeness auto
termination
  by (relation "measure (\<lambda>(i, len, _). nat (len - i))") auto

declare bulk_out_loop.simps [simp del]

definition BulkOut :: "u8 \<Rightarrow> u8 \<Rightarrow> usb_cdc \<Rightarrow> usb_cdc option" where
  "BulkOut bEP bEPStatus s =
    (let (free, irq) = fifo_free_raw (usb_irq (ser s)) (rxfifo (ser s)); s = s\<lparr>ser := (ser s)\<lparr>usb_irq := irq\<rparr>\<rparr> in
     if free < 64 then Some s
     else do {
       (len, buf, s) \<leftarrow> USBHwEPRead bEP (Some (abBulkBuf s)) 64 s;
       bulk_out_loop 0 len (s\<lparr>abBulkBuf := the buf\<rparr>) })"

text \<open>The loop that fills the packet: \<open>n\<close> is the number of bytes that still fit; the result is \<open>i\<close>.\<close>

fun bulk_in_loop :: "nat \<Rightarrow> nat \<Rightarrow> usb_cdc \<Rightarrow> (nat \<times> usb_cdc) option" where
  "bulk_in_loop 0 i s = Some (i, s)"
| "bulk_in_loop (Suc n) i s = do {
     (r, f) \<leftarrow> fifo_get_raw (txfifo (ser s));
     let s = s\<lparr>ser := (ser s)\<lparr>txfifo := f\<rparr>\<rparr>;
     case r of
       None \<Rightarrow> Some (i, s)
     | Some c \<Rightarrow> do { b \<leftarrow> c_write (abBulkBuf s) (int i) c; bulk_in_loop n (i + 1) (s\<lparr>abBulkBuf := b\<rparr>) } }"

definition BulkIn :: "u8 \<Rightarrow> u8 \<Rightarrow> usb_cdc \<Rightarrow> usb_cdc option" where
  "BulkIn bEP bEPStatus s =
    (if fifo_avail_raw (txfifo (ser s)) = 0 then Some (USBHwNakIntEnable 0 s)
     else do {
       (len, s) \<leftarrow> bulk_in_loop 64 0 s;
       if len > 0 then USBHwEPWrite bEP (abBulkBuf s) len s else Some s })"

definition USBFrameHandler :: "u16 \<Rightarrow> usb_cdc \<Rightarrow> usb_cdc" where
  "USBFrameHandler wFrame s = (if fifo_avail_raw (txfifo (ser s)) > 0 then USBHwNakIntEnable 0x20 s else s)"

section \<open>Set-up\<close>

definition USBHwRegisterEPIntHandler :: "u8 \<Rightarrow> ep_handler option \<Rightarrow> usb_cdc \<Rightarrow> usb_cdc option" where
  "USBHwRegisterEPIntHandler bEP pfnHandler s = do {
     let idx = EP2IDX bEP;
     hs \<leftarrow> c_write (apfnEPIntHandlers s) (uint (idx div 2)) pfnHandler;
     let s = s\<lparr>apfnEPIntHandlers := hs\<rparr>;
     let s = s\<lparr>USBEpIntEn := USBEpIntEn s OR push_bit (unat idx) 1\<rparr>;
     let s = s\<lparr>USBDevIntEn := USBDevIntEn s OR 4\<rparr>;
     Some (usb_out [EpIntEn (USBEpIntEn s), DevIntEn (USBDevIntEn s)] s) }"

definition USBHwRegisterDevIntHandler :: "usb_cdc \<Rightarrow> usb_cdc" where
  "USBHwRegisterDevIntHandler s =
    (let s = s\<lparr>pfnDevIntHandler := True, USBDevIntEn := USBDevIntEn s OR 8\<rparr> in usb_out [DevIntEn (USBDevIntEn s)] s)"

definition USBHwRegisterFrameHandler :: "usb_cdc \<Rightarrow> usb_cdc" where
  "USBHwRegisterFrameHandler s =
    (let s = s\<lparr>pfnFrameHandler := True, USBDevIntEn := USBDevIntEn s OR 1\<rparr> in usb_out [DevIntEn (USBDevIntEn s)] s)"

text \<open>
  The registers of the device controller that \<^verbatim>\<open>USBHwInit\<close> sets; pins, clock and interrupt
  priorities are left out, and the clock is taken to start.
\<close>

definition USBHwInit :: "usb_cdc \<Rightarrow> usb_cdc" where
  "USBHwInit s =
    (let s = usb_out [DevIntEn 0, DevIntClr 0xFFFFFFFF, EpIntEn 0, EpIntClr 0xFFFFFFFF] (s\<lparr>USBDevIntEn := 0, USBEpIntEn := 0\<rparr>)
     in USBHwNakIntEnable 0 s)"

definition HandleUsbReset :: "u8 \<Rightarrow> usb_cdc \<Rightarrow> usb_cdc" where
  "HandleUsbReset bDevStatus s = s"

definition USBInit :: "usb_cdc \<Rightarrow> usb_cdc option" where
  "USBInit s = do {
     let s = USBHwInit s;
     let s = USBHwRegisterDevIntHandler s;
     s \<leftarrow> USBHwRegisterEPIntHandler 0x00 (Some Ep_Control) s;
     s \<leftarrow> USBHwRegisterEPIntHandler 0x80 (Some Ep_Control) s;
     let s = USBHwEPConfig 0x00 64 s;
     let s = USBHwEPConfig 0x80 64 s;
     USBRegisterRequestHandler 0 Handle_Standard (Ptr StdReqData 0) s }"

definition USBSerial_Init :: "u8 list \<Rightarrow> u8 list \<Rightarrow> usb_cdc \<Rightarrow> usb_cdc option" where
  "USBSerial_Init rxbuf txbuf s = do {
     s \<leftarrow> USBInit s;
     let s = USBRegisterDescriptors abDescriptors s;
     s \<leftarrow> USBRegisterRequestHandler 1 Handle_Class (Ptr ClassReqData 0) s;
     s \<leftarrow> USBHwRegisterEPIntHandler 0x81 None s;
     s \<leftarrow> USBHwRegisterEPIntHandler 0x82 (Some Ep_BulkIn) s;
     s \<leftarrow> USBHwRegisterEPIntHandler 0x05 (Some Ep_BulkOut) s;
     let s = USBHwRegisterFrameHandler s;
     let s = USBHwNakIntEnable 0x20 s;
     let s = s\<lparr>ser := (ser s)\<lparr>rxfifo := fifo_init rxbuf, txfifo := fifo_init txbuf\<rparr>\<rparr>;
     let s = s\<lparr>ser := (ser s)\<lparr>usb_irq := NVIC_EnableIRQ_USB (usb_irq (ser s))\<rparr>\<rparr>;
     Some (USBHwConnect True s) }"

section \<open>Interrupts\<close>

fun call_ep_handler :: "ep_handler \<Rightarrow> u8 \<Rightarrow> u8 \<Rightarrow> usb_cdc \<Rightarrow> usb_cdc option" where
  "call_ep_handler Ep_Control bEP st s = USBHandleControlTransfer bEP st s"
| "call_ep_handler Ep_BulkIn bEP st s = BulkIn bEP st s"
| "call_ep_handler Ep_BulkOut bEP st s = BulkOut bEP st s"

definition ep_status :: "u8 \<Rightarrow> u8" where
  "ep_status bEPStat =
    (if bEPStat AND 1 \<noteq> 0 then 1 else 0) OR (if bEPStat AND 2 \<noteq> 0 then 2 else 0) OR (if bEPStat AND 4 \<noteq> 0 then 4 else 0) OR
    (if bEPStat AND 16 \<noteq> 0 then 16 else 0) OR (if bEPStat AND 8 \<noteq> 0 then 8 else 0)"

definition dev_status :: "u8 \<Rightarrow> u8" where
  "dev_status bDevStat =
    (if bDevStat AND 1 \<noteq> 0 then 1 else 0) OR (if bDevStat AND 4 \<noteq> 0 then 4 else 0) OR (if bDevStat AND 16 \<noteq> 0 then 16 else 0)"

text \<open>
  The registers that the routine reads are inputs: \<open>dwStatus\<close> is \<^verbatim>\<open>USBDevIntSt\<close>, and \<open>epst i\<close> is
  \<^verbatim>\<open>USBEpIntSt\<close> as iteration \<open>i\<close> of the endpoint loop reads it.
\<close>

definition ep_interrupt :: "(nat \<Rightarrow> u32) \<Rightarrow> nat \<Rightarrow> usb_cdc \<Rightarrow> usb_cdc option" where
  "ep_interrupt epst i s =
    (let dwIntBit = push_bit i 1 in
     if epst i AND dwIntBit \<noteq> 0 then do {
       let s = usb_out [EpIntClr dwIntBit] s;
       let s = Wait4DevInt 0x20 s;
       (bEPStat, s) \<leftarrow> (case cmd_data s of [] \<Rightarrow> None | d # ds \<Rightarrow> Some (d, s\<lparr>cmd_data := ds\<rparr>));
       let bStat = ep_status bEPStat;
       h \<leftarrow> c_read (apfnEPIntHandlers s) (int i div 2);
       case h of None \<Rightarrow> Some s | Some handler \<Rightarrow> call_ep_handler handler (IDX2EP (of_nat i)) bStat s }
     else Some s)"

definition USBHwISR :: "u32 \<Rightarrow> (nat \<Rightarrow> u32) \<Rightarrow> usb_cdc \<Rightarrow> usb_cdc option" where
  "USBHwISR dwStatus epst s = do {
     s \<leftarrow> (if dwStatus AND 1 \<noteq> 0 then do {
         let s = usb_out [DevIntClr 1] s;
         if pfnFrameHandler s then do {
           (wFrame, s) \<leftarrow> USBHwCmdRead 0xF5 s;
           Some (USBFrameHandler (ucast wFrame) s) }
         else Some s }
       else Some s);
     s \<leftarrow> (if dwStatus AND 8 \<noteq> 0 then do {
         let s = usb_out [DevIntClr 8] s;
         (bDevStat, s) \<leftarrow> USBHwCmdRead 0xFE s;
         if bDevStat AND 26 \<noteq> 0 then
           Some (if pfnDevIntHandler s then HandleUsbReset (dev_status bDevStat) s else s)
         else Some s }
       else Some s);
     if dwStatus AND 4 \<noteq> 0 then for_each (ep_interrupt epst) [0..<32] (usb_out [DevIntClr 4] s)
     else Some s }"

definition USB_IRQHandler :: "u32 \<Rightarrow> (nat \<Rightarrow> u32) \<Rightarrow> usb_cdc \<Rightarrow> usb_cdc option" where
  "USB_IRQHandler dwStatus epst s = USBHwISR dwStatus epst s"

section \<open>Bytes from the host\<close>

lemma bulk_out_loop_ok:
  assumes "fifo_inv (rxfifo (ser s))" "n \<le> length (abBulkBuf s)" "i \<le> n"
    "length (fifo_list (rxfifo (ser s))) + (n - i) \<le> 1023"
    "line_inputs (take (n - i) (drop i (abBulkBuf s))) (line s) = Some l"
  shows "\<exists>f. bulk_out_loop (int i) (int n) s = Some (s\<lparr>ser := (ser s)\<lparr>rxfifo := f\<rparr>, line := l\<rparr>) \<and> fifo_inv f \<and>
    fifo_list f = fifo_list (rxfifo (ser s)) @ take (n - i) (drop i (abBulkBuf s))"
  using assms
proof (induction "n - i" arbitrary: i s)
  case 0
  then have "i = n" "l = line s"
    by simp_all
  moreover have "bulk_out_loop (int n) (int n) s = Some s"
    by (subst bulk_out_loop.simps) simp
  ultimately show ?case
    using 0(2) by (intro exI[of _ "rxfifo (ser s)"]) simp
next
  case (Suc k)
  then have i: "i < n" "i < length (abBulkBuf s)"
    by auto
  let ?c = "abBulkBuf s ! i" and ?rest = "take (n - Suc i) (drop (Suc i) (abBulkBuf s))"
  have split: "take (n - i) (drop i (abBulkBuf s)) = ?c # ?rest"
  proof -
    have "drop i (abBulkBuf s) = ?c # drop (Suc i) (abBulkBuf s)" "n - i = Suc (n - Suc i)"
      using i by (simp_all add: Cons_nth_drop_Suc)
    then show ?thesis by simp
  qed
  with Suc.prems(5) obtain l1 where l1: "line_input ?c (line s) = Some l1" "line_inputs ?rest l1 = Some l"
    by (auto split: Option.bind_splits)
  have "length (fifo_list (rxfifo (ser s))) < 1023"
    using Suc.prems(4) i(1) by linarith
  from fifo_put_raw_room[OF Suc.prems(1) this, of ?c] obtain f1 where
    f1: "fifo_put_raw (rxfifo (ser s)) ?c = Some (True, f1)" "fifo_inv f1" "fifo_list f1 = fifo_list (rxfifo (ser s)) @ [?c]"
    by auto
  let ?s1 = "s\<lparr>ser := (ser s)\<lparr>rxfifo := f1\<rparr>, line := l1\<rparr>"
  have "\<exists>f. bulk_out_loop (int (Suc i)) (int n) ?s1 = Some (?s1\<lparr>ser := (ser ?s1)\<lparr>rxfifo := f\<rparr>, line := l\<rparr>) \<and> fifo_inv f \<and>
    fifo_list f = fifo_list (rxfifo (ser ?s1)) @ take (n - Suc i) (drop (Suc i) (abBulkBuf ?s1))"
    using Suc.hyps(2) Suc.prems f1 l1(2) i by (intro Suc.hyps(1)) auto
  then obtain f where f: "bulk_out_loop (int (Suc i)) (int n) ?s1 = Some (s\<lparr>ser := (ser s)\<lparr>rxfifo := f\<rparr>, line := l\<rparr>)"
    "fifo_inv f" "fifo_list f = fifo_list (rxfifo (ser s)) @ ?c # ?rest"
    using f1(3) by auto
  moreover have "bulk_out_loop (int i) (int n) s = bulk_out_loop (int (Suc i)) (int n) ?s1"
    using i f1(1) l1(1) by (subst bulk_out_loop.simps) (simp add: add.commute)
  ultimately show ?case
    using split by auto
qed

lemma BulkOut_ok:
  assumes "fifo_inv (rxfifo (ser s))" "length (abBulkBuf s) = 64" "rx_packets s = p # ps" "carries p bs" "length bs \<le> 64"
    "line_inputs bs (line s) = Some l"
  shows "\<exists>s'. BulkOut bEP st s = Some s' \<and> fifo_inv (rxfifo (ser s')) \<and>
    (if length (fifo_list (rxfifo (ser s))) \<le> 959
     then fifo_list (rxfifo (ser s')) = fifo_list (rxfifo (ser s)) @ bs \<and> line s' = l \<and> rx_packets s' = ps
     else rxfifo (ser s') = rxfifo (ser s) \<and> line s' = line s \<and> rx_packets s' = rx_packets s)"
proof -
  have free: "fifo_free_raw irq (rxfifo (ser s)) = (1023 - int (length (fifo_list (rxfifo (ser s)))), True)" for irq
    by (simp add: fifo_free_raw_def fifo_avail_def fifo_irq_defs fifo_avail_raw_length[OF assms(1)] Let_def)
  let ?s0 = "s\<lparr>ser := (ser s)\<lparr>usb_irq := True\<rparr>\<rparr>"
  show ?thesis
  proof (cases "length (fifo_list (rxfifo (ser s))) \<le> 959")
    case True
    have rp: "rx_packets ?s0 = p # ps"
      using assms(3) by simp
    from USBHwEPRead_delivers[OF rp assms(4), of 64 "abBulkBuf s" bEP] assms(2,5) obtain t where
      rd: "USBHwEPRead bEP (Some (abBulkBuf s)) 64 ?s0 = Some (int (length bs), Some (bs @ drop (length bs) (abBulkBuf s)),
        ?s0\<lparr>rx_packets := ps, usb_trace := usb_trace s @ t\<rparr>)"
      by (auto simp: min_def split: if_splits)
    let ?s1 = "?s0\<lparr>rx_packets := ps, usb_trace := usb_trace s @ t, abBulkBuf := bs @ drop (length bs) (abBulkBuf s)\<rparr>"
    from bulk_out_loop_ok[of ?s1 "length bs" 0 l] assms True obtain f where
      "bulk_out_loop 0 (int (length bs)) ?s1 = Some (?s1\<lparr>ser := (ser ?s1)\<lparr>rxfifo := f\<rparr>, line := l\<rparr>)" "fifo_inv f"
      "fifo_list f = fifo_list (rxfifo (ser s)) @ bs"
      by auto
    with True rd show ?thesis
      by (simp add: BulkOut_def free)
  next
    case False
    with assms(1,3) show ?thesis
      by (simp add: BulkOut_def free)
  qed
qed

text \<open>
  C30: A bulk packet from the host is taken only when the receive FIFO has room for a whole packet, and
  then every one of its bytes goes, in order, to the end of the FIFO and through the assembly of the
  command line; without room nothing of the state is touched and the packet stays in the
  controller. (The line buffer must have room for the bytes: see the overflow of the line buffer.)
\<close>

theorem bulk_out_in_order:
  assumes "fifo_inv (rxfifo (ser s))" "length (abBulkBuf s) = 64" "rx_packets s = p # ps" "carries p bs" "length bs \<le> 64"
    "line_inputs bs (line s) = Some l"
  shows "\<exists>s'. BulkOut bEP st s = Some s' \<and> fifo_inv (rxfifo (ser s')) \<and>
    (if length (fifo_list (rxfifo (ser s))) \<le> 959
     then fifo_list (rxfifo (ser s')) = fifo_list (rxfifo (ser s)) @ bs \<and> line s' = l \<and> rx_packets s' = ps
     else rxfifo (ser s') = rxfifo (ser s) \<and> line s' = line s \<and> rx_packets s' = rx_packets s)"
  using assms by (rule BulkOut_ok)

section \<open>Bytes to the host\<close>

lemma bulk_in_loop_ok:
  assumes "fifo_inv (txfifo (ser s))" "i + n \<le> length (abBulkBuf s)"
  shows "\<exists>f b. let q = fifo_list (txfifo (ser s)); k = min n (length q) in
    bulk_in_loop n i s = Some (i + k, s\<lparr>ser := (ser s)\<lparr>txfifo := f\<rparr>, abBulkBuf := b\<rparr>) \<and> fifo_inv f \<and>
    fifo_list f = drop n q \<and> length b = length (abBulkBuf s) \<and> take (i + k) b = take i (abBulkBuf s) @ take n q"
  using assms
proof (induction n arbitrary: i s)
  case 0
  then show ?case
    by (auto simp: Let_def intro!: exI[of _ "txfifo (ser s)"] exI[of _ "abBulkBuf s"])
next
  case (Suc n)
  show ?case
  proof (cases "fifo_list (txfifo (ser s))")
    case Nil
    then have "bulk_in_loop (Suc n) i s = Some (i, s)"
      using fifo_get_raw_empty[OF Suc.prems(1)] by simp
    with Nil Suc.prems show ?thesis
      by (auto simp: Let_def intro!: exI[of _ "txfifo (ser s)"] exI[of _ "abBulkBuf s"])
  next
    case (Cons c q)
    from fifo_get_raw_cons[OF Suc.prems(1) Cons] obtain f1 where
      f1: "fifo_get_raw (txfifo (ser s)) = Some (Some c, f1)" "fifo_inv f1" "fifo_list f1 = q"
      by blast
    let ?s1 = "s\<lparr>ser := (ser s)\<lparr>txfifo := f1\<rparr>, abBulkBuf := (abBulkBuf s)[i := c]\<rparr>"
    from Suc.IH[of ?s1 "Suc i"] f1 Suc.prems obtain f b where
      fb: "bulk_in_loop n (Suc i) ?s1 = Some (Suc i + min n (length q), s\<lparr>ser := (ser s)\<lparr>txfifo := f\<rparr>, abBulkBuf := b\<rparr>)"
      "fifo_inv f" "fifo_list f = drop n q" "length b = length (abBulkBuf s)"
      "take (Suc i + min n (length q)) b = take (Suc i) ((abBulkBuf s)[i := c]) @ take n q"
      by (auto simp: Let_def)
    have "bulk_in_loop (Suc n) i s = bulk_in_loop n (Suc i) ?s1"
      using f1(1) Suc.prems(2) by simp
    moreover have "take (Suc i) ((abBulkBuf s)[i := c]) = take i (abBulkBuf s) @ [c]"
      using Suc.prems(2) by (simp add: take_Suc_conv_app_nth)
    ultimately show ?thesis
      using fb Cons by (auto simp: Let_def)
  qed
qed

text \<open>The control word that selects the bulk IN endpoint for writing.\<close>

abbreviation (input) BULK_IN_CTRL :: u32 where "BULK_IN_CTRL \<equiv> 0xA"

definition cdc_tx_inv :: "usb_cdc \<Rightarrow> bool" where
  "cdc_tx_inv s \<longleftrightarrow> fifo_inv (txfifo (ser s)) \<and> length (abBulkBuf s) = 64"

abbreviation tx_pending :: "usb_cdc \<Rightarrow> u8 list" where
  "tx_pending s \<equiv> fifo_list (txfifo (ser s))"

lemma BulkIn_sends:
  assumes "cdc_tx_inv s"
  shows "\<exists>s'. BulkIn 0x82 st s = Some s' \<and> cdc_tx_inv s' \<and> tx_pending s' = drop 64 (tx_pending s) \<and>
    sent_packets (usb_trace s') = sent_packets (usb_trace s) @
      (if tx_pending s = [] then [] else [(BULK_IN_CTRL, take 64 (tx_pending s))])"
proof (cases "tx_pending s = []")
  case True
  have "sent_packets (usb_trace s @ [DevIntClr 0x30, CmdCode 0xF30500, DevIntClr 0x10, CmdCode 0x100, DevIntClr 0x10]) =
    sent_packets (usb_trace s)"
    by (subst sent_packets_append) (simp_all add: starts_fresh_def)
  with True assms show ?thesis
    by (simp add: BulkIn_def fifo_avail_raw_length cdc_tx_inv_def USBHwNakIntEnable_def usb_cmd_defs)
next
  case False
  let ?q = "tx_pending s" and ?k = "min 64 (length (tx_pending s))"
  from bulk_in_loop_ok[of s 0 64] assms obtain f b where
    fb: "bulk_in_loop 64 0 s = Some (?k, s\<lparr>ser := (ser s)\<lparr>txfifo := f\<rparr>, abBulkBuf := b\<rparr>)" "fifo_inv f"
    "fifo_list f = drop 64 ?q" "length b = 64" "take ?k b = take 64 ?q"
    by (auto simp: Let_def cdc_tx_inv_def)
  let ?s1 = "s\<lparr>ser := (ser s)\<lparr>txfifo := f\<rparr>, abBulkBuf := b\<rparr>"
  have "?k \<le> 64"
    by simp
  then have "(?k + 3) div 4 \<le> 16"
    using div_le_mono[of "?k + 3" 67 4] by simp
  then have "4 * ((?k + 3) div 4) \<le> length b" "?k < 2 ^ 32"
    using fb(4) by (simp_all add: min_less_iff_disj)
  from USBHwEPWrite_sends[OF this, of "0x82" ?s1] obtain t where
    "USBHwEPWrite 0x82 b ?k ?s1 = Some (?s1\<lparr>usb_trace := usb_trace s @ t\<rparr>)"
    "sent_packets (usb_trace s @ t) = sent_packets (usb_trace s) @ [(0xA, take ?k b)]"
    by auto
  with False fb assms show ?thesis
    by (simp add: BulkIn_def fifo_avail_raw_length cdc_tx_inv_def)
qed

text \<open>Consecutive interrupts of the bulk IN endpoint.\<close>

fun bulk_ins :: "nat \<Rightarrow> usb_cdc \<Rightarrow> usb_cdc option" where
  "bulk_ins 0 s = Some s"
| "bulk_ins (Suc n) s = do { s \<leftarrow> BulkIn 0x82 0x10 s; bulk_ins n s }"

lemma bulk_ins_sends:
  assumes "cdc_tx_inv s"
  shows "\<exists>s'. bulk_ins n s = Some s' \<and> cdc_tx_inv s' \<and> tx_pending s' = drop (64 * n) (tx_pending s) \<and>
    sent_packets (usb_trace s') = sent_packets (usb_trace s) @
      map (\<lambda>j. (BULK_IN_CTRL, chunk (tx_pending s) j)) [0..<min n ((length (tx_pending s) + 63) div 64)]"
  using assms
proof (induction n arbitrary: s)
  case (Suc n)
  let ?q = "tx_pending s"
  from BulkIn_sends[OF Suc.prems] obtain s1 where s1: "BulkIn 0x82 0x10 s = Some s1" "cdc_tx_inv s1"
    "tx_pending s1 = drop 64 ?q"
    "sent_packets (usb_trace s1) = sent_packets (usb_trace s) @ (if ?q = [] then [] else [(BULK_IN_CTRL, take 64 ?q)])"
    by blast
  from Suc.IH[OF s1(2)] obtain s2 where s2: "bulk_ins n s1 = Some s2" "cdc_tx_inv s2"
    "tx_pending s2 = drop (64 * n) (drop 64 ?q)"
    "sent_packets (usb_trace s2) = sent_packets (usb_trace s1) @
      map (\<lambda>j. (BULK_IN_CTRL, chunk (drop 64 ?q) j)) [0..<min n ((length ?q - 64 + 63) div 64)]"
    using s1(3) by auto
  have chunks: "chunk (drop 64 ?q) j = chunk ?q (Suc j)" for j
    by (simp add: chunk_def add.commute)
  show ?case
  proof (cases "?q = []")
    case True
    with s1 s2 show ?thesis by auto
  next
    case False
    have "(length ?q + 63) div 64 = Suc ((length ?q - 64 + 63) div 64)"
    proof (cases "64 \<le> length ?q")
      case True
      then have "length ?q + 63 = (length ?q - 64 + 63) + 1 * 64"
        by simp
      then show ?thesis
        by (metis div_mult_self1 plus_1_eq_Suc zero_neq_numeral)
    next
      case False
      with \<open>?q \<noteq> []\<close> have "length ?q + 63 = (length ?q - 1) + 1 * 64" "length ?q - 1 < 64"
        by (cases ?q; simp)+
      then have "(length ?q + 63) div 64 = 1"
        by simp
      with False show ?thesis by simp
    qed
    then have "map (\<lambda>j. (BULK_IN_CTRL, chunk ?q j)) [0..<min (Suc n) ((length ?q + 63) div 64)] =
        (BULK_IN_CTRL, take 64 ?q) # map (\<lambda>j. (BULK_IN_CTRL, chunk (drop 64 ?q) j)) [0..<min n ((length ?q - 64 + 63) div 64)]"
      unfolding chunks by (simp add: upt_conv_Cons map_Suc_upt[symmetric] chunk_def del: upt_Suc)
    with False s1 s2 show ?thesis
      by (simp add: add.commute)
  qed
qed simp

lemma concat_chunks: "concat (map (chunk q) [0..<n]) = take (64 * n) q"
proof (induction n)
  case (Suc n)
  have "take (64 * n + 64) q = take (64 * n) q @ chunk q n"
    by (simp add: take_add chunk_def)
  with Suc show ?case
    by (simp add: add.commute)
qed simp

text \<open>
  C27: What the firmware has queued for the host reaches it: after sixteen bulk IN interrupts at the latest
  the transmit FIFO is empty, and the packets sent are non-empty, of at most 64 bytes,
  and put together they are exactly the queued bytes in order.
\<close>

theorem bulk_in_drains:
  assumes "cdc_tx_inv s" "16 \<le> n"
  shows "\<exists>s' ps. bulk_ins n s = Some s' \<and> cdc_tx_inv s' \<and> tx_pending s' = [] \<and>
    sent_packets (usb_trace s') = sent_packets (usb_trace s) @ map (Pair BULK_IN_CTRL) ps \<and>
    concat ps = tx_pending s \<and> (\<forall>p \<in> set ps. 0 < length p \<and> length p \<le> 64)"
proof -
  let ?q = "tx_pending s" and ?m = "(length (tx_pending s) + 63) div 64"
  have len: "length ?q \<le> 1023"
    using assms(1) fifo_list_bounded by (simp add: cdc_tx_inv_def)
  then have "?m \<le> 16"
    using div_le_mono[of "length ?q + 63" 1087 64] by simp
  then have m: "min n ?m = ?m"
    using assms(2) by simp
  from bulk_ins_sends[OF assms(1), of n] m obtain s' where
    s': "bulk_ins n s = Some s'" "cdc_tx_inv s'" "tx_pending s' = drop (64 * n) ?q"
    "sent_packets (usb_trace s') = sent_packets (usb_trace s) @ map (Pair BULK_IN_CTRL) (map (chunk ?q) [0..<?m])"
    by auto
  have "length ?q \<le> 64 * ?m"
    using div_mult_mod_eq[of "length ?q + 63" 64] mod_less_divisor[of 64 "length ?q + 63"] by linarith
  then have "concat (map (chunk ?q) [0..<?m]) = ?q"
    by (simp add: concat_chunks)
  moreover have "0 < length (chunk ?q j) \<and> length (chunk ?q j) \<le> 64" if "j < ?m" for j
  proof -
    from that have "64 * Suc j \<le> length ?q + 63"
      using less_eq_div_iff_mult_less_eq[of 64 "Suc j" "length ?q + 63"] by (simp add: Suc_le_eq)
    then show ?thesis
      by (simp add: chunk_def)
  qed
  moreover have "tx_pending s' = []"
    using s'(3) len assms(2) by simp
  ultimately show ?thesis
    using s' by (intro exI[of _ s'] exI[of _ "map (chunk ?q) [0..<?m]"]) auto
qed

section \<open>The stack after the set-up\<close>

text \<open>The globals as the program starts with them.\<close>

definition cdc_power_up :: usb_cdc where
  "cdc_power_up =
     \<lparr>USBReEP = 3, USBEpIntEn = 0, USBDevIntEn = 0, cmd_data = [], rx_packets = [], usb_trace = [],
      Setup = replicate 8 0, pbData = Null, iResidue = 0, iLen = 0, apfnReqHandlers = [None, None, None, None],
      apbDataStore = [Null, Null, Null, Null], bConfiguration = 0, pabDescrip = [], abStdReqData = replicate 8 0,
      abClassReqData = replicate 8 0, line_coding = [0x00, 0xC2, 0x01, 0x00, 0, 0, 8, 0],
      ser = \<lparr>rxfifo = fifo_init [], txfifo = fifo_init [], usb_irq = False\<rparr>, line = line_buf_init,
      abBulkBuf = replicate 64 0, apfnEPIntHandlers = replicate 16 None, pfnDevIntHandler = False, pfnFrameHandler = False\<rparr>"

definition ep_handlers_set :: "ep_handler option list" where
  "ep_handlers_set = [Some Ep_Control, None, Some Ep_BulkIn, None, None, Some Ep_BulkOut] @ replicate 10 None"

text \<open>The state in which the port serves the host.\<close>

definition cdc_ready :: "usb_cdc \<Rightarrow> bool" where
  "cdc_ready s \<longleftrightarrow> stack_wired s \<and> pabDescrip s = abDescriptors \<and> apfnEPIntHandlers s = ep_handlers_set \<and>
     fifo_inv (rxfifo (ser s)) \<and> cdc_tx_inv s \<and> line_wf (line s)"

lemma upd_handlers: "(replicate 16 None)[0 := b, Suc 0 := c, 2 := d, 5 := e] =
    [b, c, d, None, None, e] @ replicate 10 None"
  by (simp add: eval_nat_numeral)

lemma USBSerial_Init_power_up:
  assumes "length rxbuf = 1024" "length txbuf = 1024"
  shows "\<exists>t. USBSerial_Init rxbuf txbuf cdc_power_up = Some (cdc_power_up\<lparr>usb_trace := t, USBEpIntEn := 0x42B, USBDevIntEn := 13,
     apfnReqHandlers := [Some Handle_Standard, Some Handle_Class, None, None],
     apbDataStore := [Ptr StdReqData 0, Ptr ClassReqData 0, Null, Null], pabDescrip := abDescriptors,
     apfnEPIntHandlers := ep_handlers_set, pfnDevIntHandler := True, pfnFrameHandler := True,
     ser := \<lparr>rxfifo = fifo_init rxbuf, txfifo = fifo_init txbuf, usb_irq = True\<rparr>\<rparr>)"
  using assms
  by (simp add: USBSerial_Init_def USBInit_def USBHwInit_def USBHwRegisterDevIntHandler_def USBHwRegisterEPIntHandler_def
      USBHwRegisterFrameHandler_def USBHwNakIntEnable_def USBHwConnect_def USBHwEPConfig_def USBHwEPRealize_def USBHwEPEnable_def
      USBRegisterRequestHandler_def USBRegisterDescriptors_def usb_cmd_defs EP2IDX_def fifo_irq_defs cdc_power_up_def
      upd_handlers ep_handlers_set_def)

lemma for_each_skip: "(\<And>i s. i \<in> set is \<Longrightarrow> f i s = Some s) \<Longrightarrow> for_each f is s = Some s"
  by (induction "is") auto

lemma push_bit_one_and: "(push_bit k 1 :: u32) AND push_bit i 1 \<noteq> 0 \<longleftrightarrow> k = i" if "k < 32" "i < 32"
proof -
  have "bit (push_bit k 1 AND push_bit i 1 :: u32) n \<longleftrightarrow> n = k \<and> n = i" for n
    using that by (auto simp: bit_simps bit_1_iff)
  then show ?thesis
    by (metis bit_0_eq bit_eqI bot_apply bot_bool_def)
qed

lemma ISR_dispatch:
  assumes "k < 32" "cmd_data s = d # ds" "length (apfnEPIntHandlers s) = 16"
  shows "\<exists>t. starts_fresh t \<and> sent_packets t = [] \<and> USB_IRQHandler 4 (\<lambda>_. push_bit k 1) s =
    (let s1 = s\<lparr>usb_trace := usb_trace s @ t, cmd_data := ds\<rparr> in
     case apfnEPIntHandlers s ! (k div 2) of None \<Rightarrow> Some s1
     | Some h \<Rightarrow> call_ep_handler h (IDX2EP (of_nat k)) (ep_status d) s1)"
proof -
  let ?f = "ep_interrupt (\<lambda>_. push_bit k 1)"
  have skip: "?f i s = Some s" if "i < 32" "i \<noteq> k" for i s
    using push_bit_one_and[OF assms(1) that(1)] that(2) by (simp add: ep_interrupt_def)
  have "[0..<32] = [0..<k] @ k # [Suc k..<32]"
    using assms(1) by (metis less_imp_le upt_add_eq_append upt_conv_Cons le_add_diff_inverse le0)
  then have "for_each ?f [0..<32] s' = Option.bind (?f k s') (for_each ?f [Suc k..<32])" for s'
    using for_each_skip[of "[0..<k]" ?f] skip assms(1) by (simp add: for_each_append)
  moreover have "for_each ?f [Suc k..<32] = Some"
    using for_each_skip[of "[Suc k..<32]" ?f] skip by (intro ext) auto
  ultimately have "USB_IRQHandler 4 (\<lambda>_. push_bit k 1) s = ?f k (usb_out [DevIntClr 4] s)"
    by (simp add: USB_IRQHandler_def USBHwISR_def)
  moreover have "c_read (apfnEPIntHandlers s) (int k div 2) = Some (apfnEPIntHandlers s ! (k div 2))"
    using assms(1,3) by (simp add: c_read_def nat_div_distrib flip: of_nat_div)
  ultimately show ?thesis
    using push_bit_one_and[OF assms(1,1)] assms(2)
    by (intro exI[of _ "[DevIntClr 4, EpIntClr (push_bit k 1), DevIntClr 0x20]"])
      (simp add: ep_interrupt_def usb_cmd_defs starts_fresh_def)
qed

text \<open>
  \<^verbatim>\<open>USBSerial_Init\<close>, run on the globals as the program starts with them, leaves a stack that is ready
  to serve the host: the request handlers and data stores are registered, endpoint 0 in both
  directions, bulk IN and bulk OUT have their handlers and the interrupt endpoint has none, the
  endpoint, frame and device status interrupts are enabled, and both FIFOs are empty.
\<close>

theorem usb_set_up:
  assumes "length rxbuf = 1024" "length txbuf = 1024"
  shows "\<exists>s. USBSerial_Init rxbuf txbuf cdc_power_up = Some s \<and> cdc_ready s \<and> fifo_list (rxfifo (ser s)) = [] \<and>
    tx_pending s = [] \<and> usb_irq (ser s) \<and> pfnFrameHandler s \<and> pfnDevIntHandler s \<and> USBDevIntEn s = 13 \<and>
    (\<forall>i < 32. bit (USBEpIntEn s) i \<longleftrightarrow> i \<in> {0, 1, 3, 5, 10})"
proof -
  have "(\<forall>i \<in> {0..<32}. bit (0x42B :: u32) i \<longleftrightarrow> i \<in> {0, 1, 3, 5, 10 :: nat})"
    by (simp add: atLeastLessThan_nat_numeral atLeastLessThanSuc)
  with USBSerial_Init_power_up[OF assms] assms show ?thesis
    by (auto simp: cdc_ready_def stack_wired_def cdc_tx_inv_def fifo_inv_init cdc_power_up_def line_wf_init)
qed

theorem usb_set_up_witness:
  "\<exists>s. USBSerial_Init (replicate 1024 0) (replicate 1024 0) cdc_power_up = Some s \<and> cdc_ready s"
  using usb_set_up[of "replicate 1024 0" "replicate 1024 0"] by auto

text \<open>
  A command typed at the host arrives: with the port ready, an interrupt for the bulk OUT endpoint and
  a packet of up to 49 characters and an end of line, the characters are the C string in
  \<^verbatim>\<open>UART_LINE\<close>, \<^verbatim>\<open>LINE_READY\<close> is set, the bytes are in the receive FIFO and the port is ready again.
\<close>

lemma command_line_received:
  assumes "cdc_ready s" "cmd_data s = d # ds" "rx_packets s = p # ps" "carries p (cs @ [e])"
    "length (fifo_list (rxfifo (ser s))) \<le> 959" "UART_LINE_LEN (line s) = 0"
    "length cs < 50" "\<forall>c \<in> set cs. \<not> is_eol c \<and> c \<noteq> 0" "is_eol e"
  shows "\<exists>s'. USB_IRQHandler 4 (\<lambda>_. push_bit 10 1) s = Some s' \<and> LINE_READY (line s') \<and> c_string (UART_LINE (line s')) = cs \<and>
    fifo_list (rxfifo (ser s')) = fifo_list (rxfifo (ser s)) @ cs @ [e] \<and> line_wf (line s') \<and> UART_LINE_LEN (line s') = 0"
proof -
  have "length (apfnEPIntHandlers s) = 16" "apfnEPIntHandlers s ! (10 div 2) = Some Ep_BulkOut"
    using assms(1) by (simp_all add: cdc_ready_def ep_handlers_set_def)
  with ISR_dispatch[of 10, OF _ assms(2)] obtain t where
    irq: "USB_IRQHandler 4 (\<lambda>_. push_bit 10 1) s = BulkOut (IDX2EP 10) (ep_status d) (s\<lparr>usb_trace := usb_trace s @ t, cmd_data := ds\<rparr>)"
    by (auto simp: Let_def)
  from line_complete[OF _ assms(6-9)] assms(1) obtain l where
    l: "line_inputs (cs @ [e]) (line s) = Some l" "line_wf l" "LINE_READY l" "UART_LINE_LEN l = 0" "c_string (UART_LINE l) = cs"
    by (auto simp: cdc_ready_def)
  from BulkOut_ok[of "s\<lparr>usb_trace := usb_trace s @ t, cmd_data := ds\<rparr>" p ps "cs @ [e]" l "IDX2EP 10" "ep_status d"] assms l irq
  show ?thesis
    by (auto simp: cdc_ready_def cdc_tx_inv_def)
qed

definition cdc_serving :: "rx_packet list \<Rightarrow> usb_cdc" where
  "cdc_serving ps = (the (USBSerial_Init (replicate 1024 0) (replicate 1024 0) cdc_power_up))\<lparr>rx_packets := ps, cmd_data := [1]\<rparr>"

lemma cdc_serving_ready:
  "cdc_ready (cdc_serving ps)" "cmd_data (cdc_serving ps) = [1]" "rx_packets (cdc_serving ps) = ps"
  "fifo_list (rxfifo (ser (cdc_serving ps))) = []" "line (cdc_serving ps) = line_buf_init" "tx_pending (cdc_serving ps) = []"
proof -
  from USBSerial_Init_power_up[of "replicate 1024 0" "replicate 1024 0"]
  show "cdc_ready (cdc_serving ps)" "cmd_data (cdc_serving ps) = [1]" "rx_packets (cdc_serving ps) = ps"
    "fifo_list (rxfifo (ser (cdc_serving ps))) = []" "line (cdc_serving ps) = line_buf_init" "tx_pending (cdc_serving ps) = []"
    by (auto simp: cdc_serving_def cdc_ready_def stack_wired_def cdc_tx_inv_def fifo_inv_init cdc_power_up_def line_wf_init)
qed

theorem bulk_out_in_order_witness:
  "\<exists>s'. BulkOut 5 1 (cdc_serving [packet [1, 2, 3]]) = Some s' \<and> fifo_list (rxfifo (ser s')) = [1, 2, 3]"
proof -
  have "line_inputs [1, 2, 3] line_buf_init = Some (the (line_inputs [1, 2, 3] line_buf_init))"
    by (simp add: line_input_def line_buf_init_def is_eol_def)
  with cdc_serving_ready(1)[of "[packet [1, 2, 3]]"] show ?thesis
    using bulk_out_in_order[where bs = "[1, 2, 3]" and bEP = 5 and st = 1, OF _ _ cdc_serving_ready(3) carries_packet]
    by (auto simp: cdc_serving_ready cdc_ready_def cdc_tx_inv_def)
qed

definition queued_fifo :: fifo where
  "queued_fifo = \<lparr>head = 3, tail = 0, buf = [7, 8, 9] @ replicate 1021 0\<rparr>"

lemma queued_fifo_list: "fifo_inv queued_fifo" "fifo_list queued_fifo = [7, 8, 9]"
  by (simp_all add: queued_fifo_def fifo_inv_def fifo_list_def ring_list_def ring_count_def upt_rec)

theorem bulk_in_drains_witness:
  "\<exists>s' ps. bulk_ins 16 ((cdc_serving [])\<lparr>ser := (ser (cdc_serving []))\<lparr>txfifo := queued_fifo\<rparr>\<rparr>) = Some s' \<and>
    tx_pending s' = [] \<and> sent_packets (usb_trace s') = sent_packets (usb_trace (cdc_serving [])) @ map (Pair BULK_IN_CTRL) ps \<and>
    concat ps = [7, 8, 9]"
  using bulk_in_drains[of "(cdc_serving [])\<lparr>ser := (ser (cdc_serving []))\<lparr>txfifo := queued_fifo\<rparr>\<rparr>" 16] cdc_serving_ready(1)[of "[]"]
  by (auto simp: cdc_ready_def cdc_tx_inv_def queued_fifo_list)

end
