(* ===== verification/Can.thy ===== *)
theory Can
  imports Term_IO
begin

text \<open>
  The serial command interface to the CAN bus, \<^verbatim>\<open>libraries/CANlib/canlib.c\<close>: the commands of the
  LAWICEL protocol that the firmware accepts (\<^verbatim>\<open>exec_usart_cmd\<close>) and the text form of a received
  message (\<^verbatim>\<open>PrintMessage\<close>). The NXP driver is a parameter of the state: its status register, and
  whether it accepts the next message; what it is asked to send is a log. Diagnostic messages (those
  that only describe an error or the progress) are left out; replies and printed messages are the
  text that \<open>xprintf\<close> and \<^verbatim>\<open>comm_put\<close> send. The lemmas show that a send command puts exactly the
  described message on the bus, which commands are refused, and that a printed message is
  itself a command that sends that message.
\<close>

section \<open>State\<close>

record can_msg =
  msg_id :: u32
  dataA :: "u8 list"
  dataB :: "u8 list"
  msg_len :: u8
  msg_format :: u8
  msg_type :: u8

record can =
  TXMsg :: can_msg
  RXMsg :: can_msg
  CAN_flags :: u16
  ram_timestamp_status :: u8
  can_status :: u32
  can_accept :: "nat \<Rightarrow> bool"
  can_log :: "(can_msg \<times> bool) list"
  can_millis :: u32
  console :: "u8 list"

definition CR :: u8 where "CR = 13"
definition ERROR :: u8 where "ERROR = 101"

abbreviation (input) DATA_FRAME :: u8 where "DATA_FRAME \<equiv> 0"
abbreviation (input) STD_ID_FORMAT :: u8 where "STD_ID_FORMAT \<equiv> 0"

definition CANBUS_ON :: "'z can_scheme \<Rightarrow> bool" where
  "CANBUS_ON s \<longleftrightarrow> can_status s AND 16 = 0"

definition TX_IDLE :: "'z can_scheme \<Rightarrow> bool" where
  "TX_IDLE s \<longleftrightarrow> can_status s AND 32 = 0"

text \<open>\<^verbatim>\<open>CAN_SendMsg(LPC_CAN2, &TXMsg)\<close>: the driver accepts the message or not.\<close>

definition CAN_SendMsg :: "'z can_scheme \<Rightarrow> bool \<times> 'z can_scheme" where
  "CAN_SendMsg s = (let ok = can_accept s (length (can_log s)) in (ok, s\<lparr>can_log := can_log s @ [(TXMsg s, ok)]\<rparr>))"

definition ascii :: "string \<Rightarrow> u8 list" where
  "ascii cs = map of_char cs"

definition say :: "u8 list \<Rightarrow> xarg list \<Rightarrow> 'z can_scheme \<Rightarrow> 'z can_scheme option" where
  "say fmt args s = do { t \<leftarrow> xprintf (fmt @ [0]) args; Some (s\<lparr>console := console s @ t\<rparr>) }"

definition put :: "u8 \<Rightarrow> 'z can_scheme \<Rightarrow> 'z can_scheme" where
  "put c s = s\<lparr>console := console s @ [c]\<rparr>"

section \<open>Commands\<close>

definition CheckForCANErr :: "'z can_scheme \<Rightarrow> u32" where
  "CheckForCANErr s = (if \<not> CANBUS_ON s then ucast ERROR else if \<not> TX_IDLE s then ucast ERROR else ucast CR)"

definition ascii2byte :: "u8 \<Rightarrow> u8" where
  "ascii2byte val =
    (let temp = val;
       temp = (if temp > 0x60 then temp - 0x27 else if temp > 0x40 then temp - 0x07 else temp);
       temp = temp - 0x30
     in temp AND 0x0F)"

definition isxdigit :: "u8 \<Rightarrow> bool" where
  "isxdigit c \<longleftrightarrow> 48 \<le> c \<and> c \<le> 57 \<or> 65 \<le> c \<and> c \<le> 70 \<or> 97 \<le> c \<and> c \<le> 102"

fun c_strlen :: "u8 list \<Rightarrow> nat option" where
  "c_strlen [] = None"
| "c_strlen (c # cs) = (if c = 0 then Some 0 else map_option Suc (c_strlen cs))"

fun all_xdigits :: "u8 list \<Rightarrow> bool option" where
  "all_xdigits [] = None"
| "all_xdigits (c # cs) = (if c = 0 then Some True else if isxdigit c then all_xdigits cs else Some False)"

text \<open>\<open>ascii2byte\<close> of the character at index \<open>i\<close>, and two of them as a byte.\<close>

definition nibble_at :: "u8 list \<Rightarrow> nat \<Rightarrow> u8 option" where
  "nibble_at cmd_buf i = map_option ascii2byte (c_read cmd_buf (int i))"

definition store_data :: "u8 list \<Rightarrow> nat \<Rightarrow> can_msg \<Rightarrow> can_msg option" where
  "store_data cmd_buf i m = do {
     hi \<leftarrow> nibble_at cmd_buf (5 + 2 * i);
     lo \<leftarrow> nibble_at cmd_buf (5 + 2 * i + 1);
     let b = push_bit 4 hi + lo;
     if i < 4 then do { a \<leftarrow> c_write (dataA m) (int i) b; Some (m\<lparr>dataA := a\<rparr>) }
     else do { a \<leftarrow> c_write (dataB m) (int i - 4) b; Some (m\<lparr>dataB := a\<rparr>) } }"

definition send_11bit_id :: "u8 list \<Rightarrow> u8 \<Rightarrow> 'z can_scheme \<Rightarrow> (u8 \<times> 'z can_scheme) option" where
  "send_11bit_id cmd_buf cmd_len s =
    (if \<not> CANBUS_ON s then Some (ERROR, s)
     else if \<not> TX_IDLE s then Some (ERROR, s)
     else if cmd_len < 5 \<or> cmd_len > 21 then Some (ERROR, s)
     else do {
       a \<leftarrow> nibble_at cmd_buf 1;
       b \<leftarrow> nibble_at cmd_buf 2;
       c \<leftarrow> nibble_at cmd_buf 3;
       l \<leftarrow> nibble_at cmd_buf 4;
       let m = (TXMsg s)\<lparr>msg_type := DATA_FRAME, msg_format := STD_ID_FORMAT,
         msg_id := push_bit 4 (push_bit 4 (ucast a) + ucast b) + ucast c, msg_len := l\<rparr>;
       if uint l \<noteq> (uint cmd_len - 5) sdiv 2 then Some (ERROR, s\<lparr>TXMsg := m\<rparr>)
       else if l > 8 then Some (ERROR, s\<lparr>TXMsg := m\<rparr>)
       else do {
         m \<leftarrow> for_each (store_data cmd_buf) [0..<unat l] m;
         let (ok, s) = CAN_SendMsg (s\<lparr>TXMsg := m\<rparr>);
         Some (if ok then CR else ERROR, s) } })"

definition exec_usart_cmd :: "u8 list \<Rightarrow> 'z can_scheme \<Rightarrow> (u8 \<times> 'z can_scheme) option" where
  "exec_usart_cmd cmd_buf s = do {
     len \<leftarrow> c_strlen cmd_buf;
     let cmd_len = of_nat len;
     ok \<leftarrow> all_xdigits (drop 1 cmd_buf);
     if \<not> ok then Some (ERROR, s)
     else do {
       c \<leftarrow> c_read cmd_buf 0;
       if c = 78 then do { s \<leftarrow> say (ascii ''%c%s'') [XInt 78, XStr (ascii ''0001'' @ [0])] s; Some (CR, s) }
       else if c = 86 then do { s \<leftarrow> say (ascii ''%c%x%x'') [XInt 86, XInt 0x99, XInt 0x99] s; Some (CR, s) }
       else if c = 118 then do { s \<leftarrow> say (ascii ''%c%x%x'') [XInt 118, XInt 1, XInt 6] s; Some (CR, s) }
       else if c = 90 then Some (CR, s)
       else if c = 70 then
         (if \<not> CANBUS_ON s then Some (ERROR, s)
          else do { s \<leftarrow> say (ascii ''%c00'') [XInt 70] s; Some (CR, s) })
       else if c = 109 \<or> c = 77 then (if cmd_len \<noteq> 9 then Some (ERROR, s) else Some (CR, s))
       else if c = 115 \<or> c = 83 then Some (CR, s)
       else if c = 79 then Some (CR, s)
       else if c = 67 then Some (CR, s)
       else if c = 114 then Some (CR, s)
       else if c = 116 then send_11bit_id cmd_buf cmd_len s
       else if c = 82 then Some (CR, s)
       else if c = 84 then Some (CR, s)
       else if c = 69 \<or> c = 65 then Some (CR, s)
       else if c = 71 then Some (CR, s)
       else if c = 87 then Some (CR, s)
       else if c = 76 then Some (CR, s)
       else Some (ERROR, s) } }"

section \<open>Printing and waiting\<close>

definition quiet_ids :: "u32 list" where
  "quiet_ids = [0x521, 0x0A9, 0x4A9, 0x3CF, 0x3DF, 0x1C1, 0x5C1, 0x1B1, 0x5B1]"

definition print_byte :: "can_msg \<Rightarrow> nat \<Rightarrow> 'z can_scheme \<Rightarrow> 'z can_scheme option" where
  "print_byte m i s = do {
     b \<leftarrow> (if i < 4 then c_read (dataA m) (int i) else c_read (dataB m) (int i - 4));
     say (ascii ''%02x'') [XInt (ucast b)] s }"

definition PrintMessage :: "can_msg \<Rightarrow> 'z can_scheme \<Rightarrow> 'z can_scheme option" where
  "PrintMessage m s =
    (if msg_id m \<in> set quiet_ids then Some s
     else do {
       let s = (if msg_format m = STD_ID_FORMAT then put (if msg_type m = DATA_FRAME then 116 else 114) s
         else put (if msg_type m = DATA_FRAME then 84 else 82) s);
       s \<leftarrow> say (ascii ''%03x'') [XInt (msg_id m)] s;
       let s = put (msg_len m + 48) s;
       s \<leftarrow> (if msg_type m = DATA_FRAME then for_each (print_byte m) [0..<unat (msg_len m)] s else Some s);
       s \<leftarrow> (if ram_timestamp_status s \<noteq> 0 then say (ascii ''%03x'') [XInt (can_millis s)] s else Some s);
       say [13, 10] [] s })"

text \<open>
  Waiting for an identifier: \<open>seen k\<close> is the identifier of the last received message as poll
  \<open>k\<close> reads it (the receive interrupt changes it meanwhile), one poll a millisecond.
  The result is the return value and whether the identifier was consumed (set to 0).
\<close>

function wait_id_loop :: "(nat \<Rightarrow> u32) \<Rightarrow> u32 \<Rightarrow> nat \<Rightarrow> u32 \<Rightarrow> u32 \<times> bool" where
  "wait_id_loop seen ident k timeout =
    (if seen k = ident then (ucast CR, True)
     else if timeout = 0 then (ucast ERROR, False)
     else wait_id_loop seen ident (k + 1) (timeout - 1))"
  by pat_completeness auto
termination
  by (relation "measure (\<lambda>(_, _, _, t). unat t)") (auto simp: unat_minus_one unat_gt_0)

declare wait_id_loop.simps [simp del]

partial_function (option) wait_id_block :: "(nat \<Rightarrow> u32) \<Rightarrow> u32 \<Rightarrow> nat \<Rightarrow> (u32 \<times> bool) option" where
  "wait_id_block seen ident k = (if seen k \<noteq> ident then wait_id_block seen ident (k + 1) else Some (ucast CR, False))"

definition WaitForID :: "(nat \<Rightarrow> u32) \<Rightarrow> u32 \<Rightarrow> u32 \<Rightarrow> (u32 \<times> bool) option" where
  "WaitForID seen ident timeout =
    (if timeout \<noteq> 0 then Some (wait_id_loop seen ident 0 timeout) else wait_id_block seen ident 0)"

section \<open>Sending\<close>

lemma c_strlen_eq: "0 \<notin> set xs \<Longrightarrow> c_strlen (xs @ 0 # ys) = Some (length xs)"
  by (induction xs) auto

lemma all_xdigits_eq: "list_all isxdigit xs \<Longrightarrow> all_xdigits (xs @ 0 # ys) = Some True"
  by (induction xs) (auto simp: isxdigit_def)

lemma isxdigit_not_0: "list_all isxdigit xs \<Longrightarrow> 0 \<notin> set xs"
  by (auto simp: list_all_iff isxdigit_def)

text \<open>The bytes that pairs of hexadecimal characters stand for, and the data bytes of a message.\<close>

fun hex_pairs :: "u8 list \<Rightarrow> u8 list" where
  "hex_pairs (a # b # cs) = (push_bit 4 (ascii2byte a) + ascii2byte b) # hex_pairs cs"
| "hex_pairs _ = []"

definition msg_bytes :: "can_msg \<Rightarrow> u8 list" where
  "msg_bytes m = take (unat (msg_len m)) (dataA m @ dataB m)"

definition msg_wf :: "can_msg \<Rightarrow> bool" where
  "msg_wf m \<longleftrightarrow> length (dataA m) = 4 \<and> length (dataB m) = 4"

lemma length_hex_pairs: "length (hex_pairs ds) = length ds div 2"
  by (induction ds rule: hex_pairs.induct) auto

lemma nth_hex_pairs: "2 * i + 1 < length ds \<Longrightarrow>
    hex_pairs ds ! i = push_bit 4 (ascii2byte (ds ! (2 * i))) + ascii2byte (ds ! (2 * i + 1))"
proof (induction ds arbitrary: i rule: hex_pairs.induct)
  case (1 a b cs)
  then show ?case
    by (cases i) auto
qed auto

lemma nth5: "(a # b # c # d # e # ys) ! (5 + i) = ys ! i"
  by (simp add: eval_nat_numeral)

lemma store_all:
  assumes "msg_wf m" "n \<le> 8" "cmd_buf = c0 # c1 # c2 # c3 # c4 # ds @ rest" "length ds = 2 * n"
  shows "\<exists>A B. for_each (store_data cmd_buf) [0..<n] m = Some (m\<lparr>dataA := A, dataB := B\<rparr>) \<and> length A = 4 \<and> length B = 4 \<and>
    take n (A @ B) = hex_pairs ds"
proof -
  let ?P = "\<lambda>k m'. \<exists>A B. m' = m\<lparr>dataA := A, dataB := B\<rparr> \<and> length A = 4 \<and> length B = 4 \<and> take k (A @ B) = take k (hex_pairs ds)"
  have len: "length (hex_pairs ds) = n"
    using assms(4) by (simp add: length_hex_pairs)
  have "\<exists>m'. for_each (store_data cmd_buf) [0..<n] m = Some m' \<and> ?P n m'"
  proof (rule for_each_upt[where P = ?P])
    show "?P 0 m"
      by (rule exI[of _ "dataA m"], rule exI[of _ "dataB m"]) (use assms(1) in \<open>simp add: msg_wf_def\<close>)
  next
    fix k m'
    assume k: "k < n" and "?P k m'"
    then obtain A B where AB: "m' = m\<lparr>dataA := A, dataB := B\<rparr>" "length A = 4" "length B = 4" "take k (A @ B) = take k (hex_pairs ds)"
      by blast
    have "nibble_at cmd_buf (5 + 2 * k) = Some (ascii2byte (ds ! (2 * k)))"
      "nibble_at cmd_buf (5 + 2 * k + 1) = Some (ascii2byte (ds ! (2 * k + 1)))"
      unfolding nibble_at_def c_read_int using k assms(4) nth5[of c0 c1 c2 c3 c4 "ds @ rest" "2 * k"]
        nth5[of c0 c1 c2 c3 c4 "ds @ rest" "2 * k + 1"]
      by (simp_all add: assms(3) nth_append)
    note nib = this
    have b: "hex_pairs ds ! k = push_bit 4 (ascii2byte (ds ! (2 * k))) + ascii2byte (ds ! (2 * k + 1))"
      using k assms(4) by (intro nth_hex_pairs) simp
    let ?A = "if k < 4 then A[k := hex_pairs ds ! k] else A" and ?B = "if k < 4 then B else B[k - 4 := hex_pairs ds ! k]"
    have "take (Suc k) (?A @ ?B) = take k (A @ B) @ [hex_pairs ds ! k]"
    proof (cases "k < 4")
      case False
      then have "k - 3 = Suc (k - 4)" "k - 4 < length B"
        using k assms(2) AB(3) by auto
      with False AB(2) show ?thesis
        by (simp add: take_Suc_conv_app_nth)
    qed (use AB(2) in \<open>simp add: take_Suc_conv_app_nth\<close>)
    also have "\<dots> = take (Suc k) (hex_pairs ds)"
      using k len AB(4) by (simp add: take_Suc_conv_app_nth)
    finally have "take (Suc k) (?A @ ?B) = take (Suc k) (hex_pairs ds)" .
    moreover have "store_data cmd_buf k m' = Some (m\<lparr>dataA := ?A, dataB := ?B\<rparr>)"
    proof (cases "k < 4")
      case False
      then have "nat (int k - 4) = k - 4"
        by simp
      with False nib b k assms(2) AB(1-3) show ?thesis
        by (simp add: store_data_def)
    qed (use nib b AB(1-3) in \<open>simp add: store_data_def\<close>)
    moreover have "length ?A = 4" "length ?B = 4"
      using AB(2,3) by simp_all
    ultimately show "\<exists>m''. store_data cmd_buf k m' = Some m'' \<and> ?P (Suc k) m''"
      by blast
  qed
  with len show ?thesis
    by auto
qed

lemma u8_of_nat: "n < 256 \<Longrightarrow> unat (of_nat n :: u8) = n"
  by (simp add: unsigned_of_nat take_bit_nat_eq_self)

lemma exec_t:
  assumes "msg_wf (TXMsg s)" "CANBUS_ON s" "TX_IDLE s" "list_all isxdigit (c1 # c2 # c3 # l # ds)"
    "length ds = 2 * n" "n \<le> 8" "unat (ascii2byte l) = n"
  shows "\<exists>m. exec_usart_cmd (116 # c1 # c2 # c3 # l # ds @ 0 # rest) s =
      Some (if can_accept s (length (can_log s)) then CR else ERROR,
        s\<lparr>TXMsg := m, can_log := can_log s @ [(m, can_accept s (length (can_log s)))]\<rparr>) \<and> msg_wf m \<and>
    msg_id m = push_bit 4 (push_bit 4 (ucast (ascii2byte c1)) + ucast (ascii2byte c2)) + ucast (ascii2byte c3) \<and>
    msg_type m = 0 \<and> msg_format m = 0 \<and> unat (msg_len m) = n \<and> msg_bytes m = hex_pairs ds"
proof -
  let ?cmd = "116 # c1 # c2 # c3 # l # ds @ 0 # rest"
  let ?m = "(TXMsg s)\<lparr>msg_type := 0, msg_format := 0,
      msg_id := push_bit 4 (push_bit 4 (ucast (ascii2byte c1)) + ucast (ascii2byte c2)) + ucast (ascii2byte c3), msg_len := ascii2byte l\<rparr>"
  have xd: "all_xdigits (drop 1 ?cmd) = Some True"
    using all_xdigits_eq[OF assms(4), of rest] by simp
  have sl: "c_strlen ?cmd = Some (5 + 2 * n)"
    using c_strlen_eq[of "116 # c1 # c2 # c3 # l # ds" rest] isxdigit_not_0[OF assms(4)] assms(5) by simp
  have cl: "unat (of_nat (5 + 2 * n) :: u8) = 5 + 2 * n"
    using assms(6) by (intro u8_of_nat) simp
  have "msg_wf ?m"
    using assms(1) by (simp add: msg_wf_def)
  from store_all[OF this assms(6) refl assms(5), of 116 c1 c2 c3 l "0 # rest"] obtain A B where
    AB: "for_each (store_data ?cmd) [0..<n] ?m = Some (?m\<lparr>dataA := A, dataB := B\<rparr>)" "length A = 4" "length B = 4"
    "take n (A @ B) = hex_pairs ds"
    by auto
  have "\<not> (of_nat (5 + 2 * n) :: u8) < 5" "\<not> (21 :: u8) < of_nat (5 + 2 * n)" "\<not> 8 < ascii2byte l"
    using cl assms(6,7) by (simp_all only: word_less_nat_alt) simp_all
  moreover have "nibble_at ?cmd 1 = Some (ascii2byte c1)" "nibble_at ?cmd 2 = Some (ascii2byte c2)"
    "nibble_at ?cmd 3 = Some (ascii2byte c3)" "nibble_at ?cmd 4 = Some (ascii2byte l)"
    by (simp_all add: nibble_at_def c_read_def)
  moreover have "(uint (of_nat (5 + 2 * n) :: u8) - 5) sdiv 2 = int n"
    unfolding uint_eq_int_unat[OF cl] by simp
  moreover have "uint (ascii2byte l) = int n"
    using assms(7) by (rule uint_eq_int_unat)
  ultimately have "exec_usart_cmd ?cmd s = (let (ok, s) = CAN_SendMsg (s\<lparr>TXMsg := ?m\<lparr>dataA := A, dataB := B\<rparr>\<rparr>) in
      Some (if ok then CR else ERROR, s))"
    using sl xd AB(1) assms(2,3,7) by (simp add: exec_usart_cmd_def send_11bit_id_def Let_def del: of_nat_add drop_Cons')
  then show ?thesis
    using AB assms(7)
    by (intro exI[of _ "?m\<lparr>dataA := A, dataB := B\<rparr>"]) (simp add: CAN_SendMsg_def Let_def msg_wf_def msg_bytes_def)
qed

section \<open>The printed form\<close>

text \<open>Hexadecimal digits in a fixed number of places.\<close>

lemma hex_padded:
  assumes "n < 16 ^ Suc k" "k = 1 \<or> k = 2"
  shows "replicate (Suc k - length (num_digits 16 n)) 48 @ map digit_char (num_digits 16 n) =
    map digit_char (pad_digits 16 k n)"
proof -
  have z: "digit_char 0 = 48"
    by (simp add: digit_char_def)
  consider "n < 16" | "16 \<le> n" "n < 256" | "256 \<le> n" "n < 4096" "k = 2"
    using assms by fastforce
  then show ?thesis
  proof cases
    case 1
    then have "num_digits 16 n = [n]"
      by (simp add: num_digits_small)
    with 1 assms(2) z show ?thesis
      by (auto simp: numeral_2_eq_2)
  next
    case 2
    then have "num_digits 16 n = [n div 16, n mod 16]"
      by (simp add: num_digits_big num_digits_small)
    with 2 assms(2) z show ?thesis
      by (auto simp: numeral_2_eq_2)
  next
    case 3
    then have "num_digits 16 (n div 16) = [n div 256, n div 16 mod 16]"
      using num_digits_big[of 16 "n div 16"] by (simp add: num_digits_small div_mult2_eq[symmetric])
    with 3 have "num_digits 16 n = [n div 256, n div 16 mod 16, n mod 16]"
      using num_digits_big[of 16 n] by simp
    moreover have "n mod 256 div 16 = n div 16 mod 16" "n mod 256 mod 16 = n mod 16"
      using mod_mult_div[of n 16 16] by (simp_all add: mod_mod_cancel)
    ultimately show ?thesis
      using 3 by (simp add: numeral_2_eq_2)
  qed
qed

lemma number_text_hex: "unat v < 16 ^ Suc k \<Longrightarrow> k = 1 \<or> k = 2 \<Longrightarrow>
    number_text v 16 (- int (Suc k)) = map digit_char (pad_digits 16 k (unat v))"
  using hex_padded[of "unat v" k] by (simp add: number_text_def Let_def nat_add_distrib)

lemma say_hex3: "unat v < 4096 \<Longrightarrow> say (ascii ''%03x'') [XInt v] s = Some (s\<lparr>console := console s @ map digit_char (pad_digits 16 2 (unat v))\<rparr>)"
  using xprintf_toks[of "[Conv True 3 False 120 (XInt v)]"] number_text_hex[of v 2]
  by (simp add: say_def ascii_def digit_char_def[of 3] xp_radix_def)

lemma say_hex2: "say (ascii ''%02x'') [XInt (ucast (b :: u8))] s = Some (s\<lparr>console := console s @ map digit_char (pad_digits 16 1 (unat b))\<rparr>)"
proof -
  have "unat (ucast b :: u32) = unat b"
    by (simp add: unat_ucast_mod mod_less[OF less_trans[OF unat_u8_less]])
  then show ?thesis
    using xprintf_toks[of "[Conv True 2 False 120 (XInt (ucast b))]"] number_text_hex[of "ucast b" 1]
    by (simp add: say_def ascii_def digit_char_def[of 2] xp_radix_def)
qed

lemma say_crlf: "say [13, 10] [] s = Some (s\<lparr>console := console s @ [13, 13, 10]\<rparr>)"
  using xprintf_toks[of "[Lit 13, Lit 10]"] by (simp add: say_def xputc_def)

lemma nibble_digit_char: "d < 16 \<Longrightarrow> isxdigit (digit_char d) \<and> unat (ascii2byte (digit_char d)) = d"
proof -
  have "list_all (\<lambda>d. isxdigit (digit_char d) \<and> unat (ascii2byte (digit_char d)) = d) [0..<16]"
    by code_simp
  then show "d < 16 \<Longrightarrow> isxdigit (digit_char d) \<and> unat (ascii2byte (digit_char d)) = d"
    by (simp add: list_all_iff)
qed

definition hex_text :: "u8 list \<Rightarrow> u8 list" where
  "hex_text bs = concat (map (\<lambda>b. map digit_char (pad_digits 16 1 (unat b))) bs)"

lemma hex_pair_digits:
  "isxdigit (digit_char (unat (b :: u8) div 16)) \<and> isxdigit (digit_char (unat b mod 16)) \<and>
   push_bit 4 (ascii2byte (digit_char (unat b div 16))) + ascii2byte (digit_char (unat b mod 16)) = b"
proof -
  have d: "unat b div 16 < 16" "unat b mod 16 < 16"
    using unat_u8_less[of b] by (simp_all add: less_mult_imp_div_less)
  note n = nibble_digit_char[OF d(1)] nibble_digit_char[OF d(2)]
  have "unat (push_bit 4 (ascii2byte (digit_char (unat b div 16))) :: u8) = unat b div 16 * 16"
    using n d by (simp add: push_bit_eq_mult unat_word_ariths)
  moreover have "unat b div 16 * 16 + unat b mod 16 = unat b"
    by simp
  ultimately have "unat (push_bit 4 (ascii2byte (digit_char (unat b div 16))) + ascii2byte (digit_char (unat b mod 16))) = unat b"
    using n unat_u8_less[of b] by (subst unat_add_small) simp_all
  then show ?thesis
    using n by (auto simp: word_unat_eq_iff)
qed

lemma hex_text_pairs: "hex_pairs (hex_text bs) = bs" "length (hex_text bs) = 2 * length bs" "list_all isxdigit (hex_text bs)"
  using hex_pair_digits by (induction bs) (auto simp: hex_text_def)

lemma print_bytes:
  assumes "msg_wf m" "n \<le> 8"
  shows "for_each (print_byte m) [0..<n] s = Some (s\<lparr>console := console s @ hex_text (take n (dataA m @ dataB m))\<rparr>)"
proof -
  let ?P = "\<lambda>k s'. s' = s\<lparr>console := console s @ hex_text (take k (dataA m @ dataB m))\<rparr>"
  have "\<exists>s'. for_each (print_byte m) [0..<n] s = Some s' \<and> ?P n s'"
  proof (rule for_each_upt[where P = ?P])
    fix k s'
    assume k: "k < n" and P: "?P k s'"
    let ?b = "(dataA m @ dataB m) ! k"
    have "(if k < 4 then c_read (dataA m) (int k) else c_read (dataB m) (int k - 4)) = Some ?b"
      using assms k by (cases "k < 4") (auto simp: msg_wf_def nth_append nat_diff_distrib)
    moreover have "take (Suc k) (dataA m @ dataB m) = take k (dataA m @ dataB m) @ [?b]"
      using assms k by (simp add: msg_wf_def take_Suc_conv_app_nth del: take_append)
    ultimately show "\<exists>s''. print_byte m k s' = Some s'' \<and> ?P (Suc k) s''"
      using P by (simp add: print_byte_def say_hex2 hex_text_def del: take_append pad_digits.simps)
  qed (simp add: hex_text_def)
  then show ?thesis
    by simp
qed

lemma PrintMessage_text:
  assumes "msg_wf m" "msg_format m = 0" "msg_type m = 0" "unat (msg_id m) < 4096" "unat (msg_len m) \<le> 8"
    "msg_id m \<notin> set quiet_ids" "ram_timestamp_status s = 0"
  shows "PrintMessage m s = Some (s\<lparr>console := console s @ 116 # map digit_char (pad_digits 16 2 (unat (msg_id m))) @
    (msg_len m + 48) # hex_text (msg_bytes m) @ [13, 13, 10]\<rparr>)"
  using assms
  by (simp add: PrintMessage_def put_def say_hex3 print_bytes say_crlf msg_bytes_def del: pad_digits.simps take_append)

lemma id_from_digits:
  assumes "unat (v :: u32) < 4096"
  shows "push_bit 4 (push_bit 4 (ucast (ascii2byte (digit_char (unat v div 256)))) +
      ucast (ascii2byte (digit_char (unat v mod 256 div 16)))) + ucast (ascii2byte (digit_char (unat v mod 16))) = v"
proof -
  have d: "unat v div 256 < 16" "unat v mod 256 div 16 < 16" "unat v mod 16 < 16"
    using assms by (simp_all add: less_mult_imp_div_less)
  have u: "unat (ucast (ascii2byte (digit_char d)) :: u32) = d" if "d < 16" for d
    using nibble_digit_char[OF that] that by (simp add: unat_ucast_mod)
  have small: "256 * a + b * 16 + c < 4294967296" if "a < 16" "b < 16" "c < 16" for a b c :: nat
    using that by simp
  let ?a = "unat v div 256" and ?b = "unat v mod 256 div 16" and ?c = "unat v mod 16"
  have mul: "unat (push_bit 4 x :: u32) = unat x * 16" if "unat x < 4096" for x :: u32
    using that by (simp add: push_bit_eq_mult unat_word_ariths)
  have "unat (push_bit 4 (ucast (ascii2byte (digit_char ?a))) + ucast (ascii2byte (digit_char ?b)) :: u32) = ?a * 16 + ?b"
    using d u[OF d(1)] u[OF d(2)] by (subst unat_add_small) (simp_all add: mul)
  moreover have "?a * 16 + ?b < 256"
    using d by simp
  ultimately have "unat (push_bit 4 (push_bit 4 (ucast (ascii2byte (digit_char ?a))) + ucast (ascii2byte (digit_char ?b))) +
      ucast (ascii2byte (digit_char ?c)) :: u32) = (?a * 16 + ?b) * 16 + ?c"
    using d u[OF d(3)] small[OF d] by (subst unat_add_small) (simp_all add: mul)
  moreover have "(?a * 16 + ?b) * 16 + ?c = unat v"
  proof -
    have "?b * 16 + ?c = unat v mod 256"
      using div_mult_mod_eq[of "unat v mod 256" 16] by (simp add: mod_mod_cancel)
    moreover have "b * 16 + c = r \<Longrightarrow> a * 256 + r = w \<Longrightarrow> (a * 16 + b) * 16 + c = w" for a b c r w :: nat
      by simp
    ultimately show ?thesis
      using div_mult_mod_eq[of "unat v" 256] by blast
  qed
  ultimately show ?thesis
    by (simp add: word_unat_eq_iff)
qed

lemma len_char: "unat (l :: u8) \<le> 8 \<Longrightarrow> l + 48 = digit_char (unat l)"
  by (simp add: digit_char_def add.commute)

text \<open>
  C19: The send command. With the bus on and idle, a command \<^verbatim>\<open>t\<close>, three hexadecimal digits, a length of at
  most 8 and twice as many hexadecimal digits asks the driver to send exactly one message, a
  standard data frame with that identifier, length and those bytes, and answers CR if the driver
  takes it and the error tag otherwise; nothing but the transmit message and the driver's log changes.
\<close>

theorem send_command:
  assumes "msg_wf (TXMsg s)" "CANBUS_ON s" "TX_IDLE s" "list_all isxdigit (c1 # c2 # c3 # l # ds)"
    "length ds = 2 * n" "n \<le> 8" "unat (ascii2byte l) = n" "ok = can_accept s (length (can_log s))"
  shows "\<exists>m. exec_usart_cmd (116 # c1 # c2 # c3 # l # ds @ 0 # rest) s =
      Some (if ok then CR else ERROR, s\<lparr>TXMsg := m, can_log := can_log s @ [(m, ok)]\<rparr>) \<and> msg_wf m \<and>
    msg_id m = push_bit 4 (push_bit 4 (ucast (ascii2byte c1)) + ucast (ascii2byte c2)) + ucast (ascii2byte c3) \<and>
    msg_type m = 0 \<and> msg_format m = 0 \<and> unat (msg_len m) = n \<and> msg_bytes m = hex_pairs ds"
  unfolding assms(8) using assms(1-7) by (rule exec_t)

text \<open>An idle bus with an empty transmit message and a driver that accepts everything.\<close>

definition empty_msg :: can_msg where
  "empty_msg = \<lparr>msg_id = 0, dataA = [0, 0, 0, 0], dataB = [0, 0, 0, 0], msg_len = 0, msg_format = 0, msg_type = 0\<rparr>"

definition can_idle :: can where
  "can_idle = \<lparr>TXMsg = empty_msg, RXMsg = empty_msg, CAN_flags = 0, ram_timestamp_status = 0, can_status = 0,
     can_accept = (\<lambda>_. True), can_log = [], can_millis = 0, console = []\<rparr>"

lemma can_idle_ok: "msg_wf (TXMsg can_idle)" "CANBUS_ON can_idle" "TX_IDLE can_idle" "can_log can_idle = []" "can_accept can_idle n"
  by (simp_all add: can_idle_def msg_wf_def empty_msg_def CANBUS_ON_def TX_IDLE_def)

theorem send_command_witness:
  "\<exists>m s. exec_usart_cmd [116, 49, 50, 97, 50, 48, 70, 97, 98, 0] can_idle = Some (CR, s) \<and> can_log s = [(m, True)] \<and>
    msg_id m = 0x12A \<and> msg_bytes m = [0x0F, 0xAB]"
  using send_command[of can_idle 49 50 97 50 "[48, 70, 97, 98]" 2 True "[]"] can_idle_ok
  by (auto simp: isxdigit_def ascii2byte_def)

text \<open>
  C23: What the console prints is what it accepts, with the time stamps off (as \<^verbatim>\<open>CAN_init\<close> sets them; the command that would toggle them is compiled out),
  the bus on and idle and the driver accepting. For every standard data frame that is not one of the
  polling messages, the line that \<^verbatim>\<open>PrintMessage\<close> prints, given back as a command, makes the firmware
  send a message with the same identifier, length and data.
\<close>

theorem printed_message_is_command:
  assumes "msg_wf m" "msg_format m = 0" "msg_type m = 0" "unat (msg_id m) < 4096" "unat (msg_len m) \<le> 8"
    "msg_id m \<notin> set quiet_ids" "ram_timestamp_status s = 0"
    "msg_wf (TXMsg s)" "CANBUS_ON s" "TX_IDLE s" "can_accept s (length (can_log s))"
  shows "\<exists>l m' s1 s2. PrintMessage m s = Some s1 \<and> console s1 = console s @ l @ [13, 13, 10] \<and>
    exec_usart_cmd (l @ [0]) s = Some (CR, s2) \<and> can_log s2 = can_log s @ [(m', True)] \<and>
    msg_id m' = msg_id m \<and> msg_len m' = msg_len m \<and> msg_bytes m' = msg_bytes m \<and> msg_type m' = 0 \<and> msg_format m' = 0"
proof -
  let ?n = "unat (msg_id m)" and ?k = "unat (msg_len m)"
  have p3: "pad_digits 16 2 ?n = [?n div 256, ?n mod 256 div 16, ?n mod 16]"
    by (simp add: numeral_2_eq_2 mod_mod_cancel)
  have d: "?n div 256 < 16" "?n mod 256 div 16 < 16" "?n mod 16 < 16" "?k < 16"
    using assms(4,5) by (simp_all add: less_mult_imp_div_less)
  note nib = nibble_digit_char[OF d(1)] nibble_digit_char[OF d(2)] nibble_digit_char[OF d(3)] nibble_digit_char[OF d(4)]
  have len: "length (msg_bytes m) = ?k"
    using assms(1,5) by (simp add: msg_bytes_def msg_wf_def)
  let ?l = "116 # digit_char (?n div 256) # digit_char (?n mod 256 div 16) # digit_char (?n mod 16) # digit_char ?k # hex_text (msg_bytes m)"
  have "list_all isxdigit (digit_char (?n div 256) # digit_char (?n mod 256 div 16) # digit_char (?n mod 16) # digit_char ?k # hex_text (msg_bytes m))"
    using nib hex_text_pairs(3) by simp
  from exec_t[OF assms(8-10) this, of ?k "[]"] nib hex_text_pairs(2)[of "msg_bytes m"] len assms(5,11) obtain m' where
    m': "exec_usart_cmd (?l @ [0]) s = Some (CR, s\<lparr>TXMsg := m', can_log := can_log s @ [(m', True)]\<rparr>)"
    "msg_id m' = msg_id m" "msg_type m' = 0" "msg_format m' = 0" "unat (msg_len m') = ?k" "msg_bytes m' = msg_bytes m"
    using id_from_digits[OF assms(4)] hex_text_pairs(1)[of "msg_bytes m"] by auto
  moreover have "PrintMessage m s = Some (s\<lparr>console := console s @ ?l @ [13, 13, 10]\<rparr>)"
    using PrintMessage_text[OF assms(1-7)] len_char[OF assms(5)] p3 by simp
  ultimately show ?thesis
    by (intro exI[of _ ?l] exI[of _ m']) (simp add: word_unat_eq_iff)
qed

theorem printed_message_is_command_witness:
  "\<exists>l s1 s2. PrintMessage (empty_msg\<lparr>msg_id := 0x123, msg_len := 2, dataA := [0xDE, 0xAD, 0, 0]\<rparr>) can_idle = Some s1 \<and>
    console s1 = l @ [13, 13, 10] \<and> exec_usart_cmd (l @ [0]) can_idle = Some (CR, s2)"
  using printed_message_is_command[of "empty_msg\<lparr>msg_id := 0x123, msg_len := 2, dataA := [0xDE, 0xAD, 0, 0]\<rparr>" can_idle] can_idle_ok
  by (auto simp: msg_wf_def empty_msg_def quiet_ids_def) (auto simp: can_idle_def)

section \<open>Refused commands\<close>

text \<open>What a command must look like to be sent, by its length and its length digit.\<close>

definition sendable :: "u8 list \<Rightarrow> bool" where
  "sendable cmd \<longleftrightarrow> c_read cmd 0 = Some 116 \<and> all_xdigits (drop 1 cmd) = Some True \<and>
    (\<exists>len l. c_strlen cmd = Some len \<and> nibble_at cmd 4 = Some l \<and> 5 \<le> len mod 256 \<and> len mod 256 \<le> 21 \<and>
       unat l \<le> 8 \<and> unat l = (len mod 256 - 5) div 2)"

lemma u8_of_nat_mod: "unat (of_nat n :: u8) = n mod 256"
  by (simp add: unsigned_of_nat take_bit_eq_mod)

lemma send_11bit_id_log:
  assumes "send_11bit_id cmd cl s = Some (r, s')" "can_log s' \<noteq> can_log s"
  shows "CANBUS_ON s \<and> TX_IDLE s \<and> 5 \<le> unat cl \<and> unat cl \<le> 21 \<and>
    (\<exists>l. nibble_at cmd 4 = Some l \<and> unat l \<le> 8 \<and> unat l = (unat cl - 5) div 2) \<and>
    (\<exists>m ok. can_log s' = can_log s @ [(m, ok)] \<and> r = (if ok then CR else ERROR))"
proof -
  from assms obtain l m where *: "CANBUS_ON s" "TX_IDLE s" "\<not> cl < 5" "\<not> 21 < cl" "nibble_at cmd 4 = Some l"
    "uint l = (uint cl - 5) sdiv 2" "\<not> 8 < l" "(case CAN_SendMsg (s\<lparr>TXMsg := m\<rparr>) of (ok, s) \<Rightarrow> Some (if ok then CR else ERROR, s)) = Some (r, s')"
    by (auto simp: send_11bit_id_def Let_def split: if_splits Option.bind_splits)
  have cl: "5 \<le> unat cl" "unat cl \<le> 21" "unat l \<le> 8"
    using *(3,4,7) by (simp_all add: word_less_nat_alt)
  have "5 \<le> int (unat cl)"
    using cl(1) by linarith
  then have "int (unat l) = (int (unat cl) - 5) div 2"
    using *(6) by simp
  also have "\<dots> = int ((unat cl - 5) div 2)"
    using cl(1) by (simp add: zdiv_int of_nat_diff)
  finally have "unat l = (unat cl - 5) div 2"
    by (simp only: of_nat_eq_iff)
  moreover have "\<exists>m ok. can_log s' = can_log s @ [(m, ok)] \<and> r = (if ok then CR else ERROR)"
  proof (intro exI conjI)
    show "can_log s' = can_log s @ [(m, can_accept s (length (can_log s)))]"
      "r = (if can_accept s (length (can_log s)) then CR else ERROR)"
      using *(8) by (simp_all add: CAN_SendMsg_def Let_def split del: if_split) auto
  qed
  ultimately show ?thesis
    using *(1,2,5) cl by blast
qed

text \<open>A result that leaves the bus alone; commands are checked branch by branch.\<close>

definition silent :: "'z can_scheme \<Rightarrow> (u8 \<times> 'z can_scheme) option \<Rightarrow> bool" where
  "silent s res \<longleftrightarrow> (\<forall>r s'. res = Some (r, s') \<longrightarrow> can_log s' = can_log s)"

lemma silent_intros:
  "silent s None" "silent s (Some (r, s))" "silent s (do { s' \<leftarrow> say f a s; Some (r, s') })"
  "(P \<Longrightarrow> silent s x) \<Longrightarrow> (\<not> P \<Longrightarrow> silent s y) \<Longrightarrow> silent s (if P then x else y)"
  by (auto simp: silent_def say_def split: Option.bind_splits)

lemma exec_silent: "c_read cmd 0 \<noteq> Some 116 \<or> all_xdigits (drop 1 cmd) \<noteq> Some True \<Longrightarrow> silent s (exec_usart_cmd cmd s)"
  unfolding exec_usart_cmd_def Let_def
  by (cases "c_strlen cmd"; cases "all_xdigits (drop 1 cmd)"; cases "c_read cmd 0")
    (simp_all only: Option.bind.simps, (intro silent_intros; simp)+)

text \<open>
  C33: Nothing else is sent. If a command makes the driver's log grow, then it is a \<^verbatim>\<open>t\<close> command of
  hexadecimal digits whose length digit is at most 8 and fits the length of the command, the bus is on
  and idle, and the log grows by one message, whose fate the answer tells; every other command that
  returns, and every malformed one, leaves the bus alone.
\<close>

theorem only_wellformed_commands_send:
  assumes "exec_usart_cmd cmd s = Some (r, s')" "can_log s' \<noteq> can_log s"
  shows "sendable cmd \<and> CANBUS_ON s \<and> TX_IDLE s \<and> (\<exists>m ok. can_log s' = can_log s @ [(m, ok)] \<and> r = (if ok then CR else ERROR))"
proof -
  have t: "c_read cmd 0 = Some 116" "all_xdigits (drop 1 cmd) = Some True"
    using assms exec_silent[of cmd s] by (auto simp: silent_def)
  with assms(1) obtain len where len: "c_strlen cmd = Some len" "all_xdigits (drop 1 cmd) = Some True" "c_read cmd 0 = Some 116"
    "send_11bit_id cmd (of_nat len) s = Some (r, s')"
    by (auto simp: exec_usart_cmd_def Let_def split: Option.bind_splits)
  from send_11bit_id_log[OF len(4) assms(2)] len show ?thesis
    by (auto simp: sendable_def u8_of_nat_mod)
qed

theorem only_wellformed_commands_send_witness: "sendable [116, 49, 50, 51, 48, 0]"
proof -
  from exec_t[OF can_idle_ok(1-3), of 49 50 51 48 "[]" 0 "[]"] obtain m where
    "exec_usart_cmd [116, 49, 50, 51, 48, 0] can_idle = Some (CR, can_idle\<lparr>TXMsg := m, can_log := [(m, True)]\<rparr>)"
    by (auto simp: isxdigit_def ascii2byte_def can_idle_ok)
  from only_wellformed_commands_send[OF this] show ?thesis
    by (simp add: can_idle_ok)
qed

section \<open>Waiting\<close>

lemma wait_id_loop_eq:
  "wait_id_loop seen ident k t =
    (if \<exists>j \<le> unat t. seen (k + j) = ident then (ucast CR, True) else (ucast ERROR, False))"
proof (induction "unat t" arbitrary: k t)
  case 0
  then have "t = 0"
    by (simp add: unat_eq_zero)
  then show ?case
    by (subst wait_id_loop.simps) simp
next
  case (Suc n)
  then have "t \<noteq> 0"
    by auto
  with Suc.hyps(2) have t: "t \<noteq> 0" "unat (t - 1) = n"
    by (simp_all add: unat_minus_one)
  have "(\<exists>j \<le> Suc n. seen (k + j) = ident) \<longleftrightarrow> seen k = ident \<or> (\<exists>j \<le> n. seen (Suc k + j) = ident)"
    by (metis add_Suc_shift add.right_neutral le0 Suc_le_mono not0_implies_Suc)
  then show ?case
    using Suc.hyps(1)[of "t - 1" "k + 1"] Suc.hyps(2) t by (subst wait_id_loop.simps) (auto simp: wait_id_loop.simps)
qed

text \<open>
  Waiting with a time limit always returns, after at most \<open>timeout + 1\<close> polls: with CR, and the
  identifier consumed, exactly when one of them sees the identifier, with the error tag
  otherwise; without a limit it returns as soon as the identifier is seen.
\<close>

theorem wait_for_id_returns:
  "(timeout \<noteq> 0 \<longrightarrow> WaitForID seen ident timeout =
     Some (if \<exists>j \<le> unat timeout. seen j = ident then (ucast CR, True) else (ucast ERROR, False))) \<and>
   (seen j = ident \<longrightarrow> WaitForID seen ident 0 = Some (ucast CR, False))"
proof -
  have "wait_id_block seen ident i = Some (ucast CR, False)" if "seen j = ident" "i \<le> j" for i j
    using that
  proof (induction "j - i" arbitrary: i)
    case 0
    then show ?case
      by (subst wait_id_block.simps) simp
  next
    case (Suc n)
    then show ?case
      by (subst wait_id_block.simps) auto
  qed
  then show ?thesis
    by (simp add: WaitForID_def wait_id_loop_eq)
qed

theorem wait_for_id_returns_witness:
  "WaitForID (\<lambda>k. if k = 3 then 0x521 else 0) 0x521 5 = Some (ucast CR, True) \<and>
   WaitForID (\<lambda>k. if k = 3 then 0x521 else 0) 0x521 0 = Some (ucast CR, False)"
proof -
  have "\<exists>j \<le> unat (5 :: u32). (if j = 3 then 0x521 else 0) = (0x521 :: u32)"
    by (rule exI[of _ 3]) simp
  then show ?thesis
    using wait_for_id_returns[of 5 "\<lambda>k. if k = 3 then 0x521 else 0" "0x521" 3] by simp
qed

end
