(* ===== verification/Screen.thy ===== *)
theory Screen
  imports Can
begin

text \<open>
  The car stereo display, \<^verbatim>\<open>libraries/CANlib/renault_stereo.c\<close>, and the parts of \<^verbatim>\<open>canlib.c\<close> that connect
  it to the bus: text is shown by four messages of identifier 0x121, the messages that the stereo
  sends are reassembled by the receive interrupt, and the main loop reacts to a complete screen and
  to the remote control. The display acknowledges every message; the value of the
  acknowledge counter that a poll reads is an input (\<open>poll_521\<close>). Diagnostic messages (tagged
  \<^verbatim>\<open>INFO\<close> or \<^verbatim>\<open>ERR\<close>) are left out, the commands to the media player (\<^verbatim>\<open>TASKER\<close>) and the names of the buttons
  are not. The lemmas show what is sent for a text, that the reassembly of such messages gives
  the text back, and where the reassembly leaves its buffer.
\<close>

section \<open>State\<close>

record screen = can +
  current_key_keyboard :: u8
  CompleteLength :: u8
  ScreenTextStart :: u8
  last_key :: u8
  screen_debug_show :: u8
  PrevScreenText :: "u8 list"
  Source :: u8
  SourceTemp :: u8
  ScreenTimeoutCounter :: u32
  OffTimeout :: u32
  ScreenTempData :: "u8 list"
  RecieveComplete :: u8
  RX_In_progress :: u8
  ButtomPressed :: u8
  source_change :: u8
  WaitingForScreen :: u8
  FirstScreen :: u8
  ButtonTempFull :: u32
  recieve_521_count :: int
  ScreenText :: "u8 list"
  tx_NoToSend :: u8
  tx_NoSent :: u8
  tx_ID :: u32
  DISPLAY_TIMEOUT :: int
  poll_521 :: "nat \<Rightarrow> nat \<Rightarrow> int"

abbreviation (input) REMOTE_VOLUME :: u8 where "REMOTE_VOLUME \<equiv> 0xA1"
abbreviation (input) REMOTE_RADIO :: u8 where "REMOTE_RADIO \<equiv> 0xA2"
abbreviation (input) REMOTE_AUX :: u8 where "REMOTE_AUX \<equiv> 0xA3"
abbreviation (input) REMOTE_TRAFFIC :: u8 where "REMOTE_TRAFFIC \<equiv> 0xA4"
abbreviation (input) REMOTE_PAUSE :: u8 where "REMOTE_PAUSE \<equiv> 0xA6"

datatype screen_cmd = NEW_STRING | TEMP_STRING | RETURN_STRING | OTHER_STRING

definition ScreenText_init :: "u8 list" where
  "ScreenText_init = [0x10, 0x19, 0x76, 0x60, 0x01] @ ascii ''IPO'' @ [0x21] @ ascii ''D    '' @ [0x10] @ ascii '' '' @
     [0x22] @ ascii ''       '' @ [0x23] @ ascii ''    '' @ [0x00, 0x81, 0x81] @ [0xFF, 0xFF, 0x00]"

text \<open>Text without conversions, printed by \<open>xprintf\<close>.\<close>

definition tell :: "string \<Rightarrow> 'z can_scheme \<Rightarrow> 'z can_scheme" where
  "tell t s = s\<lparr>console := console s @ concat (map xputc (ascii t @ [13, 10]))\<rparr>"

section \<open>Sending\<close>

function wait_521_loop :: "(nat \<Rightarrow> int) \<Rightarrow> nat \<Rightarrow> u32 \<Rightarrow> u32 \<times> int" where
  "wait_521_loop seen k timeout =
    (if seen k = 1 then (ucast CR, 0)
     else if timeout = 0 then (ucast ERROR, seen k)
     else wait_521_loop seen (k + 1) (timeout - 1))"
  by pat_completeness auto
termination
  by (relation "measure (\<lambda>(_, _, t). unat t)") (auto simp: unat_minus_one unat_gt_0)

declare wait_521_loop.simps [simp del]

partial_function (option) wait_521_block :: "(nat \<Rightarrow> int) \<Rightarrow> nat \<Rightarrow> (u32 \<times> int) option" where
  "wait_521_block seen k = (if seen k \<noteq> 1 then wait_521_block seen (k + 1) else Some (ucast CR, 1))"

definition WaitFor521 :: "u32 \<Rightarrow> screen \<Rightarrow> (u32 \<times> screen) option" where
  "WaitFor521 timeout s = do {
     let seen = poll_521 s (length (can_log s));
     (r, n) \<leftarrow> (if timeout \<noteq> 0 then Some (wait_521_loop seen 0 timeout) else wait_521_block seen 0);
     Some (r, s\<lparr>recieve_521_count := n\<rparr>) }"

text \<open>One packet of \<^verbatim>\<open>SendScreen\<close>.\<close>

definition send_packet :: "nat \<Rightarrow> screen \<Rightarrow> screen option" where
  "send_packet NoSent s = do {
     let ScreenPacketNo = (of_nat NoSent * 8 :: u8);
     a0 \<leftarrow> c_read (ScreenText s) (uint ScreenPacketNo);
     a1 \<leftarrow> c_read (ScreenText s) (uint (ScreenPacketNo + 1));
     a2 \<leftarrow> c_read (ScreenText s) (uint (ScreenPacketNo + 2));
     a3 \<leftarrow> c_read (ScreenText s) (uint (ScreenPacketNo + 3));
     b0 \<leftarrow> c_read (ScreenText s) (uint (ScreenPacketNo + 4));
     b1 \<leftarrow> c_read (ScreenText s) (uint (ScreenPacketNo + 5));
     b2 \<leftarrow> c_read (ScreenText s) (uint (ScreenPacketNo + 6));
     b3 \<leftarrow> c_read (ScreenText s) (uint (ScreenPacketNo + 7));
     let s = s\<lparr>tx_NoSent := of_nat NoSent, TXMsg := \<lparr>msg_id = tx_ID s, dataA = [a0, a1, a2, a3], dataB = [b0, b1, b2, b3],
       msg_len = 8, msg_format = 0, msg_type = 0\<rparr>\<rparr>;
     let (ok, s) = CAN_SendMsg s;
     (r, s) \<leftarrow> WaitFor521 100 s;
     Some s }"

definition SendScreen :: "screen \<Rightarrow> (u8 \<times> screen) option" where
  "SendScreen s = do {
     s \<leftarrow> for_each send_packet [0..<unat (tx_NoToSend s)] s;
     Some (CR, s\<lparr>tx_NoSent := tx_NoToSend s\<rparr>) }"

text \<open>\<^verbatim>\<open>strlcpy(temp_string, String, 9); strlcat(temp_string, Spaces, 9)\<close>: eight characters, padded with blanks.\<close>

definition screen8 :: "u8 list \<Rightarrow> u8 list" where
  "screen8 String = take 8 (take 8 String @ replicate 8 32)"

fun copy_text :: "int \<Rightarrow> u8 list \<Rightarrow> u8 list \<Rightarrow> u8 list option" where
  "copy_text a [] txt = Some txt"
| "copy_text a (c # cs) txt =
    (let a = (if a = 8 then a + 1 else a) in do { txt \<leftarrow> c_write txt a c; copy_text (a + 1) cs txt })"

definition SendToScreen :: "u32 \<Rightarrow> u8 list \<Rightarrow> u8 \<Rightarrow> screen_cmd \<Rightarrow> screen \<Rightarrow> (u8 \<times> screen) option" where
  "SendToScreen SendId String ScreenIcons Command s =
    (if SourceTemp s = REMOTE_PAUSE \<or> SourceTemp s = REMOTE_TRAFFIC then Some (ERROR, s\<lparr>DISPLAY_TIMEOUT := - 1\<rparr>)
     else do {
       let s = s\<lparr>tx_ID := SendId\<rparr>;
       let temp_string = screen8 String;
       s \<leftarrow> (case Command of
           NEW_STRING \<Rightarrow> do {
             let prev = temp_string @ drop 8 (PrevScreenText s);
             txt \<leftarrow> copy_text 5 temp_string (ScreenText s);
             Some (s\<lparr>PrevScreenText := prev, ScreenText := txt, DISPLAY_TIMEOUT := - 1\<rparr>) }
         | TEMP_STRING \<Rightarrow> do {
             txt \<leftarrow> copy_text 5 temp_string (ScreenText s);
             Some (s\<lparr>ScreenText := txt, DISPLAY_TIMEOUT := 1000\<rparr>) }
         | RETURN_STRING \<Rightarrow> do {
             txt \<leftarrow> copy_text 5 (take 8 (PrevScreenText s)) (ScreenText s);
             Some (s\<lparr>ScreenText := txt, DISPLAY_TIMEOUT := - 1\<rparr>) }
         | OTHER_STRING \<Rightarrow> Some (s\<lparr>DISPLAY_TIMEOUT := - 1\<rparr>));
       let s = s\<lparr>tx_NoToSend := 4\<rparr>;
       (r, s) \<leftarrow> SendScreen s;
       Some (if r = CR then CR else ERROR, s) })"

definition send_source_change :: "u8 \<Rightarrow> screen \<Rightarrow> (u8 \<times> screen) option" where
  "send_source_change dir s = do {
     d \<leftarrow> c_read (dataA (TXMsg s)) 3;
     let d = (if dir = 43 then 0x01 else if dir = 45 then 0x02 else d);
     let s = s\<lparr>TXMsg := \<lparr>msg_id = 0x0A9, dataA = [0x03, 0x89, 0x00, d], dataB = [0xA2, 0xA2, 0xA2, 0xA2],
       msg_len = 8, msg_format = 0, msg_type = 0\<rparr>\<rparr>;
     let (ok, s) = CAN_SendMsg s;
     Some (CR, s) }"

definition Screen_init :: "screen \<Rightarrow> screen option" where
  "Screen_init s = do {
     let s = s\<lparr>CompleteLength := 0, ScreenTextStart := 0, last_key := 0, Source := 0, SourceTemp := 0, ScreenTimeoutCounter := 0,
       OffTimeout := 0, RecieveComplete := 0, RX_In_progress := 0, ButtomPressed := 0, source_change := 0, WaitingForScreen := 0\<rparr>;
     (r, s) \<leftarrow> send_source_change 43 (s\<lparr>RecieveComplete := 0\<rparr>);
     (r, s) \<leftarrow> send_source_change 45 (s\<lparr>RecieveComplete := 0\<rparr>);
     Some s }"

section \<open>Receiving\<close>

fun store_from :: "int \<Rightarrow> u8 list \<Rightarrow> u8 list \<Rightarrow> u8 list option" where
  "store_from i [] xs = Some xs"
| "store_from i (c # cs) xs = do { xs \<leftarrow> c_write xs i c; store_from (i + 1) cs xs }"

text \<open>A frame of screen data, when the previous screen has been taken.\<close>

definition screen_frame :: "screen \<Rightarrow> screen option" where
  "screen_frame s = do {
     a0 \<leftarrow> c_read (dataA (RXMsg s)) 0;
     let rec_121 = a0 AND 0x0F;
     let RxScreenPacketNo = rec_121 * 7;
     d \<leftarrow> (if length (dataA (RXMsg s)) = 4 \<and> length (dataB (RXMsg s)) = 4 then Some (drop 1 (dataA (RXMsg s)) @ dataB (RXMsg s)) else None);
     data \<leftarrow> store_from (uint RxScreenPacketNo + 1) d (ScreenTempData s);
     let s = s\<lparr>ScreenTempData := data\<rparr>;
     v \<leftarrow> c_read data (uint RxScreenPacketNo + 6);
     s \<leftarrow> (if (rec_121 = 3 \<or> rec_121 = 4) \<and> v = 0x81 then do {
         data \<leftarrow> c_write data (6 + uint RxScreenPacketNo) 0;
         Some (s\<lparr>RecieveComplete := 1, recieve_521_count := - 1, ScreenTempData := data\<rparr>) }
       else Some s);
     if rec_121 > 4 then PrintMessage (RXMsg s) s else Some s }"

definition Screen_Interrupt :: "screen \<Rightarrow> screen option" where
  "Screen_Interrupt s =
    (let ident = msg_id (RXMsg s) in
     if ident = 0x0A9 then do {
       hi \<leftarrow> c_read (dataA (RXMsg s)) 2;
       lo \<leftarrow> c_read (dataA (RXMsg s)) 3;
       Some (s\<lparr>ButtonTempFull := push_bit 8 (ucast hi) OR ucast lo, ButtomPressed := 1\<rparr>) }
     else if ident = 0x121 then
       (if RecieveComplete s = 0 then screen_frame s else PrintMessage (RXMsg s) s)
     else if ident = 0x3CF \<or> ident = 0x3DF then Some (s\<lparr>OffTimeout := 0xFF\<rparr>)
     else if ident = 0x4A9 then Some s
     else if ident = 0x521 then Some (s\<lparr>recieve_521_count := recieve_521_count s + 1\<rparr>)
     else if ident = 0x5B1 \<or> ident = 0x1B1 then Some s
     else if ident = 0x5C1 \<or> ident = 0x1C1 then Some s
     else say (ascii ''ID (0x%03x) not found.'' @ [13, 10]) [XInt ident] s)"

section \<open>The main loop\<close>

text \<open>
  \<^verbatim>\<open>strncmp(a, b, n) == 0\<close> on the memory from the pointers on: equal up to a common NUL or \<open>n\<close> characters.
\<close>

fun strncmp_eq :: "nat \<Rightarrow> u8 list \<Rightarrow> u8 list \<Rightarrow> bool option" where
  "strncmp_eq 0 as bs = Some True"
| "strncmp_eq (Suc n) (a # as) (b # bs) =
    (if a \<noteq> b then Some False else if a = 0 then Some True else strncmp_eq n as bs)"
| "strncmp_eq (Suc n) as bs = None"

text \<open>The search for the start of the text, and the copy of eight characters behind it into the local array.\<close>

fun find_start :: "u8 list \<Rightarrow> nat list \<Rightarrow> nat option option" where
  "find_start data [] = Some None"
| "find_start data (i # is) = do {
     v \<leftarrow> c_read data (int i);
     if v = 0x01 then Some (Some (i + 1)) else find_start data is }"

definition copy_char :: "u8 list \<Rightarrow> nat \<Rightarrow> nat \<Rightarrow> u8 list \<Rightarrow> u8 list option" where
  "copy_char data start t txt = do {
     c \<leftarrow> c_read data (int (start + t));
     txt \<leftarrow> c_write txt (int t) c;
     c_write txt (int t + 1) 0 }"

definition extract_text :: "u8 list \<Rightarrow> screen \<Rightarrow> (u8 list \<times> screen) option" where
  "extract_text txt s = do {
     r \<leftarrow> find_start (ScreenTempData s) [0..<36];
     case r of
       None \<Rightarrow> Some (txt, s)
     | Some start \<Rightarrow> do {
         txt \<leftarrow> for_each (copy_char (ScreenTempData s) start) [0..<8] txt;
         Some (txt, s\<lparr>ScreenTextStart := of_nat start\<rparr>) } }"

text \<open>
  \<^verbatim>\<open>screen_debug_print\<close>, with \<^verbatim>\<open>SendDebugHex\<close> and \<^verbatim>\<open>SendScreenAsciiData\<close> set and the other two
  switches clear. The conversion \<^verbatim>\<open>%08i\<close> is not one that \<open>xprintf\<close> knows: it stops there.
\<close>

definition debug_byte :: "string \<Rightarrow> nat \<Rightarrow> screen \<Rightarrow> screen option" where
  "debug_byte fmt i s = do { b \<leftarrow> c_read (ScreenTempData s) (int i); say (ascii fmt) [XInt (ucast b)] s }"

definition debug_char :: "nat \<Rightarrow> screen \<Rightarrow> screen option" where
  "debug_char i s = do {
     b \<leftarrow> c_read (ScreenTempData s) (int i);
     Some (put (if b \<le> 126 \<and> b \<ge> 32 then b else 46) s) }"

definition screen_debug_print :: "screen \<Rightarrow> screen option" where
  "screen_debug_print s = do {
     let start = unat (ScreenTextStart s);
     s \<leftarrow> say (ascii ''%08i'' @ [10]) [XInt (can_millis s)] s;
     s \<leftarrow> say (ascii ''0x'') [] s;
     s \<leftarrow> for_each (debug_byte '' %8x'') [0..<start + 1] s;
     s \<leftarrow> say ([10] @ ascii ''0d'') [] s;
     s \<leftarrow> for_each (debug_byte '' %8d'') [0..<start + 1] s;
     s \<leftarrow> say ([10] @ ascii ''0b'') [] s;
     s \<leftarrow> for_each (debug_byte '' %08b'') [0..<start + 1] s;
     s \<leftarrow> say [10] [] s;
     s \<leftarrow> for_each debug_char [start..<start + 23] s;
     say [10] [] s }"

definition show_text :: "string \<Rightarrow> screen_cmd \<Rightarrow> screen \<Rightarrow> screen option" where
  "show_text t cmd s = map_option snd (SendToScreen 0x121 (ascii t) 0 cmd s)"

text \<open>What the loop makes of a complete screen with the text \<open>txt\<close>.\<close>

definition screen_received :: "u8 list \<Rightarrow> screen \<Rightarrow> screen option" where
  "screen_received txt s = do {
     aux \<leftarrow> strncmp_eq 3 txt (ascii ''AUX     '' @ [0]);
     if aux then do {
       s \<leftarrow> (if FirstScreen s \<noteq> 0 then do {
           s \<leftarrow> show_text ''PHONE'' NEW_STRING s;
           Some ((tell ''TASKER:PLAY'' s)\<lparr>FirstScreen := 0\<rparr>) }
         else show_text '''' RETURN_STRING s);
       let s = (if SourceTemp s = REMOTE_PAUSE \<or> SourceTemp s = REMOTE_TRAFFIC then tell ''TASKER:UNPAUSE'' s else s);
       Some (s\<lparr>Source := REMOTE_AUX, SourceTemp := REMOTE_AUX\<rparr>) }
     else do {
       pause \<leftarrow> strncmp_eq 3 txt (ascii '' PAUSE  '' @ [0]);
       if pause then Some (tell ''TASKER:PAUSE'' (s\<lparr>SourceTemp := REMOTE_PAUSE\<rparr>))
       else do {
         vol \<leftarrow> strncmp_eq 4 txt (ascii '' VOL '' @ [0]);
         if vol then Some (s\<lparr>SourceTemp := REMOTE_VOLUME\<rparr>)
         else do {
           traffic \<leftarrow> strncmp_eq 5 txt (ascii ''TRAFFIC'' @ [0]);
           if traffic then Some (tell ''TASKER:PAUSE'' (s\<lparr>SourceTemp := REMOTE_TRAFFIC\<rparr>))
           else if SourceTemp s \<noteq> REMOTE_TRAFFIC then Some ((tell ''TASKER:STOP'' s)\<lparr>Source := REMOTE_RADIO\<rparr>)
           else Some s } } } }"

definition button_pressed :: "screen \<Rightarrow> screen option" where
  "button_pressed s = do {
     s \<leftarrow> say (ascii ''Button(%04x) - '') [XInt (ButtonTempFull s)] s;
     let b = ButtonTempFull s;
     if b = 0x0001 then Some (tell ''Source Next'' s)
     else if b = 0x0002 then Some (tell ''Source Prev'' s)
     else if b = 0x0003 then Some (tell ''Volume Up'' s)
     else if b = 0x0004 then Some (tell ''Volume Down'' s)
     else if b = 0x0005 then Some (tell ''Pause'' s)
     else if b = 0x0000 \<or> b = 0x000A then
       (let s = tell ''Enter'' s in
        if Source s = REMOTE_AUX then show_text ''=/>'' TEMP_STRING (tell ''TASKER:PAUSE'' s) else Some s)
     else if b = 0x0101 then
       (let s = tell ''Track Next'' s in
        if Source s = REMOTE_AUX \<and> (SourceTemp s \<noteq> REMOTE_PAUSE \<or> SourceTemp s \<noteq> REMOTE_TRAFFIC)
        then show_text ''Track +'' TEMP_STRING (tell ''TASKER:NEXT'' s) else Some s)
     else if b = 0x0141 then
       (let s = tell ''Track Prev'' s in
        if Source s = REMOTE_AUX \<and> (SourceTemp s \<noteq> REMOTE_PAUSE \<or> SourceTemp s \<noteq> REMOTE_TRAFFIC)
        then show_text ''Track -'' TEMP_STRING (tell ''TASKER:PREV'' s) else Some s)
     else say (ascii ''Unknown (0x%x) t0A980389****A2A2A2A2'' @ [13, 10]) [XInt b] s }"

text \<open>\<open>junk\<close> is what the uninitialised local array \<^verbatim>\<open>ScreenText[10]\<close> holds.\<close>

definition Screen_loop :: "u8 list \<Rightarrow> screen \<Rightarrow> screen option" where
  "Screen_loop junk s = do {
     s \<leftarrow> (if DISPLAY_TIMEOUT s = 0 \<and> ButtomPressed s = 0 \<and> RecieveComplete s = 0 then show_text '''' RETURN_STRING s else Some s);
     s \<leftarrow> (if RecieveComplete s \<noteq> 0 then do {
         (txt, s) \<leftarrow> extract_text junk s;
         s \<leftarrow> screen_received txt s;
         s \<leftarrow> (if screen_debug_show s \<noteq> 0 then screen_debug_print s else Some s);
         Some (s\<lparr>RecieveComplete := 0\<rparr>) }
       else Some s);
     if ButtomPressed s \<noteq> 0 then do { s \<leftarrow> button_pressed s; Some (s\<lparr>ButtomPressed := 0\<rparr>) } else Some s }"

section \<open>The keyboard\<close>

definition next_key :: "u8 \<Rightarrow> u8 \<Rightarrow> u8" where
  "next_key dir k =
    (let k = (if k = 0 then 0x31 else k);
       k = (if dir = 43 then k + 1 else if dir = 45 then k - 1 else k);
       k = (if k = 0x31 - 1 then 0x5A else k)
     in if k = 0x5A + 1 then 0x31 else k)"

definition key_names :: "string list" where
  "key_names = [''TEST'', ''CAP LOCK'', ''-'', ''+'', ''PLAY/PAU'', ''Vol +'', ''Vol -'', ''UP'', ''DOWN'', ''LEFT'', ''RIGHT'',
     ''ALT+F4'', ''CT+ALT+D'', ''BACKSPAC'', ''SPACE'', ''CR'']"

definition key_text :: "u8 \<Rightarrow> u8 list" where
  "key_text k =
    (if 0x31 \<le> k \<and> k \<le> 0x40 then ascii (key_names ! (unat k - 0x31))
     else if 0x41 \<le> k \<and> k \<le> 0x5A then [k, 32] @ ascii ''UPPER''
     else if 0x61 \<le> k \<and> k \<le> 0x7A then [k - 20, 32] @ ascii ''LOWER''
     else [])"

definition keyboard_key :: "u8 \<Rightarrow> screen \<Rightarrow> screen option" where
  "keyboard_key dir s = do {
     let s = s\<lparr>current_key_keyboard := next_key dir (current_key_keyboard s)\<rparr>;
     let t = key_text (current_key_keyboard s);
     (r, s) \<leftarrow> SendToScreen 0x121 t 0 NEW_STRING s;
     say (ascii ''Keyboard %s'' @ [13, 10]) [XStr (t @ [0])] s }"

section \<open>Connection to the bus\<close>

text \<open>\<^verbatim>\<open>CAN_init\<close> without the configuration of pins and controller.\<close>

definition CAN_init :: "screen \<Rightarrow> screen option" where
  "CAN_init s = Screen_init (s\<lparr>ram_timestamp_status := 0\<rparr>)"

definition CAN_loop :: "u8 list \<Rightarrow> screen \<Rightarrow> screen option" where
  "CAN_loop junk s = Screen_loop junk s"

text \<open>The interrupt: \<open>sts\<close> is the status that the controller reports, \<open>m\<close> the message in its receive buffer.\<close>

definition CAN_IRQHandler :: "u32 \<Rightarrow> can_msg \<Rightarrow> screen \<Rightarrow> screen option" where
  "CAN_IRQHandler sts m s =
    (let InterruptStatus = (ucast sts :: u8) in
     if drop_bit 0 InterruptStatus AND 0x01 \<noteq> 0
     then Screen_Interrupt (s\<lparr>RXMsg := m, CAN_flags := CAN_flags s OR 2\<rparr>)
     else Some s)"

section \<open>What is sent\<close>

lemma WaitFor521_returns: "timeout \<noteq> 0 \<Longrightarrow> \<exists>r n. WaitFor521 timeout s = Some (r, s\<lparr>recieve_521_count := n\<rparr>)"
  by (cases "wait_521_loop (poll_521 s (length (can_log s))) 0 timeout") (auto simp: WaitFor521_def)

text \<open>Message \<open>n\<close> of a screen.\<close>

definition screen_msg :: "u32 \<Rightarrow> u8 list \<Rightarrow> nat \<Rightarrow> can_msg" where
  "screen_msg ident txt n = \<lparr>msg_id = ident, dataA = map (\<lambda>k. txt ! (8 * n + k)) [0, 1, 2, 3],
     dataB = map (\<lambda>k. txt ! (8 * n + k)) [4, 5, 6, 7], msg_len = 8, msg_format = 0, msg_type = 0\<rparr>"

lemma send_packet_ok:
  assumes "n < 4" "length (ScreenText s) = 35"
  shows "\<exists>c. send_packet n s = Some (s\<lparr>tx_NoSent := of_nat n, TXMsg := screen_msg (tx_ID s) (ScreenText s) n,
    can_log := can_log s @ [(screen_msg (tx_ID s) (ScreenText s) n, can_accept s (length (can_log s)))], recieve_521_count := c\<rparr>)"
proof -
  let ?s1 = "s\<lparr>tx_NoSent := of_nat n, TXMsg := screen_msg (tx_ID s) (ScreenText s) n,
    can_log := can_log s @ [(screen_msg (tx_ID s) (ScreenText s) n, can_accept s (length (can_log s)))]\<rparr>"
  obtain r c where w: "WaitFor521 100 ?s1 = Some (r, ?s1\<lparr>recieve_521_count := c\<rparr>)"
    using WaitFor521_returns[of 100 ?s1] by auto
  from assms(1) consider "n = 0" | "n = 1" | "n = 2" | "n = 3"
    by fastforce
  then show ?thesis
    using w assms(2) by cases (auto simp: send_packet_def CAN_SendMsg_def Let_def screen_msg_def intro!: exI[of _ c])
qed

lemma SendScreen_ok:
  assumes "length (ScreenText s) = 35" "tx_NoToSend s = 4"
  shows "\<exists>s'. SendScreen s = Some (CR, s') \<and> ScreenText s' = ScreenText s \<and> PrevScreenText s' = PrevScreenText s \<and>
    SourceTemp s' = SourceTemp s \<and> DISPLAY_TIMEOUT s' = DISPLAY_TIMEOUT s \<and>
    ButtomPressed s' = ButtomPressed s \<and> RecieveComplete s' = RecieveComplete s \<and>
    map fst (can_log s') = map fst (can_log s) @ map (screen_msg (tx_ID s) (ScreenText s)) [0..<4]"
proof -
  let ?P = "\<lambda>k (s' :: screen). ScreenText s' = ScreenText s \<and> PrevScreenText s' = PrevScreenText s \<and> tx_ID s' = tx_ID s \<and>
    SourceTemp s' = SourceTemp s \<and> DISPLAY_TIMEOUT s' = DISPLAY_TIMEOUT s \<and>
    ButtomPressed s' = ButtomPressed s \<and> RecieveComplete s' = RecieveComplete s \<and>
    map fst (can_log s') = map fst (can_log s) @ map (screen_msg (tx_ID s) (ScreenText s)) [0..<k]"
  have "\<exists>s'. for_each send_packet [0..<4] s = Some s' \<and> ?P 4 s'"
  proof (rule for_each_upt[where P = ?P])
    fix k s'
    assume k: "k < 4" and P: "?P k s'"
    then obtain c where "send_packet k s' = Some (s'\<lparr>tx_NoSent := of_nat k, TXMsg := screen_msg (tx_ID s') (ScreenText s') k,
      can_log := can_log s' @ [(screen_msg (tx_ID s') (ScreenText s') k, can_accept s' (length (can_log s')))], recieve_521_count := c\<rparr>)"
      using send_packet_ok[OF k, of s'] assms(1) by auto
    with P show "\<exists>s''. send_packet k s' = Some s'' \<and> ?P (Suc k) s''"
      by simp
  qed simp
  then show ?thesis
    using assms(2) by (auto simp: SendScreen_def)
qed

text \<open>The screen with the text \<open>t\<close> of eight characters.\<close>

definition screen_with :: "u8 list \<Rightarrow> u8 list" where
  "screen_with t = [0x10, 0x19, 0x76, 0x60, 0x01] @ take 3 t @ [0x21] @ drop 3 t @ [0x10, 32] @ [0x22] @ [32, 32, 32, 32, 32, 32, 32] @
     [0x23] @ [32, 32, 32, 32] @ [0x00, 0x81, 0x81, 0xFF, 0xFF, 0x00]"

definition screen_wf :: "screen \<Rightarrow> bool" where
  "screen_wf s \<longleftrightarrow> (\<exists>t. length t = 8 \<and> ScreenText s = screen_with t) \<and> 8 \<le> length (PrevScreenText s)"

lemma list8: "length t = 8 \<Longrightarrow> \<exists>a b c d e f g h. t = [a, b, c, d, e, f, g, h]"
  by (auto simp: eval_nat_numeral length_Suc_conv)

lemma copy_text_screen: "length t = 8 \<Longrightarrow> length u = 8 \<Longrightarrow> copy_text 5 u (screen_with t) = Some (screen_with u)"
  using list8[of t] list8[of u] by (auto simp: screen_with_def)

lemma length_screen_with [simp]: "length t = 8 \<Longrightarrow> length (screen_with t) = 35"
  by (simp add: screen_with_def)

lemma length_screen8 [simp]: "length (screen8 t) = 8"
  by (simp add: screen8_def)

definition shown_text :: "u8 list \<Rightarrow> screen_cmd \<Rightarrow> screen \<Rightarrow> u8 list" where
  "shown_text t cmd s = (if cmd = RETURN_STRING then take 8 (PrevScreenText s) else screen8 t)"

lemma SendToScreen_ok:
  assumes "screen_wf s" "SourceTemp s \<noteq> REMOTE_PAUSE" "SourceTemp s \<noteq> REMOTE_TRAFFIC" "cmd \<noteq> OTHER_STRING"
  shows "\<exists>s'. SendToScreen ident t icons cmd s = Some (CR, s') \<and> screen_wf s' \<and> SourceTemp s' = SourceTemp s \<and>
    ButtomPressed s' = ButtomPressed s \<and> RecieveComplete s' = RecieveComplete s \<and>
    ScreenText s' = screen_with (shown_text t cmd s) \<and>
    take 8 (PrevScreenText s') = (if cmd = NEW_STRING then screen8 t else take 8 (PrevScreenText s)) \<and>
    DISPLAY_TIMEOUT s' = (if cmd = TEMP_STRING then 1000 else - 1) \<and>
    map fst (can_log s') = map fst (can_log s) @ map (screen_msg ident (screen_with (shown_text t cmd s))) [0..<4]"
proof -
  from assms(1) obtain u where u: "length u = 8" "ScreenText s = screen_with u" and prev: "8 \<le> length (PrevScreenText s)"
    by (auto simp: screen_wf_def)
  let ?v = "shown_text t cmd s"
  have v: "length ?v = 8"
    using prev by (simp add: shown_text_def)
  let ?s1 = "s\<lparr>tx_ID := ident, PrevScreenText := (if cmd = NEW_STRING then screen8 t @ drop 8 (PrevScreenText s) else PrevScreenText s),
    ScreenText := screen_with ?v, DISPLAY_TIMEOUT := (if cmd = TEMP_STRING then 1000 else - 1), tx_NoToSend := 4\<rparr>"
  have "SendToScreen ident t icons cmd s = Option.bind (SendScreen ?s1) (\<lambda>(r, s). Some (if r = CR then CR else ERROR, s))"
    using assms(2-4) copy_text_screen[OF u(1) v] u(2) by (cases cmd) (simp_all add: SendToScreen_def shown_text_def Let_def)
  moreover obtain s' where "SendScreen ?s1 = Some (CR, s')" "ScreenText s' = screen_with ?v" "PrevScreenText s' = PrevScreenText ?s1"
    "SourceTemp s' = SourceTemp s" "DISPLAY_TIMEOUT s' = DISPLAY_TIMEOUT ?s1"
    "ButtomPressed s' = ButtomPressed s" "RecieveComplete s' = RecieveComplete s"
    "map fst (can_log s') = map fst (can_log s) @ map (screen_msg ident (screen_with ?v)) [0..<4]"
    using SendScreen_ok[of ?s1] v by auto
  ultimately show ?thesis
    using v prev by (auto simp: screen_wf_def)
qed

section \<open>What is received\<close>

lemma find_start_skip: "(\<And>i. i \<in> set is \<Longrightarrow> i < length data \<and> data ! i \<noteq> 1) \<Longrightarrow> find_start data (is @ js) = find_start data js"
  by (induction "is") (auto simp: c_read_int)

lemma copy_chars:
  assumes "start + 8 \<le> length data" "9 \<le> length txt"
  shows "\<exists>txt'. for_each (copy_char data start) [0..<8] txt = Some txt' \<and> take 8 txt' = take 8 (drop start data) \<and> txt' ! 8 = 0"
proof -
  let ?P = "\<lambda>k t. length t = length txt \<and> take k t = take k (drop start data) \<and> (0 < k \<longrightarrow> t ! k = 0)"
  have "\<exists>t. for_each (copy_char data start) [0..<8] txt = Some t \<and> ?P 8 t"
  proof (rule for_each_upt[where P = ?P])
    fix k t
    assume k: "k < 8" and P: "?P k t"
    let ?t = "t[k := data ! (start + k), Suc k := 0]"
    have "copy_char data start k t = Some ?t"
      using k P assms by (simp add: copy_char_def c_read_int nat_add_distrib)
    moreover have "take (Suc k) ?t = take (Suc k) (drop start data)"
      using k P assms by (simp add: take_Suc_conv_app_nth)
    ultimately show "\<exists>t'. copy_char data start k t = Some t' \<and> ?P (Suc k) t'"
      using k P assms by auto
  qed (use assms in simp)
  then show ?thesis
    by auto
qed

lemma store_from_length: "store_from i cs xs = Some ys \<Longrightarrow> length ys = length xs"
  by (induction cs arbitrary: i xs) (auto split: Option.bind_splits dest: c_write_length)

text \<open>Storing a block, when it fits and when it does not.\<close>

lemma store_from_eq:
  "n + length cs \<le> length xs \<Longrightarrow> store_from (int n) cs xs = Some (take n xs @ cs @ drop (n + length cs) xs)"
proof (induction cs arbitrary: n xs)
  case (Cons c cs)
  have "store_from (int (Suc n)) cs (xs[n := c]) =
      Some (take (Suc n) (xs[n := c]) @ cs @ drop (Suc n + length cs) (xs[n := c]))"
    using Cons.prems by (intro Cons.IH) simp
  moreover have "take (Suc n) (xs[n := c]) = take n xs @ [c]"
    using Cons.prems by (simp add: take_Suc_conv_app_nth)
  ultimately show ?case
    using Cons.prems by (simp add: add.commute)
qed simp

lemma store_from_outside: "length xs < n + length cs \<Longrightarrow> cs \<noteq> [] \<Longrightarrow> store_from (int n) cs xs = None"
proof (induction cs arbitrary: n xs)
  case (Cons c cs)
  show ?case
  proof (cases "n < length xs")
    case True
    then have "cs \<noteq> []"
      using Cons.prems(1) by auto
    with True Cons.prems Cons.IH[of "xs[n := c]" "Suc n"] show ?thesis
      by (simp add: add.commute)
  qed (simp add: c_write_def)
qed simp

definition frame_no :: "can_msg \<Rightarrow> nat" where
  "frame_no m = unat (dataA m ! 0 AND 0x0F)"

lemma frame_no_less: "frame_no m < 16"
  using unat_and_mask[of "dataA m ! 0" 4] by (simp add: frame_no_def mask_eq_exp_minus_1)

lemma frame_offset: "uint ((dataA m ! 0 AND 0x0F) * 7) = int (7 * frame_no m)"
proof -
  have "unat ((dataA m ! 0 AND 0x0F) * 7) = 7 * frame_no m"
    using frame_no_less[of m] by (simp add: frame_no_def unat_word_ariths)
  then show ?thesis
    by (rule uint_eq_int_unat)
qed

lemma frame_no_eq: "n < 256 \<Longrightarrow> (dataA m ! 0 AND 0x0F = of_nat n) = (frame_no m = n)" "(4 < dataA m ! 0 AND 0x0F) = (4 < frame_no m)"
  by (auto simp: frame_no_def word_unat_eq_iff u8_of_nat word_less_nat_alt)

lemma nth_middle: "n \<le> length xs \<Longrightarrow> i < length d \<Longrightarrow> (take n xs @ d @ ys) ! (n + i) = d ! i"
  by (simp add: nth_append)

lemma screen_frame_eq:
  assumes "msg_wf (RXMsg s)" "length (ScreenTempData s) = 36" "frame_no (RXMsg s) = k" "k \<le> 4"
  shows "screen_frame s =
    (let d = drop 1 (dataA (RXMsg s)) @ dataB (RXMsg s); data = take (7 * k + 1) (ScreenTempData s) @ d @ drop (7 * k + 8) (ScreenTempData s) in
     if (k = 3 \<or> k = 4) \<and> d ! 5 = 0x81
     then Some (s\<lparr>RecieveComplete := 1, recieve_521_count := - 1, ScreenTempData := data[7 * k + 6 := 0]\<rparr>)
     else Some (s\<lparr>ScreenTempData := data\<rparr>))"
proof -
  let ?m = "RXMsg s"
  let ?d = "drop 1 (dataA ?m) @ dataB ?m"
  let ?data = "take (7 * k + 1) (ScreenTempData s) @ ?d @ drop (7 * k + 8) (ScreenTempData s)"
  have off: "uint ((dataA ?m ! 0 AND 0x0F) * 7) = int (7 * k)"
    using frame_offset[of ?m] assms(3) by simp
  have ld: "length ?d = 7"
    using assms(1) by (simp add: msg_wf_def)
  have st: "store_from (int (7 * k + 1)) ?d (ScreenTempData s) = Some ?data"
    using store_from_eq[of "7 * k + 1" ?d "ScreenTempData s"] assms(2,4) ld by (simp add: add.commute)
  have "length ?data = 36"
    using assms(2,4) ld by simp
  moreover have "?data ! (7 * k + 6) = ?d ! 5"
    using nth_middle[of "7 * k + 1" "ScreenTempData s" 5 ?d] assms(2,4) ld by (simp add: add.commute)
  ultimately have rd: "c_read ?data (int (7 * k) + 6) = Some (?d ! 5)"
    "c_write ?data (6 + int (7 * k)) 0 = Some (?data[7 * k + 6 := 0])"
    using assms(4) by (simp_all add: c_read_def c_write_def nat_add_distrib add.commute nat_mult_distrib)
  have a0: "c_read (dataA ?m) 0 = Some (dataA ?m ! 0)"
    using assms(1) by (simp add: msg_wf_def)
  have t: "(dataA ?m ! 0 AND 0x0F = 3) = (k = 3)" "(dataA ?m ! 0 AND 0x0F = 4) = (k = 4)" "\<not> 4 < dataA ?m ! 0 AND 0x0F"
    using frame_no_eq(1)[of 3 ?m] frame_no_eq(1)[of 4 ?m] frame_no_eq(2)[of ?m] assms(3,4) by simp_all
  have st': "store_from (int (7 * k) + 1) ?d (ScreenTempData s) = Some ?data"
    using st by (simp add: add.commute)
  show ?thesis
    unfolding screen_frame_def using assms(1)
    by (simp only: a0 Option.bind.simps(2) Let_def off t msg_wf_def simp_thms if_True if_False st' rd) simp
qed

text \<open>
  The sequence number of a frame of screen data is not checked before it is used: with the previous screen
  taken, the receive interrupt stays inside the 36 bytes of \<^verbatim>\<open>ScreenTempData\<close> exactly for the
  numbers 0 to 4, and every frame with a larger number, whatever its data, writes past the end of the
  array; the message about such numbers comes after the write.
\<close>

theorem screen_frame_bounds:
  assumes "msg_wf m" "msg_id m = 0x121" "length (ScreenTempData s) = 36" "RecieveComplete s = 0"
  shows "CAN_IRQHandler 1 m s = None \<longleftrightarrow> 5 \<le> frame_no m"
proof -
  let ?s = "s\<lparr>RXMsg := m, CAN_flags := CAN_flags s OR 2\<rparr>"
  have irq: "CAN_IRQHandler 1 m s = screen_frame ?s"
    using assms(2,4) by (simp add: CAN_IRQHandler_def Screen_Interrupt_def)
  show ?thesis
  proof (cases "frame_no m \<le> 4")
    case True
    then show ?thesis
      using screen_frame_eq[of ?s "frame_no m"] assms(1,3) by (simp add: irq Let_def)
  next
    case False
    let ?d = "drop 1 (dataA m) @ dataB m"
    have d: "length ?d = 7" "?d \<noteq> []"
      using assms(1) by (auto simp: msg_wf_def)
    have "store_from (int (7 * frame_no m + 1)) ?d (ScreenTempData s) = None"
      using False assms(3) d by (intro store_from_outside) simp_all
    then have "store_from (uint ((dataA m ! 0 AND 0x0F) * 7) + 1) ?d (ScreenTempData s) = None"
      unfolding frame_offset by (simp add: add.commute)
    with False assms(1) show ?thesis
      by (simp add: irq screen_frame_def msg_wf_def)
  qed
qed

text \<open>The four messages of a screen, received one after the other.\<close>

lemma screen_msg_wf: "msg_wf (screen_msg i t n)"
  by (simp add: msg_wf_def screen_msg_def)

lemma screen_msg_id: "msg_id (screen_msg i t n) = i"
  by (simp add: screen_msg_def)

lemma irq_frame:
  assumes "msg_wf m" "msg_id m = 0x121" "frame_no m = k" "k \<le> 4" "RecieveComplete s = 0" "length (ScreenTempData s) = 36"
  shows "CAN_IRQHandler 1 m s =
    (let d = drop 1 (dataA m) @ dataB m; data = take (7 * k + 1) (ScreenTempData s) @ d @ drop (7 * k + 8) (ScreenTempData s);
       s = s\<lparr>RXMsg := m, CAN_flags := CAN_flags s OR 2\<rparr> in
     if (k = 3 \<or> k = 4) \<and> d ! 5 = 0x81
     then Some (s\<lparr>RecieveComplete := 1, recieve_521_count := - 1, ScreenTempData := data[7 * k + 6 := 0]\<rparr>)
     else Some (s\<lparr>ScreenTempData := data\<rparr>))"
  using assms screen_frame_eq[of "s\<lparr>RXMsg := m, CAN_flags := CAN_flags s OR 2\<rparr>" k]
  by (simp add: CAN_IRQHandler_def Screen_Interrupt_def Let_def)

lemma receive_screen:
  assumes "length t = 8" "length (ScreenTempData r) = 36" "RecieveComplete r = 0"
  shows "\<exists>r'. for_each (CAN_IRQHandler 1) (map (screen_msg 0x121 (screen_with t)) [0..<4]) r = Some r' \<and> RecieveComplete r' = 1 \<and>
    length (ScreenTempData r') = 36 \<and>
    take 13 (ScreenTempData r') = [ScreenTempData r ! 0, 0x19, 0x76, 0x60, 0x01] @ t"
proof -
  obtain a b c d e f g h where t: "t = [a, b, c, d, e, f, g, h]"
    using list8[OF assms(1)] by blast
  let ?m = "\<lambda>n. screen_msg 0x121 (screen_with t) n"
  have m: "dataA (?m 0) = [0x10, 0x19, 0x76, 0x60]" "dataB (?m 0) = [0x01, a, b, c]"
    "dataA (?m (Suc 0)) = [0x21, d, e, f]" "dataB (?m (Suc 0)) = [g, h, 0x10, 32]"
    "dataA (?m 2) = [0x22, 32, 32, 32]" "dataB (?m 2) = [32, 32, 32, 32]"
    "dataA (?m 3) = [0x23, 32, 32, 32]" "dataB (?m 3) = [32, 0x00, 0x81, 0x81]"
    by (simp_all add: screen_msg_def screen_with_def t)
  have no: "frame_no (?m 0) = 0" "frame_no (?m (Suc 0)) = 1" "frame_no (?m 2) = 2" "frame_no (?m 3) = 3"
    unfolding frame_no_def m by simp_all
  have "[0..<4] = [0, 1, 2, 3 :: nat]"
    by (simp add: upt_rec)
  moreover obtain x xs where data: "ScreenTempData r = x # xs"
    using assms(2) by (cases "ScreenTempData r") auto
  ultimately show ?thesis
    using assms(2,3)
    by (simp add: irq_frame[OF screen_msg_wf _ no(1)] irq_frame[OF screen_msg_wf _ no(2)] irq_frame[OF screen_msg_wf _ no(3)]
        irq_frame[OF screen_msg_wf _ no(4)] screen_msg_id m t[symmetric] Let_def)
qed

lemma extract_received:
  assumes "length (ScreenTempData r) = 36" "take 13 (ScreenTempData r) = [x, 0x19, 0x76, 0x60, 0x01] @ t" "x \<noteq> 1" "length t = 8"
    "length junk = 10"
  shows "\<exists>txt r'. extract_text junk r = Some (txt, r') \<and> take 8 txt = t \<and> txt ! 8 = 0"
proof -
  let ?data = "ScreenTempData r"
  have at: "?data ! i = (take 13 ?data) ! i" if "i < 13" for i
    using that assms(1) by simp
  have "?data ! 0 \<noteq> 1" "?data ! 1 \<noteq> 1" "?data ! 2 \<noteq> 1" "?data ! 3 \<noteq> 1" "?data ! 4 = 1"
    using assms(3) by (simp_all add: at assms(2))
  moreover have "[0..<36] = [0, 1, 2, 3] @ 4 # [5..<36 :: nat]"
    by (simp add: upt_rec)
  ultimately have start: "find_start ?data [0..<36] = Some (Some 5)"
    using find_start_skip[of "[0, 1, 2, 3]" ?data "4 # [5..<36]"] assms(1) by (auto simp: c_read_def)
  have "take 8 (drop 5 ?data) = drop 5 (take 13 ?data)"
    by (simp add: take_drop)
  then have "take 8 (drop 5 ?data) = t"
    by (simp add: assms(2))
  with copy_chars[of 5 ?data junk] assms(1,5) start show ?thesis
    by (auto simp: extract_text_def)
qed

text \<open>
  C16: A text that is sent to the display is what the receiving side makes of the messages: unless
  the stereo is paused or announcing traffic, \<^verbatim>\<open>SendToScreen\<close> puts four messages on the bus, and a
  receiver that gets them through its interrupt has a complete screen from which the main
  loop extracts exactly the text, cut or padded with blanks to eight characters.
\<close>

theorem screen_text_roundtrip:
  assumes "screen_wf s" "SourceTemp s \<noteq> 0xA6" "SourceTemp s \<noteq> 0xA4"
    "length (ScreenTempData r) = 36" "ScreenTempData r ! 0 \<noteq> 1" "RecieveComplete r = 0" "length junk = 10"
  shows "\<exists>s' ms r1 txt r2. SendToScreen 0x121 t icons NEW_STRING s = Some (CR, s') \<and> screen_wf s' \<and>
    map fst (can_log s') = map fst (can_log s) @ ms \<and> length ms = 4 \<and>
    for_each (CAN_IRQHandler 1) ms r = Some r1 \<and> RecieveComplete r1 = 1 \<and>
    extract_text junk r1 = Some (txt, r2) \<and> take 8 txt = screen8 t \<and> txt ! 8 = 0"
proof -
  let ?ms = "map (screen_msg 0x121 (screen_with (screen8 t))) [0..<4]"
  from SendToScreen_ok[OF assms(1-3), of NEW_STRING "0x121" t icons] obtain s' where
    "SendToScreen 0x121 t icons NEW_STRING s = Some (CR, s')" "screen_wf s'" "map fst (can_log s') = map fst (can_log s) @ ?ms"
    by (auto simp: shown_text_def)
  moreover from receive_screen[OF length_screen8 assms(4,6), of t] obtain r1 where
    r1: "for_each (CAN_IRQHandler 1) ?ms r = Some r1" "RecieveComplete r1 = 1" "length (ScreenTempData r1) = 36"
    "take 13 (ScreenTempData r1) = [ScreenTempData r ! 0, 0x19, 0x76, 0x60, 0x01] @ screen8 t"
    by blast
  moreover from extract_received[OF r1(3,4) assms(5) length_screen8 assms(7)] obtain tx r2 where
    "extract_text junk r1 = Some (tx, r2)" "take 8 tx = screen8 t" "tx ! 8 = 0"
    by blast
  moreover have "length ?ms = 4"
    by simp
  ultimately show ?thesis
    by blast
qed

text \<open>The globals as the program starts with them.\<close>

definition screen_start :: screen where
  "screen_start = can.extend can_idle
     (screen.fields 0 0 0 0 0 (ascii ''PHONE'' @ replicate 5 0) 0 0 0 0 (replicate 36 0) 0 0 0 0 0 0 0 0 ScreenText_init 0 0 0 (- 1) (\<lambda>_ _. 1))"

lemma screen_start_wf: "screen_wf screen_start"
proof -
  have "ScreenText_init = screen_with (ascii ''IPOD    '')"
    by (simp add: ScreenText_init_def screen_with_def ascii_def)
  moreover have "length (ascii ''IPOD    '') = 8"
    by (simp add: ascii_def)
  ultimately have "\<exists>t. length t = 8 \<and> ScreenText_init = screen_with t"
    by blast
  then show ?thesis
    by (simp add: screen_wf_def screen_start_def can.defs screen.defs can_idle_def ascii_def)
qed

lemma screen_start_simps: "SourceTemp screen_start = 0" "ScreenTempData screen_start = replicate 36 0" "RecieveComplete screen_start = 0"
  by (simp_all add: screen_start_def can.defs screen.defs can_idle_def)

theorem screen_text_roundtrip_witness:
  "\<exists>s' r1 txt r2 ms. SendToScreen 0x121 (ascii ''TEST'') 0 NEW_STRING screen_start = Some (CR, s') \<and>
    for_each (CAN_IRQHandler 1) ms screen_start = Some r1 \<and> extract_text (replicate 10 0) r1 = Some (txt, r2) \<and>
    take 8 txt = ascii ''TEST    ''"
proof -
  have "screen8 (ascii ''TEST'') = ascii ''TEST    ''"
    by (simp add: screen8_def ascii_def numeral_nat)
  then show ?thesis
    using screen_text_roundtrip[OF screen_start_wf, of screen_start "replicate 10 0" "ascii ''TEST''" 0]
    by (auto simp: screen_start_simps)
qed

theorem screen_frame_bounds_witness:
  "CAN_IRQHandler 1 (empty_msg\<lparr>msg_id := 0x121, dataA := [0x25, 1, 2, 3]\<rparr>) screen_start = None"
  using screen_frame_bounds[of "empty_msg\<lparr>msg_id := 0x121, dataA := [0x25, 1, 2, 3]\<rparr>" screen_start]
  by (simp add: msg_wf_def empty_msg_def screen_start_simps frame_no_def)

text \<open>
  A temporary text leaves the display again. After a new text, any number of temporary ones and
  the return command, the four messages sent last show the new text; meanwhile a temporary text
  sets the display timeout and the return clears it. While the stereo is paused or announces
  traffic nothing is sent at all and the error tag is returned.
\<close>

theorem temporary_text_returns:
  assumes "screen_wf s" "SourceTemp s \<noteq> 0xA6" "SourceTemp s \<noteq> 0xA4"
  shows "(\<exists>s1 s2 s3. SendToScreen ident t 0 NEW_STRING s = Some (CR, s1) \<and>
      for_each (\<lambda>u s. map_option snd (SendToScreen ident u 0 TEMP_STRING s)) us s1 = Some s2 \<and>
      (us \<noteq> [] \<longrightarrow> DISPLAY_TIMEOUT s2 = 1000) \<and>
      SendToScreen ident [] 0 RETURN_STRING s2 = Some (CR, s3) \<and> DISPLAY_TIMEOUT s3 = - 1 \<and>
      map fst (can_log s3) = map fst (can_log s2) @ map (screen_msg ident (screen_with (screen8 t))) [0..<4]) \<and>
    (v = 0xA6 \<or> v = 0xA4 \<longrightarrow> SendToScreen ident t icons cmd (s\<lparr>SourceTemp := v\<rparr>) =
      Some (ERROR, s\<lparr>SourceTemp := v, DISPLAY_TIMEOUT := - 1\<rparr>))"
proof -
  let ?Q = "\<lambda>s. screen_wf s \<and> SourceTemp s \<noteq> 0xA6 \<and> SourceTemp s \<noteq> 0xA4 \<and> take 8 (PrevScreenText s) = screen8 t"
  from SendToScreen_ok[OF assms, of NEW_STRING ident t 0] assms(2,3) obtain s1 where
    s1: "SendToScreen ident t 0 NEW_STRING s = Some (CR, s1)" "?Q s1"
    by auto
  have "\<exists>s'. for_each (\<lambda>u s. map_option snd (SendToScreen ident u 0 TEMP_STRING s)) us s0 = Some s' \<and> ?Q s' \<and>
      (us \<noteq> [] \<longrightarrow> DISPLAY_TIMEOUT s' = 1000)" if "?Q s0" for s0
    using that
  proof (induction us arbitrary: s0)
    case (Cons u us)
    from SendToScreen_ok[of s0 TEMP_STRING ident u 0] Cons.prems obtain s' where
      s': "SendToScreen ident u 0 TEMP_STRING s0 = Some (CR, s')" "?Q s'" "DISPLAY_TIMEOUT s' = 1000"
      by auto
    with Cons.IH[OF s'(2)] show ?case
      by (cases "us = []") auto
  qed simp
  from this[OF s1(2)] obtain s2 where
    s2: "for_each (\<lambda>u s. map_option snd (SendToScreen ident u 0 TEMP_STRING s)) us s1 = Some s2" "?Q s2"
    "us \<noteq> [] \<longrightarrow> DISPLAY_TIMEOUT s2 = 1000"
    by blast
  from SendToScreen_ok[of s2 RETURN_STRING ident "[]" 0] s2(2) obtain s3 where
    "SendToScreen ident [] 0 RETURN_STRING s2 = Some (CR, s3)" "DISPLAY_TIMEOUT s3 = - 1"
    "map fst (can_log s3) = map fst (can_log s2) @ map (screen_msg ident (screen_with (screen8 t))) [0..<4]"
    by (auto simp: shown_text_def)
  moreover have "v = 0xA6 \<or> v = 0xA4 \<longrightarrow> SendToScreen ident t icons cmd (s\<lparr>SourceTemp := v\<rparr>) =
      Some (ERROR, s\<lparr>SourceTemp := v, DISPLAY_TIMEOUT := - 1\<rparr>)"
    by (auto simp: SendToScreen_def)
  ultimately show ?thesis
    using s1(1) s2(1,3) by blast
qed

theorem temporary_text_returns_witness:
  "\<exists>s1 s2 s3. SendToScreen 0x121 (ascii ''PHONE'') 0 NEW_STRING screen_start = Some (CR, s1) \<and>
    SendToScreen 0x121 [] 0 RETURN_STRING s2 = Some (CR, s3) \<and> DISPLAY_TIMEOUT s2 = 1000 \<and> DISPLAY_TIMEOUT s3 = - 1"
  using temporary_text_returns[OF screen_start_wf, of "0x121" "ascii ''PHONE''" "[ascii ''Track +'']" "0xA6" 0 NEW_STRING]
  by (auto simp: screen_start_simps)

end
