(* ===== verification/Shell.thy ===== *)
theory Shell
  imports Screen Led Uart_Comm
begin

text \<open>
  The command interpreter of the console, \<^verbatim>\<open>exec_cmd\<close> of \<^verbatim>\<open>comm.c\<close>, on top of the console, the LED driver, the
  I2C devices, the CAN commands and the display. A prompt waits for \<^verbatim>\<open>LINE_READY\<close>: the lines that
  will be typed are an input (\<open>typed\<close>), and waiting for a line that never comes is no value.
  Messages for the user are left out; what the commands do to watchdog, reset and wireless module is a trace.
  \<^verbatim>\<open>ERROR\<close> is the tag 'e' of \<^verbatim>\<open>canlib.h\<close> in this file, also where the result of an I2C call is compared with it.
\<close>

section \<open>State\<close>

datatype shell_event =
    Wait_ms nat | Set_VTOR u32 | Write_GPREG nat u32 | Wdt_Init_PCLK | Wdt_Init_IRC | Wdt_Start | Wdt_Irq
  | Found_W u8 | Found_R u8 | Pot_Reads u8 | Wifi_Scan

record board =
  console_io :: comm
  display :: screen
  leds :: led
  typed :: "u8 list list"
  acts :: "shell_event list"

datatype shell_result = Returns board | Locked board

definition act :: "shell_event list \<Rightarrow> board \<Rightarrow> board" where
  "act es b = b\<lparr>acts := acts b @ es\<rparr>"

section \<open>Library functions\<close>

definition to_lower :: "u8 \<Rightarrow> u8" where
  "to_lower c = (if 65 \<le> c \<and> c \<le> 90 then c + 32 else c)"

text \<open>\<^verbatim>\<open>stricmp(cmd, lit) == 0\<close>\<close>

definition stricmp_eq :: "u8 list \<Rightarrow> string \<Rightarrow> bool" where
  "stricmp_eq cmd lit \<longleftrightarrow> map to_lower (c_string cmd) = map to_lower (ascii lit)"

fun atoi_digits :: "u8 list \<Rightarrow> int \<Rightarrow> int" where
  "atoi_digits [] acc = acc"
| "atoi_digits (c # cs) acc = (if 48 \<le> c \<and> c \<le> 57 then atoi_digits cs (acc * 10 + (uint c - 48)) else acc)"

fun skip_ws :: "u8 list \<Rightarrow> u8 list" where
  "skip_ws [] = []"
| "skip_ws (c # cs) = (if c = 32 \<or> 9 \<le> c \<and> c \<le> 13 then skip_ws cs else c # cs)"

definition c_atoi :: "u8 list \<Rightarrow> int" where
  "c_atoi cs = (case skip_ws cs of
     [] \<Rightarrow> 0
   | c # cs \<Rightarrow> if c = 45 then - atoi_digits cs 0 else if c = 43 then atoi_digits cs 0 else atoi_digits (c # cs) 0)"

section \<open>Commands\<close>

text \<open>The prompt loops: the first line whose number, stored in a \<^verbatim>\<open>uint8_t\<close>, passes the check.\<close>

fun prompt :: "(u8 \<Rightarrow> bool) \<Rightarrow> u8 list list \<Rightarrow> (u8 \<times> u8 list list) option" where
  "prompt ok [] = None"
| "prompt ok (l # ls) = (let v = word_of_int (c_atoi l) in if ok v then Some (v, ls) else prompt ok ls)"

definition cmd_bootloader :: "board \<Rightarrow> board" where
  "cmd_bootloader b = act ([Wait_ms 1000, Wait_ms 1000, Wait_ms 1000, Wait_ms 1000, Wait_ms 1000] @
     [Set_VTOR (0 AND 0x1FFFFF80), Write_GPREG 2 0xbbbbbbbb, Wdt_Init_PCLK, Wdt_Start, Wdt_Irq]) b"

definition cmd_reset :: "board \<Rightarrow> board" where
  "cmd_reset b = act ([Wait_ms 1000, Wait_ms 1000, Wait_ms 1000, Wait_ms 1000, Wait_ms 1000] @ [Wdt_Init_IRC, Wdt_Start]) b"

definition cmd_debug :: "board \<Rightarrow> board" where
  "cmd_debug b = b\<lparr>display := (display b)\<lparr>screen_debug_show := (if screen_debug_show (display b) \<noteq> 0 then 0 else 1)\<rparr>\<rparr>"

text \<open>Probing the bus at 129 addresses, first with a write of one byte and then with a read of one byte.\<close>

definition probe :: "i2c_bus \<Rightarrow> nat \<Rightarrow> shell_event list" where
  "probe bus addr =
    (if fst (bus \<lparr>sl_addr7bit = of_nat addr, tx_data = [1], rx_length = 0, retransmissions_max = 1\<rparr>) = 1
     then [Found_W (of_nat addr)] else []) @
    (if fst (bus \<lparr>sl_addr7bit = of_nat addr, tx_data = [], rx_length = 1, retransmissions_max = 1\<rparr>) = 1
     then [Found_R (of_nat addr)] else [])"

definition cmd_i2c :: "i2c_bus \<Rightarrow> board \<Rightarrow> board" where
  "cmd_i2c bus b = act (concat (map (probe bus) [0..<129])) b"

definition on_leds :: "(led \<Rightarrow> led option) \<Rightarrow> board \<Rightarrow> board option" where
  "on_leds f b = map_option (\<lambda>l. b\<lparr>leds := l\<rparr>) (f (leds b))"

definition cmd_led_pattern :: "i2c_bus \<Rightarrow> board \<Rightarrow> board option" where
  "cmd_led_pattern bus b = do {
     (l_pattern, ls) \<leftarrow> prompt (\<lambda>v. v \<le> 0x5) (typed b);
     on_leds (Set_LED_Pattern bus l_pattern 250 (GetBrightness (leds b))) (b\<lparr>typed := ls\<rparr>) }"

definition cmd_led_delay :: "i2c_bus \<Rightarrow> board \<Rightarrow> board option" where
  "cmd_led_delay bus b = do {
     (l_delay, ls) \<leftarrow> prompt (\<lambda>v. uint v \<le> 1024) (typed b);
     on_leds (Set_LED_Pattern bus 0 (ucast l_delay) (GetBrightness (leds b))) (b\<lparr>typed := ls\<rparr>) }"

text \<open>The potentiometer test from position \<open>pot\<close> on: it stops early only if \<^verbatim>\<open>setPot\<close> returns the tag.\<close>

fun pot_test :: "i2c_bus \<Rightarrow> u8 list \<Rightarrow> nat list \<Rightarrow> board \<Rightarrow> board option" where
  "pot_test bus rxbuf [] b = Some b"
| "pot_test bus rxbuf (pot # pots) b = do {
     let b = b\<lparr>leds := event [I2C_Request (setPot_request (of_nat pot))] (leds b)\<rparr>;
     if setPot bus (of_nat pot) = ERROR then Some b
     else do {
       v \<leftarrow> readPot bus rxbuf;
       pot_test bus rxbuf pots (act [Pot_Reads v, Wait_ms 150] b) } }"

definition cmd_pot_set :: "i2c_bus \<Rightarrow> board \<Rightarrow> board option" where
  "cmd_pot_set bus b = do {
     b \<leftarrow> on_leds (SetRGB 1 0x7f 0x7f 0x7f) b;
     b \<leftarrow> on_leds calulateLEDMIBAMBits b;
     (pot, ls) \<leftarrow> prompt (\<lambda>v. v \<le> 0x7f) (typed b);
     let b = b\<lparr>typed := ls\<rparr>;
     Some (b\<lparr>leds := snd (SetBrightness bus pot (leds b))\<rparr>) }"

definition on_can :: "u8 list \<Rightarrow> board \<Rightarrow> board option" where
  "on_can cmd b = map_option (\<lambda>(r, d). b\<lparr>display := d\<rparr>) (exec_usart_cmd cmd (display b))"

definition exec_cmd :: "i2c_bus \<Rightarrow> u8 list \<Rightarrow> u8 list \<Rightarrow> board \<Rightarrow> shell_result option" where
  "exec_cmd bus rxbuf cmd b = do {
     io \<leftarrow> comm_flush (console_io b);
     io \<leftarrow> usb_flush io;
     let b = b\<lparr>console_io := io\<rparr>;
     if stricmp_eq cmd ''a'' then map_option Returns (on_can (ascii ''t12381122334455667788'' @ [0]) b)
     else if stricmp_eq cmd ''bl'' then Some (Returns (cmd_bootloader b))
     else if stricmp_eq cmd ''dp'' then Some (Returns (cmd_debug b))
     else if stricmp_eq cmd ''bt'' then Some (Returns (b\<lparr>display := tell ''TASKER:PAUSE'' (display b)\<rparr>))
     else if stricmp_eq cmd ''ct'' then map_option Returns (on_can (ascii ''t0A9803890004A2A2A2A2'' @ [0]) b)
     else if stricmp_eq cmd ''i2c'' then Some (Returns (cmd_i2c bus b))
     else if stricmp_eq cmd ''lp'' then map_option Returns (cmd_led_pattern bus b)
     else if stricmp_eq cmd ''ls'' then map_option Returns (cmd_led_delay bus b)
     else if stricmp_eq cmd ''lt'' then Some (Returns (b\<lparr>leds := LED_simple_all_colors (leds b)\<rparr>))
     else if stricmp_eq cmd ''p'' then map_option Returns (pot_test bus rxbuf [0..<128] b)
     else if stricmp_eq cmd ''ps'' then map_option Returns (cmd_pot_set bus b)
     else if stricmp_eq cmd ''q'' then map_option (\<lambda>d. Returns (b\<lparr>display := d\<rparr>)) (Screen_init (display b))
     else if stricmp_eq cmd ''rs'' then Some (Locked (cmd_reset b))
     else if stricmp_eq cmd ''scan'' then Some (Returns (act [Wifi_Scan] b))
     else if stricmp_eq cmd ''s'' then
       map_option (\<lambda>d. Returns (b\<lparr>display := d\<rparr>)) (show_text ''TEST'' NEW_STRING (display b))
     else if stricmp_eq cmd '''' then Some (Returns b)
     else map_option Returns (on_can cmd b) }"

section \<open>Properties\<close>

definition console_ok :: "board \<Rightarrow> bool" where
  "console_ok b \<longleftrightarrow> rings_inv (console_io b) \<and> fifo_inv (rxfifo (usb (console_io b)))"

lemma flush_console:
  assumes "console_ok b"
  shows "\<exists>io. Option.bind (comm_flush (console_io b)) usb_flush = Some io \<and> rings_inv io \<and> fifo_inv (rxfifo (usb io))"
proof -
  from comm_flush_ok[of "console_io b"] assms obtain io where
    io: "comm_flush (console_io b) = Some io" "rings_inv io" "io = (console_io b)\<lparr>rx := rx io, ier_rbr := True\<rparr>"
    by (auto simp: console_ok_def)
  have "usb io = usb (console_io b)"
    by (subst io(3)) simp
  with usb_flush_loop_ok[of "usb io"] io assms show ?thesis
    by (auto simp: console_ok_def usb_flush_def rings_inv_def)
qed

lemma prompt_eq:
  assumes "\<forall>l \<in> set bad. \<not> ok (word_of_int (c_atoi l))" "ok (word_of_int (c_atoi l))"
  shows "prompt ok (bad @ l # ls) = Some (word_of_int (c_atoi l), ls)"
  using assms by (induction bad) (auto simp: Let_def)

lemma prompt_None: "\<forall>l \<in> set bad. \<not> ok (word_of_int (c_atoi l)) \<Longrightarrow> prompt ok bad = None"
  by (induction bad) (auto simp: Let_def)

definition board_ok :: "board \<Rightarrow> bool" where
  "board_ok b \<longleftrightarrow> console_ok b \<and> led_inv (leds b)"

text \<open>Every spelling of a command runs it; here for the pattern command.\<close>

lemma exec_lp:
  assumes "console_ok b" "stricmp_eq cmd ''lp''"
  shows "\<exists>io. rings_inv io \<and> fifo_inv (rxfifo (usb io)) \<and>
    exec_cmd bus rxbuf cmd b = map_option Returns (cmd_led_pattern bus (b\<lparr>console_io := io\<rparr>))"
proof -
  from flush_console[OF assms(1)] obtain io where
    io: "Option.bind (comm_flush (console_io b)) usb_flush = Some io" "rings_inv io" "fifo_inv (rxfifo (usb io))"
    by blast
  with assms(2) show ?thesis
    by (auto simp: exec_cmd_def stricmp_eq_def ascii_def to_lower_def split: Option.bind_splits)
qed

text \<open>
  The command \<^verbatim>\<open>lp\<close>, in any case, asks until a line with a number of at most 5 is typed, and then selects that
  pattern with a delay of 250 and the brightness as it is, with the LEDs dark and the timers
  running; lines before it are ignored, lines after it are left for the next prompt, and without such a line the
  command waits for ever. The patterns above 5 cannot be chosen, although the prompt offers them.
\<close>

theorem shell_sets_pattern:
  assumes "board_ok b" "stricmp_eq cmd ''lp''" "\<forall>l \<in> set bad. 5 < (word_of_int (c_atoi l) :: u8)"
  shows "(typed b = bad @ l # ls \<and> (word_of_int (c_atoi l) :: u8) \<le> 5 \<longrightarrow>
      (\<exists>b'. exec_cmd bus rxbuf cmd b = Some (Returns b') \<and> board_ok b' \<and> typed b' = ls \<and>
        Get_LED_Pattern (leds b') = (word_of_int (c_atoi l), 250, BRIGHTNESS (leds b)) \<and>
        frame (leds b') = replicate 60 (0, 0, 0) \<and> tim0_on (leds b') \<and> tim2_on (leds b'))) \<and>
    (typed b = bad \<longrightarrow> exec_cmd bus rxbuf cmd b = None)"
proof -
  from exec_lp[of b cmd bus rxbuf] assms(1,2) obtain io where
    io: "rings_inv io" "fifo_inv (rxfifo (usb io))"
    "exec_cmd bus rxbuf cmd b = map_option Returns (cmd_led_pattern bus (b\<lparr>console_io := io\<rparr>))"
    by (auto simp: board_ok_def)
  have bad: "\<forall>l \<in> set bad. \<not> (word_of_int (c_atoi l) :: u8) \<le> 5"
    using assms(3) by auto
  let ?p = "word_of_int (c_atoi l) :: u8"
  have "\<exists>l'. Set_LED_Pattern bus ?p 250 (GetBrightness (leds b)) (leds b) = Some l' \<and> led_inv l' \<and>
      Get_LED_Pattern l' = (?p, 250, BRIGHTNESS (leds b)) \<and> frame l' = replicate 60 (0, 0, 0) \<and> tim0_on l' \<and> tim2_on l'"
    unfolding GetBrightness_def using Set_LED_Pattern_ok[of "leds b" bus ?p 250 "BRIGHTNESS (leds b)" 0 0 0] assms(1)
    by (auto simp: board_ok_def)
  then show ?thesis
    using prompt_eq[OF bad, of l ls] prompt_None[OF bad] io
    by (auto simp: cmd_led_pattern_def on_leds_def board_ok_def console_ok_def)
qed

text \<open>
  The potentiometer test does not notice a failing bus: \<^verbatim>\<open>setPot\<close> returns the driver's status, 0 or 1, and is
  compared with the error tag of the CAN commands, so the test steps through all 128 positions
  even if every transfer fails.
\<close>

theorem pot_test_ignores_failure:
  assumes "\<forall>r. fst (bus r) = 0 \<or> fst (bus r) = 1" "rxbuf \<noteq> []"
  shows "\<exists>b' vs. pot_test bus rxbuf [0..<128] b = Some b' \<and> length vs = 128 \<and>
    acts b' = acts b @ concat (map (\<lambda>v. [Pot_Reads v, Wait_ms 150]) vs) \<and>
    hw (leds b') = hw (leds b) @ map (\<lambda>p. I2C_Request (setPot_request (of_nat p))) [0..<128]"
proof -
  have e: "setPot bus p \<noteq> ERROR" for p
    using assms(1)[rule_format, of "setPot_request p"] by (auto simp: setPot_def ERROR_def)
  obtain v where v: "readPot bus rxbuf = Some v"
  proof -
    have "length (received rxbuf bs) = length rxbuf" if "length bs \<le> 1" for bs
      using that assms(2) by (cases rxbuf) (auto simp: received_def)
    then have "0 < length (received rxbuf (take 1 bs))" for bs
      using assms(2) by simp
    then show ?thesis
      using that by (auto simp: readPot_def Let_def c_read_def)
  qed
  have "\<exists>b'. pot_test bus rxbuf ps b = Some b' \<and>
      acts b' = acts b @ concat (map (\<lambda>v. [Pot_Reads v, Wait_ms 150]) (replicate (length ps) v)) \<and>
      hw (leds b') = hw (leds b) @ map (\<lambda>p. I2C_Request (setPot_request (of_nat p))) ps" for ps b
  proof (induction ps arbitrary: b)
    case (Cons p ps)
    from Cons[of "act [Pot_Reads v, Wait_ms 150] (b\<lparr>leds := event [I2C_Request (setPot_request (of_nat p))] (leds b)\<rparr>)"]
    show ?case
      using e v by (auto simp: act_def event_def)
  qed simp
  from this[of "[0..<128]" b] show ?thesis
    by (metis diff_zero length_replicate length_upt)
qed

definition board_start :: board where
  "board_start = \<lparr>console_io = comm_start, display = screen_start, leds = led_start, typed = [], acts = []\<rparr>"

lemma board_start_ok: "board_ok (board_start\<lparr>typed := ls\<rparr>)"
  using comm_start_inv led_start_ok(1) by (simp add: board_start_def board_ok_def console_ok_def serial_inv_def)

theorem shell_sets_pattern_witness:
  "\<exists>b'. exec_cmd (\<lambda>_. (1, [])) [0] (ascii ''Lp'' @ [0]) (board_start\<lparr>typed := [ascii ''9'' @ [0], ascii ''3'' @ [0]]\<rparr>) =
      Some (Returns b') \<and> typed b' = [] \<and> Get_LED_Pattern (leds b') = (3, 250, 0)"
proof -
  have n: "c_atoi (ascii ''9'' @ [0]) = 9" "c_atoi (ascii ''3'' @ [0]) = 3"
    by (simp_all add: c_atoi_def ascii_def)
  have c: "stricmp_eq (ascii ''Lp'' @ [0]) ''lp''"
    by (simp add: stricmp_eq_def ascii_def to_lower_def c_string_def)
  have "BRIGHTNESS (leds (board_start\<lparr>typed := ls\<rparr>)) = 0" for ls
    by (simp add: board_start_def led_start_def)
  with shell_sets_pattern[OF board_start_ok[of "[ascii ''9'' @ [0], ascii ''3'' @ [0]]"] c,
      of "[ascii ''9'' @ [0]]" "ascii ''3'' @ [0]" "[]" "\<lambda>_. (1, [])" "[0]"]
  show ?thesis
    by (auto simp: n)
qed

theorem pot_test_ignores_failure_witness:
  "\<exists>b'. pot_test (\<lambda>_. (0, [])) [0] [0..<128] board_start = Some b' \<and> length (hw (leds b')) = 128"
  using pot_test_ignores_failure[of "\<lambda>_. (0, [])" "[0]" board_start]
  by (auto simp: board_start_def led_start_def)

end
