(* ===== verification/Sys_Timer.thy ===== *)
theory Sys_Timer
  imports Prelude
begin

text \<open>
  The millisecond timer of \<^verbatim>\<open>R2C2/sys_timer.c\<close>: the system tick interrupt with its software counters, and the busy wait
  \<^verbatim>\<open>delay_ms\<close>. The counters are 32-bit words and wrap around (\<^verbatim>\<open>long\<close> and \<^verbatim>\<open>int\<close> too, as the compiled code does);
  a division by \<^verbatim>\<open>UPDATES_PER_SEC = 0\<close> is no value. The interrupts that
  happen between two reads of the counter by the busy wait are an input.
\<close>

section \<open>State and interrupt\<close>

record sys_timer =
  USER_MILLIS :: u32
  SEC_MILLIS :: u32
  DISPLAY_TIMEOUT :: int
  SIXTIETH_SEC_COUNT :: u32
  UPDATES_PER_SEC :: u32
  LED_UPDATE_REQUIRED :: u32
  LED_UPDATE_REQUIRED_COUNT :: u32
  millis_ticks :: u32

definition sys_timer_start :: sys_timer where
  "sys_timer_start = \<lparr>USER_MILLIS = 0, SEC_MILLIS = 0, DISPLAY_TIMEOUT = - 1, SIXTIETH_SEC_COUNT = 0, UPDATES_PER_SEC = 60,
     LED_UPDATE_REQUIRED = 0, LED_UPDATE_REQUIRED_COUNT = 0, millis_ticks = 0\<rparr>"

definition timeout_tick :: "int \<Rightarrow> int" where
  "timeout_tick t = (if t > 0 then t - 1 else t)"

definition SysTick_Handler :: "sys_timer \<Rightarrow> sys_timer option" where
  "SysTick_Handler s = do {
     let s = s\<lparr>millis_ticks := millis_ticks s + 1, USER_MILLIS := USER_MILLIS s + 1\<rparr>;
     let s = s\<lparr>DISPLAY_TIMEOUT := timeout_tick (DISPLAY_TIMEOUT s)\<rparr>;
     let sec = SEC_MILLIS s;
     let s = s\<lparr>SEC_MILLIS := sec + 1\<rparr>;
     let s = (if sec > 1000 div 60 then s\<lparr>SEC_MILLIS := 0\<rparr> else s\<lparr>SIXTIETH_SEC_COUNT := SIXTIETH_SEC_COUNT s + 1\<rparr>);
     if UPDATES_PER_SEC s = 0 then None
     else do {
       let count = LED_UPDATE_REQUIRED_COUNT s;
       let s = s\<lparr>LED_UPDATE_REQUIRED_COUNT := count + 1\<rparr>;
       Some (if count > 1000 div UPDATES_PER_SEC s then s\<lparr>LED_UPDATE_REQUIRED := 1, LED_UPDATE_REQUIRED_COUNT := 0\<rparr> else s) } }"

fun sys_ticks :: "nat \<Rightarrow> sys_timer \<Rightarrow> sys_timer option" where
  "sys_ticks 0 s = Some s"
| "sys_ticks (Suc n) s = Option.bind (SysTick_Handler s) (sys_ticks n)"

definition sys_millis :: "sys_timer \<Rightarrow> u32" where
  "sys_millis s = millis_ticks s"

text \<open>\<open>polls\<close> lists the number of ticks before each read; a wait that does not end within it has no value.\<close>

fun delay_loop :: "u32 \<Rightarrow> u32 \<Rightarrow> nat list \<Rightarrow> sys_timer \<Rightarrow> (nat list \<times> sys_timer) option" where
  "delay_loop start ms [] s = None"
| "delay_loop start ms (n # polls) s = do {
     s \<leftarrow> sys_ticks n s;
     if sint (sys_millis s - start) \<le> sint ms then delay_loop start ms polls s else Some (polls, s) }"

definition delay_ms :: "u32 \<Rightarrow> nat list \<Rightarrow> sys_timer \<Rightarrow> (nat list \<times> sys_timer) option" where
  "delay_ms ms polls s = delay_loop (sys_millis s) ms polls s"

section \<open>Closed form of the interrupt\<close>

text \<open>A counter that is reset by the interrupt that finds it above a limit runs with period \<open>limit + 2\<close>.\<close>

definition period :: "u32 \<Rightarrow> nat" where
  "period limit = unat limit + 2"

lemma counter_step:
  fixes c limit :: u32
  assumes "unat c = n mod period limit" "unat limit < 2 ^ 31"
  shows "unat (if c > limit then 0 else c + 1) = Suc n mod period limit"
proof (cases "c > limit")
  case True
  have "n mod period limit < period limit"
    by (simp add: period_def)
  with True assms(1) have "Suc (n mod period limit) = period limit"
    unfolding word_less_nat_alt period_def by linarith
  with True show ?thesis
    by (simp add: mod_Suc)
next
  case False
  with assms have "unat c + 1 < period limit" "unat (c + 1) = unat c + 1"
    by (simp_all add: period_def word_less_nat_alt unat_word_ariths)
  with False assms(1) show ?thesis
    by (simp add: mod_Suc)
qed

lemma counter_wraps:
  fixes c limit :: u32
  assumes "unat c = n mod period limit"
  shows "c > limit \<longleftrightarrow> Suc n mod period limit = 0"
proof -
  have "n mod period limit < period limit"
    by (simp add: period_def)
  then have "unat c > unat limit \<longleftrightarrow> Suc (n mod period limit) = period limit"
    using assms unfolding period_def by linarith
  then show ?thesis
    by (simp add: word_less_nat_alt mod_Suc)
qed

lemma SysTick_Handler_eq:
  assumes "UPDATES_PER_SEC s \<noteq> 0"
  shows "SysTick_Handler s = Some (s\<lparr>
    USER_MILLIS := USER_MILLIS s + 1, DISPLAY_TIMEOUT := timeout_tick (DISPLAY_TIMEOUT s),
    SEC_MILLIS := (if SEC_MILLIS s > 16 then 0 else SEC_MILLIS s + 1),
    SIXTIETH_SEC_COUNT := (if SEC_MILLIS s > 16 then SIXTIETH_SEC_COUNT s else SIXTIETH_SEC_COUNT s + 1),
    LED_UPDATE_REQUIRED := (if LED_UPDATE_REQUIRED_COUNT s > 1000 div UPDATES_PER_SEC s then 1 else LED_UPDATE_REQUIRED s),
    LED_UPDATE_REQUIRED_COUNT :=
      (if LED_UPDATE_REQUIRED_COUNT s > 1000 div UPDATES_PER_SEC s then 0 else LED_UPDATE_REQUIRED_COUNT s + 1),
    millis_ticks := millis_ticks s + 1\<rparr>)"
  using assms by (simp add: SysTick_Handler_def Let_def)

lemma SysTick_Handler_sel:
  assumes "UPDATES_PER_SEC s \<noteq> 0"
  shows "\<exists>s'. SysTick_Handler s = Some s' \<and> UPDATES_PER_SEC s' = UPDATES_PER_SEC s \<and>
    LED_UPDATE_REQUIRED_COUNT s' =
      (if LED_UPDATE_REQUIRED_COUNT s > 1000 div UPDATES_PER_SEC s then 0 else LED_UPDATE_REQUIRED_COUNT s + 1) \<and>
    LED_UPDATE_REQUIRED s' = (if LED_UPDATE_REQUIRED_COUNT s > 1000 div UPDATES_PER_SEC s then 1 else LED_UPDATE_REQUIRED s) \<and>
    SEC_MILLIS s' = (if SEC_MILLIS s > 16 then 0 else SEC_MILLIS s + 1) \<and>
    SIXTIETH_SEC_COUNT s' = (if SEC_MILLIS s > 16 then SIXTIETH_SEC_COUNT s else SIXTIETH_SEC_COUNT s + 1)"
  by (simp add: SysTick_Handler_eq[OF assms])

lemma timeout_ticks: "0 \<le> t \<Longrightarrow> (timeout_tick ^^ n) t = max 0 (t - int n)"
  by (induction n) (auto simp: timeout_tick_def)

lemma timeout_ticks_off: "t < 0 \<Longrightarrow> (timeout_tick ^^ n) t = t"
  by (induction n) (auto simp: timeout_tick_def)

lemma sys_ticks_eq:
  assumes "UPDATES_PER_SEC s \<noteq> 0"
  shows "\<exists>s'. sys_ticks n s = Some s' \<and> millis_ticks s' = millis_ticks s + of_nat n \<and>
    DISPLAY_TIMEOUT s' = (timeout_tick ^^ n) (DISPLAY_TIMEOUT s) \<and> UPDATES_PER_SEC s' = UPDATES_PER_SEC s"
  using assms
proof (induction n arbitrary: s)
  case (Suc n)
  then show ?case
    using Suc.IH[of "the (SysTick_Handler s)"] by (auto simp: SysTick_Handler_eq funpow_swap1)
qed simp

lemma sys_ticks_add: "sys_ticks (m + n) s = Option.bind (sys_ticks m s) (sys_ticks n)"
  by (induction m arbitrary: s) (auto split: Option.bind_splits)

section \<open>Properties\<close>

lemma mod_Suc_div: "(Suc n) div k = n div k + (if Suc n mod k = 0 then 1 else 0)" for k :: nat
  by (simp add: div_Suc)

lemma skipped_Suc: "Suc n - Suc n div 18 = (if Suc n mod 18 = 0 then n - n div 18 else Suc (n - n div 18))"
proof -
  have "n div 18 \<le> n"
    by simp
  then show ?thesis
    by (auto simp: mod_Suc_div Suc_diff_le)
qed

lemma requested_Suc: "(if Suc n mod p = 0 then 1 else if n < p then 0 else 1 :: u32) = (if Suc n < p then 0 else 1)"
proof (cases "Suc n < p")
  case False
  then have "n < p \<Longrightarrow> Suc n mod p = 0"
    by (simp add: mod_Suc not_less_eq less_antisym)
  then show ?thesis
    using False by simp
qed simp

lemma led_limit: "unat ((1000 :: u32) div u) < 2 ^ 31"
proof -
  have "unat ((1000 :: u32) div u) = 1000 div unat u"
    by (simp add: unat_div)
  also have "\<dots> \<le> 1000"
    by (rule div_le_dividend)
  also have "(1000 :: nat) < 2 ^ 31"
    by simp
  finally show ?thesis .
qed

lemma tick_counters:
  assumes "UPDATES_PER_SEC s \<noteq> 0" "LED_UPDATE_REQUIRED_COUNT s = 0" "LED_UPDATE_REQUIRED s = 0" "SEC_MILLIS s = 0"
    and p: "p = period (1000 div UPDATES_PER_SEC s)"
  shows "\<exists>s'. sys_ticks n s = Some s' \<and> UPDATES_PER_SEC s' = UPDATES_PER_SEC s \<and>
    unat (LED_UPDATE_REQUIRED_COUNT s') = n mod p \<and> LED_UPDATE_REQUIRED s' = (if n < p then 0 else 1) \<and>
    unat (SEC_MILLIS s') = n mod 18 \<and> SIXTIETH_SEC_COUNT s' = SIXTIETH_SEC_COUNT s + of_nat (n - n div 18)"
proof (induction n)
  case 0
  then show ?case
    using assms by (simp add: period_def)
next
  case (Suc n)
  then obtain s1 where s1: "sys_ticks n s = Some s1" "UPDATES_PER_SEC s1 = UPDATES_PER_SEC s"
    "unat (LED_UPDATE_REQUIRED_COUNT s1) = n mod p" "LED_UPDATE_REQUIRED s1 = (if n < p then 0 else 1)"
    "unat (SEC_MILLIS s1) = n mod 18" "SIXTIETH_SEC_COUNT s1 = SIXTIETH_SEC_COUNT s + of_nat (n - n div 18)"
    by blast
  have e: "sys_ticks (Suc n) s = SysTick_Handler s1"
    using sys_ticks_add[of n 1 s] s1(1) by (simp add: o_def) (cases "SysTick_Handler s1"; simp)
  let ?limit = "1000 div UPDATES_PER_SEC s1"
  have u: "UPDATES_PER_SEC s1 \<noteq> 0" "unat (LED_UPDATE_REQUIRED_COUNT s1) = n mod period ?limit" "p = period ?limit"
    "unat (SEC_MILLIS s1) = n mod period 16" "period 16 = 18"
    using assms(1) s1(2,3,5) p by (auto simp: period_def)
  note led = counter_wraps[OF u(2), folded u(3)] and sec = counter_wraps[OF u(4), unfolded u(5)]
  have c1: "unat (if LED_UPDATE_REQUIRED_COUNT s1 > ?limit then 0 else LED_UPDATE_REQUIRED_COUNT s1 + 1) = Suc n mod p"
    using counter_step[OF u(2) led_limit] by (simp only: u(3))
  have c2: "unat (if SEC_MILLIS s1 > 16 then 0 else SEC_MILLIS s1 + 1) = Suc n mod 18"
    using counter_step[OF u(4)] by (simp only: u(5)) simp
  have c5: "(if Suc n mod 18 = 0 then SIXTIETH_SEC_COUNT s1 else SIXTIETH_SEC_COUNT s1 + 1) =
      SIXTIETH_SEC_COUNT s + of_nat (Suc n - Suc n div 18)"
    by (simp add: s1(6) skipped_Suc)
  from SysTick_Handler_sel[OF u(1)] obtain s' where s': "SysTick_Handler s1 = Some s'"
    "UPDATES_PER_SEC s' = UPDATES_PER_SEC s1"
    "LED_UPDATE_REQUIRED_COUNT s' = (if LED_UPDATE_REQUIRED_COUNT s1 > ?limit then 0 else LED_UPDATE_REQUIRED_COUNT s1 + 1)"
    "LED_UPDATE_REQUIRED s' = (if LED_UPDATE_REQUIRED_COUNT s1 > ?limit then 1 else LED_UPDATE_REQUIRED s1)"
    "SEC_MILLIS s' = (if SEC_MILLIS s1 > 16 then 0 else SEC_MILLIS s1 + 1)"
    "SIXTIETH_SEC_COUNT s' = (if SEC_MILLIS s1 > 16 then SIXTIETH_SEC_COUNT s1 else SIXTIETH_SEC_COUNT s1 + 1)"
    by blast
  have "unat (LED_UPDATE_REQUIRED_COUNT s') = Suc n mod p" "unat (SEC_MILLIS s') = Suc n mod 18"
    unfolding s'(3,5) by (rule c1, rule c2)
  moreover have "LED_UPDATE_REQUIRED s' = (if Suc n < p then 0 else 1)"
    unfolding s'(4) led s1(4) by (rule requested_Suc)
  moreover have "SIXTIETH_SEC_COUNT s' = SIXTIETH_SEC_COUNT s + of_nat (Suc n - Suc n div 18)"
    unfolding s'(6) sec by (rule c5)
  moreover have "UPDATES_PER_SEC s' = UPDATES_PER_SEC s"
    using s'(2) s1(2) by (rule trans)
  ultimately show ?case
    unfolding e s'(1) by blast
qed

lemma elapsed_sint:
  assumes "n < 2 ^ 31"
  shows "sint ((start + of_nat n) - start :: u32) = int n"
proof -
  have "sint (of_nat n :: u32) = int n"
    using assms by (simp add: signed_of_nat signed_take_bit_int_eq_self)
  then show ?thesis
    by simp
qed

lemma delay_loop_eq:
  assumes "UPDATES_PER_SEC s \<noteq> 0" "millis_ticks s = start + of_nat t" "t + sum_list polls + n < 2 ^ 31"
    and "int (t + sum_list polls) \<le> sint ms" "sint ms < int (t + sum_list polls + n)"
  shows "\<exists>s'. delay_loop start ms (polls @ n # rest) s = Some (rest, s') \<and> sys_ticks (sum_list polls + n) s = Some s'"
  using assms
proof (induction polls arbitrary: s t)
  case Nil
  from sys_ticks_eq[OF Nil(1), of n] obtain s' where s': "sys_ticks n s = Some s'" "millis_ticks s' = millis_ticks s + of_nat n"
    by blast
  with Nil elapsed_sint[of "t + n" start] show ?case
    by (simp add: sys_millis_def add.assoc)
next
  case (Cons m polls)
  from sys_ticks_eq[OF Cons(2), of m] obtain s1 where
    s1: "sys_ticks m s = Some s1" "millis_ticks s1 = start + of_nat (t + m)" "UPDATES_PER_SEC s1 = UPDATES_PER_SEC s"
    using Cons(3) by (auto simp: add.assoc)
  have "sint (millis_ticks s1 - start) = int (t + m)"
    using Cons(4) unfolding s1(2) by (intro elapsed_sint) simp
  with Cons.prems have "sint (sys_millis s1 - start) \<le> sint ms"
    by (simp add: sys_millis_def)
  with Cons.IH[of s1 "t + m"] s1 Cons.prems show ?case
    by (auto simp: add.assoc sys_ticks_add)
qed

text \<open>
  C38: \<^verbatim>\<open>delay_ms\<close> returns at the first poll at which more than \<open>ms\<close> ticks have passed, wherever
  the counter stands at the start (a wrap-around of it during the wait included), and not before.
\<close>

theorem delay_ms_waits:
  assumes "UPDATES_PER_SEC s \<noteq> 0" "sum_list polls + n < 2 ^ 31"
    and "int (sum_list polls) \<le> sint ms" "sint ms < int (sum_list polls + n)"
  shows "\<exists>s'. delay_ms ms (polls @ n # rest) s = Some (rest, s') \<and> sys_ticks (sum_list polls + n) s = Some s' \<and>
    millis_ticks s' = millis_ticks s + of_nat (sum_list polls + n)"
  using delay_loop_eq[of s "millis_ticks s" 0 polls n ms rest] sys_ticks_eq[OF assms(1), of "sum_list polls + n"] assms
  by (auto simp: delay_ms_def sys_millis_def)

theorem delay_ms_waits_witness:
  "\<exists>s'. delay_ms 5 [1, 2, 2, 1, 7] (sys_timer_start\<lparr>millis_ticks := 0xFFFFFFFE\<rparr>) = Some ([7], s') \<and> millis_ticks s' = 4"
  using delay_ms_waits[of "sys_timer_start\<lparr>millis_ticks := 0xFFFFFFFE\<rparr>" "[1, 2, 2]" 1 5 "[7]"]
  by (auto simp: sys_timer_start_def)

text \<open>
  The rates of the tick. From cleared counters, after \<open>n\<close> milliseconds the LED update is requested exactly if a
  period of \<open>1000 / UPDATES_PER_SEC + 2\<close> milliseconds has passed (18 for the configured 60 per second, so 55 per second),
  the display timeout has run down to zero at most and is left alone when it is off, and the
  counter of sixtieths of a second has advanced in all milliseconds but every eighteenth.
\<close>

theorem tick_rates:
  assumes "UPDATES_PER_SEC s \<noteq> 0" "LED_UPDATE_REQUIRED_COUNT s = 0" "LED_UPDATE_REQUIRED s = 0" "SEC_MILLIS s = 0"
  shows "\<exists>s'. sys_ticks n s = Some s' \<and> millis_ticks s' = millis_ticks s + of_nat n \<and>
    LED_UPDATE_REQUIRED s' = (if n < unat (1000 div UPDATES_PER_SEC s) + 2 then 0 else 1) \<and>
    DISPLAY_TIMEOUT s' = (if DISPLAY_TIMEOUT s < 0 then DISPLAY_TIMEOUT s else max 0 (DISPLAY_TIMEOUT s - int n)) \<and>
    SIXTIETH_SEC_COUNT s' = SIXTIETH_SEC_COUNT s + of_nat (n - n div 18)"
  using tick_counters[OF assms refl, of n] sys_ticks_eq[OF assms(1), of n]
  by (auto simp: period_def timeout_ticks timeout_ticks_off)

theorem tick_rates_witness:
  "\<exists>s'. sys_ticks 60 sys_timer_start = Some s' \<and> SIXTIETH_SEC_COUNT s' = 57 \<and> LED_UPDATE_REQUIRED s' = 1 \<and> DISPLAY_TIMEOUT s' = - 1"
  using tick_rates[of sys_timer_start 60] by (auto simp: sys_timer_start_def)

end
