(* ===== verification/Calendar.thy ===== *)
theory Calendar
  imports Prelude
begin

text \<open>
  The calendar arithmetic of the clock, from \<^verbatim>\<open>RTClib/rtc.cpp\<close>: days and seconds since the epoch, day of the
  week, time of day, the days on which summer time begins and ends in Europe, and the date and time of the compilation as text. The
  reference is the Gregorian calendar, written with sums over years and months. The lemmas
  show that the firmware agrees with it from 2000 to 2099 in spite of the 16-bit day count and
  the 32-bit \<^verbatim>\<open>long\<close>, which wraps around in 2068.
\<close>

section \<open>Dates\<close>

definition daysInMonth :: "u8 list" where
  "daysInMonth = [31, 28, 31, 30, 31, 30, 31, 31, 30, 31, 30, 31]"

definition since_2000 :: "u16 \<Rightarrow> u16" where
  "since_2000 y = (if y \<ge> 2000 then y - 2000 else y)"

definition days_in_year :: "u16 \<Rightarrow> u8 \<Rightarrow> u8 \<Rightarrow> u16 option" where
  "days_in_year y m d = do {
     days \<leftarrow> for_each (\<lambda>i days. do { n \<leftarrow> c_read daysInMonth (int i - 1); Some (days + ucast n) }) [1..<unat m] (ucast d);
     Some (if m > 2 \<and> y mod 4 = 0 then days + 1 else days) }"

definition days_from_2000 :: "u16 \<Rightarrow> u8 \<Rightarrow> u8 \<Rightarrow> u16 option" where
  "days_from_2000 y m d = do {
     let y = since_2000 y;
     days \<leftarrow> days_in_year y m d;
     Some (word_of_int (uint days + 365 * uint y + (uint y + 3) div 4 - 1)) }"

definition days_from_20xx :: "u16 \<Rightarrow> u8 \<Rightarrow> u8 \<Rightarrow> u16 option" where
  "days_from_20xx year month dayOfM = do {
     let year = since_2000 year;
     days \<leftarrow> days_in_year year month dayOfM;
     Some (word_of_int (uint days + (uint year + 3) div 4 - 1)) }"

definition time2long :: "u16 \<Rightarrow> u8 \<Rightarrow> u8 \<Rightarrow> u8 \<Rightarrow> u32" where
  "time2long days hour minute sec = ((ucast days * 24 + ucast hour) * 60 + ucast minute) * 60 + ucast sec"

definition dayOfWeekManual :: "u16 \<Rightarrow> u8 \<Rightarrow> u8 \<Rightarrow> u8 option" where
  "dayOfWeekManual year month dayOfM = do {
     day \<leftarrow> days_from_2000 year month dayOfM;
     Some (word_of_int ((uint day + 5) mod 7)) }"

definition RTC_time_FindUnixtime :: "u16 \<Rightarrow> u8 \<Rightarrow> u8 \<Rightarrow> u8 \<Rightarrow> u8 \<Rightarrow> u8 \<Rightarrow> u32 option" where
  "RTC_time_FindUnixtime year month dayOfM hour minute sec = do {
     days \<leftarrow> days_from_2000 year month dayOfM;
     Some (time2long days hour minute sec + 946684800) }"

definition unix_to_hh_mm_ss :: "u32 \<Rightarrow> u8 \<times> u8 \<times> u8" where
  "unix_to_hh_mm_ss unix_time =
    (let t = unix_time - 946684800; s = ucast (t mod 60); t = t div 60; m = ucast (t mod 60); t = t div 60
     in (ucast (t mod 24), m, s))"

section \<open>Summer time\<close>

definition begin_DST_dayOfMonth :: "u16 \<Rightarrow> u8" where
  "begin_DST_dayOfMonth x = word_of_int (31 - (5 * uint x div 4 + 4) mod 7)"

definition end_DST_dayOfMonth :: "u16 \<Rightarrow> u8" where
  "end_DST_dayOfMonth x = word_of_int (31 - (5 * uint x div 4 + 1) mod 7)"

definition begin_DST_unix :: "u16 \<Rightarrow> u32 option" where
  "begin_DST_unix x = RTC_time_FindUnixtime x 3 (begin_DST_dayOfMonth x) 1 0 0"

definition end_DST_unix :: "u16 \<Rightarrow> u32 option" where
  "end_DST_unix x = RTC_time_FindUnixtime x 10 (end_DST_dayOfMonth x) 1 0 0"

definition dst_correction_needed_t_y :: "u32 \<Rightarrow> u16 \<Rightarrow> u32 option" where
  "dst_correction_needed_t_y t year = do {
     b \<leftarrow> begin_DST_unix year;
     if b \<le> t then do { e \<leftarrow> end_DST_unix year; Some (if t \<le> e then 1 else 0) } else Some 0 }"

section \<open>Date and time of the compilation\<close>

definition conv2d :: "u8 list \<Rightarrow> nat \<Rightarrow> u8 option" where
  "conv2d p i = do {
     c \<leftarrow> c_read p (int i);
     let v = (if 48 \<le> c \<and> c \<le> 57 then c - 48 else 0);
     d \<leftarrow> c_read p (int i + 1);
     Some (10 * v + d - 48) }"

text \<open>The characters of \<^verbatim>\<open>__DATE__\<close> decide; for other letters the number is not assigned.\<close>

definition month_as_number :: "u8 list \<Rightarrow> u8 option" where
  "month_as_number date = do {
     c0 \<leftarrow> c_read date 0;
     c1 \<leftarrow> c_read date 1;
     c2 \<leftarrow> c_read date 2;
     if c0 = 74 then Some (if c1 = 97 then 1 else if c2 = 110 then 6 else 7)
     else if c0 = 70 then Some 2
     else if c0 = 65 then Some (if c2 = 114 then 4 else 8)
     else if c0 = 77 then Some (if c2 = 114 then 3 else 5)
     else if c0 = 83 then Some 9
     else if c0 = 79 then Some 10
     else if c0 = 78 then Some 11
     else if c0 = 68 then Some 12
     else None }"

text \<open>The arguments that \<^verbatim>\<open>RTC_set_default_time_to_compiled\<close> gives to \<^verbatim>\<open>RTC_time_SetTime\<close>.\<close>

definition compiled_time :: "u8 list \<Rightarrow> u8 list \<Rightarrow> (u16 \<times> u8 \<times> u8 \<times> u8 \<times> u8 \<times> u8) option" where
  "compiled_time date time = do {
     month \<leftarrow> month_as_number date;
     c \<leftarrow> conv2d date 7;
     y \<leftarrow> conv2d date 9;
     d \<leftarrow> conv2d date 4;
     h \<leftarrow> conv2d time 0;
     n \<leftarrow> conv2d time 3;
     s \<leftarrow> conv2d time 6;
     Some (ucast c * 100 + ucast y, month, d, h, n, s) }"

section \<open>The Gregorian calendar\<close>

definition leap :: "nat \<Rightarrow> bool" where
  "leap y \<longleftrightarrow> y mod 4 = 0 \<and> (y mod 100 \<noteq> 0 \<or> y mod 400 = 0)"

definition month_length :: "nat \<Rightarrow> nat \<Rightarrow> nat" where
  "month_length y m = (if m = 2 then if leap y then 29 else 28 else if m \<in> {4, 6, 9, 11} then 30 else 31)"

definition year_length :: "nat \<Rightarrow> nat" where
  "year_length y = (if leap y then 366 else 365)"

definition valid_date :: "nat \<Rightarrow> nat \<Rightarrow> nat \<Rightarrow> bool" where
  "valid_date y m d \<longleftrightarrow> 2000 \<le> y \<and> y < 2100 \<and> 1 \<le> m \<and> m \<le> 12 \<and> 1 \<le> d \<and> d \<le> month_length y m"

text \<open>Days since the first of January 2000, a Saturday.\<close>

definition day_number :: "nat \<Rightarrow> nat \<Rightarrow> nat \<Rightarrow> nat" where
  "day_number y m d = sum_list (map year_length [2000..<y]) + sum_list (map (month_length y) [1..<m]) + (d - 1)"

lemma leap_century:
  assumes "2000 \<le> y" "y < 2100"
  shows "leap y \<longleftrightarrow> y mod 4 = 0"
proof -
  obtain k where k: "y = 100 * 20 + k" "k < 100"
    using assms by (auto dest: le_Suc_ex)
  then have "y mod 100 = k"
    by (simp only: mod_mult_self4) simp
  moreover have "k = 0 \<Longrightarrow> y mod 400 = 0"
    using k(1) by simp
  ultimately show ?thesis
    unfolding leap_def by (cases "k = 0") simp_all
qed

lemma year_days: "k \<le> 100 \<Longrightarrow> sum_list (map year_length [2000..<2000 + k]) = 365 * k + (k + 3) div 4"
proof (induction k)
  case (Suc k)
  have "(4 * 500 + k) mod 4 = k mod 4"
    by (rule mod_mult_self4)
  then have "leap (2000 + k) \<longleftrightarrow> k mod 4 = 0"
    using leap_century[of "2000 + k"] Suc.prems by simp
  moreover have "(Suc k + 3) div 4 = (k + 3) div 4 + (if k mod 4 = 0 then 1 else 0)"
    by presburger
  moreover have "[2000..<2000 + Suc k] = [2000..<2000 + k] @ [2000 + k]"
    by (simp only: add_Suc_right upt_Suc) simp
  ultimately show ?case
    using Suc by (simp only: map_append sum_list_append) (simp add: year_length_def)
qed simp

lemma month_cases: "1 \<le> m \<Longrightarrow> m \<le> 12 \<Longrightarrow>
  m = 1 \<or> m = 2 \<or> m = 3 \<or> m = 4 \<or> m = 5 \<or> m = 6 \<or> m = 7 \<or> m = 8 \<or> m = 9 \<or> m = 10 \<or> m = 11 \<or> m = (12 :: nat)"
  by presburger

definition month_start :: "nat list" where
  "month_start = [0, 31, 59, 90, 120, 151, 181, 212, 243, 273, 304, 334]"

lemma month_days:
  assumes "1 \<le> m" "m \<le> 12"
  shows "sum_list (map (month_length y) [1..<m]) = month_start ! (m - 1) + (if 2 < m \<and> leap y then 1 else 0)"
  using month_cases[OF assms] by (elim disjE) (simp_all add: month_start_def month_length_def upt_rec)

lemma day_number_eq:
  assumes "valid_date y m d"
  shows "day_number y m d = 365 * (y - 2000) + (y - 2000 + 3) div 4 + month_start ! (m - 1) + (if 2 < m \<and> y mod 4 = 0 then 1 else 0) + (d - 1)"
proof -
  have "y - 2000 \<le> 100" "2000 + (y - 2000) = y"
    using assms by (auto simp: valid_date_def)
  then have "sum_list (map year_length [2000..<y]) = 365 * (y - 2000) + (y - 2000 + 3) div 4"
    using year_days[of "y - 2000"] by (simp only:)
  then show ?thesis
    using assms month_days[of m y] leap_century[of y] by (simp add: day_number_def valid_date_def)
qed

section \<open>The firmware agrees with it\<close>

lemma month_start_Suc:
  assumes "k < 11"
  shows "month_start ! Suc k = month_start ! k + unat (daysInMonth ! k)"
proof -
  have "k = 0 \<or> k = 1 \<or> k = 2 \<or> k = 3 \<or> k = 4 \<or> k = 5 \<or> k = 6 \<or> k = 7 \<or> k = 8 \<or> k = 9 \<or> k = 10"
    using assms by presburger
  then show ?thesis
    by (elim disjE) (simp_all add: month_start_def daysInMonth_def)
qed

lemma month_loop:
  "k < 12 \<Longrightarrow> for_each (\<lambda>i days. do { n \<leftarrow> c_read daysInMonth (int i - 1); Some (days + ucast n) }) [1..<Suc k] (w :: u16) =
    Some (w + of_nat (month_start ! k))"
proof (induction k)
  case 0
  then show ?case
    by (simp add: month_start_def)
next
  case (Suc k)
  have "c_read daysInMonth (int (Suc k) - 1) = Some (daysInMonth ! k)"
    using Suc.prems by (simp add: c_read_int daysInMonth_def)
  moreover have "[1..<Suc (Suc k)] = [1..<Suc k] @ [Suc k]"
    by simp
  moreover have "ucast (daysInMonth ! k) = (of_nat (unat (daysInMonth ! k)) :: u16)"
    by simp
  ultimately show ?case
    using Suc month_start_Suc[of k] by (simp add: for_each_append add.assoc del: upt_Suc)
qed

lemma days_in_year_eq:
  assumes "1 \<le> unat m" "unat m \<le> 12"
  shows "days_in_year y m d = Some (ucast d + of_nat (month_start ! (unat m - 1) + (if 2 < unat m \<and> unat y mod 4 = 0 then 1 else 0)))"
proof -
  have "y mod 4 = 0 \<longleftrightarrow> unat y mod 4 = 0" "m > 2 \<longleftrightarrow> 2 < unat m"
    by (simp_all add: word_unat_eq_iff unat_mod word_less_nat_alt)
  then show ?thesis
    using month_loop[of "unat m - 1" "ucast d"] assms by (simp add: days_in_year_def add.assoc)
qed

lemma since_2000_eq: "2000 \<le> unat y \<Longrightarrow> unat (since_2000 y) = unat y - 2000"
  by (simp add: since_2000_def word_le_nat_alt unat_sub)

lemma month_start_bound: "1 \<le> m \<Longrightarrow> m \<le> 12 \<Longrightarrow> month_start ! (m - 1) \<le> 334"
  using month_cases[of m] by (auto simp: month_start_def numeral_nat)

lemma month_length_bound: "month_length y m \<le> 31"
  by (simp add: month_length_def)

lemma days_from_2000_eq:
  assumes "valid_date (unat y) (unat m) (unat d)"
  shows "\<exists>w. days_from_2000 y m d = Some w \<and> unat w = day_number (unat y) (unat m) (unat d)"
proof -
  note v = assms[unfolded valid_date_def]
  let ?k = "unat y - 2000" and ?s = "month_start ! (unat m - 1)" and ?l = "(if 2 < unat m \<and> unat y mod 4 = 0 then 1 else 0) :: nat"
  have k: "unat (since_2000 y) = ?k" "?k mod 4 = 0 \<longleftrightarrow> unat y mod 4 = 0"
    using v since_2000_eq[of y] by (simp, presburger)
  have b: "?s \<le> 334" "?l \<le> 1" "unat d \<le> 31" "?k \<le> 99" "1 \<le> unat d"
    using month_start_bound[of "unat m"] month_length_bound[of "unat y" "unat m"] v by auto
  have u: "unat (ucast d + of_nat (?s + ?l) :: u16) = unat d + (?s + ?l)"
    using b by (simp add: unat_word_ariths unat_of_nat unat_ucast_mod)
  have "days_from_2000 y m d = Some (word_of_int (int (unat d + (?s + ?l)) + 365 * int ?k + (int ?k + 3) div 4 - 1))"
    using days_in_year_eq[of m "since_2000 y" d] v k u unfolding days_from_2000_def Let_def uint_eq_int_unat[OF k(1)]
    by (simp flip: u)
  moreover have "int (unat d + (?s + ?l)) + 365 * int ?k + (int ?k + 3) div 4 - 1 = int (day_number (unat y) (unat m) (unat d))"
    using day_number_eq[OF assms] b by (simp add: of_nat_diff zdiv_int)
  moreover have "day_number (unat y) (unat m) (unat d) < 65536"
    using day_number_eq[OF assms] b div_le_dividend[of "?k + 3" 4] by linarith
  ultimately show ?thesis
    by (simp only: option.inject ex_simps simp_thms) (simp add: unat_of_nat)
qed

lemma day_number_bound:
  assumes "valid_date y m d"
  shows "day_number y m d < 36526"
proof -
  have "(y - 2000 + 3) div 4 \<le> 25" "y - 2000 \<le> 99" "d \<le> 31" "month_start ! (m - 1) \<le> 334"
    using assms month_length_bound[of y m] month_start_bound[of m] by (auto simp: valid_date_def)
  moreover have "(if 2 < m \<and> y mod 4 = 0 then 1 else 0 :: nat) \<le> 1"
    by simp
  ultimately show ?thesis
    unfolding day_number_eq[OF assms] by linarith
qed

text \<open>Seconds since 1970 of a date and a time of day.\<close>

definition unix_seconds :: "nat \<Rightarrow> nat \<Rightarrow> nat \<Rightarrow> nat \<Rightarrow> nat \<Rightarrow> nat \<Rightarrow> nat" where
  "unix_seconds y m d h n s = 946684800 + 86400 * day_number y m d + 3600 * h + 60 * n + s"

definition valid_time :: "nat \<Rightarrow> nat \<Rightarrow> nat \<Rightarrow> bool" where
  "valid_time h n s \<longleftrightarrow> h < 24 \<and> n < 60 \<and> s < 60"

lemma FindUnixtime_eq:
  assumes "valid_date (unat y) (unat m) (unat d)" "valid_time (unat h) (unat n) (unat s)"
  shows "\<exists>w. RTC_time_FindUnixtime y m d h n s = Some w \<and> unat w = unix_seconds (unat y) (unat m) (unat d) (unat h) (unat n) (unat s)"
proof -
  from days_from_2000_eq[OF assms(1)] obtain w where w: "days_from_2000 y m d = Some w" "unat w = day_number (unat y) (unat m) (unat d)"
    by blast
  let ?t = "((unat w * 24 + unat h) * 60 + unat n) * 60 + unat s + 946684800"
  have "?t < 2 ^ 32"
    using w(2) day_number_bound[OF assms(1)] assms(2) by (simp add: valid_time_def)
  moreover have "time2long w h n s + 946684800 = of_nat ?t"
    by (simp add: time2long_def)
  ultimately have "unat (time2long w h n s + 946684800) = ?t"
    by (simp only: unat_of_nat) simp
  then show ?thesis
    using w by (simp add: RTC_time_FindUnixtime_def unix_seconds_def algebra_simps)
qed

lemma dayOfWeek_eq:
  assumes "valid_date (unat y) (unat m) (unat d)"
  shows "\<exists>dow. dayOfWeekManual y m d = Some dow \<and> unat dow = (day_number (unat y) (unat m) (unat d) + 5) mod 7"
proof -
  from days_from_2000_eq[OF assms] obtain w where w: "days_from_2000 y m d = Some w" "unat w = day_number (unat y) (unat m) (unat d)"
    by blast
  have "(uint w + 5) mod 7 = int ((unat w + 5) mod 7)"
    by (simp add: zmod_int)
  then have "dayOfWeekManual y m d = Some (of_nat ((unat w + 5) mod 7))"
    using w(1) by (simp only: dayOfWeekManual_def bind.bind_lunit of_int_of_nat_eq)
  moreover have "unat (of_nat ((unat w + 5) mod 7) :: u8) = (unat w + 5) mod 7"
    using mod_less_divisor[of 7 "unat w + 5"] by (simp add: unat_of_nat)
  ultimately show ?thesis
    using w(2) by simp
qed

lemma split_unit: "r < b \<Longrightarrow> (b * q + r) mod b = r \<and> (b * q + r) div b = q" for b :: nat
  by simp

text \<open>The seconds of a day, whole days added.\<close>

lemma hms_of_seconds:
  assumes "unat t = 946684800 + 86400 * k + 3600 * unat h + 60 * unat n + unat s" "valid_time (unat h) (unat n) (unat s)"
  shows "unix_to_hh_mm_ss t = (h, n, s)"
proof -
  let ?r = "86400 * k + 3600 * unat h + 60 * unat n + unat s"
  have r: "unat (t - 946684800) = ?r"
    using assms(1) by (simp add: unat_sub word_le_nat_alt)
  have e: "?r = 60 * (60 * (24 * k + unat h) + unat n) + unat s"
    by simp
  have v: "unat s < 60" "unat n < 60" "unat h < 24"
    using assms(2) by (auto simp: valid_time_def)
  have d: "?r mod 60 = unat s" "?r div 60 = 60 * (24 * k + unat h) + unat n"
    "(60 * (24 * k + unat h) + unat n) mod 60 = unat n" "(60 * (24 * k + unat h) + unat n) div 60 = 24 * k + unat h"
    "(24 * k + unat h) mod 24 = unat h"
    unfolding e using split_unit[OF v(1)] split_unit[OF v(2)] split_unit[OF v(3)] by blast+
  let ?t = "t - 946684800"
  have "unat (?t mod 60) = unat s" "unat (?t div 60 mod 60) = unat n" "unat (?t div 60 div 60 mod 24) = unat h"
    by (simp_all only: unat_mod unat_div r) (use d in \<open>simp_all\<close>)
  then show ?thesis
    by (simp add: unix_to_hh_mm_ss_def Let_def word_unat_eq_iff unat_ucast_mod)
qed

lemma time_of_day:
  assumes "valid_date (unat y) (unat m) (unat d)" "valid_time (unat h) (unat n) (unat s)" "RTC_time_FindUnixtime y m d h n s = Some w"
  shows "unix_to_hh_mm_ss w = (h, n, s)"
  using FindUnixtime_eq[OF assms(1,2)] hms_of_seconds[OF _ assms(2)] assms(3) by (auto simp: unix_seconds_def)

text \<open>
  C8: The seconds that the firmware computes for a date and a time of day are those of the Gregorian calendar, for
  every valid date from 2000 to 2099, although the days are counted in 16 bits and the seconds in a 32-bit
  \<^verbatim>\<open>long\<close>; the day of the week is that of the calendar (Monday is 0, the first of January 2000 a Saturday), and
  the time of day is found again from the seconds.
\<close>

theorem unix_time_correct:
  assumes "valid_date (unat y) (unat m) (unat d)" "valid_time (unat h) (unat n) (unat s)"
  shows "\<exists>w dow. RTC_time_FindUnixtime y m d h n s = Some w \<and>
    unat w = unix_seconds (unat y) (unat m) (unat d) (unat h) (unat n) (unat s) \<and>
    dayOfWeekManual y m d = Some dow \<and> unat dow = (day_number (unat y) (unat m) (unat d) + 5) mod 7 \<and>
    unix_to_hh_mm_ss w = (h, n, s)"
  using FindUnixtime_eq[OF assms] dayOfWeek_eq[OF assms(1)] time_of_day[OF assms] by auto

theorem unix_time_correct_witness:
  "\<exists>w. RTC_time_FindUnixtime 2069 2 28 23 59 59 = Some w \<and> unat w = 3129321599 \<and> unix_to_hh_mm_ss w = (23, 59, 59)"
proof -
  have v: "valid_date 2069 2 28"
    by (simp add: valid_date_def month_length_def)
  have "day_number 2069 2 28 = 25261"
    unfolding day_number_eq[OF v] by (simp add: month_start_def)
  then show ?thesis
    using unix_time_correct[of 2069 2 28 23 59 59] v by (auto simp: valid_time_def unix_seconds_def)
qed

subsection \<open>Summer time\<close>

lemma dst_days:
  assumes "2000 \<le> unat y" "unat y < 2100"
  shows "unat (begin_DST_dayOfMonth y) = 31 - (5 * unat y div 4 + 4) mod 7" "unat (end_DST_dayOfMonth y) = 31 - (5 * unat y div 4 + 1) mod 7"
proof -
  have "unat (word_of_int (31 - (5 * uint y div 4 + int c) mod 7) :: u8) = 31 - (5 * unat y div 4 + c) mod 7" for c
  proof -
    have "(5 * unat y div 4 + c) mod 7 < 7"
      by simp
    then have "31 - (5 * uint y div 4 + int c) mod 7 = int (31 - (5 * unat y div 4 + c) mod 7)"
      by (simp add: of_nat_diff zmod_int zdiv_int)
    then show ?thesis
      by (simp add: unat_of_nat del: of_nat_diff)
  qed
  from this[of 4] this[of 1] show "unat (begin_DST_dayOfMonth y) = 31 - (5 * unat y div 4 + 4) mod 7"
    "unat (end_DST_dayOfMonth y) = 31 - (5 * unat y div 4 + 1) mod 7"
    by (simp_all add: begin_DST_dayOfMonth_def end_DST_dayOfMonth_def)
qed

lemma last_sunday:
  fixes k :: nat
  assumes "k < 100"
  shows "(365 * k + (k + 3) div 4 + 59 + (if k mod 4 = 0 then 1 else 0) + (31 - (5 * (2000 + k) div 4 + 4) mod 7 - 1) + 5) mod 7 = 6"
    "(365 * k + (k + 3) div 4 + 273 + (if k mod 4 = 0 then 1 else 0) + (31 - (5 * (2000 + k) div 4 + 1) mod 7 - 1) + 5) mod 7 = 6"
proof -
  have "list_all (\<lambda>k. (365 * k + (k + 3) div 4 + 59 + (if k mod 4 = 0 then 1 else 0) + (31 - (5 * (2000 + k) div 4 + 4) mod 7 - 1) + 5) mod 7 = 6 \<and>
      (365 * k + (k + 3) div 4 + 273 + (if k mod 4 = 0 then 1 else 0) + (31 - (5 * (2000 + k) div 4 + 1) mod 7 - 1) + 5) mod 7 = 6) [0..<100]"
    by (simp add: upt_rec)
  then show "(365 * k + (k + 3) div 4 + 59 + (if k mod 4 = 0 then 1 else 0) + (31 - (5 * (2000 + k) div 4 + 4) mod 7 - 1) + 5) mod 7 = 6"
    "(365 * k + (k + 3) div 4 + 273 + (if k mod 4 = 0 then 1 else 0) + (31 - (5 * (2000 + k) div 4 + 1) mod 7 - 1) + 5) mod 7 = 6"
    using assms unfolding list_all_iff by auto
qed

lemma dst_day_number:
  assumes "2000 \<le> unat y" "unat y < 2100"
  shows "valid_date (unat y) 3 (unat (begin_DST_dayOfMonth y))" "valid_date (unat y) 10 (unat (end_DST_dayOfMonth y))"
    "(day_number (unat y) 3 (unat (begin_DST_dayOfMonth y)) + 5) mod 7 = 6" "(day_number (unat y) 10 (unat (end_DST_dayOfMonth y)) + 5) mod 7 = 6"
proof -
  obtain k where "unat y = 2000 + k"
    using assms(1) le_Suc_ex by blast
  with assms(2) have k: "unat y = 2000 + k" "k < 100"
    by simp_all
  have m: "(2000 + k) mod 4 = 0 \<longleftrightarrow> k mod 4 = 0"
    using mod_mult_self4[of 4 500 k] by simp
  have r: "(5 * unat y div 4 + 4) mod 7 < 7" "(5 * unat y div 4 + 1) mod 7 < 7"
    by simp_all
  show v: "valid_date (unat y) 3 (unat (begin_DST_dayOfMonth y))" "valid_date (unat y) 10 (unat (end_DST_dayOfMonth y))"
    unfolding dst_days[OF assms] valid_date_def month_length_def using assms r by simp_all
  have "unat y - 2000 = k" "unat y mod 4 = 0 \<longleftrightarrow> k mod 4 = 0"
    "month_start ! (3 - 1) = 59" "month_start ! (10 - 1) = 273" "(2 :: nat) < 3" "(2 :: nat) < 10"
    using k(1) m by (simp_all add: month_start_def)
  then show "(day_number (unat y) 3 (unat (begin_DST_dayOfMonth y)) + 5) mod 7 = 6" "(day_number (unat y) 10 (unat (end_DST_dayOfMonth y)) + 5) mod 7 = 6"
    using last_sunday[OF k(2)] day_number_eq[OF v(1)] day_number_eq[OF v(2)]
    by (simp_all only: dst_days[OF assms] k(1) simp_thms)
qed

lemma dst_unix:
  assumes "2000 \<le> unat y" "unat y < 2100"
  shows "\<exists>b. begin_DST_unix y = Some b \<and> unat b = unix_seconds (unat y) 3 (unat (begin_DST_dayOfMonth y)) 1 0 0"
    "\<exists>e. end_DST_unix y = Some e \<and> unat e = unix_seconds (unat y) 10 (unat (end_DST_dayOfMonth y)) 1 0 0"
  using FindUnixtime_eq[of y 3 "begin_DST_dayOfMonth y" 1 0 0] FindUnixtime_eq[of y 10 "end_DST_dayOfMonth y" 1 0 0] dst_day_number[OF assms]
  by (simp_all add: begin_DST_unix_def end_DST_unix_def valid_time_def)

text \<open>
  The formulas for the change of the clock are right: in every year from 2000 to 2099, summer time begins
  on the last Sunday of March and ends on the last Sunday of October, at one o'clock in the morning.
\<close>

theorem dst_dates_last_sunday:
  assumes "2000 \<le> unat y" "unat y < 2100"
  shows "(\<exists>d b. begin_DST_unix y = Some b \<and> unat b = unix_seconds (unat y) 3 d 1 0 0 \<and> 25 \<le> d \<and> d \<le> 31 \<and> (day_number (unat y) 3 d + 5) mod 7 = 6) \<and>
    (\<exists>d e. end_DST_unix y = Some e \<and> unat e = unix_seconds (unat y) 10 d 1 0 0 \<and> 25 \<le> d \<and> d \<le> 31 \<and> (day_number (unat y) 10 d + 5) mod 7 = 6)"
proof -
  have "25 \<le> 31 - n mod 7" "31 - n mod 7 \<le> 31" for n :: nat
    using mod_less_divisor[of 7 n] by linarith+
  then have "25 \<le> unat (begin_DST_dayOfMonth y)" "unat (begin_DST_dayOfMonth y) \<le> 31" "25 \<le> unat (end_DST_dayOfMonth y)" "unat (end_DST_dayOfMonth y) \<le> 31"
    unfolding dst_days[OF assms] by blast+
  with dst_unix[OF assms] dst_day_number(3,4)[OF assms] show ?thesis
    by blast
qed

theorem dst_dates_last_sunday_witness:
  "\<exists>b d. begin_DST_unix 2024 = Some b \<and> unat b = unix_seconds 2024 3 d 1 0 0 \<and> 25 \<le> d \<and> (day_number 2024 3 d + 5) mod 7 = 6"
  using dst_dates_last_sunday[of 2024] by auto

subsection \<open>The time of the compilation\<close>

text \<open>The text that the compiler gives for a date and a time.\<close>

definition month_names :: "u8 list list" where
  "month_names = map (map of_char) [''Jan'', ''Feb'', ''Mar'', ''Apr'', ''May'', ''Jun'', ''Jul'', ''Aug'', ''Sep'', ''Oct'', ''Nov'', ''Dec'']"

definition digit :: "nat \<Rightarrow> u8" where
  "digit n = 48 + of_nat n"

definition two_digits :: "nat \<Rightarrow> u8 list" where
  "two_digits n = [digit (n div 10), digit (n mod 10)]"

definition date_text :: "nat \<Rightarrow> nat \<Rightarrow> nat \<Rightarrow> u8 list" where
  "date_text y m d = month_names ! (m - 1) @ [32] @ [if d < 10 then 32 else digit (d div 10), digit (d mod 10)] @ [32] @
     two_digits (y div 100) @ two_digits (y mod 100)"

definition time_text :: "nat \<Rightarrow> nat \<Rightarrow> nat \<Rightarrow> u8 list" where
  "time_text h n s = two_digits h @ [58] @ two_digits n @ [58] @ two_digits s"

lemma digit_value: "n < 10 \<Longrightarrow> 48 \<le> digit n \<and> digit n \<le> 57 \<and> digit n - 48 = of_nat n"
  by (simp add: digit_def word_le_nat_alt unat_word_ariths unat_of_nat)

lemma conv_digits:
  assumes "n < 100" "p = a @ [x, digit (n mod 10)] @ b" "x = digit (n div 10) \<or> n < 10 \<and> x = 32" "k = length a"
  shows "conv2d p k = Some (of_nat n)"
proof -
  have "c_read p (int (length a)) = Some x" "c_read p (int (length a) + 1) = Some (digit (n mod 10))"
    using assms(2) c_read_int[of p "Suc (length a)"] by (simp_all add: c_read_int nth_append algebra_simps)
  moreover have "10 * (of_nat (n div 10) :: u8) + of_nat (n mod 10) = of_nat n"
    by (metis mult_div_mod_eq of_nat_add of_nat_mult of_nat_numeral)
  moreover have "n div 10 < 10"
    using assms(1) by (simp add: less_mult_imp_div_less)
  ultimately show ?thesis
    using assms(1,3,4) digit_value[of "n div 10"] digit_value[of "n mod 10"]
    by (auto simp: conv2d_def Let_def digit_def)
qed

lemma month_of_name:
  assumes "1 \<le> m" "m \<le> 12"
  shows "month_as_number (month_names ! (m - 1) @ rest) = Some (of_nat m)" "length (month_names ! (m - 1)) = 3"
  using month_cases[OF assms] by (elim disjE; simp add: month_names_def month_as_number_def c_read_def)+

text \<open>
  The date and time of the compilation are read back from the text that the compiler gives, for every date of the century, with
  days before the tenth written with a blank.
\<close>

theorem compiled_time_roundtrip:
  assumes "valid_date y m d" "valid_time h n s"
  shows "compiled_time (date_text y m d) (time_text h n s) = Some (of_nat y, of_nat m, of_nat d, of_nat h, of_nat n, of_nat s)"
proof -
  have v: "d < 100" "y div 100 < 100" "y mod 100 < 100" "h < 100" "n < 100" "s < 100" "1 \<le> m" "m \<le> 12"
    using assms month_length_bound[of y m] by (auto simp: valid_date_def valid_time_def less_mult_imp_div_less)
  note name = month_of_name[OF v(7,8), simplified]
  let ?m = "month_names ! (m - 1)" and ?d = "[if d < 10 then 32 else digit (d div 10), digit (d mod 10)]"
  have "conv2d (date_text y m d) 4 = Some (of_nat d)"
    by (rule conv_digits[OF v(1), where a = "?m @ [32]"]) (auto simp: date_text_def name split: if_splits)
  moreover have "conv2d (date_text y m d) 7 = Some (of_nat (y div 100))"
    by (rule conv_digits[OF v(2), where a = "?m @ [32] @ ?d @ [32]"]) (auto simp: date_text_def two_digits_def name)
  moreover have "conv2d (date_text y m d) 9 = Some (of_nat (y mod 100))"
    by (rule conv_digits[OF v(3), where a = "?m @ [32] @ ?d @ [32] @ two_digits (y div 100)"]) (auto simp: date_text_def two_digits_def name)
  moreover have "conv2d (time_text h n s) 0 = Some (of_nat h)"
    by (rule conv_digits[OF v(4), where a = "[]"]) (auto simp: time_text_def two_digits_def)
  moreover have "conv2d (time_text h n s) 3 = Some (of_nat n)"
    by (rule conv_digits[OF v(5), where a = "two_digits h @ [58]"]) (auto simp: time_text_def two_digits_def)
  moreover have "conv2d (time_text h n s) 6 = Some (of_nat s)"
    by (rule conv_digits[OF v(6), where a = "two_digits h @ [58] @ two_digits n @ [58]"]) (auto simp: time_text_def two_digits_def)
  moreover have "ucast (of_nat k :: u8) = (of_nat k :: u16)" if "k < 100" for k
    using that by (simp add: word_unat_eq_iff unat_ucast_mod unat_of_nat)
  moreover have "of_nat (y div 100) * 100 + of_nat (y mod 100) = (of_nat y :: u16)"
    by (metis div_mult_mod_eq of_nat_add of_nat_mult of_nat_numeral)
  ultimately show ?thesis
    using v(2,3) name(1)[of "[32] @ [if d < 10 then 32 else digit (d div 10), digit (d mod 10)] @ [32] @ two_digits (y div 100) @ two_digits (y mod 100)"]
    by (simp add: compiled_time_def date_text_def)
qed

theorem compiled_time_roundtrip_witness:
  "compiled_time (map of_char ''Jun  9 2012'') (map of_char ''20:50:10'') = Some (2012, 6, 9, 20, 50, 10)"
proof -
  have "date_text 2012 6 9 = map of_char ''Jun  9 2012''" "time_text 20 50 10 = map of_char ''20:50:10''"
    by (simp_all add: date_text_def time_text_def two_digits_def digit_def month_names_def)
  then show ?thesis
    using compiled_time_roundtrip[of 2012 6 9 20 50 10] by (simp add: valid_date_def valid_time_def month_length_def)
qed

end
