(* ===== verification/Rtc.thy ===== *)
theory Rtc
  imports Calendar
begin

text \<open>
  The clock of \<^verbatim>\<open>RTClib/rtc.cpp\<close> on the time and battery-backed registers of the peripheral (\<^verbatim>\<open>lpc17xx_rtc.c\<close>): setting the
  time, the interrupt once a second with the checks it runs, and summer time. The sunrise calculation is a parameter (\<open>sun\<close>, minutes
  after midnight), because it is floating-point trigonometry; the conversion of
  seconds to a date by the C library (\<^verbatim>\<open>localtime\<close>) is one too. Printing is left out. The
  lemmas show that a time that is set is the time that is kept, that summer time begins once, and that it does not
  end: on the last Sunday of October the clock is put back whenever it passes one o'clock.
\<close>

section \<open>The peripheral\<close>

record rtc =
  RTC_SEC :: u32
  RTC_MIN :: u32
  RTC_HOUR :: u32
  RTC_DOW :: u32
  RTC_DOM :: u32
  RTC_DOY :: u32
  RTC_MONTH :: u32
  RTC_YEAR :: u32
  GPREG :: "u8 \<Rightarrow> u32"
  UNIX :: u32
  t2_unix :: u32
  t2_hh :: u8
  t2_mm :: u8
  t2_ss :: u8
  DST_begin_calculated :: u32
  DST_end_calculated :: u32
  sunrise_unix :: u32
  sunset_unix :: u32
  noon_unix :: u32
  day_night :: u8
  no_set_rise :: u8
  second_inc :: u8
  sixtieth_count :: u32

datatype timetype = SECOND | MINUTE | HOUR | DAYOFWEEK | DAYOFMONTH | DAYOFYEAR | MONTH | YEAR

fun RTC_SetTime :: "timetype \<Rightarrow> u32 \<Rightarrow> rtc \<Rightarrow> rtc" where
  "RTC_SetTime SECOND v s = s\<lparr>RTC_SEC := v AND 0x3F\<rparr>"
| "RTC_SetTime MINUTE v s = s\<lparr>RTC_MIN := v AND 0x3F\<rparr>"
| "RTC_SetTime HOUR v s = s\<lparr>RTC_HOUR := v AND 0x1F\<rparr>"
| "RTC_SetTime DAYOFWEEK v s = s\<lparr>RTC_DOW := v AND 0x7\<rparr>"
| "RTC_SetTime DAYOFMONTH v s = s\<lparr>RTC_DOM := v AND 0x1F\<rparr>"
| "RTC_SetTime DAYOFYEAR v s = s\<lparr>RTC_DOY := v AND 0x1FF\<rparr>"
| "RTC_SetTime MONTH v s = s\<lparr>RTC_MONTH := v AND 0xF\<rparr>"
| "RTC_SetTime YEAR v s = s\<lparr>RTC_YEAR := v AND 0xFFF\<rparr>"

text \<open>
  The assertions of \<^verbatim>\<open>RTC_SetTime\<close>: \<^verbatim>\<open>CHECK_PARAM\<close> stops a build with \<^verbatim>\<open>DEBUG\<close> when one fails, and is empty in the build of the Makefile,
  where \<^verbatim>\<open>-DDEBUG\<close> is commented out (line 262). The model of \<^verbatim>\<open>RTC_SetTime\<close> above is that build.
\<close>

fun RTC_SetTime_assert :: "timetype \<Rightarrow> u32 \<Rightarrow> bool" where
  "RTC_SetTime_assert SECOND v \<longleftrightarrow> v < 59"
| "RTC_SetTime_assert MINUTE v \<longleftrightarrow> v < 59"
| "RTC_SetTime_assert HOUR v \<longleftrightarrow> v < 23"
| "RTC_SetTime_assert DAYOFWEEK v \<longleftrightarrow> v < 6"
| "RTC_SetTime_assert DAYOFMONTH v \<longleftrightarrow> v < 31 \<and> v > 1"
| "RTC_SetTime_assert DAYOFYEAR v \<longleftrightarrow> v > 1 \<and> v < 366"
| "RTC_SetTime_assert MONTH v \<longleftrightarrow> v > 1 \<and> v < 12"
| "RTC_SetTime_assert YEAR v \<longleftrightarrow> v < 4095"

fun RTC_GetTime :: "timetype \<Rightarrow> rtc \<Rightarrow> u32" where
  "RTC_GetTime SECOND s = RTC_SEC s AND 0x3F"
| "RTC_GetTime MINUTE s = RTC_MIN s AND 0x3F"
| "RTC_GetTime HOUR s = RTC_HOUR s AND 0x1F"
| "RTC_GetTime DAYOFWEEK s = RTC_DOW s AND 0x7"
| "RTC_GetTime DAYOFMONTH s = RTC_DOM s AND 0x1F"
| "RTC_GetTime DAYOFYEAR s = RTC_DOY s AND 0x1FF"
| "RTC_GetTime MONTH s = RTC_MONTH s AND 0xF"
| "RTC_GetTime YEAR s = RTC_YEAR s AND 0xFFF"

definition RTC_WriteGPREG :: "u8 \<Rightarrow> u32 \<Rightarrow> rtc \<Rightarrow> rtc" where
  "RTC_WriteGPREG ch v s = s\<lparr>GPREG := (GPREG s)(ch := v)\<rparr>"

definition RTC_ReadGPREG :: "u8 \<Rightarrow> rtc \<Rightarrow> u32" where
  "RTC_ReadGPREG ch s = GPREG s ch"

definition GetY :: "rtc \<Rightarrow> u16" where "GetY s = ucast (RTC_GetTime YEAR s)"
definition GetM :: "rtc \<Rightarrow> u8" where "GetM s = ucast (RTC_GetTime MONTH s)"
definition GetDOM :: "rtc \<Rightarrow> u8" where "GetDOM s = ucast (RTC_GetTime DAYOFMONTH s)"
definition GetDOW :: "rtc \<Rightarrow> u8" where "GetDOW s = ucast (RTC_GetTime DAYOFWEEK s)"
definition GetDOY :: "rtc \<Rightarrow> u8" where "GetDOY s = ucast (RTC_GetTime DAYOFYEAR s)"
definition GetHH :: "rtc \<Rightarrow> u8" where "GetHH s = ucast (RTC_GetTime HOUR s)"
definition GetMM :: "rtc \<Rightarrow> u8" where "GetMM s = ucast (RTC_GetTime MINUTE s)"
definition GetSS :: "rtc \<Rightarrow> u8" where "GetSS s = ucast (RTC_GetTime SECOND s)"
definition Getunix :: "rtc \<Rightarrow> u32" where "Getunix s = t2_unix s"

section \<open>Setting the time and summer time\<close>

definition setDSTstatus :: "u32 \<Rightarrow> rtc \<Rightarrow> rtc" where
  "setDSTstatus set_or_clear s = (if set_or_clear = 1 then RTC_WriteGPREG 3 0x445354 s else RTC_WriteGPREG 3 0 s)"

definition getDSTstatus :: "rtc \<Rightarrow> u32" where
  "getDSTstatus s = (if RTC_ReadGPREG 3 s = 0x445354 then 1 else 0)"

definition dst_correction_needed :: "rtc \<Rightarrow> u32" where
  "dst_correction_needed s = (if DST_begin_calculated s \<le> t2_unix s \<and> t2_unix s \<le> DST_end_calculated s then 1 else 0)"

definition DSTyearly :: "rtc \<Rightarrow> rtc option" where
  "DSTyearly s = do {
     b \<leftarrow> begin_DST_unix (GetY s);
     let s = s\<lparr>DST_begin_calculated := b\<rparr>;
     e \<leftarrow> end_DST_unix (GetY s);
     Some (s\<lparr>DST_end_calculated := e\<rparr>) }"

definition yearlyCheck :: "rtc \<Rightarrow> rtc option" where
  "yearlyCheck s = DSTyearly s"

definition RTC_time_SetTime :: "u16 \<Rightarrow> u8 \<Rightarrow> u8 \<Rightarrow> u8 \<Rightarrow> u8 \<Rightarrow> u8 \<Rightarrow> rtc \<Rightarrow> rtc option" where
  "RTC_time_SetTime year month dayOfM h n sec s = do {
     unixt \<leftarrow> RTC_time_FindUnixtime year month dayOfM h n sec;
     dst_correction \<leftarrow> dst_correction_needed_t_y unixt year;
     let s = (if dst_correction \<noteq> 0 then setDSTstatus 1 s else setDSTstatus 0 s);
     let s = RTC_SetTime YEAR (ucast year) s;
     let s = RTC_SetTime MONTH (ucast month) s;
     let s = RTC_SetTime DAYOFMONTH (ucast dayOfM) s;
     dow \<leftarrow> dayOfWeekManual year month dayOfM;
     let s = RTC_SetTime DAYOFWEEK (ucast dow) s;
     doy \<leftarrow> days_from_20xx year month dayOfM;
     let s = RTC_SetTime DAYOFYEAR (ucast doy) s;
     let s = RTC_SetTime SECOND (ucast sec) s;
     let s = RTC_SetTime MINUTE (ucast n) s;
     let s = RTC_SetTime HOUR (ucast h) s;
     yearlyCheck s }"

definition RTC_time_GetUnixtime :: "rtc \<Rightarrow> u32 option" where
  "RTC_time_GetUnixtime s = do {
     days \<leftarrow> days_from_2000 (ucast (RTC_GetTime YEAR s)) (ucast (RTC_GetTime MONTH s)) (ucast (RTC_GetTime DAYOFMONTH s));
     Some (time2long days (ucast (RTC_GetTime HOUR s)) (ucast (RTC_GetTime MINUTE s)) (ucast (RTC_GetTime SECOND s)) + 946684800) }"

definition update_time :: "rtc \<Rightarrow> rtc option" where
  "update_time s = do {
     t \<leftarrow> RTC_time_FindUnixtime (GetY s) (GetM s) (GetDOM s) (GetHH s) (GetMM s) (GetSS s);
     Some (s\<lparr>t2_unix := t, UNIX := t\<rparr>) }"

definition DST_check_and_correct :: "rtc \<Rightarrow> rtc option" where
  "DST_check_and_correct s =
    (if dst_correction_needed s \<noteq> getDSTstatus s then do {
       let s = (if dst_correction_needed s \<noteq> 0 then setDSTstatus 1 (s\<lparr>t2_unix := t2_unix s + 60 * 60\<rparr>)
         else setDSTstatus 0 (s\<lparr>t2_unix := t2_unix s - 60 * 60\<rparr>));
       let (h, n, sec) = unix_to_hh_mm_ss (t2_unix s);
       let s = s\<lparr>t2_hh := h, t2_mm := n, t2_ss := sec\<rparr>;
       RTC_time_SetTime (GetY s) (GetM s) (GetDOM s) (t2_hh s) (t2_mm s) (t2_ss s) s }
     else Some s)"

section \<open>The checks of the interrupt\<close>

datatype sun_event = READ_SUNRISE | READ_SUNSET | READ_NOON

type_synonym sun = "u8 \<Rightarrow> u8 \<Rightarrow> sun_event \<Rightarrow> int"

definition secondlyCheck :: "rtc \<Rightarrow> rtc option" where
  "secondlyCheck s = do { s \<leftarrow> update_time s; DST_check_and_correct s }"

definition minutelyCheck :: "rtc \<Rightarrow> rtc" where
  "minutelyCheck s =
    (let s = s\<lparr>day_night := 0\<rparr> in
     if sunrise_unix s < t2_unix s \<and> sunset_unix s < t2_unix s then
       if no_set_rise s \<noteq> 2 \<or> no_set_rise s \<noteq> 3 \<or> no_set_rise s \<noteq> 4 \<or> no_set_rise s \<noteq> 5 then s\<lparr>day_night := 1\<rparr> else s
     else s)"

definition dailyCheck :: "sun \<Rightarrow> rtc \<Rightarrow> rtc option" where
  "dailyCheck sun s =
    (let at = (\<lambda>e. sun (GetM s) (GetDOM s) e) in
     if 0 < at READ_SUNRISE \<and> 0 < at READ_SUNSET then do {
       unix_day \<leftarrow> RTC_time_FindUnixtime (GetY s) (GetM s) (GetDOM s) 0 0 0;
       let dst = (if dst_correction_needed s \<noteq> 0 then 60 * 60 else 0);
       Some (s\<lparr>sunrise_unix := unix_day + word_of_int (60 * at READ_SUNRISE) + dst,
         sunset_unix := unix_day + word_of_int (60 * at READ_SUNSET) + dst,
         noon_unix := unix_day + word_of_int (60 * at READ_NOON) + dst\<rparr>) }
     else Some s)"

text \<open>\<^verbatim>\<open>hourlyCheck\<close>, \<^verbatim>\<open>weeklyCheck\<close>, \<^verbatim>\<open>monthlyCheck\<close>, \<^verbatim>\<open>set_next_alarm\<close> and \<^verbatim>\<open>sort_alarms\<close> are empty.\<close>

definition RTC_IRQHandler :: "sun \<Rightarrow> bool \<Rightarrow> rtc \<Rightarrow> rtc option" where
  "RTC_IRQHandler sun counter_increase s =
    (if counter_increase then do {
       let s = s\<lparr>sixtieth_count := 0, second_inc := 1\<rparr>;
       s \<leftarrow> (if GetSS s = 0 then do {
           s \<leftarrow> (if GetMM s = 0 then do {
               if GetHH s = 0 then do {
                   s \<leftarrow> (if GetDOW s = 1 \<and> GetDOM s = 1 \<and> GetM s = 1 then yearlyCheck s else Some s);
                   dailyCheck sun s }
               else Some s }
             else Some s);
           Some (minutelyCheck s) }
         else Some s);
       secondlyCheck s }
     else Some s)"

definition RTC_set_default_time_to_compiled :: "u8 list \<Rightarrow> u8 list \<Rightarrow> rtc \<Rightarrow> rtc option" where
  "RTC_set_default_time_to_compiled date time s = do {
     (y, m, d, h, n, sec) \<leftarrow> compiled_time date time;
     RTC_time_SetTime y m d h n sec s }"

definition RTC_time_Init :: "sun \<Rightarrow> u8 list \<Rightarrow> u8 list \<Rightarrow> rtc \<Rightarrow> rtc option" where
  "RTC_time_Init sun date time s = do {
     s \<leftarrow> update_time s;
     s \<leftarrow> (if RTC_ReadGPREG 4 s \<noteq> 0xaa then do {
         s \<leftarrow> RTC_set_default_time_to_compiled date time s;
         Some (RTC_WriteGPREG 4 0xaa s) }
       else Some s);
     s \<leftarrow> yearlyCheck s;
     s \<leftarrow> dailyCheck sun s;
     secondlyCheck (minutelyCheck s) }"

text \<open>\<open>tm\<close> is the broken-down time that \<^verbatim>\<open>localtime\<close> gives: year since 1900, month from 0, day, hour, minute, second.\<close>

definition RTC_Set_print :: "(u32 \<Rightarrow> u16 \<times> u8 \<times> u8 \<times> u8 \<times> u8 \<times> u8) \<Rightarrow> u32 \<Rightarrow> rtc \<Rightarrow> rtc option" where
  "RTC_Set_print localtime unixt s =
    (let (year, mon, mday, h, n, sec) = localtime unixt in RTC_time_SetTime (1900 + year) (1 + mon) mday h n sec s)"

text \<open>The texts for the web page, as \<^verbatim>\<open>sprintf\<close> writes them with two digits per number.\<close>

definition hms_text :: "u32 \<Rightarrow> u8 list" where
  "hms_text t = (let (h, n, sec) = unix_to_hh_mm_ss t in time_text (unat h) (unat n) (unat sec) @ [0])"

definition GetSunRiseHH_MM_SS :: "rtc \<Rightarrow> u8 list" where "GetSunRiseHH_MM_SS s = hms_text (sunrise_unix s)"
definition GetSunSetHH_MM_SS :: "rtc \<Rightarrow> u8 list" where "GetSunSetHH_MM_SS s = hms_text (sunset_unix s)"
definition GetNoonHH_MM_SS :: "rtc \<Rightarrow> u8 list" where "GetNoonHH_MM_SS s = hms_text (noon_unix s)"

section \<open>The time that the registers show\<close>

definition valid_clock :: "rtc \<Rightarrow> bool" where
  "valid_clock s \<longleftrightarrow> valid_date (unat (RTC_YEAR s)) (unat (RTC_MONTH s)) (unat (RTC_DOM s)) \<and>
     valid_time (unat (RTC_HOUR s)) (unat (RTC_MIN s)) (unat (RTC_SEC s))"

lemma masks [word_nat]:
  "unat ((x :: u32) AND 0x3F) = unat x mod 64" "unat (x AND 0x1F) = unat x mod 32" "unat (x AND 0x7) = unat x mod 8"
  "unat (x AND 0xF) = unat x mod 16" "unat (x AND 0xFFF) = unat x mod 4096" "unat (x AND 0x1FF) = unat x mod 512"
  using unat_and_mask[of x 6] unat_and_mask[of x 5] unat_and_mask[of x 3] unat_and_mask[of x 4] unat_and_mask[of x 12] unat_and_mask[of x 9]
  by (simp_all add: mask_eq_exp_minus_1)

lemma getters:
  assumes "valid_clock s"
  shows "unat (GetY s) = unat (RTC_YEAR s)" "unat (GetM s) = unat (RTC_MONTH s)" "unat (GetDOM s) = unat (RTC_DOM s)"
    "unat (GetHH s) = unat (RTC_HOUR s)" "unat (GetMM s) = unat (RTC_MIN s)" "unat (GetSS s) = unat (RTC_SEC s)"
  using assms month_length_bound[of "unat (RTC_YEAR s)" "unat (RTC_MONTH s)"]
  by (auto simp: GetY_def GetM_def GetDOM_def GetHH_def GetMM_def GetSS_def unat_ucast_mod masks valid_clock_def valid_date_def valid_time_def)

text \<open>The seconds since 1970 that the registers stand for.\<close>

definition clock_seconds :: "rtc \<Rightarrow> nat" where
  "clock_seconds s = unix_seconds (unat (RTC_YEAR s)) (unat (RTC_MONTH s)) (unat (RTC_DOM s)) (unat (RTC_HOUR s)) (unat (RTC_MIN s)) (unat (RTC_SEC s))"

lemma update_time_eq:
  assumes "valid_clock s"
  shows "\<exists>t. update_time s = Some (s\<lparr>t2_unix := t, UNIX := t\<rparr>) \<and> unat t = clock_seconds s"
  using FindUnixtime_eq[of "GetY s" "GetM s" "GetDOM s" "GetHH s" "GetMM s" "GetSS s"] assms getters[OF assms]
  by (auto simp: update_time_def clock_seconds_def valid_clock_def)

definition summer_begin :: "nat \<Rightarrow> nat" where
  "summer_begin y = unix_seconds y 3 (unat (begin_DST_dayOfMonth (of_nat y))) 1 0 0"

definition summer_end :: "nat \<Rightarrow> nat" where
  "summer_end y = unix_seconds y 10 (unat (end_DST_dayOfMonth (of_nat y))) 1 0 0"

definition summer :: "nat \<Rightarrow> nat \<Rightarrow> bool" where
  "summer y t \<longleftrightarrow> summer_begin y \<le> t \<and> t \<le> summer_end y"

text \<open>The dates of the change are those of year \<open>y\<close>.\<close>

definition dst_dates :: "nat \<Rightarrow> rtc \<Rightarrow> bool" where
  "dst_dates y s \<longleftrightarrow> unat (DST_begin_calculated s) = summer_begin y \<and> unat (DST_end_calculated s) = summer_end y"

lemma dst_unix_nat:
  assumes "2000 \<le> unat y" "unat y < 2100"
  shows "\<exists>b e. begin_DST_unix y = Some b \<and> unat b = summer_begin (unat y) \<and> end_DST_unix y = Some e \<and> unat e = summer_end (unat y)"
  using dst_unix[OF assms] by (auto simp: summer_begin_def summer_end_def)

lemma needed_t_y_eq:
  assumes "2000 \<le> unat y" "unat y < 2100"
  shows "dst_correction_needed_t_y t y = Some (if summer (unat y) (unat t) then 1 else 0)"
  using dst_unix_nat[OF assms] by (auto simp: dst_correction_needed_t_y_def summer_def word_le_nat_alt)

lemma yearlyCheck_eq:
  assumes "valid_clock s"
  shows "\<exists>b e. yearlyCheck s = Some (s\<lparr>DST_begin_calculated := b, DST_end_calculated := e\<rparr>) \<and>
    unat b = summer_begin (unat (RTC_YEAR s)) \<and> unat e = summer_end (unat (RTC_YEAR s))"
proof -
  have "GetY (s\<lparr>DST_begin_calculated := b\<rparr>) = GetY s" for b
    by (simp add: GetY_def)
  moreover have "2000 \<le> unat (GetY s)" "unat (GetY s) < 2100"
    using assms getters(1)[OF assms] by (auto simp: valid_clock_def valid_date_def)
  ultimately show ?thesis
    using dst_unix_nat[of "GetY s"] getters(1)[OF assms] by (fastforce simp: yearlyCheck_def DSTyearly_def Let_def)
qed

definition dst_status :: "rtc \<Rightarrow> bool" where
  "dst_status s \<longleftrightarrow> GPREG s 3 = 0x445354"

lemma SetTime_eq:
  assumes "valid_date (unat y) (unat m) (unat d)" "valid_time (unat h) (unat n) (unat sec)"
  shows "\<exists>s'. RTC_time_SetTime y m d h n sec s = Some s' \<and> valid_clock s' \<and>
    unat (RTC_YEAR s') = unat y \<and> unat (RTC_MONTH s') = unat m \<and> unat (RTC_DOM s') = unat d \<and>
    unat (RTC_HOUR s') = unat h \<and> unat (RTC_MIN s') = unat n \<and> unat (RTC_SEC s') = unat sec \<and>
    unat (RTC_DOW s') = (day_number (unat y) (unat m) (unat d) + 5) mod 7 \<and> dst_dates (unat y) s' \<and>
    (dst_status s' \<longleftrightarrow> summer (unat y) (unix_seconds (unat y) (unat m) (unat d) (unat h) (unat n) (unat sec))) \<and>
    t2_unix s' = t2_unix s \<and> GPREG s' 4 = GPREG s 4"
proof -
  note v = assms[unfolded valid_date_def valid_time_def]
  from FindUnixtime_eq[OF assms] obtain w where
    w: "RTC_time_FindUnixtime y m d h n sec = Some w" "unat w = unix_seconds (unat y) (unat m) (unat d) (unat h) (unat n) (unat sec)"
    by blast
  from dayOfWeek_eq[OF assms(1)] obtain dow where
    dow: "dayOfWeekManual y m d = Some dow" "unat dow = (day_number (unat y) (unat m) (unat d) + 5) mod 7"
    by blast
  obtain doy where doy: "days_from_20xx y m d = Some doy"
    using days_in_year_eq[of m "since_2000 y" d] v by (simp add: days_from_20xx_def Let_def)
  have needed: "dst_correction_needed_t_y w y = Some (if summer (unat y) (unat w) then 1 else 0)"
    using v by (intro needed_t_y_eq) auto
  let ?s0 = "if summer (unat y) (unat w) then setDSTstatus 1 s else setDSTstatus 0 s"
  let ?s1 = "RTC_SetTime HOUR (ucast h) (RTC_SetTime MINUTE (ucast n) (RTC_SetTime SECOND (ucast sec) (RTC_SetTime DAYOFYEAR (ucast doy)
    (RTC_SetTime DAYOFWEEK (ucast dow) (RTC_SetTime DAYOFMONTH (ucast d) (RTC_SetTime MONTH (ucast m) (RTC_SetTime YEAR (ucast y) ?s0)))))))"
  have e: "RTC_time_SetTime y m d h n sec s = yearlyCheck ?s1"
    using w(1) needed dow(1) doy by (simp add: RTC_time_SetTime_def Let_def)
  have regs: "unat (RTC_YEAR ?s1) = unat y" "unat (RTC_MONTH ?s1) = unat m" "unat (RTC_DOM ?s1) = unat d" "unat (RTC_HOUR ?s1) = unat h"
    "unat (RTC_MIN ?s1) = unat n" "unat (RTC_SEC ?s1) = unat sec" "unat (RTC_DOW ?s1) = unat dow"
    using v month_length_bound[of "unat y" "unat m"] dow(2) by (simp_all add: masks unat_ucast_mod)
  have others: "t2_unix ?s1 = t2_unix s" "GPREG ?s1 4 = GPREG s 4" "dst_status ?s1 \<longleftrightarrow> summer (unat y) (unat w)"
    by (simp_all add: setDSTstatus_def RTC_WriteGPREG_def dst_status_def)
  have "valid_clock ?s1"
    unfolding valid_clock_def regs using assms by simp
  from yearlyCheck_eq[OF this] regs(1) obtain b e' where
    "yearlyCheck ?s1 = Some (?s1\<lparr>DST_begin_calculated := b, DST_end_calculated := e'\<rparr>)" "unat b = summer_begin (unat y)" "unat e' = summer_end (unat y)"
    by auto
  then show ?thesis
    unfolding e using regs others \<open>valid_clock ?s1\<close> w(2) dow(2) by (simp add: valid_clock_def dst_dates_def dst_status_def)
qed

section \<open>The check once a second\<close>

definition same_date :: "rtc \<Rightarrow> rtc \<Rightarrow> bool" where
  "same_date s' s \<longleftrightarrow> RTC_YEAR s' = RTC_YEAR s \<and> RTC_MONTH s' = RTC_MONTH s \<and> RTC_DOM s' = RTC_DOM s"

lemma unix_to_hh_mm_ss_valid: "unix_to_hh_mm_ss t = (h, n, sec) \<Longrightarrow> valid_time (unat h) (unat n) (unat sec)"
proof -
  have "unat (ucast (x mod 60) :: u8) < 60" "unat (ucast (x mod 24) :: u8) < 24" for x :: u32
    using mod_less_divisor[of 60 "unat x"] mod_less_divisor[of 24 "unat x"] by (simp_all add: unat_ucast_mod unat_mod)
  then show "unix_to_hh_mm_ss t = (h, n, sec) \<Longrightarrow> valid_time (unat h) (unat n) (unat sec)"
    by (auto simp: unix_to_hh_mm_ss_def Let_def valid_time_def)
qed

text \<open>Whether the check finds that summer time should be on.\<close>

definition due :: "rtc \<Rightarrow> bool" where
  "due s \<longleftrightarrow> unat (DST_begin_calculated s) \<le> clock_seconds s \<and> clock_seconds s \<le> unat (DST_end_calculated s)"

lemma secondly_idle:
  assumes "valid_clock s" "due s \<longleftrightarrow> dst_status s"
  shows "\<exists>t. secondlyCheck s = Some (s\<lparr>t2_unix := t, UNIX := t\<rparr>) \<and> unat t = clock_seconds s"
  using update_time_eq[OF assms(1)] assms(2)
  by (auto simp: secondlyCheck_def DST_check_and_correct_def dst_correction_needed_def getDSTstatus_def RTC_ReadGPREG_def due_def dst_status_def word_le_nat_alt)

lemma secondly_corrects:
  assumes "valid_clock s" "due s \<noteq> dst_status s"
  shows "\<exists>t s' h n sec. unat t = clock_seconds s \<and> secondlyCheck s = Some s' \<and> valid_clock s' \<and> same_date s' s \<and>
    unix_to_hh_mm_ss (if due s then t + 3600 else t - 3600) = (h, n, sec) \<and>
    unat (RTC_HOUR s') = unat h \<and> unat (RTC_MIN s') = unat n \<and> unat (RTC_SEC s') = unat sec \<and>
    dst_dates (unat (RTC_YEAR s)) s' \<and> (dst_status s' \<longleftrightarrow> summer (unat (RTC_YEAR s)) (clock_seconds s'))"
proof -
  from update_time_eq[OF assms(1)] obtain t where t: "update_time s = Some (s\<lparr>t2_unix := t, UNIX := t\<rparr>)" "unat t = clock_seconds s"
    by blast
  obtain h n sec where hms: "unix_to_hh_mm_ss (if due s then t + 3600 else t - 3600) = (h, n, sec)"
    by (cases "unix_to_hh_mm_ss (if due s then t + 3600 else t - 3600)") auto
  note vt = unix_to_hh_mm_ss_valid[OF hms]
  let ?s2 = "(if due s then setDSTstatus 1 (s\<lparr>UNIX := t, t2_unix := t + 3600\<rparr>) else setDSTstatus 0 (s\<lparr>UNIX := t, t2_unix := t - 3600\<rparr>))
    \<lparr>t2_hh := h, t2_mm := n, t2_ss := sec\<rparr>"
  have e: "secondlyCheck s = RTC_time_SetTime (GetY s) (GetM s) (GetDOM s) h n sec ?s2"
    using t assms(2) hms
    by (auto simp: secondlyCheck_def DST_check_and_correct_def dst_correction_needed_def getDSTstatus_def RTC_ReadGPREG_def due_def dst_status_def
        word_le_nat_alt setDSTstatus_def RTC_WriteGPREG_def GetY_def GetM_def GetDOM_def Let_def)
  have "valid_date (unat (GetY s)) (unat (GetM s)) (unat (GetDOM s))"
    using assms(1) getters[OF assms(1)] by (simp add: valid_clock_def)
  from SetTime_eq[OF this vt, of ?s2] getters(1-3)[OF assms(1)] obtain s' where
    s': "secondlyCheck s = Some s'" "valid_clock s'" "unat (RTC_YEAR s') = unat (RTC_YEAR s)" "unat (RTC_MONTH s') = unat (RTC_MONTH s)"
    "unat (RTC_DOM s') = unat (RTC_DOM s)" "unat (RTC_HOUR s') = unat h" "unat (RTC_MIN s') = unat n" "unat (RTC_SEC s') = unat sec"
    "dst_dates (unat (RTC_YEAR s)) s'" "dst_status s' \<longleftrightarrow> summer (unat (RTC_YEAR s)) (clock_seconds s')"
    unfolding e clock_seconds_def by auto
  then have "same_date s' s"
    by (simp add: same_date_def word_unat_eq_iff)
  with s' t(2) hms show ?thesis
    by blast
qed

text \<open>The time of day in seconds, and midnight.\<close>

definition tod :: "rtc \<Rightarrow> nat" where
  "tod s = 3600 * unat (RTC_HOUR s) + 60 * unat (RTC_MIN s) + unat (RTC_SEC s)"

definition midnight :: "rtc \<Rightarrow> nat" where
  "midnight s = unix_seconds (unat (RTC_YEAR s)) (unat (RTC_MONTH s)) (unat (RTC_DOM s)) 0 0 0"

lemma clock_seconds_tod: "clock_seconds s = midnight s + tod s"
  by (simp add: clock_seconds_def midnight_def tod_def unix_seconds_def)

lemma midnight_same_date: "same_date s' s \<Longrightarrow> midnight s' = midnight s"
  by (simp add: same_date_def midnight_def)

lemma midnight_bounds: "valid_clock s \<Longrightarrow> 946684800 \<le> midnight s \<and> midnight s < 946684800 + 86400 * 36526"
  using day_number_bound[of "unat (RTC_YEAR s)" "unat (RTC_MONTH s)" "unat (RTC_DOM s)"]
  by (simp add: midnight_def unix_seconds_def valid_clock_def)

lemma tod_bound: "valid_clock s \<Longrightarrow> tod s < 86400"
  by (auto simp: tod_def valid_clock_def valid_time_def)

lemma hms_split: "3600 * (k div 3600) + 60 * (k mod 3600 div 60) + k mod 60 = (k :: nat)"
proof -
  have "k mod 3600 mod 60 = k mod 60"
    by (rule mod_mod_cancel) simp
  then have "60 * (k mod 3600 div 60) + k mod 60 = k mod 3600"
    by (metis mult_div_mod_eq)
  then show ?thesis
    using mult_div_mod_eq[of 3600 k] by linarith
qed

lemma hms_tod:
  assumes "unat u = midnight s + k" "k < 86400" "unix_to_hh_mm_ss u = (h, n, sec)"
  shows "3600 * unat h + 60 * unat n + unat sec = k"
proof -
  let ?h = "of_nat (k div 3600) :: u8" and ?n = "of_nat (k mod 3600 div 60) :: u8" and ?s = "of_nat (k mod 60) :: u8"
  have b: "k div 3600 < 24" "k mod 3600 div 60 < 60" "k mod 60 < 60"
    using assms(2) by (simp_all add: less_mult_imp_div_less)
  then have u: "unat ?h = k div 3600" "unat ?n = k mod 3600 div 60" "unat ?s = k mod 60"
    by (simp_all add: unat_of_nat)
  note k = hms_split[of k]
  have "unix_to_hh_mm_ss u = (?h, ?n, ?s)"
  proof (rule hms_of_seconds)
    show "unat u = 946684800 + 86400 * day_number (unat (RTC_YEAR s)) (unat (RTC_MONTH s)) (unat (RTC_DOM s)) + 3600 * unat ?h + 60 * unat ?n + unat ?s"
      using assms(1) k unfolding u by (simp add: midnight_def unix_seconds_def)
    show "valid_time (unat ?h) (unat ?n) (unat ?s)"
      unfolding u valid_time_def using b by simp
  qed
  then show ?thesis
    using assms(3) k u by simp
qed

lemma corrected_tod:
  assumes "valid_clock s" "due s \<noteq> dst_status s" "if due s then tod s < 82800 else 3600 \<le> tod s"
  shows "\<exists>s'. secondlyCheck s = Some s' \<and> valid_clock s' \<and> same_date s' s \<and> tod s' = (if due s then tod s + 3600 else tod s - 3600) \<and>
    dst_dates (unat (RTC_YEAR s)) s' \<and> (dst_status s' \<longleftrightarrow> summer (unat (RTC_YEAR s)) (midnight s + tod s'))"
proof -
  from secondly_corrects[OF assms(1,2)] obtain t s' h n sec where
    s': "unat t = clock_seconds s" "secondlyCheck s = Some s'" "valid_clock s'" "same_date s' s"
    "unix_to_hh_mm_ss (if due s then t + 3600 else t - 3600) = (h, n, sec)"
    "unat (RTC_HOUR s') = unat h" "unat (RTC_MIN s') = unat n" "unat (RTC_SEC s') = unat sec"
    "dst_dates (unat (RTC_YEAR s)) s'" "dst_status s' \<longleftrightarrow> summer (unat (RTC_YEAR s)) (clock_seconds s')"
    by blast
  let ?k = "if due s then tod s + 3600 else tod s - 3600"
  have "unat (if due s then t + 3600 else t - 3600) = midnight s + ?k"
    using s'(1) midnight_bounds[OF assms(1)] tod_bound[OF assms(1)] assms(3)
    by (auto simp: clock_seconds_tod unat_sub word_le_nat_alt unat_word_ariths)
  from hms_tod[OF this _ s'(5)] have "tod s' = ?k"
    using assms(3) tod_bound[OF assms(1)] s'(6-8) by (auto simp: tod_def split: if_splits)
  with s' show ?thesis
    by (auto simp: clock_seconds_tod midnight_same_date)
qed

section \<open>The interrupt\<close>

definition same_clock :: "rtc \<Rightarrow> rtc \<Rightarrow> bool" where
  "same_clock s' s \<longleftrightarrow> same_date s' s \<and> RTC_HOUR s' = RTC_HOUR s \<and> RTC_MIN s' = RTC_MIN s \<and> RTC_SEC s' = RTC_SEC s \<and> GPREG s' = GPREG s"

lemma same_clock_facts:
  assumes "same_clock s' s"
  shows "valid_clock s' \<longleftrightarrow> valid_clock s" "tod s' = tod s" "midnight s' = midnight s" "dst_status s' \<longleftrightarrow> dst_status s"
    "clock_seconds s' = clock_seconds s" "same_date s' s" "RTC_YEAR s' = RTC_YEAR s"
  using assms by (simp_all add: same_clock_def same_date_def valid_clock_def tod_def midnight_def dst_status_def clock_seconds_def)

definition same_dst :: "rtc \<Rightarrow> rtc \<Rightarrow> bool" where
  "same_dst s' s \<longleftrightarrow> DST_begin_calculated s' = DST_begin_calculated s \<and> DST_end_calculated s' = DST_end_calculated s"

lemma same_trans:
  "same_clock a b \<Longrightarrow> same_clock b c \<Longrightarrow> same_clock a c" "same_dst a b \<Longrightarrow> same_dst b c \<Longrightarrow> same_dst a c"
  "same_dst a b \<Longrightarrow> dst_dates y b \<Longrightarrow> dst_dates y a"
  by (simp_all add: same_clock_def same_date_def same_dst_def dst_dates_def)

lemma dailyCheck_eq: "valid_clock s \<Longrightarrow> \<exists>s'. dailyCheck sun s = Some s' \<and> same_clock s' s \<and> same_dst s' s"
  using FindUnixtime_eq[of "GetY s" "GetM s" "GetDOM s" 0 0 0] getters[of s]
  by (auto simp: dailyCheck_def Let_def valid_clock_def valid_time_def same_clock_def same_date_def same_dst_def)

lemma minutelyCheck_eq: "same_clock (minutelyCheck s) s \<and> same_dst (minutelyCheck s) s"
  by (simp add: minutelyCheck_def Let_def same_clock_def same_date_def same_dst_def)

definition yearly_due :: "rtc \<Rightarrow> bool" where
  "yearly_due s \<longleftrightarrow> GetSS s = 0 \<and> GetMM s = 0 \<and> GetHH s = 0 \<and> GetDOW s = 1 \<and> GetDOM s = 1 \<and> GetM s = 1"

lemma yearly_part:
  assumes "valid_clock s" "same_clock s0 s" "same_dst s0 s"
  shows "\<exists>sa. (if c then yearlyCheck s0 else Some s0) = Some sa \<and> same_clock sa s \<and>
    (if c then dst_dates (unat (RTC_YEAR s)) sa else same_dst sa s)"
  using yearlyCheck_eq[of s0] assms
  by (auto simp: same_clock_facts(1)[OF assms(2)] dst_dates_def same_clock_def same_date_def)

lemma irq_secondly:
  assumes "valid_clock s"
  shows "\<exists>s1. RTC_IRQHandler sun True s = secondlyCheck s1 \<and> same_clock s1 s \<and>
    (if yearly_due s then dst_dates (unat (RTC_YEAR s)) s1 else same_dst s1 s)"
proof -
  let ?s0 = "s\<lparr>sixtieth_count := 0, second_inc := 1\<rparr>"
  have g: "GetSS ?s0 = GetSS s" "GetMM ?s0 = GetMM s" "GetHH ?s0 = GetHH s" "GetDOW ?s0 = GetDOW s" "GetDOM ?s0 = GetDOM s" "GetM ?s0 = GetM s"
    by (simp_all add: GetSS_def GetMM_def GetHH_def GetDOW_def GetDOM_def GetM_def)
  have s0: "same_clock ?s0 s" "same_dst ?s0 s"
    by (simp_all add: same_clock_def same_date_def same_dst_def)
  from yearly_part[OF assms s0, of "GetDOW s = 1 \<and> GetDOM s = 1 \<and> GetM s = 1"] obtain sa where sa: "(if GetDOW s = 1 \<and> GetDOM s = 1 \<and> GetM s = 1 then yearlyCheck ?s0 else Some ?s0) = Some sa" "same_clock sa s"
    "if GetDOW s = 1 \<and> GetDOM s = 1 \<and> GetM s = 1 then dst_dates (unat (RTC_YEAR s)) sa else same_dst sa s"
    by blast
  from dailyCheck_eq[of sa sun] same_clock_facts(1)[OF sa(2)] assms obtain sb where
    sb: "dailyCheck sun sa = Some sb" "same_clock sb sa" "same_dst sb sa"
    by blast
  have mb: "same_clock (minutelyCheck sb) s"
    "if GetDOW s = 1 \<and> GetDOM s = 1 \<and> GetM s = 1 then dst_dates (unat (RTC_YEAR s)) (minutelyCheck sb) else same_dst (minutelyCheck sb) s"
    using sa(2,3) sb(2,3) minutelyCheck_eq[of sb] same_trans by (blast, metis)
  have m0: "same_clock (minutelyCheck ?s0) s" "same_dst (minutelyCheck ?s0) s"
    using s0 minutelyCheck_eq[of ?s0] same_trans by blast+
  consider "GetSS s \<noteq> 0" | "GetSS s = 0" "\<not> (GetMM s = 0 \<and> GetHH s = 0)" | "GetSS s = 0" "GetMM s = 0" "GetHH s = 0"
    by blast
  then show ?thesis
  proof cases
    case 1
    then show ?thesis
      using s0 by (auto simp: RTC_IRQHandler_def Let_def yearly_due_def g)
  next
    case 2
    then show ?thesis
      using m0 by (auto simp: RTC_IRQHandler_def Let_def yearly_due_def g)
  next
    case 3
    then have "RTC_IRQHandler sun True s = secondlyCheck (minutelyCheck sb)"
      using sa(1) sb(1) by (simp add: RTC_IRQHandler_def g)
    then show ?thesis
      using 3 mb by (auto simp: yearly_due_def)
  qed
qed

section \<open>Properties\<close>

lemma due_summer: "dst_dates y s \<Longrightarrow> due s \<longleftrightarrow> summer y (midnight s + tod s)"
  by (simp add: due_def dst_dates_def summer_def clock_seconds_tod)

lemma valid_year: "valid_clock s \<Longrightarrow> 2000 \<le> unat (RTC_YEAR s) \<and> unat (RTC_YEAR s) < 2100"
  by (simp add: valid_clock_def valid_date_def)

text \<open>
  C20: The interrupt is safe and keeps the registers well-formed: on registers that show a valid date and time it never fails, whatever the
  sunrise calculation returns, and leaves them with the same date and a valid time.
\<close>

theorem rtc_irq_type:
  assumes "valid_clock s"
  shows "\<exists>s'. RTC_IRQHandler sun inc s = Some s' \<and> valid_clock s' \<and> same_date s' s"
proof (cases inc)
  case True
  from irq_secondly[OF assms, of sun] obtain s1 where s1: "RTC_IRQHandler sun True s = secondlyCheck s1" "same_clock s1 s"
    by blast
  note f = same_clock_facts[OF s1(2)]
  have v: "valid_clock s1"
    using f(1) assms by simp
  have "\<exists>s'. secondlyCheck s1 = Some s' \<and> valid_clock s' \<and> same_date s' s1"
  proof (cases "due s1 = dst_status s1")
    case True
    from secondly_idle[OF v this] v show ?thesis
      by (auto simp: valid_clock_def same_date_def)
  next
    case False
    from secondly_corrects[OF v this] show ?thesis
      by blast
  qed
  then show ?thesis
    using True s1(1) f(6) by (auto simp: same_date_def)
qed (use assms in \<open>auto simp: RTC_IRQHandler_def same_date_def\<close>)

text \<open>A clock that shows a winter noon.\<close>

definition rtc_noon :: rtc where
  "rtc_noon = \<lparr>RTC_SEC = 0, RTC_MIN = 0, RTC_HOUR = 12, RTC_DOW = 0, RTC_DOM = 2, RTC_DOY = 2, RTC_MONTH = 1, RTC_YEAR = 2012, GPREG = (\<lambda>_. 0),
     UNIX = 0, t2_unix = 0, t2_hh = 0, t2_mm = 0, t2_ss = 0, DST_begin_calculated = 0, DST_end_calculated = 0,
     sunrise_unix = 0, sunset_unix = 0, noon_unix = 0, day_night = 0, no_set_rise = 0, second_inc = 0, sixtieth_count = 0\<rparr>"

lemma rtc_noon_valid: "valid_clock rtc_noon"
  by (simp add: rtc_noon_def valid_clock_def valid_date_def valid_time_def month_length_def)

theorem rtc_irq_type_witness:
  "\<exists>s'. RTC_IRQHandler (\<lambda>_ _ _. 400) True rtc_noon = Some s' \<and> valid_clock s'"
  using rtc_irq_type[OF rtc_noon_valid, of "\<lambda>_ _ _. 400" True] by blast

text \<open>
  C10: In the build of the Makefile, without the assertions of the driver, a time that is set is the time that is kept: after
  \<^verbatim>\<open>RTC_time_SetTime\<close> with a valid date and time from 2000 to 2099, the registers show it with the right day of the week, summer time is marked exactly between its dates of that year, and the next
  check leaves the registers alone and publishes the Unix time of what was set.
\<close>

theorem set_time_kept:
  assumes "valid_date (unat y) (unat m) (unat d)" "valid_time (unat h) (unat n) (unat sec)"
    and "t = unix_seconds (unat y) (unat m) (unat d) (unat h) (unat n) (unat sec)"
  shows "\<exists>s1 s2. RTC_time_SetTime y m d h n sec s = Some s1 \<and> secondlyCheck s1 = Some s2 \<and>
    GetY s2 = y \<and> GetM s2 = m \<and> GetDOM s2 = d \<and> GetHH s2 = h \<and> GetMM s2 = n \<and> GetSS s2 = sec \<and>
    unat (GetDOW s2) = (day_number (unat y) (unat m) (unat d) + 5) mod 7 \<and>
    unat (Getunix s2) = t \<and> (getDSTstatus s2 = 1 \<longleftrightarrow> summer (unat y) t)"
proof -
  from SetTime_eq[OF assms(1,2), of s] obtain s1 where
    s1: "RTC_time_SetTime y m d h n sec s = Some s1" "valid_clock s1" "unat (RTC_YEAR s1) = unat y" "unat (RTC_MONTH s1) = unat m"
    "unat (RTC_DOM s1) = unat d" "unat (RTC_HOUR s1) = unat h" "unat (RTC_MIN s1) = unat n" "unat (RTC_SEC s1) = unat sec"
    "unat (RTC_DOW s1) = (day_number (unat y) (unat m) (unat d) + 5) mod 7" "dst_dates (unat y) s1" "dst_status s1 \<longleftrightarrow> summer (unat y) t"
    unfolding assms(3) by blast
  have c: "clock_seconds s1 = t"
    unfolding clock_seconds_def s1(3-8) assms(3) by simp
  then have "due s1 \<longleftrightarrow> dst_status s1"
    using s1(10,11) by (simp add: due_summer flip: clock_seconds_tod)
  from secondly_idle[OF s1(2) this] obtain u where u: "secondlyCheck s1 = Some (s1\<lparr>t2_unix := u, UNIX := u\<rparr>)" "unat u = clock_seconds s1"
    by blast
  let ?s2 = "s1\<lparr>t2_unix := u, UNIX := u\<rparr>"
  have v: "valid_clock ?s2"
    using s1(2) by (simp add: valid_clock_def)
  have "unat (GetDOW ?s2) = (day_number (unat y) (unat m) (unat d) + 5) mod 7"
    using s1(9) mod_less_divisor[of 7 "day_number (unat y) (unat m) (unat d) + 5"] by (simp add: GetDOW_def unat_ucast_mod masks)
  with s1(1) u getters[OF v] s1(3-8,11) c show ?thesis
    by (auto simp: word_unat_eq_iff Getunix_def getDSTstatus_def RTC_ReadGPREG_def dst_status_def)
qed

theorem set_time_kept_witness:
  "\<exists>s1 s2. RTC_time_SetTime 2012 6 11 20 50 10 rtc_noon = Some s1 \<and> secondlyCheck s1 = Some s2 \<and> GetHH s2 = 20 \<and> unat (Getunix s2) = 1339447810"
proof -
  have v: "valid_date 2012 6 11"
    by (simp add: valid_date_def month_length_def)
  have "day_number 2012 6 11 = 4545"
    unfolding day_number_eq[OF v] by (simp add: month_start_def)
  then show ?thesis
    using set_time_kept[of 2012 6 11 20 50 10 "unix_seconds 2012 6 11 20 50 10" rtc_noon] v by (auto simp: valid_time_def unix_seconds_def)
qed

text \<open>
  The assertions of the driver disagree with the calendar: they take the largest value of each register for its bound and
  exclude the smallest ones too. With them, no time could be set in January or December, on the first or
  the thirty-first of a month, in the last hour of a day, or in the last minute of an hour, and no last second of a minute.
\<close>

lemma assertions_reject_valid_times:
  assumes "valid_date (unat y) (unat m) (unat d)" "valid_time (unat h) (unat n) (unat sec)"
  shows "RTC_SetTime_assert SECOND (ucast (sec :: u8)) \<and> RTC_SetTime_assert MINUTE (ucast (n :: u8)) \<and> RTC_SetTime_assert HOUR (ucast (h :: u8)) \<and>
      RTC_SetTime_assert DAYOFMONTH (ucast (d :: u8)) \<and> RTC_SetTime_assert MONTH (ucast (m :: u8)) \<longleftrightarrow>
    unat sec \<noteq> 59 \<and> unat n \<noteq> 59 \<and> unat h \<noteq> 23 \<and> unat d \<notin> {1, 31} \<and> unat m \<notin> {1, 12}"
proof -
  have u: "unat (ucast x :: u32) = unat x" for x :: u8
    by (simp add: unat_ucast_mod mod_less[OF less_trans[OF unat_u8_less]])
  have "1 \<le> unat m" "unat m \<le> 12" "1 \<le> unat d" "unat d \<le> 31" "unat sec < 60" "unat n < 60" "unat h < 24"
    using assms by (auto simp: valid_date_def valid_time_def month_length_def split: if_splits)
  then show ?thesis by (auto simp: word_less_nat_alt u)
qed

subsection \<open>The change of the clock\<close>

lemma of_year [simp]: "(of_nat (unat (y :: u32)) :: u16) = ucast y"
  by (simp add: word_unat_eq_iff unat_ucast_mod unat_of_nat)

lemma year16: "2000 \<le> y \<Longrightarrow> y < 2100 \<Longrightarrow> unat (of_nat y :: u16) = y"
  by (simp add: unat_of_nat)

text \<open>Summer time lasts for more than a hundred days, and is over before the next year begins.\<close>

lemma summer_long:
  assumes "2000 \<le> y" "y < 2100"
  shows "summer_begin y + 8640000 \<le> summer_end y"
proof -
  note v = dst_day_number(1,2)[of "of_nat y", unfolded year16[OF assms], OF assms]
  have d: "unat (begin_DST_dayOfMonth (of_nat y)) \<le> 31"
    using v(1) by (simp add: valid_date_def month_length_def)
  have "day_number y 3 (unat (begin_DST_dayOfMonth (of_nat y))) + 100 \<le> day_number y 10 (unat (end_DST_dayOfMonth (of_nat y)))"
    unfolding day_number_eq[OF v(1)] day_number_eq[OF v(2)] using d by (simp add: month_start_def)
  then show ?thesis
    by (simp add: summer_begin_def summer_end_def unix_seconds_def)
qed

lemma month_start_october: "month_start ! (10 - 1) = 273"
  by (simp add: month_start_def)

lemma summer_over:
  assumes "valid_clock s" "unat (RTC_YEAR s) = Suc y" "2000 \<le> y"
  shows "summer_end y < clock_seconds s"
proof -
  have y: "y < 2100" "valid_date (Suc y) (unat (RTC_MONTH s)) (unat (RTC_DOM s))"
    using assms by (auto simp: valid_clock_def valid_date_def)
  note v = dst_day_number(2)[of "of_nat y", unfolded year16[OF assms(3) y(1)], OF assms(3) y(1)]
  have mono: "a \<le> b \<Longrightarrow> i \<le> 1 \<Longrightarrow> e \<le> 31 \<Longrightarrow> 365 * k + a + 273 + i + (e - 1) < 365 * (k + 1) + b + c + d + f" for a b c d e f i k :: nat
    by simp
  have "unat (end_DST_dayOfMonth (of_nat y)) \<le> 31" "Suc y - 2000 = y - 2000 + 1"
    using v assms(3) by (simp_all add: valid_date_def month_length_def)
  then have "day_number y 10 (unat (end_DST_dayOfMonth (of_nat y))) < day_number (Suc y) (unat (RTC_MONTH s)) (unat (RTC_DOM s))"
    unfolding day_number_eq[OF v] day_number_eq[OF y(2)] month_start_october by (simp only:) (rule mono, simp_all add: div_le_mono)
  then show ?thesis
    unfolding summer_end_def clock_seconds_def assms(2) by (simp add: unix_seconds_def)
qed

text \<open>
  Summer time begins once. On the last Sunday of March, with the dates of the year known and summer time off, the check
  leaves the clock alone until one o'clock; then it puts it forward by an hour, marks summer time,
  and the next check leaves the clock alone.
\<close>

theorem summer_time_begins:
  assumes "valid_clock s" "unat (RTC_MONTH s) = 3" "unat (RTC_DOM s) = unat (begin_DST_dayOfMonth (ucast (RTC_YEAR s)))"
    and "dst_dates (unat (RTC_YEAR s)) s" "\<not> dst_status s" "tod s < 82800"
  shows "\<exists>s'. secondlyCheck s = Some s' \<and> same_date s' s \<and>
    (if tod s < 3600 then tod s' = tod s \<and> \<not> dst_status s'
     else tod s' = tod s + 3600 \<and> dst_status s' \<and>
       (\<exists>s''. secondlyCheck s' = Some s'' \<and> same_date s'' s \<and> tod s'' = tod s' \<and> dst_status s''))"
proof -
  let ?y = "unat (RTC_YEAR s)"
  have b: "summer_begin ?y = midnight s + 3600"
    using assms(2,3) by (simp add: summer_begin_def midnight_def unix_seconds_def)
  then have on: "summer ?y (midnight s + k) \<longleftrightarrow> 3600 \<le> k" if "k < 86400" for k
    using summer_long[of ?y] valid_year[OF assms(1)] that by (auto simp: summer_def)
  have due: "due s \<longleftrightarrow> 3600 \<le> tod s"
    using due_summer[OF assms(4)] on[of "tod s"] tod_bound[OF assms(1)] by simp
  show ?thesis
  proof (cases "tod s < 3600")
    case True
    with secondly_idle[OF assms(1)] due assms(5) show ?thesis
      by (auto simp: same_date_def tod_def dst_status_def)
  next
    case False
    with corrected_tod[OF assms(1)] due assms(5,6) obtain s' where
      s': "secondlyCheck s = Some s'" "valid_clock s'" "same_date s' s" "tod s' = tod s + 3600" "dst_dates ?y s'"
      "dst_status s' \<longleftrightarrow> summer ?y (midnight s + tod s')"
      by auto
    then have "dst_status s'" "due s'"
      using on[of "tod s'"] False assms(6) due_summer[OF s'(5)] by (simp_all add: midnight_same_date[OF s'(3)])
    with secondly_idle[OF s'(2)] s' False show ?thesis
      by (auto simp: same_date_def tod_def dst_status_def)
  qed
qed

text \<open>
  A peripheral that advances: below the end of the day, a second later the registers show the next second of the same
  day, and nothing else has changed. The clock running for \<open>n\<close> seconds with its interrupt.
\<close>

definition advances :: "(rtc \<Rightarrow> rtc) \<Rightarrow> bool" where
  "advances tick \<longleftrightarrow> (\<forall>s. valid_clock s \<and> tod s < 86399 \<longrightarrow>
     valid_clock (tick s) \<and> same_date (tick s) s \<and> tod (tick s) = tod s + 1 \<and> GPREG (tick s) = GPREG s \<and> same_dst (tick s) s)"

fun clock_run :: "sun \<Rightarrow> (rtc \<Rightarrow> rtc) \<Rightarrow> nat \<Rightarrow> rtc \<Rightarrow> rtc option" where
  "clock_run sun tick 0 s = Some s"
| "clock_run sun tick (Suc n) s = Option.bind (RTC_IRQHandler sun True (tick s)) (clock_run sun tick n)"

text \<open>The morning of the last Sunday of October, with summer time on.\<close>

definition october_morning :: "rtc \<Rightarrow> bool" where
  "october_morning s \<longleftrightarrow> valid_clock s \<and> unat (RTC_MONTH s) = 10 \<and> unat (RTC_DOM s) = unat (end_DST_dayOfMonth (ucast (RTC_YEAR s))) \<and>
     dst_dates (unat (RTC_YEAR s)) s \<and> dst_status s \<and> tod s \<le> 3600"

lemma october_step:
  assumes "october_morning s" "valid_clock s1" "same_date s1 s" "tod s1 = tod s + 1" "GPREG s1 = GPREG s" "same_dst s1 s"
  shows "\<exists>s'. RTC_IRQHandler sun True s1 = Some s' \<and> october_morning s' \<and> same_date s' s"
proof -
  note o = assms(1)[unfolded october_morning_def]
  let ?y = "unat (RTC_YEAR s)"
  have d: "unat (RTC_MONTH s1) = 10" "RTC_YEAR s1 = RTC_YEAR s" "unat (RTC_DOM s1) = unat (end_DST_dayOfMonth (ucast (RTC_YEAR s)))" "dst_dates ?y s1" "dst_status s1"
    using o assms(3,5) same_trans(3)[OF assms(6)] by (auto simp: same_date_def dst_status_def)
  have "\<not> yearly_due s1"
    using getters(2)[OF assms(2)] d(1) by (auto simp: yearly_due_def)
  with irq_secondly[OF assms(2), of sun] obtain s2 where
    s2: "RTC_IRQHandler sun True s1 = secondlyCheck s2" "same_clock s2 s1" "same_dst s2 s1"
    by auto
  note f = same_clock_facts[OF s2(2)]
  have e: "summer_end ?y = midnight s1 + 3600"
    using d(1-3) by (simp add: summer_end_def midnight_def unix_seconds_def)
  have v: "valid_clock s2" "dst_dates ?y s2" "dst_status s2" "midnight s2 = midnight s1" "tod s2 = tod s1" "2000 \<le> ?y" "?y < 2100"
    using f assms(2) d(4,5) same_trans(3)[OF s2(3)] valid_year[OF assms(2)] d(2) by auto
  have on: "summer ?y (midnight s1 + k) \<longleftrightarrow> k \<le> 3600" for k
    using summer_long[OF v(6,7)] e by (auto simp: summer_def)
  have due: "due s2 \<longleftrightarrow> tod s1 \<le> 3600"
    using due_summer[OF v(2)] on v(4,5) by simp
  have dd: "unat (RTC_MONTH s') = 10 \<and> unat (RTC_DOM s') = unat (end_DST_dayOfMonth (ucast (RTC_YEAR s'))) \<and> same_date s' s" if "same_date s' s2" for s'
    using that f(6) d(1-3) assms(3) by (auto simp: same_date_def)
  show ?thesis
  proof (cases "tod s1 \<le> 3600")
    case True
    with secondly_idle[OF v(1)] due v(3) obtain t where "secondlyCheck s2 = Some (s2\<lparr>t2_unix := t, UNIX := t\<rparr>)"
      by auto
    then show ?thesis
      using s2(1) v dd[of "s2\<lparr>t2_unix := t, UNIX := t\<rparr>"] True f(7) d(2)
      by (auto simp: october_morning_def same_date_def valid_clock_def dst_dates_def dst_status_def tod_def)
  next
    case False
    then have "tod s1 = 3601"
      using assms(4) o by simp
    with corrected_tod[OF v(1)] due v(3,4,5) f(7) d(2) obtain s' where
      s': "secondlyCheck s2 = Some s'" "valid_clock s'" "same_date s' s2" "tod s' = 1" "dst_dates ?y s'" "dst_status s' \<longleftrightarrow> summer ?y (midnight s1 + tod s')"
      by auto
    then show ?thesis
      using s2(1) dd[OF s'(3)] on[of "tod s'"] f(7) d(2) by (auto simp: october_morning_def same_date_def)
  qed
qed

text \<open>
  C24: Summer time does not end. On the last Sunday of October with summer time on, however long the clock runs, it never shows a time after one
  o'clock and never leaves that day: at one second past one the interrupt puts it back to one second past
  midnight, and setting the time marks summer time again, because the time that was set lies before the end of it.
\<close>

theorem summer_time_never_ends:
  assumes "october_morning s" "advances tick"
  shows "\<exists>s'. clock_run sun tick n s = Some s' \<and> same_date s' s \<and> tod s' \<le> 3600 \<and> dst_status s'"
proof -
  have "\<exists>s'. clock_run sun tick n s = Some s' \<and> october_morning s' \<and> same_date s' s"
    using assms(1)
  proof (induction n arbitrary: s)
    case (Suc n)
    have "valid_clock s" "tod s < 86399"
      using Suc.prems by (auto simp: october_morning_def)
    with assms(2) have "valid_clock (tick s)" "same_date (tick s) s" "tod (tick s) = tod s + 1" "GPREG (tick s) = GPREG s" "same_dst (tick s) s"
      by (auto simp: advances_def)
    from october_step[OF Suc.prems this, of sun] obtain s' where
      "RTC_IRQHandler sun True (tick s) = Some s'" "october_morning s'" "same_date s' s"
      by blast
    with Suc.IH[of s'] show ?case
      by (auto simp: same_date_def)
  qed (simp add: same_date_def)
  then show ?thesis
    by (auto simp: october_morning_def)
qed

text \<open>Such a peripheral, and such a morning.\<close>

definition second_later :: "rtc \<Rightarrow> rtc" where
  "second_later s = (let k = tod s + 1 in
     s\<lparr>RTC_HOUR := of_nat (k div 3600), RTC_MIN := of_nat (k mod 3600 div 60), RTC_SEC := of_nat (k mod 60)\<rparr>)"

lemma second_later_advances: "advances second_later"
proof -
  have "valid_clock (second_later s) \<and> tod (second_later s) = tod s + 1" if "valid_clock s" "tod s < 86399" for s
  proof -
    let ?k = "tod s + 1"
    have "?k div 3600 < 24" "?k mod 3600 div 60 < 60" "?k mod 60 < 60"
      using that(2) by (simp_all add: less_mult_imp_div_less)
    then show ?thesis
      using that(1) hms_split[of ?k] unfolding second_later_def Let_def valid_clock_def tod_def valid_time_def by (simp add: unat_of_nat)
  qed
  then show ?thesis
    by (simp add: advances_def same_date_def same_dst_def second_later_def Let_def)
qed

lemma october_2012:
  "\<exists>s. RTC_time_SetTime 2012 10 28 0 30 0 rtc_noon = Some s \<and> october_morning s \<and> unat (RTC_DOM s) = 28"
proof -
  have v: "valid_date 2012 10 28" "valid_date 2012 3 25"
    by (simp_all add: valid_date_def month_length_def)
  have d: "begin_DST_dayOfMonth 2012 = 25" "end_DST_dayOfMonth 2012 = 28"
    by (simp_all add: begin_DST_dayOfMonth_def end_DST_dayOfMonth_def)
  have "summer 2012 (unix_seconds 2012 10 28 0 30 0)"
    by (simp add: summer_def summer_begin_def summer_end_def unix_seconds_def d day_number_eq[OF v(1)] day_number_eq[OF v(2)] month_start_def)
  with SetTime_eq[of 2012 10 28 0 30 0 rtc_noon] v(1) obtain s where
    s: "RTC_time_SetTime 2012 10 28 0 30 0 rtc_noon = Some s" "valid_clock s" "unat (RTC_YEAR s) = 2012" "unat (RTC_MONTH s) = 10" "unat (RTC_DOM s) = 28"
    "unat (RTC_HOUR s) = 0" "unat (RTC_MIN s) = 30" "unat (RTC_SEC s) = 0" "dst_dates 2012 s" "dst_status s"
    by (auto simp: valid_time_def)
  moreover have "RTC_YEAR s = 2012"
    using s(3) by (simp add: word_unat_eq_iff)
  ultimately show ?thesis
    by (auto simp: october_morning_def tod_def d)
qed

theorem summer_time_never_ends_witness:
  "\<exists>s s'. RTC_time_SetTime 2012 10 28 0 30 0 rtc_noon = Some s \<and> clock_run (\<lambda>_ _ _. 400) second_later 1000000 s = Some s' \<and>
    unat (RTC_DOM s') = 28 \<and> tod s' \<le> 3600"
  using october_2012 summer_time_never_ends[OF _ second_later_advances, of _ "\<lambda>_ _ _. 400" 1000000] by (fastforce simp: same_date_def)

lemma march_2012:
  "\<exists>s. RTC_time_SetTime 2012 3 25 0 59 59 rtc_noon = Some s \<and> valid_clock s \<and> RTC_YEAR s = 2012 \<and> unat (RTC_MONTH s) = 3 \<and>
    unat (RTC_DOM s) = 25 \<and> dst_dates 2012 s \<and> \<not> dst_status s \<and> tod s = 3599"
proof -
  have v: "valid_date 2012 3 25"
    by (simp add: valid_date_def month_length_def)
  have d: "begin_DST_dayOfMonth 2012 = 25"
    by (simp add: begin_DST_dayOfMonth_def)
  have "\<not> summer 2012 (unix_seconds 2012 3 25 0 59 59)"
    by (simp add: summer_def summer_begin_def unix_seconds_def d)
  with SetTime_eq[of 2012 3 25 0 59 59 rtc_noon] v show ?thesis
    by (auto simp: valid_time_def tod_def word_unat_eq_iff[of _ 2012])
qed

theorem summer_time_begins_witness:
  "\<exists>s s'. RTC_time_SetTime 2012 3 25 0 59 59 rtc_noon = Some s \<and> secondlyCheck (second_later s) = Some s' \<and> tod s' = 7200 \<and> dst_status s'"
proof -
  from march_2012 obtain s where s: "RTC_time_SetTime 2012 3 25 0 59 59 rtc_noon = Some s" "valid_clock s" "RTC_YEAR s = 2012"
    "unat (RTC_MONTH s) = 3" "unat (RTC_DOM s) = 25" "dst_dates 2012 s" "\<not> dst_status s" "tod s = 3599"
    by blast
  with second_later_advances have l: "valid_clock (second_later s)" "same_date (second_later s) s" "tod (second_later s) = 3600"
    "GPREG (second_later s) = GPREG s" "same_dst (second_later s) s"
    by (auto simp: advances_def)
  then have "dst_dates 2012 (second_later s)" "\<not> dst_status (second_later s)" "unat (RTC_MONTH (second_later s)) = 3"
    "unat (RTC_DOM (second_later s)) = unat (begin_DST_dayOfMonth (ucast (RTC_YEAR (second_later s))))" "unat (RTC_YEAR (second_later s)) = 2012"
    using s same_trans(3)[OF l(5)] by (auto simp: dst_status_def same_date_def begin_DST_dayOfMonth_def)
  with summer_time_begins[OF l(1)] l(3) s(1) show ?thesis
    by auto
qed

text \<open>
  The dates of summer time are not renewed in most years. As long as the dates of the year before are in the clock and
  summer time is off, the interrupt at any moment of the year keeps time, dates and mark, unless it happens at
  midnight of a first of January with day of the week 1: summer time does not begin in that year.
\<close>

theorem stale_year_has_no_summer:
  assumes "valid_clock s" "unat (RTC_YEAR s) = Suc y" "2000 \<le> y" "dst_dates y s" "\<not> dst_status s"
    and "\<not> (GetDOW s = 1 \<and> unat (RTC_MONTH s) = 1 \<and> unat (RTC_DOM s) = 1 \<and> tod s = 0)"
  shows "\<exists>s'. RTC_IRQHandler sun True s = Some s' \<and> same_clock s' s \<and> dst_dates y s' \<and> \<not> dst_status s'"
proof -
  have "\<not> yearly_due s"
    using assms(6) getters[OF assms(1)] by (auto simp: yearly_due_def tod_def word_unat_eq_iff)
  with irq_secondly[OF assms(1), of sun] obtain s1 where
    s1: "RTC_IRQHandler sun True s = secondlyCheck s1" "same_clock s1 s" "same_dst s1 s"
    by auto
  note f = same_clock_facts[OF s1(2)]
  have "dst_dates y s1" "\<not> dst_status s1"
    using same_trans(3)[OF s1(3) assms(4)] f(4) assms(5) by auto
  moreover have "\<not> due s1"
    using summer_over[OF assms(1-3)] \<open>dst_dates y s1\<close> f(5) by (simp add: due_def dst_dates_def)
  ultimately obtain t where "secondlyCheck s1 = Some (s1\<lparr>t2_unix := t, UNIX := t\<rparr>)"
    using secondly_idle[of s1] f(1) assms(1) by auto
  then show ?thesis
    using s1 \<open>dst_dates y s1\<close> \<open>\<not> dst_status s1\<close> by (auto simp: same_clock_def same_date_def dst_dates_def dst_status_def)
qed

theorem stale_year_has_no_summer_witness:
  "\<exists>s s'. RTC_time_SetTime 2013 12 31 23 59 59 rtc_noon = Some s \<and>
    RTC_IRQHandler (\<lambda>_ _ _. 400) True (s\<lparr>RTC_YEAR := 2014, RTC_MONTH := 7, RTC_DOM := 1\<rparr>) = Some s' \<and> \<not> dst_status s'"
proof -
  have v: "valid_date 2013 12 31" "valid_date 2013 10 27"
    by (simp_all add: valid_date_def month_length_def)
  have d: "end_DST_dayOfMonth 2013 = 27"
    by (simp add: end_DST_dayOfMonth_def)
  have "\<not> summer 2013 (unix_seconds 2013 12 31 23 59 59)"
    by (simp add: summer_def summer_end_def unix_seconds_def d day_number_eq[OF v(1)] day_number_eq[OF v(2)] month_start_def)
  with SetTime_eq[of 2013 12 31 23 59 59 rtc_noon] v(1) obtain s where
    s: "RTC_time_SetTime 2013 12 31 23 59 59 rtc_noon = Some s" "valid_clock s" "dst_dates 2013 s" "\<not> dst_status s"
    by (auto simp: valid_time_def)
  let ?s = "s\<lparr>RTC_YEAR := 2014, RTC_MONTH := 7, RTC_DOM := 1\<rparr>"
  have "valid_clock ?s" "dst_dates 2013 ?s" "\<not> dst_status ?s"
    using s by (simp_all add: valid_clock_def valid_date_def month_length_def dst_dates_def dst_status_def)
  with stale_year_has_no_summer[of ?s 2013 "\<lambda>_ _ _. 400"] s(1) show ?thesis
    by auto
qed

end
