(* ===== verification/Net_Buf.thy ===== *)
theory Net_Buf
  imports Prelude
begin

text \<open>
  The packet buffer of the network code (\<^verbatim>\<open>WiShield/uip.c\<close>): bytes read and written in blocks, as
  \<^verbatim>\<open>memcpy\<close> and the fields of the packet headers do. A block outside of the object has no value.
  A 16-bit field is stored in the byte order of the processor, low byte first; the macro
  \<^verbatim>\<open>HTONS\<close> swaps the two bytes, so that a field written with it is in network order, high byte first.
  The lemmas are the laws of the blocks: a block is read back as it was written, and a write
  leaves every disjoint block as it was.
\<close>

section \<open>Blocks of bytes\<close>

definition mem_read :: "u8 list \<Rightarrow> nat \<Rightarrow> nat \<Rightarrow> u8 list option" where
  "mem_read m a n = (if a + n \<le> length m then Some (take n (drop a m)) else None)"

definition mem_write :: "u8 list \<Rightarrow> nat \<Rightarrow> u8 list \<Rightarrow> u8 list option" where
  "mem_write m a bs = (if a + length bs \<le> length m then Some (take a m @ bs @ drop (a + length bs) m) else None)"

definition HTONS :: "u16 \<Rightarrow> u16" where
  "HTONS n = push_bit 8 n OR drop_bit 8 n"

definition bytes16 :: "u16 \<Rightarrow> u8 list" where
  "bytes16 w = [ucast w, ucast (drop_bit 8 w)]"

definition word16 :: "u8 list \<Rightarrow> u16" where
  "word16 bs = ucast (bs ! 0) OR push_bit 8 (ucast (bs ! 1))"

definition get16 :: "u8 list \<Rightarrow> nat \<Rightarrow> u16 option" where
  "get16 m a = map_option word16 (mem_read m a 2)"

definition put16 :: "u8 list \<Rightarrow> nat \<Rightarrow> u16 \<Rightarrow> u8 list option" where
  "put16 m a w = mem_write m a (bytes16 w)"

text \<open>An IP address is an array of two 16-bit words.\<close>

type_synonym ipaddr = "u16 \<times> u16"

definition get_ip :: "u8 list \<Rightarrow> nat \<Rightarrow> ipaddr option" where
  "get_ip m a = do { x \<leftarrow> get16 m a; y \<leftarrow> get16 m (a + 2); Some (x, y) }"

definition put_ip :: "u8 list \<Rightarrow> nat \<Rightarrow> ipaddr \<Rightarrow> u8 list option" where
  "put_ip m a ip = do { m \<leftarrow> put16 m a (fst ip); put16 m (a + 2) (snd ip) }"

definition uip_ipaddr_maskcmp :: "ipaddr \<Rightarrow> ipaddr \<Rightarrow> ipaddr \<Rightarrow> bool" where
  "uip_ipaddr_maskcmp a b m \<longleftrightarrow> fst a AND fst m = fst b AND fst m \<and> snd a AND snd m = snd b AND snd m"

section \<open>Laws of the blocks\<close>

text \<open>\<open>block\<close> and \<open>put_block\<close> are the values of a read and a write within the object.\<close>

definition block :: "u8 list \<Rightarrow> nat \<Rightarrow> nat \<Rightarrow> u8 list" where
  "block m a n = take n (drop a m)"

definition put_block :: "u8 list \<Rightarrow> nat \<Rightarrow> u8 list \<Rightarrow> u8 list" where
  "put_block m a bs = take (length m) (take a m @ bs @ drop (a + length bs) m)"

named_theorems net_mem \<open>blocks of the packet buffer\<close>

lemma mem_read_block [net_mem]: "a + n \<le> length m \<Longrightarrow> mem_read m a n = Some (block m a n)"
  by (simp add: mem_read_def block_def)

lemma mem_write_put [net_mem]: "a + length bs \<le> length m \<Longrightarrow> mem_write m a bs = Some (put_block m a bs)"
  by (simp add: mem_write_def put_block_def)

lemma length_block [net_mem]: "a + n \<le> length m \<Longrightarrow> length (block m a n) = n"
  by (simp add: block_def)

lemma length_put [simp]: "length (put_block m a bs) = length m"
  by (simp add: put_block_def)

lemma block_put_same [net_mem]:
  "a + length bs \<le> length m \<Longrightarrow> n = length bs \<Longrightarrow> block (put_block m a bs) a n = bs"
  by (simp add: block_def put_block_def)

lemma nth_put: "i < length m \<Longrightarrow> put_block m a bs ! i = (if a \<le> i \<and> i < a + length bs then bs ! (i - a) else m ! i)"
  by (auto simp: put_block_def nth_append min_def)

lemma block_put_other [net_mem]:
  assumes "b + n \<le> length m" "b + n \<le> a \<or> a + length bs \<le> b"
  shows "block (put_block m a bs) b n = block m b n"
proof (rule nth_equalityI)
  fix i
  assume "i < length (block (put_block m a bs) b n)"
  then have "i < n" using assms by (simp add: net_mem)
  then have "b + i < length m" "\<not> (a \<le> b + i \<and> b + i < a + length bs)"
    using assms by linarith+
  with \<open>i < n\<close> assms show "block (put_block m a bs) b n ! i = block m b n ! i"
    by (auto simp: block_def nth_put)
qed (use assms in \<open>simp add: net_mem\<close>)

lemma block_split: "block m a (n + k) = block m a n @ block m (a + n) k"
  unfolding block_def take_add by (simp add: add.commute)

section \<open>Words in the buffer\<close>

lemma length_bytes16 [simp]: "length (bytes16 w) = 2"
  by (simp add: bytes16_def)

lemma word16_bytes16 [simp]: "word16 (bytes16 w) = w"
  by (rule bit_word_eqI) (auto simp: word16_def bytes16_def bit_simps)

lemma HTONS_HTONS [simp]: "HTONS (HTONS w) = w"
  by (rule bit_word_eqI) (auto simp: HTONS_def bit_simps)

lemma bytes16_HTONS: "bytes16 (HTONS w) = [ucast (drop_bit 8 w), ucast w]"
  unfolding bytes16_def HTONS_def by (auto intro!: bit_word_eqI simp: bit_simps)

lemma length2_cases: "length xs = 2 \<Longrightarrow> \<exists>a b. xs = [a, b]"
  by (cases xs; cases "tl xs") auto

lemma not_bit_u8: "8 \<le> n \<Longrightarrow> \<not> bit (x :: u8) n"
  using bit_imp_le_length[of x n] by auto

lemma bytes16_word16: "length bs = 2 \<Longrightarrow> bytes16 (word16 bs) = bs"
  by (drule length2_cases) (auto simp: bytes16_def word16_def bit_simps not_bit_u8 intro!: bit_word_eqI)

definition ip_of :: "u8 list \<Rightarrow> ipaddr" where
  "ip_of bs = (word16 (take 2 bs), word16 (drop 2 bs))"

definition ip_bytes :: "ipaddr \<Rightarrow> u8 list" where
  "ip_bytes ip = bytes16 (fst ip) @ bytes16 (snd ip)"

lemma length_ip_bytes [simp]: "length (ip_bytes ip) = 4"
  by (simp add: ip_bytes_def)

lemma ip_of_bytes [simp]: "ip_of (ip_bytes ip) = ip"
  by (simp add: ip_of_def ip_bytes_def)

lemma ip_bytes_of: "length bs = 4 \<Longrightarrow> ip_bytes (ip_of bs) = bs"
  by (simp add: ip_of_def ip_bytes_def bytes16_word16)

lemma get16_block [net_mem]: "a + 2 \<le> length m \<Longrightarrow> get16 m a = Some (word16 (block m a 2))"
  by (simp add: get16_def net_mem)

lemma put16_put [net_mem]: "a + 2 \<le> length m \<Longrightarrow> put16 m a w = Some (put_block m a (bytes16 w))"
  by (simp add: put16_def net_mem)

lemma get_ip_block [net_mem]: "a + 4 \<le> length m \<Longrightarrow> get_ip m a = Some (ip_of (block m a 4))"
  by (simp add: get_ip_def net_mem ip_of_def block_def drop_take)

lemma put_put_block:
  "a + length bs + length cs \<le> length m \<Longrightarrow> b = a + length bs \<Longrightarrow>
    put_block (put_block m a bs) b cs = put_block m a (bs @ cs)"
  by (simp add: put_block_def ac_simps)

lemma put_ip_put [net_mem]: "a + 4 \<le> length m \<Longrightarrow> put_ip m a ip = Some (put_block m a (ip_bytes ip))"
  by (simp add: put_ip_def net_mem ip_bytes_def put_put_block)

lemma put_put_same: "length bs = length cs \<Longrightarrow> put_block (put_block m a bs) a cs = put_block m a cs"
  by (rule nth_equalityI) (auto simp: nth_put)

lemma block_nth: "a < length m \<Longrightarrow> block m a 1 = [m ! a]"
  by (simp add: block_def take_Suc_conv_app_nth)

end
