(* ===== verification/Address_Cache.thy ===== *)
theory Address_Cache
  imports Main
begin

text \<open>
  The contract of a cache that may forget: a value that was learned is found at once, learning another key
  and ageing either keep or drop what is found for a key. It is stated for the keys that the cache
  accepts (\<open>good\<close>). The client's lemma follows for every sequence of operations: what is found is the
  value that was learned last.
\<close>

datatype ('k, 'v) cache_op = Learn 'k 'v | Age

fun latest :: "'k \<Rightarrow> 'v option \<Rightarrow> ('k, 'v) cache_op list \<Rightarrow> 'v option" where
  "latest k old [] = old"
| "latest k old (Learn k' v # ops) = latest k (if k' = k then Some v else old) ops"
| "latest k old (Age # ops) = latest k old ops"

fun run_ops :: "('k \<Rightarrow> 'v \<Rightarrow> 's \<Rightarrow> 's) \<Rightarrow> ('s \<Rightarrow> 's) \<Rightarrow> ('k, 'v) cache_op list \<Rightarrow> 's \<Rightarrow> 's" where
  "run_ops learn age [] s = s"
| "run_ops learn age (Learn k v # ops) s = run_ops learn age ops (learn k v s)"
| "run_ops learn age (Age # ops) s = run_ops learn age ops (age s)"

fun op_ok :: "('v \<Rightarrow> bool) \<Rightarrow> ('k, 'v) cache_op \<Rightarrow> bool" where
  "op_ok val_ok (Learn k v) = val_ok v"
| "op_ok val_ok Age = True"

locale cache =
  fixes ok :: "'s \<Rightarrow> bool"
    and good :: "'k \<Rightarrow> bool"
    and val_ok :: "'v \<Rightarrow> bool"
    and lookup :: "'k \<Rightarrow> 's \<Rightarrow> 'v option"
    and learn :: "'k \<Rightarrow> 'v \<Rightarrow> 's \<Rightarrow> 's"
    and age :: "'s \<Rightarrow> 's"
  assumes learn_ok: "ok s \<Longrightarrow> val_ok v \<Longrightarrow> ok (learn k v s)"
    and age_ok: "ok s \<Longrightarrow> ok (age s)"
    and lookup_learn: "ok s \<Longrightarrow> val_ok v \<Longrightarrow> good k \<Longrightarrow> lookup k (learn k v s) = Some v"
    and lookup_learn_other: "ok s \<Longrightarrow> val_ok v \<Longrightarrow> good k \<Longrightarrow> k' \<noteq> k \<Longrightarrow> lookup k (learn k' v s) \<in> {None, lookup k s}"
    and lookup_age: "ok s \<Longrightarrow> good k \<Longrightarrow> lookup k (age s) \<in> {None, lookup k s}"
begin

lemma run_ok: "ok s \<Longrightarrow> list_all (op_ok val_ok) ops \<Longrightarrow> ok (run_ops learn age ops s)"
proof (induction ops arbitrary: s)
  case (Cons op ops)
  then show ?case by (cases op) (simp_all add: learn_ok age_ok)
qed simp

lemma forgets_or_keeps:
  assumes "ok s" "good k" "list_all (op_ok val_ok) ops" "lookup k s \<in> {None, old}"
  shows "lookup k (run_ops learn age ops s) \<in> {None, latest k old ops}"
  using assms
proof (induction ops arbitrary: s old)
  case (Cons op ops)
  show ?case
  proof (cases op)
    case (Learn k' v)
    with Cons.prems lookup_learn[of s v k] lookup_learn_other[of s v k k']
    have "lookup k (learn k' v s) \<in> {None, if k' = k then Some v else old}"
      by auto
    with Cons Learn show ?thesis by (simp add: learn_ok)
  next
    case Age
    with Cons.prems lookup_age[of s k] have "lookup k (age s) \<in> {None, old}"
      by auto
    with Cons Age show ?thesis by (simp add: age_ok)
  qed
qed simp

lemma finds_latest:
  assumes "ok s" "good k" "list_all (op_ok val_ok) ops" "lookup k (run_ops learn age ops s) = Some v"
  shows "latest k (lookup k s) ops = Some v"
  using forgets_or_keeps[OF assms(1,2,3), of "lookup k s"] assms(4) by auto

end

end
