(* ===== verification/Arp.thy ===== *)
theory Arp
  imports Net_Buf Address_Cache
begin

text \<open>
  The address resolution of \<^verbatim>\<open>WiShield/uip_arp.c\<close>: the table of Ethernet addresses, its ageing, the answer to
  incoming ARP packets and the Ethernet header of outgoing IP packets. The state holds the globals of
  \<^verbatim>\<open>uip_arp.c\<close> and of the packet buffer; the loop variables \<^verbatim>\<open>i\<close>, \<^verbatim>\<open>c\<close>, \<^verbatim>\<open>tmpage\<close> and
  \<^verbatim>\<open>ipaddr\<close>, which every function sets before it reads them, are local. A field of a header is its offset
  in \<^verbatim>\<open>uip_buf\<close>. The table satisfies the contract of a cache
  (locale \<open>cache\<close>): what is found for an address is what was learned last for it.
\<close>

section \<open>State\<close>

record arp_entry =
  e_ipaddr :: ipaddr
  e_ethaddr :: "u8 list"
  e_time :: u8

record net =
  uip_buf :: "u8 list"
  uip_len :: u16
  uip_appdata :: nat
  uip_ethaddr :: "u8 list"
  uip_hostaddr :: ipaddr
  uip_draddr :: ipaddr
  uip_netmask :: ipaddr
  arp_table :: "arp_entry list"
  arptime :: u8

definition broadcast_ethaddr :: "u8 list" where
  "broadcast_ethaddr = replicate 6 0xff"

definition broadcast_ipaddr :: ipaddr where
  "broadcast_ipaddr = (0xffff, 0xffff)"

section \<open>Table\<close>

definition uip_arp_init :: "('a) net_scheme \<Rightarrow> ('a) net_scheme" where
  "uip_arp_init s = s\<lparr>arp_table := map (\<lambda>e. e\<lparr>e_ipaddr := (0, 0)\<rparr>) (arp_table s)\<rparr>"

definition age_entry :: "u8 \<Rightarrow> arp_entry \<Rightarrow> arp_entry" where
  "age_entry now e =
    (if fst (e_ipaddr e) OR snd (e_ipaddr e) \<noteq> 0 \<and> uint now - uint (e_time e) \<ge> 120
     then e\<lparr>e_ipaddr := (0, 0)\<rparr> else e)"

definition uip_arp_timer :: "('a) net_scheme \<Rightarrow> ('a) net_scheme" where
  "uip_arp_timer s =
    (let s = s\<lparr>arptime := arptime s + 1\<rparr> in s\<lparr>arp_table := map (age_entry (arptime s)) (arp_table s)\<rparr>)"

text \<open>The index at which a search through the table stops, the size of the table if it finds nothing.\<close>

fun arp_find :: "(arp_entry \<Rightarrow> bool) \<Rightarrow> arp_entry list \<Rightarrow> nat" where
  "arp_find p [] = 0"
| "arp_find p (e # es) = (if p e then 0 else Suc (arp_find p es))"

fun arp_oldest :: "u8 \<Rightarrow> arp_entry list \<Rightarrow> nat \<Rightarrow> u8 \<Rightarrow> nat \<Rightarrow> nat" where
  "arp_oldest now [] i tmpage c = c"
| "arp_oldest now (e # es) i tmpage c =
    (if uint now - uint (e_time e) > uint tmpage then arp_oldest now es (Suc i) (now - e_time e) i
     else arp_oldest now es (Suc i) tmpage c)"

definition entry_in_use :: "ipaddr \<Rightarrow> bool" where
  "entry_in_use ip \<longleftrightarrow> fst ip \<noteq> 0 \<and> snd ip \<noteq> 0"

definition arp_slot :: "('a) net_scheme \<Rightarrow> nat" where
  "arp_slot s =
    (let i = arp_find (\<lambda>e. fst (e_ipaddr e) = 0 \<and> snd (e_ipaddr e) = 0) (arp_table s)
     in if i = length (arp_table s) then arp_oldest (arptime s) (arp_table s) 0 0 0 else i)"

definition uip_arp_update :: "ipaddr \<Rightarrow> u8 list \<Rightarrow> ('a) net_scheme \<Rightarrow> ('a) net_scheme" where
  "uip_arp_update ip eth s =
    (let t = arp_table s; i = arp_find (\<lambda>e. entry_in_use (e_ipaddr e) \<and> ip = e_ipaddr e) t
     in if i < length t then s\<lparr>arp_table := t[i := (t ! i)\<lparr>e_ethaddr := eth, e_time := arptime s\<rparr>]\<rparr>
        else let i = arp_slot s
             in s\<lparr>arp_table := t[i := \<lparr>e_ipaddr = ip, e_ethaddr = eth, e_time = arptime s\<rparr>]\<rparr>)"

section \<open>Packets\<close>

definition arp_reply :: "('a) net_scheme \<Rightarrow> ('a) net_scheme option" where
  "arp_reply s = do {
     m \<leftarrow> put16 (uip_buf s) 20 (HTONS 2);
     a \<leftarrow> mem_read m 22 6;
     m \<leftarrow> mem_write m 32 a;
     m \<leftarrow> mem_write m 22 (uip_ethaddr s);
     m \<leftarrow> mem_write m 6 (uip_ethaddr s);
     a \<leftarrow> mem_read m 32 6;
     m \<leftarrow> mem_write m 0 a;
     x \<leftarrow> get16 m 28;
     m \<leftarrow> put16 m 38 x;
     x \<leftarrow> get16 m 30;
     m \<leftarrow> put16 m 40 x;
     m \<leftarrow> put16 m 28 (fst (uip_hostaddr s));
     m \<leftarrow> put16 m 30 (snd (uip_hostaddr s));
     m \<leftarrow> put16 m 12 (HTONS 0x0806);
     Some (s\<lparr>uip_buf := m, uip_len := 42\<rparr>) }"

definition uip_arp_arpin :: "('a) net_scheme \<Rightarrow> ('a) net_scheme option" where
  "uip_arp_arpin s =
    (if uip_len s < 42 then Some (s\<lparr>uip_len := 0\<rparr>)
     else do {
       let s = s\<lparr>uip_len := 0\<rparr>;
       opcode \<leftarrow> get16 (uip_buf s) 20;
       if opcode = HTONS 1 then do {
         dip \<leftarrow> get_ip (uip_buf s) 38;
         if dip = uip_hostaddr s then do {
           sip \<leftarrow> get_ip (uip_buf s) 28;
           shw \<leftarrow> mem_read (uip_buf s) 22 6;
           arp_reply (uip_arp_update sip shw s) }
         else Some s }
       else if opcode = HTONS 2 then do {
         dip \<leftarrow> get_ip (uip_buf s) 38;
         if dip = uip_hostaddr s then do {
           sip \<leftarrow> get_ip (uip_buf s) 28;
           shw \<leftarrow> mem_read (uip_buf s) 22 6;
           Some (uip_arp_update sip shw s) }
         else Some s }
       else Some s })"

definition arp_request :: "ipaddr \<Rightarrow> ('a) net_scheme \<Rightarrow> ('a) net_scheme option" where
  "arp_request ip s = do {
     m \<leftarrow> mem_write (uip_buf s) 0 (replicate 6 0xff);
     m \<leftarrow> mem_write m 32 (replicate 6 0);
     m \<leftarrow> mem_write m 6 (uip_ethaddr s);
     m \<leftarrow> mem_write m 22 (uip_ethaddr s);
     m \<leftarrow> put_ip m 38 ip;
     m \<leftarrow> put_ip m 28 (uip_hostaddr s);
     m \<leftarrow> put16 m 20 (HTONS 1);
     m \<leftarrow> put16 m 14 (HTONS 1);
     m \<leftarrow> put16 m 16 (HTONS 0x0800);
     m \<leftarrow> mem_write m 18 [6];
     m \<leftarrow> mem_write m 19 [4];
     m \<leftarrow> put16 m 12 (HTONS 0x0806);
     Some (s\<lparr>uip_buf := m, uip_appdata := 54, uip_len := 42\<rparr>) }"

definition eth_header :: "u8 list \<Rightarrow> ('a) net_scheme \<Rightarrow> ('a) net_scheme option" where
  "eth_header dest s = do {
     m \<leftarrow> mem_write (uip_buf s) 0 dest;
     m \<leftarrow> mem_write m 6 (uip_ethaddr s);
     m \<leftarrow> put16 m 12 (HTONS 0x0800);
     Some (s\<lparr>uip_buf := m, uip_len := uip_len s + 14\<rparr>) }"

definition uip_arp_out :: "('a) net_scheme \<Rightarrow> ('a) net_scheme option" where
  "uip_arp_out s = do {
     dest \<leftarrow> get_ip (uip_buf s) 30;
     if dest = broadcast_ipaddr then eth_header broadcast_ethaddr s
     else do {
       let ip = (if \<not> uip_ipaddr_maskcmp dest (uip_hostaddr s) (uip_netmask s) then uip_draddr s else dest);
       let i = arp_find (\<lambda>e. ip = e_ipaddr e) (arp_table s);
       if i = length (arp_table s) then arp_request ip s
       else eth_header (e_ethaddr (arp_table s ! i)) s } }"

definition uip_self_arp_out :: "('a) net_scheme \<Rightarrow> ('a) net_scheme option" where
  "uip_self_arp_out s = do {
     m \<leftarrow> mem_write (uip_buf s) 0 (replicate 6 0xff);
     m \<leftarrow> mem_write m 32 (uip_ethaddr s);
     m \<leftarrow> mem_write m 6 (uip_ethaddr s);
     m \<leftarrow> mem_write m 22 (uip_ethaddr s);
     m \<leftarrow> put_ip m 38 (uip_hostaddr s);
     m \<leftarrow> put_ip m 28 (uip_hostaddr s);
     m \<leftarrow> put16 m 20 (HTONS 2);
     m \<leftarrow> put16 m 14 (HTONS 1);
     m \<leftarrow> put16 m 16 (HTONS 0x0800);
     m \<leftarrow> mem_write m 18 [6];
     m \<leftarrow> mem_write m 19 [4];
     m \<leftarrow> put16 m 12 (HTONS 0x0806);
     Some (s\<lparr>uip_buf := m, uip_appdata := 54, uip_len := 42\<rparr>) }"

section \<open>Well-formed states\<close>

definition arp_table_ok :: "arp_entry list \<Rightarrow> bool" where
  "arp_table_ok t \<longleftrightarrow> length t = 8 \<and> list_all (\<lambda>e. length (e_ethaddr e) = 6) t \<and>
     sorted_wrt (\<lambda>a b. e_ipaddr a = e_ipaddr b \<longrightarrow> \<not> entry_in_use (e_ipaddr a)) t"

definition net_ok :: "('a) net_scheme \<Rightarrow> bool" where
  "net_ok s \<longleftrightarrow> length (uip_buf s) = 4002 \<and> length (uip_ethaddr s) = 6 \<and> arp_table_ok (arp_table s)"

lemma arp_find_le: "arp_find p t \<le> length t"
  by (induction t) auto

lemma arp_find_first: "arp_find p t < length t \<Longrightarrow> p (t ! arp_find p t)"
  by (induction t) auto

lemma arp_find_before: "j < arp_find p t \<Longrightarrow> \<not> p (t ! j)"
  by (induction t arbitrary: j) (auto simp: nth_Cons split: nat.splits if_splits)

lemma arp_find_none: "arp_find p t = length t \<longleftrightarrow> (\<forall>e \<in> set t. \<not> p e)"
  by (induction t) auto

lemma arp_find_eq:
  assumes "i < length t" "p (t ! i)" "\<And>j. j < i \<Longrightarrow> \<not> p (t ! j)"
  shows "arp_find p t = i"
  using assms arp_find_first[of p t] arp_find_before[of _ p t] arp_find_none[of p t] arp_find_le[of p t]
  by (metis le_neq_implies_less linorder_neqE_nat nth_mem)

lemma arp_oldest_less: "c < n \<Longrightarrow> i + length t \<le> n \<Longrightarrow> arp_oldest now t i age c < n"
  by (induction t arbitrary: i age c) auto

lemma arp_slot_less:
  assumes "length (arp_table s) = 8"
  shows "arp_slot s < 8"
proof (cases "arp_find (\<lambda>e. fst (e_ipaddr e) = 0 \<and> snd (e_ipaddr e) = 0) (arp_table s) = length (arp_table s)")
  case True
  with assms show ?thesis by (simp add: arp_slot_def arp_oldest_less)
next
  case False
  with assms arp_find_le[of "\<lambda>e. fst (e_ipaddr e) = 0 \<and> snd (e_ipaddr e) = 0" "arp_table s"]
  show ?thesis by (simp add: arp_slot_def)
qed

section \<open>The table is a cache\<close>

definition arp_lookup :: "ipaddr \<Rightarrow> ('a) net_scheme \<Rightarrow> u8 list option" where
  "arp_lookup ip s =
    (let t = arp_table s; i = arp_find (\<lambda>e. ip = e_ipaddr e) t
     in if i = length t then None else Some (e_ethaddr (t ! i)))"

definition eth_ok :: "u8 list \<Rightarrow> bool" where
  "eth_ok eth \<longleftrightarrow> length eth = 6"

lemma arp_table_ok_unique:
  assumes "arp_table_ok t" "i < 8" "j < 8" "e_ipaddr (t ! i) = e_ipaddr (t ! j)" "entry_in_use (e_ipaddr (t ! i))"
  shows "i = j"
  using assms unfolding arp_table_ok_def sorted_wrt_iff_nth_less
  by (cases i j rule: linorder_cases) metis+

lemma arp_table_okI:
  assumes "length t = 8" "\<And>i. i < 8 \<Longrightarrow> length (e_ethaddr (t ! i)) = 6"
    and "\<And>i j. i < j \<Longrightarrow> j < 8 \<Longrightarrow> e_ipaddr (t ! i) = e_ipaddr (t ! j) \<Longrightarrow> \<not> entry_in_use (e_ipaddr (t ! j))"
  shows "arp_table_ok t"
  using assms unfolding arp_table_ok_def sorted_wrt_iff_nth_less list_all_length by metis

lemma arp_table_okD:
  assumes "arp_table_ok t"
  shows "length t = 8" "i < 8 \<Longrightarrow> length (e_ethaddr (t ! i)) = 6"
  using assms by (simp_all add: arp_table_ok_def list_all_length)

lemma lookup_Some:
  assumes "arp_table_ok (arp_table s)" "i < 8" "e_ipaddr (arp_table s ! i) = ip" "entry_in_use ip"
  shows "arp_lookup ip s = Some (e_ethaddr (arp_table s ! i))"
proof -
  have "ip \<noteq> e_ipaddr (arp_table s ! j)" if "j < i" for j
    using arp_table_ok_unique[of "arp_table s" j i] that assms by auto
  then have "arp_find (\<lambda>e. ip = e_ipaddr e) (arp_table s) = i"
    using assms arp_table_okD(1)[OF assms(1)] by (intro arp_find_eq) auto
  with assms arp_table_okD(1)[OF assms(1)] show ?thesis by (simp add: arp_lookup_def)
qed

lemma lookup_None:
  "arp_lookup ip s = None \<longleftrightarrow> (\<forall>e \<in> set (arp_table s). e_ipaddr e \<noteq> ip)"
  by (auto simp: arp_lookup_def Let_def arp_find_none)

text \<open>
  An update fills one entry. It is either the entry of the address itself or, if the address has none in use,
  any entry.
\<close>

lemma entry_eq: "e_ipaddr e = ip \<Longrightarrow> e\<lparr>e_ethaddr := eth, e_time := now\<rparr> = \<lparr>e_ipaddr = ip, e_ethaddr = eth, e_time = now\<rparr>"
  by (cases e) simp

lemma update_entry:
  assumes "length (arp_table s) = 8"
  shows "\<exists>i < 8. uip_arp_update ip eth s =
      s\<lparr>arp_table := (arp_table s)[i := \<lparr>e_ipaddr = ip, e_ethaddr = eth, e_time = arptime s\<rparr>]\<rparr> \<and>
      (\<forall>j < 8. e_ipaddr (arp_table s ! j) = ip \<and> entry_in_use ip \<longrightarrow> e_ipaddr (arp_table s ! i) = ip)"
proof -
  define t where "t = arp_table s"
  define p where "p = (\<lambda>e :: arp_entry. entry_in_use (e_ipaddr e) \<and> ip = e_ipaddr e)"
  have len: "length t = 8" using assms by (simp add: t_def)
  have update: "uip_arp_update ip eth s = s\<lparr>arp_table := (if arp_find p t < length t
      then t[arp_find p t := (t ! arp_find p t)\<lparr>e_ethaddr := eth, e_time := arptime s\<rparr>]
      else t[arp_slot s := \<lparr>e_ipaddr = ip, e_ethaddr = eth, e_time = arptime s\<rparr>])\<rparr>"
    by (simp add: uip_arp_update_def Let_def p_def t_def)
  show ?thesis
  proof (cases "arp_find p t < length t")
    case True
    then have "e_ipaddr (t ! arp_find p t) = ip"
      using arp_find_first[of p t] by (simp add: p_def)
    with True update len show ?thesis
      by (intro exI[of _ "arp_find p t"]) (simp add: entry_eq flip: t_def)
  next
    case False
    then have "\<forall>e \<in> set t. \<not> p e"
      using arp_find_le[of p t] arp_find_none[of p t] by auto
    then have "\<not> (e_ipaddr (t ! j) = ip \<and> entry_in_use ip)" if "j < 8" for j
      using len that nth_mem[of j t] by (auto simp: p_def)
    with False update arp_slot_less[OF assms] show ?thesis
      by (intro exI[of _ "arp_slot s"]) (auto simp flip: t_def)
  qed
qed

lemma table_write_ok:
  assumes "arp_table_ok t" "i < 8" "length (e_ethaddr e) = 6"
    and only: "\<And>j. j < 8 \<Longrightarrow> e_ipaddr (t ! j) = e_ipaddr e \<Longrightarrow> entry_in_use (e_ipaddr e) \<Longrightarrow> j = i"
  shows "arp_table_ok (t[i := e])"
proof (rule arp_table_okI)
  fix j k :: nat
  assume jk: "j < k" "k < 8" "e_ipaddr (t[i := e] ! j) = e_ipaddr (t[i := e] ! k)"
  have len: "length t = 8" using assms(1) by (rule arp_table_okD)
  consider "j = i" "k \<noteq> i" | "k = i" "j \<noteq> i" | "j \<noteq> i" "k \<noteq> i"
    using jk(1) by linarith
  then show "\<not> entry_in_use (e_ipaddr (t[i := e] ! k))"
  proof cases
    case 1
    with jk len only[of k] show ?thesis by auto
  next
    case 2
    with jk len only[of j] show ?thesis by auto
  next
    case 3
    with jk arp_table_ok_unique[OF assms(1), of j k] show ?thesis by auto
  qed
qed (use assms(2,3) arp_table_okD[OF assms(1)] in \<open>auto simp: nth_list_update\<close>)

lemma update_writes:
  assumes "arp_table_ok (arp_table s)"
  obtains i where "i < 8" "uip_arp_update ip eth s =
      s\<lparr>arp_table := (arp_table s)[i := \<lparr>e_ipaddr = ip, e_ethaddr = eth, e_time = arptime s\<rparr>]\<rparr>"
    "\<And>j. j < 8 \<Longrightarrow> e_ipaddr (arp_table s ! j) = ip \<Longrightarrow> entry_in_use ip \<Longrightarrow> j = i"
proof -
  obtain i where i: "i < 8" "uip_arp_update ip eth s =
      s\<lparr>arp_table := (arp_table s)[i := \<lparr>e_ipaddr = ip, e_ethaddr = eth, e_time = arptime s\<rparr>]\<rparr>"
    and only: "\<And>j. j < 8 \<Longrightarrow> e_ipaddr (arp_table s ! j) = ip \<Longrightarrow> entry_in_use ip \<Longrightarrow> e_ipaddr (arp_table s ! i) = ip"
    using update_entry[OF arp_table_okD(1)[OF assms]] by blast
  have "j = i" if "j < 8" "e_ipaddr (arp_table s ! j) = ip" "entry_in_use ip" for j
    using arp_table_ok_unique[OF assms that(1) i(1)] only[OF that] that by simp
  with i show ?thesis by (rule that)
qed

lemma update_table_ok:
  assumes "arp_table_ok (arp_table s)" "length eth = 6"
  shows "arp_table_ok (arp_table (uip_arp_update ip eth s))"
  using assms(1)
proof (rule update_writes[of s ip eth])
  fix i
  assume i: "i < 8" "uip_arp_update ip eth s =
      s\<lparr>arp_table := (arp_table s)[i := \<lparr>e_ipaddr = ip, e_ethaddr = eth, e_time = arptime s\<rparr>]\<rparr>"
    "\<And>j. j < 8 \<Longrightarrow> e_ipaddr (arp_table s ! j) = ip \<Longrightarrow> entry_in_use ip \<Longrightarrow> j = i"
  show ?thesis
    unfolding i(2) by (simp, rule table_write_ok[OF assms(1) i(1)]) (use i(3) assms(2) in auto)
qed

lemma lookup_update:
  assumes "arp_table_ok (arp_table s)" "length eth = 6" "entry_in_use ip"
  shows "arp_lookup ip (uip_arp_update ip eth s) = Some eth"
  using assms(1)
proof (rule update_writes[of s ip eth])
  fix i
  assume i: "i < 8" "uip_arp_update ip eth s =
      s\<lparr>arp_table := (arp_table s)[i := \<lparr>e_ipaddr = ip, e_ethaddr = eth, e_time = arptime s\<rparr>]\<rparr>"
  then show ?thesis
    using lookup_Some[OF update_table_ok[OF assms(1,2)] i(1), of ip ip] arp_table_okD(1)[OF assms(1)] assms(3) by simp
qed

lemma lookup_cases:
  assumes "arp_table_ok (arp_table s)" "entry_in_use ip"
  obtains "arp_lookup ip s = None" "\<And>j. j < 8 \<Longrightarrow> e_ipaddr (arp_table s ! j) \<noteq> ip"
  | i where "i < 8" "e_ipaddr (arp_table s ! i) = ip" "arp_lookup ip s = Some (e_ethaddr (arp_table s ! i))"
proof (cases "arp_lookup ip s")
  case None
  then show ?thesis
    using that(1) arp_table_okD(1)[OF assms(1)] by (metis lookup_None nth_mem)
next
  case (Some eth)
  then have "\<not> (\<forall>e \<in> set (arp_table s). e_ipaddr e \<noteq> ip)"
    by (metis lookup_None option.distinct(1))
  then obtain i where "i < 8" "e_ipaddr (arp_table s ! i) = ip"
    using arp_table_okD(1)[OF assms(1)] by (metis in_set_conv_nth)
  with lookup_Some[OF assms(1) this assms(2)] that(2) show ?thesis by blast
qed

lemma lookup_update_other:
  assumes "arp_table_ok (arp_table s)" "length eth = 6" "entry_in_use ip" "ip' \<noteq> ip"
  shows "arp_lookup ip (uip_arp_update ip' eth s) \<in> {None, arp_lookup ip s}"
  using assms(1)
proof (rule update_writes[of s ip' eth])
  fix i
  let ?s = "uip_arp_update ip' eth s"
  assume i: "i < 8" "?s = s\<lparr>arp_table := (arp_table s)[i := \<lparr>e_ipaddr = ip', e_ethaddr = eth, e_time = arptime s\<rparr>]\<rparr>"
  note len = arp_table_okD(1)[OF assms(1)]
  from update_table_ok[OF assms(1,2)] assms(3) show ?thesis
  proof (rule lookup_cases)
    fix j
    assume j: "j < 8" "e_ipaddr (arp_table ?s ! j) = ip" "arp_lookup ip ?s = Some (e_ethaddr (arp_table ?s ! j))"
    then have "j \<noteq> i" using i len assms(4) by auto
    with j i lookup_Some[OF assms(1) j(1) _ assms(3)] show ?thesis by simp
  qed simp
qed

lemma age_entry_cases:
  obtains "age_entry now e = e" | "age_entry now e = e\<lparr>e_ipaddr := (0, 0)\<rparr>"
  by (metis age_entry_def)

lemma age_entry_ip: "entry_in_use (e_ipaddr (age_entry now e)) \<Longrightarrow> age_entry now e = e"
  by (rule age_entry_cases[of now e]) (auto simp: entry_in_use_def)

lemma age_table_ok:
  assumes "arp_table_ok t"
  shows "arp_table_ok (map (age_entry now) t)"
proof (rule arp_table_okI)
  note len = arp_table_okD(1)[OF assms]
  fix j k :: nat
  assume jk: "j < k" "k < 8" "e_ipaddr (map (age_entry now) t ! j) = e_ipaddr (map (age_entry now) t ! k)"
  show "\<not> entry_in_use (e_ipaddr (map (age_entry now) t ! k))"
  proof
    assume used: "entry_in_use (e_ipaddr (map (age_entry now) t ! k))"
    with jk len have "age_entry now (t ! k) = t ! k" "age_entry now (t ! j) = t ! j"
      by (auto intro: age_entry_ip)
    with used jk len arp_table_ok_unique[OF assms, of j k] show False by simp
  qed
next
  fix i :: nat
  assume "i < 8"
  with arp_table_okD[OF assms] show "length (e_ethaddr (map (age_entry now) t ! i)) = 6"
    by (auto simp: age_entry_def)
qed (simp add: arp_table_okD(1)[OF assms])

lemma lookup_timer:
  assumes "arp_table_ok (arp_table s)" "entry_in_use ip"
  shows "arp_lookup ip (uip_arp_timer s) \<in> {None, arp_lookup ip s}"
proof -
  let ?s = "uip_arp_timer s"
  note len = arp_table_okD(1)[OF assms(1)]
  have t: "arp_table ?s = map (age_entry (arptime s + 1)) (arp_table s)"
    by (simp add: uip_arp_timer_def Let_def)
  then have "arp_table_ok (arp_table ?s)" using age_table_ok[OF assms(1)] by simp
  from this assms(2) show ?thesis
  proof (rule lookup_cases)
    fix j
    assume j: "j < 8" "e_ipaddr (arp_table ?s ! j) = ip" "arp_lookup ip ?s = Some (e_ethaddr (arp_table ?s ! j))"
    moreover from this have "arp_table ?s ! j = arp_table s ! j"
      using age_entry_ip[of "arptime s + 1" "arp_table s ! j"] assms(2) len t by simp
    ultimately show ?thesis
      using lookup_Some[OF assms(1) j(1) _ assms(2)] by simp
  qed simp
qed

interpretation arp: cache "net_ok :: ('a) net_scheme \<Rightarrow> bool" entry_in_use eth_ok arp_lookup uip_arp_update uip_arp_timer
proof unfold_locales
  fix s :: "'a net_scheme" and ip eth
  assume "net_ok s" "eth_ok eth"
  then show "net_ok (uip_arp_update ip eth s)"
    using update_table_ok[of s eth ip] update_entry[of s ip eth] arp_table_okD(1)[of "arp_table s"]
    by (auto simp: net_ok_def eth_ok_def)
next
  fix s :: "'a net_scheme"
  assume "net_ok s"
  then show "net_ok (uip_arp_timer s)"
    by (simp add: net_ok_def uip_arp_timer_def Let_def age_table_ok)
qed (simp_all only: net_ok_def eth_ok_def lookup_update lookup_update_other lookup_timer not_False_eq_True)

section \<open>Packets as records\<close>

text \<open>The reference for the packets: the fields of an ARP packet, 16-bit numbers in the order of the processor.\<close>

record arp_packet =
  ap_dest :: "u8 list"
  ap_src :: "u8 list"
  ap_type :: u16
  ap_hwtype :: u16
  ap_protocol :: u16
  ap_hwlen :: "u8 list"
  ap_protolen :: "u8 list"
  ap_opcode :: u16
  ap_shwaddr :: "u8 list"
  ap_sipaddr :: ipaddr
  ap_dhwaddr :: "u8 list"
  ap_dipaddr :: ipaddr

definition arp_packet_of :: "u8 list \<Rightarrow> arp_packet" where
  "arp_packet_of m = \<lparr>ap_dest = block m 0 6, ap_src = block m 6 6, ap_type = HTONS (word16 (block m 12 2)),
     ap_hwtype = HTONS (word16 (block m 14 2)), ap_protocol = HTONS (word16 (block m 16 2)), ap_hwlen = block m 18 1,
     ap_protolen = block m 19 1, ap_opcode = HTONS (word16 (block m 20 2)), ap_shwaddr = block m 22 6,
     ap_sipaddr = ip_of (block m 28 4), ap_dhwaddr = block m 32 6, ap_dipaddr = ip_of (block m 38 4)\<rparr>"

lemma block_ip: "block m a 4 = block m a 2 @ block m (a + 2) 2"
  using block_split[of m a 2 2] by simp

lemma ip_of_append: "length xs = 2 \<Longrightarrow> ip_of (xs @ ys) = (word16 xs, word16 ys)"
  by (simp add: ip_of_def)

lemma HTONS_eq: "w = HTONS v \<longleftrightarrow> HTONS w = v"
  by (metis HTONS_HTONS)

lemma arp_reply_packet:
  assumes "length (uip_buf s) = 4002" "length (uip_ethaddr s) = 6"
  shows "\<exists>s'. arp_reply s = Some s' \<and> s' = s\<lparr>uip_buf := uip_buf s', uip_len := 42\<rparr> \<and> length (uip_buf s') = 4002 \<and>
    arp_packet_of (uip_buf s') = (arp_packet_of (uip_buf s))\<lparr>ap_dest := block (uip_buf s) 22 6, ap_src := uip_ethaddr s,
      ap_type := 0x0806, ap_opcode := 2, ap_shwaddr := uip_ethaddr s, ap_sipaddr := uip_hostaddr s,
      ap_dhwaddr := block (uip_buf s) 22 6, ap_dipaddr := ip_of (block (uip_buf s) 28 4)\<rparr>"
  using assms by (simp add: arp_reply_def net_mem arp_packet_of_def block_ip ip_of_append bytes16_word16)

definition arp_question :: "('a) net_scheme \<Rightarrow> ipaddr \<Rightarrow> arp_packet" where
  "arp_question s ip = \<lparr>ap_dest = replicate 6 0xff, ap_src = uip_ethaddr s, ap_type = 0x0806, ap_hwtype = 1, ap_protocol = 0x0800,
     ap_hwlen = [6], ap_protolen = [4], ap_opcode = 1, ap_shwaddr = uip_ethaddr s, ap_sipaddr = uip_hostaddr s,
     ap_dhwaddr = replicate 6 0, ap_dipaddr = ip\<rparr>"

lemma arp_request_packet:
  assumes "length (uip_buf s) = 4002" "length (uip_ethaddr s) = 6"
  shows "\<exists>s'. arp_request ip s = Some s' \<and> s' = s\<lparr>uip_buf := uip_buf s', uip_appdata := 54, uip_len := 42\<rparr> \<and>
    length (uip_buf s') = 4002 \<and> arp_packet_of (uip_buf s') = arp_question s ip"
  using assms by (simp add: arp_request_def net_mem arp_packet_of_def arp_question_def)

lemma uip_self_arp_out_packet:
  assumes "length (uip_buf s) = 4002" "length (uip_ethaddr s) = 6"
  shows "\<exists>s'. uip_self_arp_out s = Some s' \<and> s' = s\<lparr>uip_buf := uip_buf s', uip_appdata := 54, uip_len := 42\<rparr> \<and>
    length (uip_buf s') = 4002 \<and>
    arp_packet_of (uip_buf s') = (arp_question s (uip_hostaddr s))\<lparr>ap_opcode := 2, ap_dhwaddr := uip_ethaddr s\<rparr>"
  using assms by (simp add: uip_self_arp_out_def net_mem arp_packet_of_def arp_question_def)

lemma eth_header_frame:
  assumes "length (uip_buf s) = 4002" "length (uip_ethaddr s) = 6" "length dest = 6"
  shows "eth_header dest s =
    Some (s\<lparr>uip_buf := dest @ uip_ethaddr s @ [8, 0] @ drop 14 (uip_buf s), uip_len := uip_len s + 14\<rparr>)"
  using assms by (simp add: eth_header_def net_mem put_put_block bytes16_HTONS) (simp add: put_block_def)

section \<open>Incoming packets\<close>

text \<open>The effect of an incoming packet on the table, and the answer.\<close>

lemma arpin_cases:
  assumes "net_ok s" "p = arp_packet_of (uip_buf s)" "42 \<le> uip_len s" "ap_dipaddr p = uip_hostaddr s"
  shows "ap_opcode p = 2 \<Longrightarrow> uip_arp_arpin s = Some (uip_arp_update (ap_sipaddr p) (ap_shwaddr p) (s\<lparr>uip_len := 0\<rparr>))"
    and "ap_opcode p = 1 \<Longrightarrow> uip_arp_arpin s = arp_reply (uip_arp_update (ap_sipaddr p) (ap_shwaddr p) (s\<lparr>uip_len := 0\<rparr>))"
  using assms by (auto simp: uip_arp_arpin_def net_ok_def net_mem HTONS_eq arp_packet_of_def)

lemma update_other_fields:
  assumes "net_ok s"
  shows "uip_buf (uip_arp_update ip eth s) = uip_buf s" "uip_ethaddr (uip_arp_update ip eth s) = uip_ethaddr s"
    "uip_hostaddr (uip_arp_update ip eth s) = uip_hostaddr s" "uip_len (uip_arp_update ip eth s) = uip_len s"
  using update_entry[of s ip eth] arp_table_okD(1)[of "arp_table s"] assms by (auto simp: net_ok_def)

lemma net_ok_len [simp]: "net_ok (s\<lparr>uip_len := n\<rparr>) = net_ok s"
  by (simp add: net_ok_def)

text \<open>
  An ARP request for the address of the clock is answered: the buffer holds the reply to the
  sender, 42 bytes long, with the addresses exchanged and the hardware address of the clock filled in, the other fields
  as in the request, and the sender is entered in the table.
\<close>

theorem arp_request_answered:
  assumes "net_ok s" "42 \<le> uip_len s" "p = arp_packet_of (uip_buf s)"
    and "ap_opcode p = 1" "ap_dipaddr p = uip_hostaddr s" "entry_in_use (ap_sipaddr p)"
  shows "\<exists>s'. uip_arp_arpin s = Some s' \<and> net_ok s' \<and> uip_len s' = 42 \<and>
    arp_packet_of (uip_buf s') = p\<lparr>ap_dest := ap_shwaddr p, ap_src := uip_ethaddr s, ap_type := 0x0806, ap_opcode := 2,
      ap_shwaddr := uip_ethaddr s, ap_sipaddr := uip_hostaddr s, ap_dhwaddr := ap_shwaddr p, ap_dipaddr := ap_sipaddr p\<rparr> \<and>
    arp_lookup (ap_sipaddr p) s' = Some (ap_shwaddr p)"
proof -
  define u where "u = uip_arp_update (ap_sipaddr p) (ap_shwaddr p) (s\<lparr>uip_len := 0\<rparr>)"
  have eth: "eth_ok (ap_shwaddr p)"
    using assms(1,3) by (simp add: arp_packet_of_def eth_ok_def net_ok_def net_mem)
  have u: "net_ok u" "arp_lookup (ap_sipaddr p) u = Some (ap_shwaddr p)" "uip_buf u = uip_buf s"
    "uip_ethaddr u = uip_ethaddr s" "uip_hostaddr u = uip_hostaddr s"
    using assms eth arp.learn_ok[of "s\<lparr>uip_len := 0\<rparr>"] arp.lookup_learn[of "s\<lparr>uip_len := 0\<rparr>"]
      update_other_fields[of "s\<lparr>uip_len := 0\<rparr>"] by (auto simp: u_def)
  obtain s' where s': "arp_reply u = Some s'" "s' = u\<lparr>uip_buf := uip_buf s', uip_len := 42\<rparr>"
    "length (uip_buf s') = 4002" "arp_packet_of (uip_buf s') = (arp_packet_of (uip_buf u))\<lparr>ap_dest := block (uip_buf u) 22 6,
      ap_src := uip_ethaddr u, ap_type := 0x0806, ap_opcode := 2, ap_shwaddr := uip_ethaddr u, ap_sipaddr := uip_hostaddr u,
      ap_dhwaddr := block (uip_buf u) 22 6, ap_dipaddr := ip_of (block (uip_buf u) 28 4)\<rparr>"
    using arp_reply_packet[of u] u(1) by (auto simp: net_ok_def)
  have "arp_table s' = arp_table u" "uip_ethaddr s' = uip_ethaddr u" "uip_len s' = 42"
    by (subst s'(2); simp)+
  with s' u assms show ?thesis
    using arpin_cases(2)[OF assms(1,3,2,5,4)]
    by (intro exI[of _ s']) (simp add: u_def net_ok_def arp_lookup_def arp_packet_of_def)
qed

definition sample_net :: "u8 list \<Rightarrow> u16 \<Rightarrow> net" where
  "sample_net bs n = \<lparr>uip_buf = bs @ replicate (4002 - length bs) 0, uip_len = n, uip_appdata = 54, uip_ethaddr = [1, 2, 3, 4, 5, 6],
     uip_hostaddr = (0xa8c0, 0x0201), uip_draddr = (0xa8c0, 0x0101), uip_netmask = (0xffff, 0x00ff),
     arp_table = replicate 8 \<lparr>e_ipaddr = (0, 0), e_ethaddr = replicate 6 0, e_time = 0\<rparr>, arptime = 0\<rparr>"

lemma replicate_6: "replicate 6 x = [x, x, x, x, x, x]"
  by (simp add: numeral_eq_Suc)

lemma replicate_8: "replicate 8 x = [x, x, x, x, x, x, x, x]"
  by (simp add: numeral_eq_Suc)

lemma sample_net_ok: "length bs \<le> 4002 \<Longrightarrow> net_ok (sample_net bs n)"
  by (simp add: sample_net_def net_ok_def arp_table_ok_def entry_in_use_def replicate_6 replicate_8)

text \<open>192.168.1.3 asks for 192.168.1.2.\<close>

definition sample_request :: "u8 list" where
  "sample_request = replicate 6 0xff @ [9, 9, 9, 9, 9, 9] @ [8, 6] @ [0, 1] @ [8, 0] @ [6] @ [4] @ [0, 1] @
     [9, 9, 9, 9, 9, 9] @ [192, 168, 1, 3] @ [0, 0, 0, 0, 0, 0] @ [192, 168, 1, 2]"

lemma sample_request_packet:
  "arp_packet_of (uip_buf (sample_net sample_request 42)) =
    \<lparr>ap_dest = replicate 6 0xff, ap_src = [9, 9, 9, 9, 9, 9], ap_type = 0x0806, ap_hwtype = 1, ap_protocol = 0x0800,
     ap_hwlen = [6], ap_protolen = [4], ap_opcode = 1, ap_shwaddr = [9, 9, 9, 9, 9, 9], ap_sipaddr = (0xa8c0, 0x0301),
     ap_dhwaddr = replicate 6 0, ap_dipaddr = (0xa8c0, 0x0201)\<rparr>"
  by (simp add: arp_packet_of_def sample_net_def sample_request_def block_def word16_def HTONS_def ip_of_def replicate_6)

theorem arp_request_answered_witness:
  "\<exists>s'. uip_arp_arpin (sample_net sample_request 42) = Some s' \<and> uip_len s' = 42 \<and>
    ap_dest (arp_packet_of (uip_buf s')) = [9, 9, 9, 9, 9, 9] \<and> ap_opcode (arp_packet_of (uip_buf s')) = 2 \<and>
    arp_lookup (0xa8c0, 0x0301) s' = Some [9, 9, 9, 9, 9, 9]"
proof -
  have "net_ok (sample_net sample_request 42)" by (rule sample_net_ok) (simp add: sample_request_def)
  from arp_request_answered[OF this _ sample_request_packet[symmetric]]
  show ?thesis by (auto simp: sample_net_def entry_in_use_def)
qed

section \<open>Outgoing packets\<close>

text \<open>The reference: the address of the next hop, and the hardware address to which a packet is sent if it is known.\<close>

definition next_hop :: "('a) net_scheme \<Rightarrow> ipaddr" where
  "next_hop s = (let dest = ip_of (block (uip_buf s) 30 4)
     in if uip_ipaddr_maskcmp dest (uip_hostaddr s) (uip_netmask s) then dest else uip_draddr s)"

definition resolve :: "('a) net_scheme \<Rightarrow> u8 list option" where
  "resolve s = (if ip_of (block (uip_buf s) 30 4) = (0xffff, 0xffff) then Some (replicate 6 0xff) else arp_lookup (next_hop s) s)"

lemma lookup_length:
  assumes "arp_table_ok (arp_table s)" "arp_lookup ip s = Some eth"
  shows "length eth = 6"
proof -
  have "arp_find (\<lambda>e. ip = e_ipaddr e) (arp_table s) < 8"
    using assms(2) arp_find_le[of _ "arp_table s"] arp_table_okD(1)[OF assms(1)]
    by (auto simp: arp_lookup_def Let_def le_neq_implies_less split: if_splits)
  from arp_table_okD(2)[OF assms(1) this] assms(2) show ?thesis
    by (auto simp: arp_lookup_def Let_def split: if_splits)
qed

lemma arp_out_spec:
  assumes "net_ok s"
  shows "\<exists>s'. uip_arp_out s = Some s' \<and> net_ok s' \<and> arp_table s' = arp_table s \<and>
    (case resolve s of
       Some eth \<Rightarrow> uip_buf s' = eth @ uip_ethaddr s @ [8, 0] @ drop 14 (uip_buf s) \<and> uip_len s' = uip_len s + 14
     | None \<Rightarrow> arp_packet_of (uip_buf s') = arp_question s (next_hop s) \<and> uip_len s' = 42)"
proof -
  note ok = assms[unfolded net_ok_def]
  have out: "uip_arp_out s = (case resolve s of Some eth \<Rightarrow> eth_header eth s | None \<Rightarrow> arp_request (next_hop s) s)"
    using ok by (simp add: uip_arp_out_def net_mem resolve_def next_hop_def arp_lookup_def Let_def
        broadcast_ipaddr_def broadcast_ethaddr_def)
  show ?thesis
  proof (cases "resolve s")
    case None
    obtain s' where s': "arp_request (next_hop s) s = Some s'" "s' = s\<lparr>uip_buf := uip_buf s', uip_appdata := 54, uip_len := 42\<rparr>"
      "length (uip_buf s') = 4002" "arp_packet_of (uip_buf s') = arp_question s (next_hop s)"
      using arp_request_packet[of s "next_hop s"] ok by auto
    have "arp_table s' = arp_table s" "uip_ethaddr s' = uip_ethaddr s" "uip_len s' = 42"
      by (subst s'(2); simp)+
    with s' None out ok show ?thesis by (simp add: net_ok_def)
  next
    case (Some eth)
    then have "length eth = 6"
      using ok lookup_length[of s "next_hop s" eth] by (auto simp: resolve_def split: if_splits)
    with eth_header_frame[of s eth] Some out ok show ?thesis by (simp add: net_ok_def)
  qed
qed

text \<open>
  An outgoing IP packet gets an Ethernet header with the hardware address of the next hop, the
  destination itself on the local network and the router otherwise, and is otherwise unchanged; if this address is not known the
  packet is replaced by an ARP request for the next hop, broadcast to all.
\<close>

theorem arp_out_addressed:
  assumes "net_ok s"
  shows "\<exists>s'. uip_arp_out s = Some s' \<and> net_ok s' \<and> arp_table s' = arp_table s \<and>
    (case resolve s of
       Some eth \<Rightarrow> uip_buf s' = eth @ uip_ethaddr s @ [8, 0] @ drop 14 (uip_buf s) \<and> uip_len s' = uip_len s + 14
     | None \<Rightarrow> arp_packet_of (uip_buf s') = arp_question s (next_hop s) \<and> uip_len s' = 42)"
  using assms by (rule arp_out_spec)

theorem arp_out_addressed_witness:
  "\<exists>s'. uip_arp_out (sample_net [] 40) = Some s' \<and> arp_packet_of (uip_buf s') = arp_question (sample_net [] 40) (0xa8c0, 0x0101) \<and>
    uip_len s' = 42"
proof -
  have "net_ok (sample_net [] 40)" by (rule sample_net_ok) simp
  moreover have "next_hop (sample_net [] 40) = (0xa8c0, 0x0101)" "resolve (sample_net [] 40) = None"
    by (simp_all add: resolve_def next_hop_def sample_net_def block_def ip_of_def word16_def uip_ipaddr_maskcmp_def
        arp_lookup_def replicate_8)
  ultimately show ?thesis using arp_out_addressed[of "sample_net [] 40"] by auto
qed

section \<open>Ageing\<close>

lemma timer_table: "arp_table (uip_arp_timer s) = map (age_entry (arptime s + 1)) (arp_table s)"
  by (simp add: uip_arp_timer_def Let_def)

lemma timer_arptime: "arptime ((uip_arp_timer ^^ n) s) = arptime s + of_nat n"
  by (induction n) (simp_all add: uip_arp_timer_def Let_def)

lemma timer_length: "length (arp_table ((uip_arp_timer ^^ n) s)) = length (arp_table s)"
  by (induction n) (simp_all add: timer_table)

lemma timer_in_use:
  assumes "j < length (arp_table s)" "entry_in_use (e_ipaddr (arp_table ((uip_arp_timer ^^ n) s) ! j))"
  shows "arp_table ((uip_arp_timer ^^ n) s) ! j = arp_table s ! j"
  using assms(2)
proof (induction n)
  case (Suc n)
  with assms(1) have "arp_table ((uip_arp_timer ^^ Suc n) s) ! j = arp_table ((uip_arp_timer ^^ n) s) ! j"
    by (simp add: timer_table timer_length age_entry_ip)
  with Suc show ?case by simp
qed simp

lemma u8_add_small: "uint (t :: u8) + int n < 256 \<Longrightarrow> uint (t + of_nat n) = uint t + int n"
  using uint_word_of_int_eq[of "uint t + int n", where 'a = 8] by (simp add: take_bit_int_eq_self)

lemma uint_u8_le: "uint (x :: u8) \<le> 255"
  using uint_lt2p[of x] by simp

lemma entry_lifetime:
  fixes e :: arp_entry and t :: u8
  assumes "entry_in_use (e_ipaddr e)" "e_time e = t"
  shows "age_entry (t + of_nat (Suc n)) (if uint t \<le> 135 \<and> 120 \<le> n then e\<lparr>e_ipaddr := (0, 0)\<rparr> else e) =
    (if uint t \<le> 135 \<and> 120 \<le> Suc n then e\<lparr>e_ipaddr := (0, 0)\<rparr> else e)"
proof (cases "uint t \<le> 135 \<and> n < 120")
  case True
  then have "uint (t + of_nat (Suc n)) = uint t + int (Suc n)"
    by (intro u8_add_small) auto
  moreover have "fst (e_ipaddr e) OR snd (e_ipaddr e) \<noteq> 0"
    using assms(1) by (simp add: entry_in_use_def or_eq_0_iff)
  ultimately show ?thesis using True assms(2) by (auto simp: age_entry_def)
next
  case False
  moreover have "\<not> uint (t + of_nat (Suc n)) - uint t \<ge> 120" if "\<not> uint t \<le> 135"
    using uint_u8_le[of "t + of_nat (Suc n)"] that by linarith
  ultimately show ?thesis using assms(2) by (auto simp: age_entry_def)
qed

lemma timer_entry:
  assumes "i < length (arp_table s)" "entry_in_use (e_ipaddr (arp_table s ! i))" "e_time (arp_table s ! i) = arptime s"
  shows "arp_table ((uip_arp_timer ^^ n) s) ! i =
    (if uint (arptime s) \<le> 135 \<and> 120 \<le> n then (arp_table s ! i)\<lparr>e_ipaddr := (0, 0)\<rparr> else arp_table s ! i)"
proof (induction n)
  case (Suc n)
  have "arp_table ((uip_arp_timer ^^ Suc n) s) ! i =
      age_entry (arptime s + of_nat (Suc n)) (arp_table ((uip_arp_timer ^^ n) s) ! i)"
    using assms(1) by (simp add: timer_table timer_length timer_arptime ac_simps)
  then show ?case
    unfolding Suc.IH entry_lifetime[OF assms(2,3)] .
qed simp

text \<open>
  C40: An address that is learned up to tick 135 of the 8-bit clock of the table is found for 119 calls of the
  timer and is forgotten by the 120th; an address that is learned later is never forgotten, since the difference
  \<^verbatim>\<open>arptime - tabptr->time\<close> is taken as an \<^verbatim>\<open>int\<close> and is never 120.
\<close>

theorem arp_entry_lifetime:
  assumes "net_ok s" "length eth = 6" "entry_in_use ip"
  shows "arp_lookup ip ((uip_arp_timer ^^ n) (uip_arp_update ip eth s)) =
    (if uint (arptime s) \<le> 135 \<and> 120 \<le> n then None else Some eth)"
proof -
  have ok: "arp_table_ok (arp_table s)" using assms(1) by (simp add: net_ok_def)
  define u where "u = uip_arp_update ip eth s"
  have uok: "arp_table_ok (arp_table u)" unfolding u_def using ok assms(2) by (rule update_table_ok)
  obtain i where "i < 8" "u = s\<lparr>arp_table := (arp_table s)[i := \<lparr>e_ipaddr = ip, e_ethaddr = eth, e_time = arptime s\<rparr>]\<rparr>"
    using update_entry[of s ip eth] arp_table_okD(1)[OF ok] unfolding u_def by blast
  with arp_table_okD(1)[OF ok]
  have i: "i < 8" "e_ipaddr (arp_table u ! i) = ip" "e_ethaddr (arp_table u ! i) = eth"
    "e_time (arp_table u ! i) = arptime s" "arptime u = arptime s"
    by simp_all
  have nok: "net_ok ((uip_arp_timer ^^ n) u)"
    using arp.learn_ok[OF assms(1), of eth ip] assms(2) unfolding u_def
    by (induction n) (simp_all add: eth_ok_def arp.age_ok)
  then have "arp_table_ok (arp_table ((uip_arp_timer ^^ n) u))" by (simp add: net_ok_def)
  from this assms(3) have "arp_lookup ip ((uip_arp_timer ^^ n) u) = (if uint (arptime s) \<le> 135 \<and> 120 \<le> n then None else Some eth)"
  proof (rule lookup_cases)
    assume none: "arp_lookup ip ((uip_arp_timer ^^ n) u) = None"
      "\<And>j. j < 8 \<Longrightarrow> e_ipaddr (arp_table ((uip_arp_timer ^^ n) u) ! j) \<noteq> ip"
    with timer_entry[of i u n] none(2)[OF i(1)] i assms(3) arp_table_okD(1)[OF uok] show ?thesis
      by (auto split: if_splits)
  next
    fix j
    assume j: "j < 8" "e_ipaddr (arp_table ((uip_arp_timer ^^ n) u) ! j) = ip"
      "arp_lookup ip ((uip_arp_timer ^^ n) u) = Some (e_ethaddr (arp_table ((uip_arp_timer ^^ n) u) ! j))"
    with timer_in_use[of j u n] arp_table_okD(1)[OF uok] assms(3)
    have same: "arp_table ((uip_arp_timer ^^ n) u) ! j = arp_table u ! j" by simp
    with j i arp_table_ok_unique[OF uok, of j i] assms(3) have "j = i" by simp
    have "\<not> (uint (arptime s) \<le> 135 \<and> 120 \<le> n)"
    proof
      assume "uint (arptime s) \<le> 135 \<and> 120 \<le> n"
      with timer_entry[of i u n] i assms(3) arp_table_okD(1)[OF uok]
      have "e_ipaddr (arp_table ((uip_arp_timer ^^ n) u) ! i) = (0, 0)" by simp
      with j(2) \<open>j = i\<close> assms(3) show False by (auto simp: entry_in_use_def)
    qed
    with j same i \<open>j = i\<close> show ?thesis by auto
  qed
  then show ?thesis by (simp add: u_def)
qed

theorem arp_entry_lifetime_witness:
  "arp_lookup (0xa8c0, 0x0301) ((uip_arp_timer ^^ 120) (uip_arp_update (0xa8c0, 0x0301) [9, 9, 9, 9, 9, 9] (sample_net [] 0))) = None"
  by (subst arp_entry_lifetime) (simp_all add: sample_net_ok entry_in_use_def, simp add: sample_net_def)

text \<open>
  C17: Whatever the table has learned and forgotten in between, a packet to a local address whose two halves
  are both nonzero (such as 192.168.1.3, not 10.1.0.0) is sent to the hardware address that was learned last for it, or an ARP
  request for it is sent instead.
  (The code takes a table entry with a zero half for one that is free, see \<open>entry_in_use\<close>.)
\<close>

theorem arp_out_latest:
  fixes s :: net
  assumes "net_ok s" "list_all (op_ok eth_ok) ops" "s1 = run_ops uip_arp_update uip_arp_timer ops s"
    and "get_ip (uip_buf s1) 30 = Some ip" "ip \<noteq> (0xffff, 0xffff)" "entry_in_use ip"
    and "uip_ipaddr_maskcmp ip (uip_hostaddr s1) (uip_netmask s1)"
  shows "\<exists>s2. uip_arp_out s1 = Some s2 \<and>
    (latest ip (arp_lookup ip s) ops = Some (take 6 (uip_buf s2)) \<and> uip_len s2 = uip_len s1 + 14 \<or>
     arp_packet_of (uip_buf s2) = arp_question s1 ip \<and> uip_len s2 = 42)"
proof -
  have ok: "net_ok s1" using arp.run_ok[OF assms(1,2)] assms(3) by simp
  then have ip: "ip_of (block (uip_buf s1) 30 4) = ip"
    using assms(4) by (simp add: net_ok_def net_mem)
  with assms(5,7) have res: "resolve s1 = arp_lookup ip s1" "next_hop s1 = ip"
    by (simp_all add: resolve_def next_hop_def)
  obtain s2 where s2: "uip_arp_out s1 = Some s2" "case arp_lookup ip s1 of
      Some eth \<Rightarrow> uip_buf s2 = eth @ uip_ethaddr s1 @ [8, 0] @ drop 14 (uip_buf s1) \<and> uip_len s2 = uip_len s1 + 14
    | None \<Rightarrow> arp_packet_of (uip_buf s2) = arp_question s1 ip \<and> uip_len s2 = 42"
    using arp_out_spec[OF ok] res by auto
  show ?thesis
  proof (cases "arp_lookup ip s1")
    case None
    with s2 show ?thesis by auto
  next
    case (Some eth)
    then have "latest ip (arp_lookup ip s) ops = Some eth" "length eth = 6"
      using arp.finds_latest[OF assms(1,6,2)] assms(3) lookup_length[of s1 ip eth] ok by (simp_all add: net_ok_def)
    with s2 Some show ?thesis by auto
  qed
qed

text \<open>A packet to 192.168.1.3.\<close>

definition sample_packet :: "u8 list" where
  "sample_packet = replicate 30 0 @ [192, 168, 1, 3]"

theorem arp_out_latest_witness:
  "\<exists>s2. uip_arp_out (run_ops uip_arp_update uip_arp_timer
        [Learn (0xa8c0, 0x0301) [9, 9, 9, 9, 9, 9], Age, Learn (0xa8c0, 0x0301) [8, 8, 8, 8, 8, 8]] (sample_net sample_packet 40)) = Some s2 \<and>
    (take 6 (uip_buf s2) = [8, 8, 8, 8, 8, 8] \<or> ap_opcode (arp_packet_of (uip_buf s2)) = 1)"
proof -
  let ?ops = "[Learn (0xa8c0, 0x0301) [9, 9, 9, 9, 9, 9], Age, Learn (0xa8c0, 0x0301) [8, 8, 8, 8, 8, 8]]"
  let ?s = "sample_net sample_packet 40" and ?ip = "(0xa8c0, 0x0301) :: ipaddr"
  have ok: "net_ok ?s" by (rule sample_net_ok) (simp add: sample_packet_def)
  have ops: "list_all (op_ok eth_ok) ?ops" by (simp add: eth_ok_def)
  have table: "arp_table ?s = replicate 8 \<lparr>e_ipaddr = (0, 0), e_ethaddr = replicate 6 0, e_time = 0\<rparr>"
    by (simp add: sample_net_def)
  have same: "uip_buf (run_ops uip_arp_update uip_arp_timer ?ops ?s) = uip_buf ?s"
    "uip_hostaddr (run_ops uip_arp_update uip_arp_timer ?ops ?s) = (0xa8c0, 0x0201)"
    "uip_netmask (run_ops uip_arp_update uip_arp_timer ?ops ?s) = (0xffff, 0x00ff)"
    by (simp_all add: uip_arp_update_def uip_arp_timer_def Let_def sample_net_def)
  have dest: "get_ip (uip_buf ?s) 30 = Some ?ip"
    by (simp add: sample_net_def sample_packet_def get_ip_def get16_def mem_read_def word16_def)
  from arp_out_latest[OF ok ops refl, of ?ip] dest same
  show ?thesis by (auto simp: entry_in_use_def uip_ipaddr_maskcmp_def arp_question_def)
qed

end
