(* ===== verification/Checksum.thy ===== *)
theory Checksum
  imports Arp
begin

text \<open>
  The arithmetic of \<^verbatim>\<open>WiShield/uip.c\<close>: the sum in ones' complement over the packet buffer, the checksums of the IP
  header and of the upper layers, and the addition to a 32-bit sequence number kept as four bytes. The reference is
  the sum of the 16-bit numbers as a natural number, reduced modulo 65535 in the way that ones' complement does it (\<open>oc_norm\<close>),
  and the addition of 32-bit words.
\<close>

section \<open>Sums\<close>

definition add_carry :: "u16 \<Rightarrow> u16 \<Rightarrow> u16" where
  "add_carry acc t = (let acc = acc + t in if acc < t then acc + 1 else acc)"

fun chksum_loop :: "u16 \<Rightarrow> u8 list \<Rightarrow> nat \<Rightarrow> nat \<Rightarrow> u16 option" where
  "chksum_loop acc m a n =
    (if 2 \<le> n then do {
       x \<leftarrow> c_read m (int a);
       y \<leftarrow> c_read m (int a + 1);
       let t = push_bit 8 (ucast x) + ucast y;
       chksum_loop (add_carry acc t) m (a + 2) (n - 2) }
     else if n = 1 then do {
       x \<leftarrow> c_read m (int a);
       let t = push_bit 8 (ucast x);
       Some (add_carry acc t) }
     else Some acc)"

definition chksum :: "u16 \<Rightarrow> u8 list \<Rightarrow> nat \<Rightarrow> u16 \<Rightarrow> u16 option" where
  "chksum acc m a len = chksum_loop acc m a (unat len)"

definition uip_chksum :: "u8 list \<Rightarrow> nat \<Rightarrow> u16 \<Rightarrow> u16 option" where
  "uip_chksum m a len = map_option HTONS (chksum 0 m a len)"

definition uip_ipchksum :: "u8 list \<Rightarrow> u16 option" where
  "uip_ipchksum m = do {
     acc \<leftarrow> chksum 0 m 14 20;
     Some (if acc = 0 then 0xffff else HTONS acc) }"

definition upper_layer_chksum :: "u8 \<Rightarrow> u8 list \<Rightarrow> u16 option" where
  "upper_layer_chksum proto m = do {
     len0 \<leftarrow> c_read m 16;
     len1 \<leftarrow> c_read m 17;
     let upper_layer_len = push_bit 8 (ucast len0) + ucast len1 - 20;
     let acc = upper_layer_len + ucast proto;
     acc \<leftarrow> chksum acc m 26 8;
     acc \<leftarrow> chksum acc m 34 upper_layer_len;
     Some (if acc = 0 then 0xffff else HTONS acc) }"

definition uip_tcpchksum :: "u8 list \<Rightarrow> u16 option" where
  "uip_tcpchksum m = upper_layer_chksum 6 m"

definition uip_udpchksum :: "u8 list \<Rightarrow> u16 option" where
  "uip_udpchksum m = upper_layer_chksum 17 m"

definition uip_add32 :: "u8 list \<Rightarrow> u16 \<Rightarrow> u8 list" where
  "uip_add32 op32 op16 =
    (let lo = ucast (op16 AND 0xff) :: u8; hi = ucast (drop_bit 8 op16) :: u8;
         a3 = op32 ! 3 + lo; a2 = op32 ! 2 + hi; a1 = op32 ! 1; a0 = op32 ! 0;
         (a1, a0) = (if a2 < hi then (a1 + 1, if a1 + 1 = 0 then a0 + 1 else a0) else (a1, a0));
         (a2, a1, a0) = (if a3 < lo
           then (a2 + 1, if a2 + 1 = 0 then (a1 + 1, if a1 + 1 = 0 then a0 + 1 else a0) else (a1, a0))
           else (a2, a1, a0))
     in [a0, a1, a2, a3])"

section \<open>Ones' complement\<close>

definition oc_norm :: "nat \<Rightarrow> nat" where
  "oc_norm n = (if n = 0 then 0 else Suc ((n - 1) mod 65535))"

fun word_sum :: "u8 list \<Rightarrow> nat" where
  "word_sum [] = 0"
| "word_sum [x] = 256 * unat x"
| "word_sum (x # y # bs) = 256 * unat x + unat y + word_sum bs"

lemma oc_norm_less: "oc_norm n < 65536"
  using mod_less_divisor[of 65535 "n - 1"] by (simp add: oc_norm_def)

lemma oc_norm_id: "n < 65536 \<Longrightarrow> oc_norm n = n"
  by (auto simp: oc_norm_def)

lemma oc_norm_mod: "oc_norm n mod 65535 = n mod 65535"
  by (cases n) (simp_all add: oc_norm_def mod_Suc_eq)

lemma oc_norm_0 [simp]: "oc_norm n = 0 \<longleftrightarrow> n = 0"
  by (simp add: oc_norm_def)

lemma oc_norm_zero [simp]: "oc_norm 0 = 0"
  by (simp add: oc_norm_def)

lemma oc_norm_cong: "m mod 65535 = n mod 65535 \<Longrightarrow> m = 0 \<longleftrightarrow> n = 0 \<Longrightarrow> oc_norm m = oc_norm n"
proof -
  assume eq: "m mod 65535 = n mod 65535" and z: "m = 0 \<longleftrightarrow> n = 0"
  have "oc_norm k = (if k = 0 then 0 else if k mod 65535 = 0 then 65535 else k mod 65535)" for k
    by (cases k) (auto simp: oc_norm_def mod_Suc)
  with eq z show ?thesis by simp
qed

lemma oc_norm_add: "oc_norm (oc_norm m + n) = oc_norm (m + n)"
  by (rule oc_norm_cong) (metis mod_add_left_eq oc_norm_mod, simp)

lemma add_carry_norm: "unat (add_carry s t) = oc_norm (unat s + unat t)"
proof -
  have lt: "unat s < 65536" "unat t < 65536"
    using unsigned_less[of s, where 'a = nat] unsigned_less[of t, where 'a = nat] by simp_all
  show ?thesis
  proof (cases "unat s + unat t < 65536")
    case True
    then have "unat (s + t) = unat s + unat t" by (simp add: unat_word_ariths)
    with True show ?thesis by (simp add: add_carry_def word_less_nat_alt oc_norm_id)
  next
    case False
    then have s: "unat (s + t) = unat s + unat t - 65536"
      using lt by (simp add: unat_word_ariths mod_if)
    moreover have "s + t < t" using s lt False by (simp add: word_less_nat_alt)
    moreover have "unat (s + t + 1) = unat s + unat t - 65535"
      using s lt False by (subst unat_word_ariths) simp
    moreover have "oc_norm (unat s + unat t) = unat s + unat t - 65535"
      using lt False by (auto simp: oc_norm_def mod_if)
    ultimately show ?thesis by (simp add: add_carry_def)
  qed
qed

section \<open>The sum over the buffer\<close>

declare chksum_loop.simps [simp del]

lemma unat_high_byte: "unat (push_bit 8 (ucast (x :: u8)) :: u16) = 256 * unat x"
proof -
  have "256 * unat x < 65536" "unat x < 65536" using unat_u8_less[of x] by linarith+
  then show ?thesis
    by (simp add: push_bit_eq_mult unat_word_ariths unat_ucast_mod)
qed

lemma unat_two_bytes: "unat (push_bit 8 (ucast (x :: u8)) + ucast (y :: u8) :: u16) = 256 * unat x + unat y"
proof -
  have "256 * unat x + unat y < 65536" using unat_u8_less[of x] unat_u8_less[of y] by linarith
  then show ?thesis
    by (subst unat_add_small) (simp_all add: unat_high_byte unat_ucast_mod)
qed

lemma block_Cons: "a + Suc n \<le> length m \<Longrightarrow> block m a (Suc n) = m ! a # block m (Suc a) n"
  by (simp add: block_def Cons_nth_drop_Suc[symmetric])

lemma chksum_loop_eq:
  "a + n \<le> length m \<Longrightarrow> chksum_loop acc m a n = Some (of_nat (oc_norm (unat acc + word_sum (block m a n))))"
proof (induction acc m a n rule: chksum_loop.induct)
  case (1 acc m a n)
  consider "n = 0" | "n = 1" | k where "n = Suc (Suc k)"
    by (metis One_nat_def not0_implies_Suc)
  then show ?case
  proof cases
    assume "n = 0"
    then show ?thesis
      using unsigned_less[of acc, where 'a = nat] by (simp add: chksum_loop.simps block_def oc_norm_id)
  next
    assume n: "n = 1"
    with 1 have b: "block m a n = [m ! a]"
      using block_Cons[of a 0 m] by (simp add: block_def)
    have "add_carry acc (push_bit 8 (ucast (m ! a))) = of_nat (oc_norm (unat acc + 256 * unat (m ! a)))"
      by (rule word_unat_eq_iff[THEN iffD2]) (simp add: add_carry_norm unat_high_byte unat_of_nat oc_norm_less)
    with 1 n b show ?thesis by (simp add: chksum_loop.simps)
  next
    fix k
    assume n: "n = Suc (Suc k)"
    with 1 have b: "block m a n = m ! a # m ! Suc a # block m (a + 2) k"
      using block_Cons[of a "Suc k" m] block_Cons[of "Suc a" k m] by simp
    let ?t = "push_bit 8 (ucast (m ! a)) + ucast (m ! Suc a) :: u16"
    have "chksum_loop acc m a n = chksum_loop (add_carry acc ?t) m (a + 2) k"
      using 1 n by (subst chksum_loop.simps) (simp add: nat_add_distrib)
    also have "\<dots> = Some (of_nat (oc_norm (unat (add_carry acc ?t) + word_sum (block m (a + 2) k))))"
      using 1 n by (auto simp: nat_add_distrib)
    finally show ?thesis
      by (simp add: add_carry_norm oc_norm_add unat_two_bytes b add.assoc)
  qed
qed

lemma chksum_loop_out: "a \<le> length m \<Longrightarrow> length m < a + n \<Longrightarrow> chksum_loop acc m a n = None"
proof (induction acc m a n rule: chksum_loop.induct)
  case (1 acc m a n)
  show ?case
  proof (cases "a + 1 < length m \<and> 2 \<le> n")
    case True
    then have "chksum_loop acc m a n =
        chksum_loop (add_carry acc (push_bit 8 (ucast (m ! a)) + ucast (m ! (a + 1)))) m (a + 2) (n - 2)"
      by (subst chksum_loop.simps) (simp add: nat_add_distrib)
    moreover have "a + 2 \<le> length m" "length m < a + 2 + (n - 2)" using True 1 by linarith+
    ultimately show ?thesis using 1 True by (auto simp: nat_add_distrib)
  next
    case False
    with 1 show ?thesis
      by (subst chksum_loop.simps) (auto simp: c_read_def split: Option.bind_split)
  qed
qed

text \<open>
  C34: The loop over the buffer computes the ones' complement sum of its 16-bit numbers in network order, an odd last byte
  padded with zero: the sum of the numbers reduced to 16 bits with every carry added back, without access outside of the buffer.
\<close>

theorem chksum_ones_complement:
  assumes "a + unat len \<le> length m"
  shows "chksum acc m a len = Some (of_nat (oc_norm (unat acc + word_sum (take (unat len) (drop a m)))))"
  using chksum_loop_eq[OF assms] by (simp add: chksum_def block_def)

theorem chksum_ones_complement_witness:
  "chksum 0xffff [0x12, 0x34, 0xff, 0xfe, 0x80] 1 3 = Some 0x3300"
  using chksum_ones_complement[where a = 1 and len = 3 and m = "[0x12, 0x34, 0xff, 0xfe, 0x80]" and acc = "0xffff"] by (simp add: oc_norm_def)

section \<open>A checksum that is filled in verifies\<close>

lemma word_sum_append: "even (length xs) \<Longrightarrow> word_sum (xs @ ys) = word_sum xs + word_sum ys"
  by (induction xs rule: word_sum.induct) auto

lemma oc_complement: "n \<noteq> 0 \<Longrightarrow> oc_norm (n + (65535 - oc_norm n)) = 65535"
proof -
  assume n: "n \<noteq> 0"
  define k where "k = 65535 - oc_norm n"
  have k: "oc_norm n + k = 65535" using oc_norm_less[of n] by (simp add: k_def)
  from n have "oc_norm (n + k) = oc_norm (oc_norm n + k)" by (simp add: oc_norm_add)
  with k show ?thesis by (simp add: k_def oc_norm_def)
qed

lemma word_sum_bytes16: "word_sum (bytes16 (HTONS w)) = unat w"
proof -
  have "unat w = 256 * (unat w div 256) + unat w mod 256" by simp
  moreover have "unat w div 256 < 256"
    using unsigned_less[of w, where 'a = nat] by (simp add: less_mult_imp_div_less)
  ultimately show ?thesis
    by (simp add: bytes16_HTONS unat_ucast_mod unat_drop_bit)
qed

lemma not_bit_u16: "16 \<le> n \<Longrightarrow> \<not> bit (w :: u16) n"
  using bit_imp_le_length[of w n] by auto

lemma HTONS_not: "HTONS (NOT w) = NOT (HTONS w)"
  by (rule bit_word_eqI) (auto simp: HTONS_def bit_simps not_bit_u16)

text \<open>The value that is stored for a sum \<open>s\<close>, and the sum of a packet in which it is stored instead of zero.\<close>

definition chksum_value :: "u16 \<Rightarrow> u16" where
  "chksum_value s = NOT (if s = 0 then 0xffff else HTONS s)"

lemma unat_not_u16: "unat (NOT (w :: u16)) = 65535 - unat w"
proof -
  have "NOT w = - 1 - w" by (simp add: not_eq_complement)
  moreover have "unat (- 1 - w) = unat (- 1 :: u16) - unat w" by (rule unat_sub) simp
  moreover have "unat (- 1 :: u16) = 65535" by (simp add: unsigned_minus_1_eq_mask mask_eq_exp_minus_1)
  ultimately show ?thesis by simp
qed

lemma chksum_value_sum:
  assumes "n \<noteq> 0"
  shows "word_sum (bytes16 (chksum_value (of_nat (oc_norm n)))) = 65535 - oc_norm n"
proof -
  have n: "unat (of_nat (oc_norm n) :: u16) = oc_norm n"
    using oc_norm_less[of n] by (simp add: unat_of_nat)
  with assms have "(of_nat (oc_norm n) :: u16) \<noteq> 0" by (metis oc_norm_0 unat_0)
  then have "chksum_value (of_nat (oc_norm n)) = HTONS (NOT (of_nat (oc_norm n)))"
    by (simp add: chksum_value_def HTONS_not)
  then show ?thesis by (simp only: word_sum_bytes16 unat_not_u16 n)
qed

definition verified :: "nat \<Rightarrow> bool" where
  "verified n \<longleftrightarrow> n mod 65535 = 0"

lemma verified_norm: "verified n \<longleftrightarrow> oc_norm n \<in> {0, 65535}"
proof -
  have "verified n \<longleftrightarrow> oc_norm n mod 65535 = 0" by (simp add: verified_def oc_norm_mod)
  also have "\<dots> \<longleftrightarrow> oc_norm n \<in> {0, 65535}"
    using oc_norm_less[of n] by (auto simp: mod_if split: if_splits)
  finally show ?thesis .
qed

lemma chksum_value_verified: "verified (n + word_sum (bytes16 (chksum_value (of_nat (oc_norm n)))))"
proof (cases "n = 0")
  case True
  then show ?thesis by (simp add: chksum_value_def bytes16_def verified_def)
next
  case False
  then show ?thesis by (simp add: chksum_value_sum oc_complement verified_norm)
qed

lemma HTONS_ffff: "HTONS 0xffff = 0xffff"
  by (simp add: HTONS_def)

lemma verified_result:
  "(let s = of_nat (oc_norm n) :: u16 in if s = 0 then 0xffff else HTONS s) = 0xffff \<longleftrightarrow> verified n"
proof -
  have n: "unat (of_nat (oc_norm n) :: u16) = oc_norm n"
    using oc_norm_less[of n] by (simp add: unat_of_nat)
  then have "(of_nat (oc_norm n) :: u16) = 0 \<longleftrightarrow> oc_norm n = 0"
    "(of_nat (oc_norm n) :: u16) = 0xffff \<longleftrightarrow> oc_norm n = 65535"
    by (simp_all only: word_unat_eq_iff unsigned_0) simp
  moreover have "HTONS w = 0xffff \<longleftrightarrow> w = 0xffff" for w
    by (metis HTONS_HTONS HTONS_ffff)
  ultimately show ?thesis by (auto simp: verified_norm Let_def)
qed

lemma uip_ipchksum_eq:
  assumes "34 \<le> length m"
  shows "uip_ipchksum m = Some (let s = of_nat (oc_norm (word_sum (block m 14 20))) in if s = 0 then 0xffff else HTONS s)"
  using assms by (simp add: uip_ipchksum_def chksum_def chksum_loop_eq)

lemma block_field:
  assumes "a \<le> f" "f + 2 \<le> a + n" "a + n \<le> length m"
  shows "block m a n = block m a (f - a) @ block m f 2 @ block m (f + 2) (a + n - (f + 2))"
proof -
  have "block m a n = block m a (f - a) @ block m f (a + n - f)"
    using block_split[of m a "f - a" "a + n - f"] assms by simp
  moreover have "block m f (a + n - f) = block m f 2 @ block m (f + 2) (a + n - (f + 2))"
    using block_split[of m f 2 "a + n - (f + 2)"] assms by (simp del: add_2_eq_Suc)
  ultimately show ?thesis by simp
qed

text \<open>The sum over a block of which a 16-bit field at an even offset is replaced.\<close>

lemma word_sum_field:
  assumes "a \<le> f" "even (f - a)" "f + 2 \<le> a + n" "a + n \<le> length m" "length bs = 2"
  shows "word_sum (block (put_block m f bs) a n) + word_sum (block m f 2) = word_sum (block m a n) + word_sum bs"
proof -
  have "word_sum (block (put_block m f bs) a n) =
      word_sum (block m a (f - a)) + word_sum bs + word_sum (block m (f + 2) (a + n - (f + 2)))"
    using assms by (subst block_field[of a f]) (simp_all add: word_sum_append net_mem)
  moreover have "word_sum (block m a n) =
      word_sum (block m a (f - a)) + word_sum (block m f 2) + word_sum (block m (f + 2) (a + n - (f + 2)))"
    using assms by (subst block_field[of a f]) (simp_all add: word_sum_append net_mem)
  ultimately show ?thesis by simp
qed

lemma ip_checksum_filled:
  assumes "34 \<le> length m" "block m 24 2 = [0, 0]" "uip_ipchksum m = Some c"
  shows "uip_ipchksum (put_block m 24 (bytes16 (NOT c))) = Some 0xffff"
proof -
  let ?n = "word_sum (block m 14 20)"
  have c: "NOT c = chksum_value (of_nat (oc_norm ?n))"
    using assms by (auto simp: uip_ipchksum_eq chksum_value_def Let_def)
  have "word_sum (block (put_block m 24 (bytes16 (NOT c))) 14 20) = ?n + word_sum (bytes16 (NOT c))"
    using word_sum_field[of 14 24 20 m "bytes16 (NOT c)"] assms(1,2) by simp
  then have "verified (word_sum (block (put_block m 24 (bytes16 (NOT c))) 14 20))"
    using chksum_value_verified[of ?n] by (simp add: c)
  with assms(1) show ?thesis by (simp add: uip_ipchksum_eq verified_result)
qed

text \<open>The upper layers: a pseudo header, the addresses and the data of the packet.\<close>

definition ip_total_length :: "u8 list \<Rightarrow> nat" where
  "ip_total_length m = 256 * unat (m ! 16) + unat (m ! 17)"

definition pseudo_sum :: "u8 \<Rightarrow> u8 list \<Rightarrow> nat" where
  "pseudo_sum proto m = ip_total_length m - 20 + unat proto + word_sum (block m 26 8) + word_sum (block m 34 (ip_total_length m - 20))"

lemma ip_total_length_word:
  "unat (push_bit 8 (ucast (m ! 16)) + ucast (m ! 17) :: u16) = ip_total_length m"
  by (simp add: unat_two_bytes ip_total_length_def)

lemma upper_layer_chksum_eq:
  assumes "length m = 4002" "20 \<le> ip_total_length m" "ip_total_length m + 14 \<le> 4002"
  shows "upper_layer_chksum proto m =
    Some (let s = of_nat (oc_norm (pseudo_sum proto m)) in if s = 0 then 0xffff else HTONS s)"
proof -
  let ?len = "push_bit 8 (ucast (m ! 16)) + ucast (m ! 17) - 20 :: u16"
  have "unat ?len = unat (push_bit 8 (ucast (m ! 16)) + ucast (m ! 17) :: u16) - unat (20 :: u16)"
    using assms(2) by (intro unat_sub) (simp add: word_le_nat_alt ip_total_length_word)
  then have len: "unat ?len = ip_total_length m - 20"
    by (simp add: ip_total_length_word)
  have "unat ?len + unat proto < 65536"
    using len assms(3) unat_u8_less[of proto] by linarith
  then have first: "unat (?len + ucast proto) = ip_total_length m - 20 + unat proto"
    using unat_add_small[of ?len "ucast proto"] len by (simp add: unat_ucast_mod)
  have "chksum (?len + ucast proto) m 26 8 = Some (of_nat (oc_norm (ip_total_length m - 20 + unat proto + word_sum (block m 26 8))))"
    using assms(1) by (simp add: chksum_def chksum_loop_eq first)
  moreover have "chksum acc m 34 ?len = Some (of_nat (oc_norm (unat acc + word_sum (block m 34 (ip_total_length m - 20)))))" for acc
    using assms by (simp add: chksum_def chksum_loop_eq len)
  ultimately show ?thesis
    using assms(1) by (simp add: upper_layer_chksum_def pseudo_sum_def Let_def unat_of_nat oc_norm_less oc_norm_add)
qed

text \<open>Storing the complement of the sum in a 16-bit field of the upper layer that was zero makes the packet verify.\<close>

lemma pseudo_sum_field:
  assumes "length m = 4002" "34 \<le> f" "even f" "f + 2 \<le> 14 + ip_total_length m" "ip_total_length m + 14 \<le> 4002"
    and "block m f 2 = [0, 0]" "length bs = 2"
  shows "pseudo_sum proto (put_block m f bs) = pseudo_sum proto m + word_sum bs"
proof -
  have nth: "put_block m f bs ! i = m ! i" if "i < 34" for i
    using that assms by (simp add: nth_put)
  then have total: "ip_total_length (put_block m f bs) = ip_total_length m"
    by (simp add: ip_total_length_def)
  have "block (put_block m f bs) 26 8 = block m 26 8"
    using assms by (simp add: net_mem)
  moreover have "word_sum (block (put_block m f bs) 34 (ip_total_length m - 20)) =
      word_sum (block m 34 (ip_total_length m - 20)) + word_sum bs"
    using word_sum_field[of 34 f "ip_total_length m - 20" m bs] assms by simp
  ultimately show ?thesis by (simp add: pseudo_sum_def total)
qed

lemma upper_checksum_filled:
  assumes "length m = 4002" "34 \<le> f" "even f" "f + 2 \<le> 14 + ip_total_length m" "ip_total_length m + 14 \<le> 4002"
    and "block m f 2 = [0, 0]" "upper_layer_chksum proto m = Some c"
  shows "upper_layer_chksum proto (put_block m f (bytes16 (NOT c))) = Some 0xffff"
proof -
  let ?m = "put_block m f (bytes16 (NOT c))"
  have "?m ! i = m ! i" if "i < 34" for i
    using that assms by (simp add: nth_put)
  then have total: "ip_total_length ?m = ip_total_length m" by (simp add: ip_total_length_def)
  have "NOT c = chksum_value (of_nat (oc_norm (pseudo_sum proto m)))"
    using assms upper_layer_chksum_eq[of m proto] by (auto simp: chksum_value_def Let_def)
  then have "verified (pseudo_sum proto ?m)"
    using pseudo_sum_field[OF assms(1-6), of "bytes16 (NOT c)" proto] chksum_value_verified[of "pseudo_sum proto m"] by simp
  with upper_layer_chksum_eq[of ?m proto] assms total show ?thesis by (simp add: verified_result)
qed

lemma upper_checksum_filled_ones:
  assumes "length m = 4002" "34 \<le> f" "even f" "f + 2 \<le> 14 + ip_total_length m" "ip_total_length m + 14 \<le> 4002"
    and "block m f 2 = [0, 0]" "upper_layer_chksum proto m = Some c" "NOT c = 0"
  shows "upper_layer_chksum proto (put_block m f (bytes16 0xffff)) = Some 0xffff"
proof -
  let ?m = "put_block m f (bytes16 0xffff)"
  have "?m ! i = m ! i" if "i < 34" for i
    using that assms by (simp add: nth_put)
  then have total: "ip_total_length ?m = ip_total_length m" by (simp add: ip_total_length_def)
  have "chksum_value (of_nat (oc_norm (pseudo_sum proto m))) = 0"
    using assms upper_layer_chksum_eq[of m proto] by (auto simp: chksum_value_def Let_def)
  then have "verified (pseudo_sum proto m)"
    using chksum_value_verified[of "pseudo_sum proto m"] by (simp add: bytes16_def)
  then have "verified (pseudo_sum proto ?m)"
    using pseudo_sum_field[OF assms(1-6), of "bytes16 0xffff" proto] by (simp add: bytes16_def verified_def)
  with upper_layer_chksum_eq[of ?m proto] assms total show ?thesis by (simp add: verified_result)
qed

text \<open>
  An IP length below the size of the header makes the length of the upper layer wrap around, and the sum runs out of the buffer.
\<close>

lemma short_packet_overread:
  assumes "length m = 4002" "ip_total_length m < 20"
  shows "upper_layer_chksum proto m = None"
proof -
  let ?w = "push_bit 8 (ucast (m ! 16)) + ucast (m ! 17) :: u16"
  have "unat ?w < 20" using assms(2) by (simp add: ip_total_length_word)
  then have "65516 \<le> unat (?w - 20)"
    by (simp add: unat_sub_if' word_le_nat_alt)
  then have "chksum acc m 34 (?w - 20) = None" for acc
    using assms(1) chksum_loop_out[of 34 m "unat (?w - 20)" acc] by (simp add: chksum_def)
  then show ?thesis
    using assms(1) by (simp add: upper_layer_chksum_def split: Option.bind_split)
qed

section \<open>Sequence numbers\<close>

definition be32 :: "u8 list \<Rightarrow> nat" where
  "be32 bs = ((unat (bs ! 0) * 256 + unat (bs ! 1)) * 256 + unat (bs ! 2)) * 256 + unat (bs ! 3)"

lemma add_u8_carry:
  fixes x y :: u8
  shows "unat x + unat y = unat (x + y) + (if x + y < y then 256 else 0)"
proof (cases "unat x + unat y < 256")
  case True
  then show ?thesis by (simp add: unat_word_ariths word_less_nat_alt)
next
  case False
  moreover have "unat x + unat y - 256 < 256"
    using unat_u8_less[of x] unat_u8_less[of y] by linarith
  ultimately have "unat (x + y) = unat x + unat y - 256"
    by (simp add: unat_word_ariths le_mod_geq)
  with False show ?thesis
    using unat_u8_less[of x] unfolding word_less_nat_alt by (split if_split) linarith
qed

lemma u8_less_1: "(x :: u8) < 1 \<longleftrightarrow> x = 0"
  by (simp add: word_less_nat_alt unat_eq_zero)

lemma inc_u8_carry: "unat (x :: u8) + 1 = unat (x + 1) + (if x + 1 = 0 then 256 else 0)"
  using add_u8_carry[of x 1] by (simp only: u8_less_1 unsigned_1)

lemma u16_bytes: "unat (w :: u16) = 256 * unat (ucast (drop_bit 8 w) :: u8) + unat (ucast (w AND 0xff) :: u8)"
proof -
  have "unat w div 256 < 256"
    using unsigned_less[of w, where 'a = nat] by (simp add: less_mult_imp_div_less)
  moreover have "unat (w AND 0xff) = unat w mod 256"
    using unat_and_mask[of w 8] by (simp add: mask_eq_exp_minus_1)
  ultimately show ?thesis by (simp add: unat_ucast_mod unat_drop_bit)
qed

text \<open>The carry into the upper bytes.\<close>

lemma carry_2:
  fixes a0 a1 :: u8
  shows "\<exists>k. unat (if a1 + 1 = 0 then a0 + 1 else a0) * 256 + unat (a1 + 1) + 65536 * k = unat a0 * 256 + unat a1 + 1"
proof (cases "a1 + 1 = 0")
  case True
  with inc_u8_carry[of a1] inc_u8_carry[of a0] show ?thesis
    by (intro exI[of _ "if a0 + 1 = 0 then 1 else 0"]) (simp split: if_splits)
next
  case False
  with inc_u8_carry[of a1] show ?thesis by (intro exI[of _ 0]) simp
qed

lemma carry_3:
  fixes a0 a1 a2 :: u8
  assumes "(c1, c0) = (if a2 + 1 = 0 then (a1 + 1, if a1 + 1 = 0 then a0 + 1 else a0) else (a1, a0))"
  shows "\<exists>k. (unat c0 * 256 + unat c1) * 256 + unat (a2 + 1) + 16777216 * k = (unat a0 * 256 + unat a1) * 256 + unat a2 + 1"
proof (cases "a2 + 1 = 0")
  case True
  obtain k where "unat c0 * 256 + unat c1 + 65536 * k = unat a0 * 256 + unat a1 + 1"
    using carry_2[of a1 a0] True assms by auto
  with True inc_u8_carry[of a2] show ?thesis by (intro exI[of _ k]) simp
next
  case False
  with assms inc_u8_carry[of a2] show ?thesis by (intro exI[of _ 0]) simp
qed

lemma uip_add32_carry:
  assumes "length bs = 4"
  shows "\<exists>k. be32 (uip_add32 bs n) + 4294967296 * k = be32 bs + unat n"
proof -
  obtain a0 a1 a2 a3 where bs: "bs = [a0, a1, a2, a3]"
    using assms by (auto simp: numeral_eq_Suc length_Suc_conv)
  define lo hi where "lo = (ucast (n AND 0xff) :: u8)" and "hi = (ucast (drop_bit 8 n) :: u8)"
  obtain b1 b0 where b: "(b1, b0) = (if a2 + hi < hi then (a1 + 1, if a1 + 1 = 0 then a0 + 1 else a0) else (a1, a0))"
    by (metis surj_pair)
  obtain c2 c1 c0 where c: "(c2, c1, c0) = (if a3 + lo < lo
      then (a2 + hi + 1, if a2 + hi + 1 = 0 then (b1 + 1, if b1 + 1 = 0 then b0 + 1 else b0) else (b1, b0)) else (a2 + hi, b1, b0))"
    by (metis surj_pair)
  have eq: "uip_add32 bs n = [c0, c1, c2, a3 + lo]"
    by (simp add: uip_add32_def bs flip: lo_def hi_def b c)
  obtain k1 where k1: "unat b0 * 256 + unat b1 + 65536 * k1 = unat a0 * 256 + unat a1 + (if a2 + hi < hi then 1 else 0)"
    using carry_2[of a1 a0] b by (cases "a2 + hi < hi") auto
  obtain k2 where k2: "(unat c0 * 256 + unat c1) * 256 + unat c2 + 16777216 * k2 =
      (unat b0 * 256 + unat b1) * 256 + unat (a2 + hi) + (if a3 + lo < lo then 1 else 0)"
    using carry_3[of c1 c0 "a2 + hi" b1 b0] c by (cases "a3 + lo < lo") (auto intro: exI[of _ 0])
  have n: "unat n = 256 * unat hi + unat lo"
    unfolding lo_def hi_def by (rule u16_bytes)
  have "be32 (uip_add32 bs n) = ((unat c0 * 256 + unat c1) * 256 + unat c2) * 256 + unat (a3 + lo)"
    by (simp add: eq be32_def)
  moreover have "be32 bs = ((unat a0 * 256 + unat a1) * 256 + unat a2) * 256 + unat a3"
    by (simp add: bs be32_def)
  ultimately have "be32 (uip_add32 bs n) + 4294967296 * (k1 + k2) = be32 bs + unat n"
    using k1 k2 add_u8_carry[of a3 lo] add_u8_carry[of a2 hi] n by (simp split: if_splits)
  then show ?thesis by blast
qed

lemma append_byte_less: "(a :: nat) < p \<Longrightarrow> b < 256 \<Longrightarrow> a * 256 + b < p * 256"
proof -
  assume "a < p" "b < 256"
  then have "a * 256 + b < Suc a * 256" "Suc a * 256 \<le> p * 256" by simp_all
  then show ?thesis by (rule less_le_trans)
qed

lemma be32_less: "be32 xs < 2 ^ 32"
proof -
  have "be32 xs < 256 * 256 * 256 * 256" unfolding be32_def by (intro append_byte_less unat_u8_less)
  then show ?thesis by simp
qed

text \<open>
  The addition with carries over the four bytes of a sequence number, most significant byte first, is the addition of 32-bit
  numbers.
\<close>

theorem uip_add32_correct:
  assumes "length bs = 4"
  shows "length (uip_add32 bs n) = 4 \<and> be32 (uip_add32 bs n) = (be32 bs + unat n) mod 2 ^ 32"
proof -
  obtain k where k: "be32 (uip_add32 bs n) + 4294967296 * k = be32 bs + unat n"
    using uip_add32_carry[OF assms] by blast
  have "be32 (uip_add32 bs n) < 4294967296" using be32_less[of "uip_add32 bs n"] by simp
  then have "be32 (uip_add32 bs n) = (be32 (uip_add32 bs n) + 4294967296 * k) mod 4294967296" by simp
  with k show ?thesis by (simp add: uip_add32_def Let_def split: prod.split)
qed

theorem uip_add32_correct_witness:
  "be32 (uip_add32 [0x12, 0xff, 0xff, 0x80] 0x0180) = 0x13000100"
  using uip_add32_correct[of "[0x12, 0xff, 0xff, 0x80]" "0x0180"] by (simp add: be32_def)

end
