(* ===== verification/Uip_Ip.thy ===== *)
theory Uip_Ip
  imports Checksum
begin

text \<open>
  The IP layer of \<^verbatim>\<open>WiShield/uip.c\<close>, with ICMP echo and UDP: the parts of \<^verbatim>\<open>uip_process\<close> that check an incoming IP
  packet, answer an echo request, deliver a datagram and send one. The labels of \<^verbatim>\<open>uip_process\<close> are definitions;
  the check of the header ends with the label to which the code jumps (\<open>ip_goto\<close>). The application behind
  \<^verbatim>\<open>UIP_UDP_APPCALL\<close> is a parameter. The configuration is that of \<^verbatim>\<open>uip-conf.h\<close>: IPv4, no reassembly, no address
  configuration by ping, broadcast and UDP with checksums.
\<close>

section \<open>State\<close>

record uip_udp_conn =
  u_ripaddr :: ipaddr
  u_lport :: u16
  u_rport :: u16
  u_ttl :: u8

record uip = net +
  uip_flags :: u8
  uip_slen :: u16
  uip_sappdata :: nat
  ipid :: u16
  uip_conn :: "nat option"
  uip_udp_conns :: "uip_udp_conn list"
  cur_udp_conn :: nat

datatype ip_goto = Goto_udp_input | Goto_tcp_input | Return

section \<open>Sending\<close>

definition ip_drop :: "('a) uip_scheme \<Rightarrow> ('a) uip_scheme" where
  "ip_drop s = s\<lparr>uip_len := 0, uip_flags := 0\<rparr>"

definition ip_send :: "('a) uip_scheme \<Rightarrow> ('a) uip_scheme" where
  "ip_send s = s\<lparr>uip_flags := 0\<rparr>"

definition ip_send_nolen :: "('a) uip_scheme \<Rightarrow> ('a) uip_scheme option" where
  "ip_send_nolen s = do {
     m \<leftarrow> mem_write (uip_buf s) 14 [0x45];
     m \<leftarrow> mem_write m 15 [0];
     m \<leftarrow> mem_write m 21 [0];
     m \<leftarrow> mem_write m 20 [0];
     let s = s\<lparr>ipid := ipid s + 1\<rparr>;
     m \<leftarrow> mem_write m 18 [ucast (drop_bit 8 (ipid s))];
     m \<leftarrow> mem_write m 19 [ucast (ipid s)];
     m \<leftarrow> put16 m 24 0;
     c \<leftarrow> uip_ipchksum m;
     m \<leftarrow> put16 m 24 (NOT c);
     Some (ip_send (s\<lparr>uip_buf := m\<rparr>)) }"

definition udp_send :: "('a) uip_scheme \<Rightarrow> ('a) uip_scheme option" where
  "udp_send s =
    (if uip_slen s = 0 then Some (ip_drop s)
     else do {
       let s = s\<lparr>uip_len := uip_slen s + 28\<rparr>;
       m \<leftarrow> mem_write (uip_buf s) 16 [ucast (drop_bit 8 (uip_len s))];
       m \<leftarrow> mem_write m 17 [ucast (uip_len s)];
       conn \<leftarrow> c_read (uip_udp_conns s) (int (cur_udp_conn s));
       m \<leftarrow> mem_write m 22 [u_ttl conn];
       m \<leftarrow> mem_write m 23 [17];
       m \<leftarrow> put16 m 38 (HTONS (uip_slen s + 8));
       m \<leftarrow> put16 m 40 0;
       m \<leftarrow> put16 m 34 (u_lport conn);
       m \<leftarrow> put16 m 36 (u_rport conn);
       m \<leftarrow> put_ip m 26 (uip_hostaddr s);
       m \<leftarrow> put_ip m 30 (u_ripaddr conn);
       let s = s\<lparr>uip_appdata := 54\<rparr>;
       c \<leftarrow> uip_udpchksum m;
       m \<leftarrow> put16 m 40 (NOT c);
       c \<leftarrow> get16 m 40;
       m \<leftarrow> (if c = 0 then put16 m 40 0xffff else Some m);
       ip_send_nolen (s\<lparr>uip_buf := m\<rparr>) })"

section \<open>Input\<close>

definition icmp_input :: "('a) uip_scheme \<Rightarrow> ('a) uip_scheme option" where
  "icmp_input s = do {
     type \<leftarrow> c_read (uip_buf s) 34;
     if type \<noteq> 8 then Some (ip_drop s)
     else do {
       m \<leftarrow> mem_write (uip_buf s) 34 [0];
       c \<leftarrow> get16 m 36;
       m \<leftarrow> put16 m 36 (if c \<ge> HTONS (0xffff - 0x0800) then c + (HTONS 0x0800 + 1) else c + HTONS 0x0800);
       src \<leftarrow> get_ip m 26;
       m \<leftarrow> put_ip m 30 src;
       m \<leftarrow> put_ip m 26 (uip_hostaddr s);
       Some (ip_send (s\<lparr>uip_buf := m\<rparr>)) } }"

definition ip_input :: "('a) uip_scheme \<Rightarrow> (ip_goto \<times> ('a) uip_scheme) option" where
  "ip_input s = do {
     let m = uip_buf s;
     vhl \<leftarrow> c_read m 14;
     len0 \<leftarrow> c_read m 16;
     len1 \<leftarrow> c_read m 17;
     off0 \<leftarrow> c_read m 20;
     off1 \<leftarrow> c_read m 21;
     proto \<leftarrow> c_read m 23;
     dest \<leftarrow> get_ip m 30;
     if vhl \<noteq> 0x45 then Some (Return, ip_drop s)
     else if \<not> push_bit 8 (ucast len0) + ucast len1 \<le> uip_len s then Some (Return, ip_drop s)
     else do {
       let s = s\<lparr>uip_len := push_bit 8 (ucast len0) + ucast len1\<rparr>;
       if off0 AND 0x3f \<noteq> 0 \<or> off1 \<noteq> 0 then Some (Return, ip_drop s)
       else if uip_hostaddr s \<noteq> (0, 0) \<and> proto = 17 \<and> dest = (0xffff, 0xffff) then Some (Goto_udp_input, s)
       else if uip_hostaddr s \<noteq> (0, 0) \<and> dest \<noteq> uip_hostaddr s then Some (Return, ip_drop s)
       else do {
         c \<leftarrow> uip_ipchksum m;
         if c \<noteq> 0xffff then Some (Return, ip_drop s)
         else if proto = 6 then Some (Goto_tcp_input, s)
         else if proto = 17 then Some (Goto_udp_input, s)
         else if proto \<noteq> 1 then Some (Return, ip_drop s)
         else map_option (Pair Return) (icmp_input s) } } }"

text \<open>The search for the UDP connection of a datagram; the number of connections if there is none.\<close>

definition udp_match :: "u8 list \<Rightarrow> uip_udp_conn \<Rightarrow> bool option" where
  "udp_match m conn = do {
     srcport \<leftarrow> get16 m 34;
     destport \<leftarrow> get16 m 36;
     src \<leftarrow> get_ip m 26;
     Some (u_lport conn \<noteq> 0 \<and> destport = u_lport conn \<and> (u_rport conn = 0 \<or> srcport = u_rport conn) \<and>
       (u_ripaddr conn = (0, 0) \<or> u_ripaddr conn = (0xffff, 0xffff) \<or> src = u_ripaddr conn)) }"

fun udp_find :: "u8 list \<Rightarrow> uip_udp_conn list \<Rightarrow> nat option" where
  "udp_find m [] = Some 0"
| "udp_find m (conn # conns) = do {
     b \<leftarrow> udp_match m conn;
     if b then Some 0 else map_option Suc (udp_find m conns) }"

definition udp_input :: "(('a) uip_scheme \<Rightarrow> ('a) uip_scheme) \<Rightarrow> ('a) uip_scheme \<Rightarrow> ('a) uip_scheme option" where
  "udp_input appcall s = do {
     let s = s\<lparr>uip_len := uip_len s - 28, uip_appdata := 42\<rparr>;
     chk \<leftarrow> get16 (uip_buf s) 40;
     bad \<leftarrow> (if chk = 0 then Some False else map_option (\<lambda>c. c \<noteq> 0xffff) (uip_udpchksum (uip_buf s)));
     if bad then Some (ip_drop s)
     else do {
       i \<leftarrow> udp_find (uip_buf s) (uip_udp_conns s);
       let s = s\<lparr>cur_udp_conn := i\<rparr>;
       if i = length (uip_udp_conns s) then Some (ip_drop s)
       else do {
         let s = s\<lparr>uip_conn := None, uip_flags := 2, uip_appdata := 42, uip_sappdata := 42, uip_slen := 0\<rparr>;
         udp_send (appcall s) } } }"

definition uip_udp_timer :: "(('a) uip_scheme \<Rightarrow> ('a) uip_scheme) \<Rightarrow> ('a) uip_scheme \<Rightarrow> ('a) uip_scheme option" where
  "uip_udp_timer appcall s = do {
     let s = s\<lparr>uip_appdata := 54, uip_sappdata := 54\<rparr>;
     conn \<leftarrow> c_read (uip_udp_conns s) (int (cur_udp_conn s));
     if u_lport conn \<noteq> 0 then do {
       let s = s\<lparr>uip_conn := None, uip_appdata := 42, uip_sappdata := 42, uip_len := 0, uip_slen := 0, uip_flags := 8\<rparr>;
       udp_send (appcall s) }
     else Some (ip_drop s) }"

section \<open>Every packet that is sent verifies\<close>

lemma ip_send_nolen_ok:
  assumes "length (uip_buf s) = 4002"
  shows "\<exists>s'. ip_send_nolen s = Some s' \<and> s' = s\<lparr>uip_buf := uip_buf s', ipid := ipid s + 1, uip_flags := 0\<rparr> \<and>
    length (uip_buf s') = 4002 \<and> uip_ipchksum (uip_buf s') = Some 0xffff \<and>
    (\<forall>a n. a + n \<le> 4002 \<and> (26 \<le> a \<or> a + n \<le> 14 \<or> 16 \<le> a \<and> a + n \<le> 18 \<or> 22 \<le> a \<and> a + n \<le> 24) \<longrightarrow>
      block (uip_buf s') a n = block (uip_buf s) a n)"
proof -
  define m where "m = put_block (put_block (put_block (put_block (put_block (put_block (put_block (uip_buf s) 14 [0x45]) 15 [0]) 21 [0]) 20 [0])
    18 [ucast (drop_bit 8 (ipid s + 1))]) 19 [ucast (ipid s + 1)]) 24 (bytes16 0)"
  have len: "length m = 4002" using assms by (simp add: m_def)
  obtain c where c: "uip_ipchksum m = Some c" using len by (simp add: uip_ipchksum_eq)
  have "ip_send_nolen s = Some (s\<lparr>uip_buf := put_block m 24 (bytes16 (NOT c)), ipid := ipid s + 1, uip_flags := 0\<rparr>)"
    using assms c len by (simp add: ip_send_nolen_def net_mem ip_send_def flip: m_def)
  moreover have "block m 24 2 = [0, 0]"
    using assms by (simp add: m_def net_mem bytes16_def)
  then have "uip_ipchksum (put_block m 24 (bytes16 (NOT c))) = Some 0xffff"
    using len c by (intro ip_checksum_filled) simp_all
  ultimately show ?thesis
    using assms len by (auto simp: net_mem m_def)
qed

definition udp_filled :: "('a) uip_scheme \<Rightarrow> uip_udp_conn \<Rightarrow> u8 list" where
  "udp_filled s conn =
    put_block (put_block (put_block (put_block (put_block (put_block (put_block (put_block (put_block (put_block (uip_buf s)
      16 [ucast (drop_bit 8 (uip_slen s + 28))]) 17 [ucast (uip_slen s + 28)]) 22 [u_ttl conn]) 23 [17])
      38 (bytes16 (HTONS (uip_slen s + 8)))) 40 (bytes16 0)) 34 (bytes16 (u_lport conn))) 36 (bytes16 (u_rport conn)))
      26 (ip_bytes (uip_hostaddr s))) 30 (ip_bytes (u_ripaddr conn))"

lemma udp_filled_length:
  assumes "length (uip_buf s) = 4002" "unat (uip_slen s) \<le> 3960"
  shows "ip_total_length (udp_filled s conn) = unat (uip_slen s) + 28"
proof -
  have "udp_filled s conn ! 16 = ucast (drop_bit 8 (uip_slen s + 28))" "udp_filled s conn ! 17 = ucast (uip_slen s + 28)"
    using assms(1) by (simp_all add: udp_filled_def nth_put)
  then have "ip_total_length (udp_filled s conn) = word_sum (bytes16 (HTONS (uip_slen s + 28)))"
    by (simp add: ip_total_length_def bytes16_HTONS)
  also have "\<dots> = unat (uip_slen s + 28)" by (rule word_sum_bytes16)
  also have "\<dots> = unat (uip_slen s) + 28" using assms(2) by (subst unat_add_small) simp_all
  finally show ?thesis .
qed

lemma udp_send_buffer:
  assumes "length (uip_buf s) = 4002" "uip_slen s \<noteq> 0" "unat (uip_slen s) \<le> 3960"
    and "cur_udp_conn s < length (uip_udp_conns s)" "conn = uip_udp_conns s ! cur_udp_conn s"
  shows "\<exists>w. udp_send s = ip_send_nolen (s\<lparr>uip_len := uip_slen s + 28, uip_appdata := 54,
      uip_buf := put_block (udp_filled s conn) 40 (bytes16 w)\<rparr>) \<and> w \<noteq> 0 \<and>
    uip_udpchksum (put_block (udp_filled s conn) 40 (bytes16 w)) = Some 0xffff"
proof -
  define m where "m = udp_filled s conn"
  have m: "length m = 4002" "ip_total_length m = unat (uip_slen s) + 28" "block m 40 2 = [0, 0]"
    using assms udp_filled_length[of s conn] by (simp_all add: m_def udp_filled_def net_mem bytes16_def)
  have fill: "udp_filled s (uip_udp_conns s ! cur_udp_conn s) = m"
    by (simp add: m_def assms(5))
  obtain c where c: "upper_layer_chksum 17 m = Some c"
    using upper_layer_chksum_eq[of m 17] assms(3) m by auto
  have send: "udp_send s = ip_send_nolen (s\<lparr>uip_len := uip_slen s + 28, uip_appdata := 54,
      uip_buf := put_block m 40 (bytes16 (if NOT c = 0 then 0xffff else NOT c))\<rparr>)"
    using assms(1-4) c m(1) fill unfolding udp_send_def
    by (simp add: net_mem c_read_int uip_udpchksum_def put_put_same flip: udp_filled_def)
  moreover have "uip_udpchksum (put_block m 40 (bytes16 (if NOT c = 0 then 0xffff else NOT c))) = Some 0xffff"
    using upper_checksum_filled[of m 40 17 c] upper_checksum_filled_ones[of m 40 17 c] m c assms(3)
    by (simp add: uip_udpchksum_def)
  ultimately show ?thesis
    unfolding m_def by (intro exI[of _ "if NOT c = 0 then 0xffff else NOT c"]) simp
qed

text \<open>What the checksum of the upper layer depends on.\<close>

lemma total_length_cong:
  assumes "block m 16 2 = block m' 16 2" "18 \<le> length m" "18 \<le> length m'"
  shows "ip_total_length m = ip_total_length m'"
  using assms block_Cons[of 16 1 m] block_Cons[of 16 1 m'] block_nth[of 17 m] block_nth[of 17 m']
  by (simp add: ip_total_length_def numeral_2_eq_2)

lemma upper_layer_cong:
  assumes "length m = 4002" "length m' = 4002" "block m 16 2 = block m' 16 2" "\<And>n. n \<le> 3976 \<Longrightarrow> block m 26 n = block m' 26 n"
    and "20 \<le> ip_total_length m" "ip_total_length m + 14 \<le> 4002"
  shows "upper_layer_chksum proto m = upper_layer_chksum proto m'"
proof -
  have total: "ip_total_length m' = ip_total_length m"
    using total_length_cong[of m m'] assms by simp
  have "block m 34 n = block m' 34 n" if "n \<le> 3968" for n
    using assms(4)[of "8 + n"] block_split[of m 26 8 n] block_split[of m' 26 8 n] that assms(1,2)
    by (simp add: append_eq_append_conv length_block)
  with assms(4)[of 8] assms(6) have "pseudo_sum proto m = pseudo_sum proto m'"
    by (simp add: pseudo_sum_def total)
  with assms total show ?thesis by (simp add: upper_layer_chksum_eq)
qed

text \<open>
  C31: A datagram of the application is sent with the addresses, ports and lengths of its connection, the data as the
  application wrote it, and with checksums of IP and UDP that the receiver accepts; the UDP checksum is never zero, which would mean
  that there is none.
\<close>

theorem udp_datagram_verifies:
  assumes "net_ok s" "uip_slen s \<noteq> 0" "unat (uip_slen s) \<le> 3960"
    and "cur_udp_conn s < length (uip_udp_conns s)" "conn = uip_udp_conns s ! cur_udp_conn s"
  shows "\<exists>s'. udp_send s = Some s' \<and> net_ok s' \<and> unat (uip_len s') = unat (uip_slen s) + 28 \<and>
    uip_ipchksum (uip_buf s') = Some 0xffff \<and> uip_udpchksum (uip_buf s') = Some 0xffff \<and> get16 (uip_buf s') 40 \<noteq> Some 0 \<and>
    get_ip (uip_buf s') 26 = Some (uip_hostaddr s) \<and> get_ip (uip_buf s') 30 = Some (u_ripaddr conn) \<and>
    get16 (uip_buf s') 34 = Some (u_lport conn) \<and> get16 (uip_buf s') 36 = Some (u_rport conn) \<and>
    ip_total_length (uip_buf s') = unat (uip_slen s) + 28 \<and>
    block (uip_buf s') 42 (unat (uip_slen s)) = block (uip_buf s) 42 (unat (uip_slen s))"
proof -
  have ok: "length (uip_buf s) = 4002" using assms(1) by (simp add: net_ok_def)
  obtain w where w: "w \<noteq> 0" and udp: "uip_udpchksum (put_block (udp_filled s conn) 40 (bytes16 w)) = Some 0xffff"
    and send: "udp_send s = ip_send_nolen (s\<lparr>uip_len := uip_slen s + 28, uip_appdata := 54,
      uip_buf := put_block (udp_filled s conn) 40 (bytes16 w)\<rparr>)"
    using udp_send_buffer[OF ok assms(2-5)] by blast
  let ?m = "put_block (udp_filled s conn) 40 (bytes16 w)"
  have m: "length ?m = 4002" using ok by (simp add: udp_filled_def)
  then obtain s' where s': "udp_send s = Some s'" "s' = s\<lparr>uip_len := uip_slen s + 28, uip_appdata := 54, uip_buf := uip_buf s',
      ipid := ipid s + 1, uip_flags := 0\<rparr>" "length (uip_buf s') = 4002" "uip_ipchksum (uip_buf s') = Some 0xffff"
    and same: "\<And>a n. a + n \<le> 4002 \<Longrightarrow> 26 \<le> a \<or> a + n \<le> 14 \<or> 16 \<le> a \<and> a + n \<le> 18 \<or> 22 \<le> a \<and> a + n \<le> 24 \<Longrightarrow>
      block (uip_buf s') a n = block ?m a n"
    using ip_send_nolen_ok[of "s\<lparr>uip_len := uip_slen s + 28, uip_appdata := 54, uip_buf := ?m\<rparr>"] send by auto
  have ok': "net_ok s'" using assms(1) s'(3) by (subst s'(2)) (simp add: net_ok_def)
  have len: "unat (uip_len s') = unat (uip_slen s) + 28"
    using assms(3) by (subst s'(2)) (simp add: unat_add_small)
  have total: "ip_total_length (uip_buf s') = unat (uip_slen s) + 28"
  proof -
    have "ip_total_length ?m = ip_total_length (udp_filled s conn)"
      using ok by (simp add: ip_total_length_def nth_put udp_filled_def)
    with total_length_cong[of "uip_buf s'" ?m] same[of 16 2] s'(3) m udp_filled_length[OF ok assms(3), of conn]
    show ?thesis by simp
  qed
  have "uip_udpchksum (uip_buf s') = uip_udpchksum ?m"
    unfolding uip_udpchksum_def
    using upper_layer_cong[of "uip_buf s'" ?m] s'(3) m same total assms(3) by simp
  with ok' len total s' udp w same show ?thesis
    using ok assms(3) by (simp add: net_mem udp_filled_def)
qed

section \<open>Echo\<close>

text \<open>Exchanging the bytes of a word multiplies it by 256 modulo 65535.\<close>

lemma word_sum_bytes16_mod: "word_sum (bytes16 w) mod 65535 = 256 * unat w mod 65535"
proof -
  have w: "unat w = 256 * unat (ucast (drop_bit 8 w) :: u8) + unat (ucast (w AND 0xff) :: u8)" by (rule u16_bytes)
  have "unat (w AND 0xff) = unat w mod 256"
    using unat_and_mask[of w 8] by (simp add: mask_eq_exp_minus_1)
  then have lo: "ucast (w AND 0xff) = (ucast w :: u8)"
    by (simp add: word_unat_eq_iff unat_ucast_mod)
  have "256 * unat w = 65535 * unat (ucast (drop_bit 8 w) :: u8) + word_sum (bytes16 w)"
    using w by (simp add: lo bytes16_def)
  then show ?thesis by (metis mod_mult_self4)
qed

definition echo_chksum :: "u16 \<Rightarrow> u16" where
  "echo_chksum c = (if c \<ge> HTONS (0xffff - 0x0800) then c + (HTONS 0x0800 + 1) else c + HTONS 0x0800)"

lemma echo_chksum_mod: "unat (echo_chksum c) mod 65535 = (unat c + 8) mod 65535"
proof -
  have lt: "unat c < 65536" using unsigned_less[of c, where 'a = nat] by simp
  have H: "HTONS 63487 = 0xfff7" "HTONS 0x0800 = 8" by (simp_all add: HTONS_def)
  show ?thesis
  proof (cases "c \<ge> 0xfff7")
    case True
    then have ge: "65527 \<le> unat c" by (simp add: word_le_nat_alt)
    then have "(unat c + 9) mod 65536 = unat c + 9 - 65536" using lt by (simp add: le_mod_geq)
    then have "unat c + 8 = unat (echo_chksum c) + 65535"
      using True ge by (simp add: echo_chksum_def H unat_word_ariths)
    then show ?thesis by simp
  next
    case False
    then have "unat (echo_chksum c) = unat c + 8"
      by (simp add: echo_chksum_def H unat_word_ariths word_le_nat_alt)
    then show ?thesis by simp
  qed
qed

lemma echo_word_sum: "(word_sum (bytes16 (echo_chksum c))) mod 65535 = (word_sum (bytes16 c) + 2048) mod 65535"
proof -
  have "word_sum (bytes16 (echo_chksum c)) mod 65535 = 256 * (unat (echo_chksum c) mod 65535) mod 65535"
    by (simp add: word_sum_bytes16_mod mod_mult_right_eq)
  also have "\<dots> = 256 * (unat c + 8) mod 65535"
    by (simp only: echo_chksum_mod mod_mult_right_eq)
  also have "\<dots> = (256 * unat c mod 65535 + 2048) mod 65535"
    by (simp add: mod_add_left_eq)
  finally show ?thesis
    by (simp add: mod_add_left_eq flip: word_sum_bytes16_mod)
qed

definition echo_reply :: "('a) uip_scheme \<Rightarrow> u8 list" where
  "echo_reply s = put_block (put_block (put_block (put_block (uip_buf s) 34 [0]) 36 (bytes16 (echo_chksum (word16 (block (uip_buf s) 36 2)))))
     30 (block (uip_buf s) 26 4)) 26 (ip_bytes (uip_hostaddr s))"

lemma icmp_echo:
  assumes "length (uip_buf s) = 4002" "uip_buf s ! 34 = 8"
  shows "icmp_input s = Some (s\<lparr>uip_buf := echo_reply s, uip_flags := 0\<rparr>)"
  using assms by (simp add: icmp_input_def net_mem echo_chksum_def echo_reply_def ip_send_def ip_bytes_of)

lemma echo_reply_ip_sum:
  assumes "length (uip_buf s) = 4002" "ip_of (block (uip_buf s) 30 4) = uip_hostaddr s"
  shows "word_sum (block (echo_reply s) 14 20) = word_sum (block (uip_buf s) 14 20)"
proof -
  have split: "block m 14 20 = block m 14 12 @ block m 26 4 @ block m 30 4" for m
    using block_split[of m 14 12 8] block_split[of m 26 4 4] by simp
  have "block (echo_reply s) 14 12 = block (uip_buf s) 14 12" "block (echo_reply s) 30 4 = block (uip_buf s) 26 4"
    "block (echo_reply s) 26 4 = block (uip_buf s) 30 4"
    using assms by (simp_all add: echo_reply_def net_mem ip_bytes_of flip: assms(2))
  with assms(1) show ?thesis
    by (simp add: split word_sum_append length_block echo_reply_def)
qed

lemma echo_reply_icmp_sum:
  assumes "length (uip_buf s) = 4002" "uip_buf s ! 34 = 8" "4 \<le> n" "34 + n \<le> 4002"
  shows "word_sum (block (echo_reply s) 34 n) mod 65535 = word_sum (block (uip_buf s) 34 n) mod 65535"
proof -
  have len: "length (echo_reply s) = 4002" using assms(1) by (simp add: echo_reply_def)
  have split: "block m 34 n = m ! 34 # m ! 35 # block m 36 2 @ block m 38 (n - 4)" if "length m = 4002" for m
  proof -
    obtain k where n: "n = Suc (Suc (2 + k))" using assms(3) by (metis add_2_eq_Suc add.assoc le_iff_add numeral_Bit0)
    have "block m 34 n = m ! 34 # block m (Suc 34) (Suc (2 + k))"
      unfolding n using assms(4) that n by (intro block_Cons) simp
    moreover have "block m 35 (Suc (2 + k)) = m ! 35 # block m (Suc 35) (2 + k)"
      using assms(4) that n by (intro block_Cons) simp
    moreover have "block m 36 (2 + k) = block m 36 2 @ block m (36 + 2) k"
      by (rule block_split)
    ultimately show ?thesis using n by (simp del: add_2_eq_Suc)
  qed
  define c where "c = word16 (block (uip_buf s) 36 2)"
  define r where "r = unat (uip_buf s ! 35) + word_sum (block (uip_buf s) 38 (n - 4))"
  have c: "block (uip_buf s) 36 2 = bytes16 c" using assms(1) by (simp add: c_def bytes16_word16 length_block)
  have "echo_reply s ! 34 = 0" "echo_reply s ! 35 = uip_buf s ! 35" "block (echo_reply s) 36 2 = bytes16 (echo_chksum c)"
    "block (echo_reply s) 38 (n - 4) = block (uip_buf s) 38 (n - 4)"
    using assms by (simp_all add: echo_reply_def net_mem nth_put c_def)
  then have "word_sum (block (echo_reply s) 34 n) = word_sum (bytes16 (echo_chksum c)) + r"
    by (simp add: split[OF len] word_sum_append r_def)
  moreover have "word_sum (block (uip_buf s) 34 n) = word_sum (bytes16 c) + 2048 + r"
    using assms(2) by (simp add: split[OF assms(1)] word_sum_append r_def c)
  ultimately show ?thesis by (metis mod_add_left_eq echo_word_sum)
qed

text \<open>A well-formed IP packet for this host: version and header length, length, no fragment, destination, checksum.\<close>

definition ip_packet_ok :: "('a) uip_scheme \<Rightarrow> bool" where
  "ip_packet_ok s \<longleftrightarrow> (let m = uip_buf s in
     m ! 14 = 0x45 \<and> ip_total_length m \<le> unat (uip_len s) \<and> m ! 20 AND 0x3f = 0 \<and> m ! 21 = 0 \<and>
     ip_of (block m 30 4) = uip_hostaddr s \<and> verified (word_sum (block m 14 20)))"

lemma ip_length_word: "push_bit 8 (ucast (m ! 16)) + ucast (m ! 17) \<le> n \<longleftrightarrow> ip_total_length m \<le> unat (n :: u16)"
  by (simp add: word_le_nat_alt ip_total_length_word)

lemma ipchksum_verified:
  "34 \<le> length m \<Longrightarrow> uip_ipchksum m = Some 0xffff \<longleftrightarrow> verified (word_sum (block m 14 20))"
  by (simp add: uip_ipchksum_eq verified_result)

text \<open>The answer to an echo request, and what it consists of.\<close>

lemma echo_input:
  assumes "net_ok s" "ip_packet_ok s" "uip_hostaddr s \<noteq> (0, 0)" "uip_buf s ! 23 = 1" "uip_buf s ! 34 = 8"
  shows "ip_input s = Some (Return, s\<lparr>uip_len := of_nat (ip_total_length (uip_buf s)), uip_buf := echo_reply s, uip_flags := 0\<rparr>)"
proof -
  have len: "length (uip_buf s) = 4002" using assms(1) by (simp add: net_ok_def)
  define u where "u = s\<lparr>uip_len := push_bit 8 (ucast (uip_buf s ! 16)) + ucast (uip_buf s ! 17)\<rparr>"
  have "uip_len u = push_bit 8 (ucast (uip_buf s ! 16)) + ucast (uip_buf s ! 17)" by (simp add: u_def)
  then have "of_nat (unat (uip_len u)) = (of_nat (ip_total_length (uip_buf s)) :: u16)" by (simp only: ip_total_length_word)
  then have u: "uip_len u = of_nat (ip_total_length (uip_buf s))" "uip_buf u = uip_buf s" "echo_reply u = echo_reply s"
    by (simp_all add: u_def echo_reply_def)
  have "uip_ipchksum (uip_buf s) = Some 0xffff"
    using assms(2) len by (simp add: ipchksum_verified ip_packet_ok_def Let_def)
  then have "ip_input s = map_option (Pair Return) (icmp_input u)"
    using assms(2-4) len by (simp add: ip_input_def net_mem ip_packet_ok_def ip_length_word u_def Let_def)
  also have "\<dots> = Some (Return, u\<lparr>uip_buf := echo_reply s, uip_flags := 0\<rparr>)"
    using icmp_echo[of u] len assms(5) u by simp
  also have "u\<lparr>uip_buf := echo_reply s, uip_flags := 0\<rparr> = s\<lparr>uip_len := of_nat (ip_total_length (uip_buf s)), uip_buf := echo_reply s, uip_flags := 0\<rparr>"
    using u(1) by (simp add: u_def)
  finally show ?thesis .
qed

lemma echo_reply_facts:
  assumes "length (uip_buf s) = 4002" "ip_packet_ok s" "uip_buf s ! 34 = 8" "24 \<le> n" "n \<le> 3988"
  shows "length (echo_reply s) = 4002" "echo_reply s ! 34 = 0" "block (echo_reply s) 30 4 = block (uip_buf s) 26 4"
    "block (echo_reply s) 26 4 = ip_bytes (uip_hostaddr s)" "block (echo_reply s) 38 (n - 24) = block (uip_buf s) 38 (n - 24)"
    "uip_ipchksum (echo_reply s) = Some 0xffff"
    "verified (word_sum (block (echo_reply s) 34 (n - 20))) \<longleftrightarrow> verified (word_sum (block (uip_buf s) 34 (n - 20)))"
proof -
  have ip: "ip_of (block (uip_buf s) 30 4) = uip_hostaddr s" "verified (word_sum (block (uip_buf s) 14 20))"
    using assms(2) by (simp_all add: ip_packet_ok_def Let_def)
  then show "uip_ipchksum (echo_reply s) = Some 0xffff"
    using echo_reply_ip_sum[of s] assms(1) by (simp add: ipchksum_verified echo_reply_def)
  show "verified (word_sum (block (echo_reply s) 34 (n - 20))) \<longleftrightarrow> verified (word_sum (block (uip_buf s) 34 (n - 20)))"
    using echo_reply_icmp_sum[of s "n - 20"] assms by (simp add: verified_def)
qed (use assms in \<open>simp_all add: echo_reply_def net_mem nth_put\<close>)

text \<open>
  An echo request to the address of the clock is answered: the reply has the type of a reply and goes back to the sender,
  identifier, sequence number and data unchanged. The header checksum is valid although it is not computed anew, and the checksum of the
  ICMP message, which is only adjusted, is valid exactly if that of the request was.
\<close>

theorem ping_answered:
  assumes "net_ok s" "ip_packet_ok s" "uip_hostaddr s \<noteq> (0, 0)" "uip_buf s ! 23 = 1" "uip_buf s ! 34 = 8"
    and "n = ip_total_length (uip_buf s)" "24 \<le> n" "n \<le> 3988"
  shows "\<exists>s'. ip_input s = Some (Return, s') \<and> net_ok s' \<and> unat (uip_len s') = n \<and> uip_buf s' ! 34 = 0 \<and>
    get_ip (uip_buf s') 30 = get_ip (uip_buf s) 26 \<and> get_ip (uip_buf s') 26 = Some (uip_hostaddr s) \<and>
    uip_ipchksum (uip_buf s') = Some 0xffff \<and> block (uip_buf s') 38 (n - 24) = block (uip_buf s) 38 (n - 24) \<and>
    (verified (word_sum (block (uip_buf s') 34 (n - 20))) \<longleftrightarrow> verified (word_sum (block (uip_buf s) 34 (n - 20))))"
proof -
  have len: "length (uip_buf s) = 4002" using assms(1) by (simp add: net_ok_def)
  note f = echo_reply_facts[OF len assms(2,5,7,8)]
  have "unat (of_nat n :: u16) = n" using assms(8) by (simp add: unat_of_nat)
  then show ?thesis
    using echo_input[OF assms(1-5)] f len assms(1,6) by (simp add: net_ok_def net_mem)
qed

text \<open>A packet of 28 bytes from 192.168.1.3 to 192.168.1.2.\<close>

definition sample_uip :: "u8 list \<Rightarrow> u16 \<Rightarrow> uip" where
  "sample_uip bs n = net.extend (sample_net bs n) \<lparr>uip_flags = 0, uip_slen = 0, uip_sappdata = 54, ipid = 0, uip_conn = None,
     uip_udp_conns = [\<lparr>u_ripaddr = (0xa8c0, 0x0301), u_lport = 0x1700, u_rport = 0x3500, u_ttl = 64\<rparr>], cur_udp_conn = 0\<rparr>"

definition sample_ping :: "u8 list" where
  "sample_ping = [0, 0, 0, 0, 0, 0, 0, 0, 0, 0, 0, 0, 8, 0] @ [0x45, 0, 0, 28, 0, 0, 0, 0, 64, 1, 0xf7, 0x8b, 192, 168, 1, 3, 192, 168, 1, 2] @ [8, 0, 0xf7, 0xfe, 0, 1, 0, 0]"

lemma sample_uip_fields:
  "uip_buf (sample_uip bs n) = bs @ replicate (4002 - length bs) 0" "uip_len (sample_uip bs n) = n"
  "uip_hostaddr (sample_uip bs n) = (0xa8c0, 0x0201)"
  by (simp_all add: sample_uip_def net.defs sample_net_def)

lemma sample_uip_ok: "length bs \<le> 4002 \<Longrightarrow> net_ok (sample_uip bs n)"
  using sample_net_ok[of bs n] by (simp add: sample_uip_def net.defs net_ok_def)

theorem ping_answered_witness:
  "\<exists>s'. ip_input (sample_uip sample_ping 42) = Some (Return, s') \<and> uip_buf s' ! 34 = 0 \<and> uip_ipchksum (uip_buf s') = Some 0xffff \<and>
    get_ip (uip_buf s') 30 = get_ip (uip_buf (sample_uip sample_ping 42)) 26"
proof -
  let ?s = "sample_uip sample_ping 42"
  have "net_ok ?s" by (rule sample_uip_ok) (simp add: sample_ping_def)
  moreover have total: "ip_total_length (uip_buf ?s) = 28"
    by (simp add: ip_total_length_def sample_uip_fields sample_ping_def)
  moreover have "ip_packet_ok ?s"
    unfolding ip_packet_ok_def Let_def total
    by (simp add: sample_uip_fields sample_ping_def block_def ip_of_def word16_def verified_def)
  moreover have "uip_buf ?s ! 23 = 1" "uip_buf ?s ! 34 = 8" by (simp_all add: sample_uip_fields sample_ping_def)
  ultimately show ?thesis using ping_answered[of ?s 28] by (auto simp: sample_uip_fields)
qed

theorem udp_datagram_verifies_witness:
  "\<exists>s'. udp_send (sample_uip [] 0\<lparr>uip_slen := 5\<rparr>) = Some s' \<and> unat (uip_len s') = 33 \<and>
    uip_ipchksum (uip_buf s') = Some 0xffff \<and> uip_udpchksum (uip_buf s') = Some 0xffff"
proof -
  let ?s = "sample_uip [] 0\<lparr>uip_slen := 5\<rparr>"
  have "net_ok ?s" using sample_uip_ok[of "[]" 0] by (simp add: net_ok_def)
  moreover have "cur_udp_conn ?s < length (uip_udp_conns ?s)"
    by (simp add: sample_uip_def net.defs)
  ultimately obtain s' where "udp_send ?s = Some s'" "unat (uip_len s') = unat (uip_slen ?s) + 28"
    "uip_ipchksum (uip_buf s') = Some 0xffff" "uip_udpchksum (uip_buf s') = Some 0xffff"
    using udp_datagram_verifies[of ?s, OF _ _ _ _ refl] by fastforce
  then show ?thesis by (intro exI[of _ s']) simp
qed

text \<open>
  Every packet that fails a check of the IP layer is dropped, whatever it holds, and nothing is sent for it: another version or header
  length, a length beyond the data that was received, a fragment, another destination, or a wrong header checksum. A broadcast datagram is accepted
  without the check of its header checksum.
\<close>

theorem bad_packet_dropped:
  assumes "net_ok s" "\<not> ip_packet_ok s" "uip_hostaddr s \<noteq> (0, 0)"
  shows "(\<exists>s'. ip_input s = Some (Return, s') \<and> uip_len s' = 0 \<and> uip_buf s' = uip_buf s) \<or>
    uip_buf s ! 23 = 17 \<and> ip_of (block (uip_buf s) 30 4) = (0xffff, 0xffff) \<and> (\<exists>s'. ip_input s = Some (Goto_udp_input, s'))"
proof -
  have len: "length (uip_buf s) = 4002" using assms(1) by (simp add: net_ok_def)
  have "uip_ipchksum (uip_buf s) \<noteq> None" using len by (simp add: uip_ipchksum_eq)
  then obtain c where c: "uip_ipchksum (uip_buf s) = Some c" by blast
  then have "c = 0xffff \<longleftrightarrow> verified (word_sum (block (uip_buf s) 14 20))"
    using ipchksum_verified[of "uip_buf s"] len by simp
  with c assms(2,3) len show ?thesis
    by (auto simp: ip_input_def net_mem ip_packet_ok_def ip_length_word Let_def ip_drop_def)
qed

theorem bad_packet_dropped_witness:
  "\<exists>s'. ip_input (sample_uip [] 0) = Some (Return, s') \<and> uip_len s' = 0"
proof -
  have "net_ok (sample_uip [] 0)" by (rule sample_uip_ok) simp
  moreover have "\<not> ip_packet_ok (sample_uip [] 0)" "uip_buf (sample_uip [] 0) ! 23 \<noteq> 17" "uip_hostaddr (sample_uip [] 0) \<noteq> (0, 0)"
    by (simp_all add: ip_packet_ok_def Let_def sample_uip_fields)
  ultimately show ?thesis using bad_packet_dropped[of "sample_uip [] 0"] by auto
qed

end
