(* ===== verification/Tcp.thy ===== *)
theory Tcp
  imports Uip_Ip
begin

text \<open>
  The TCP part of \<^verbatim>\<open>WiShield/uip.c\<close>. As in the theory of the IP layer, each label of \<^verbatim>\<open>uip_process\<close> is a definition and a jump is
  a call; the local variable \<^verbatim>\<open>uip_connr\<close> is an argument, the number of a connection. The applications behind
  \<^verbatim>\<open>UIP_APPCALL\<close> and \<^verbatim>\<open>UIP_UDP_APPCALL\<close> are parameters. The state of an application in a connection is kept as bytes. The configuration is
  that of \<^verbatim>\<open>apps-conf.h\<close> and \<^verbatim>\<open>uipopt.h\<close>: active open, no urgent data, segments of at most 3929 bytes.
\<close>

section \<open>State\<close>

record tcp_conn =
  t_ripaddr :: ipaddr
  t_lport :: u16
  t_rport :: u16
  rcv_nxt :: "u8 list"
  snd_nxt :: "u8 list"
  t_len :: u16
  t_mss :: u16
  initialmss :: u16
  t_sa :: u8
  t_sv :: u8
  t_rto :: u8
  tcpstateflags :: u8
  t_timer :: u8
  t_nrtx :: u8
  t_appstate :: "u8 list"

record uip_tcp = uip +
  uip_conns :: "tcp_conn list"
  uip_listenports :: "u16 list"
  iss :: "u8 list"
  lastport :: u16

text \<open>The states of a connection, without and with the flag \<^verbatim>\<open>UIP_STOPPED\<close>.\<close>

abbreviation "UIP_CLOSED \<equiv> (0 :: u8)"
abbreviation "UIP_SYN_RCVD \<equiv> (1 :: u8)"
abbreviation "UIP_SYN_SENT \<equiv> (2 :: u8)"
abbreviation "UIP_ESTABLISHED \<equiv> (3 :: u8)"
abbreviation "UIP_FIN_WAIT_1 \<equiv> (4 :: u8)"
abbreviation "UIP_FIN_WAIT_2 \<equiv> (5 :: u8)"
abbreviation "UIP_CLOSING \<equiv> (6 :: u8)"
abbreviation "UIP_TIME_WAIT \<equiv> (7 :: u8)"
abbreviation "UIP_LAST_ACK \<equiv> (8 :: u8)"

abbreviation "UIP_TS_MASK \<equiv> (15 :: u8)"
abbreviation "UIP_STOPPED \<equiv> (16 :: u8)"

text \<open>What \<^verbatim>\<open>uip_flags\<close> tells the application, and the application the stack.\<close>

abbreviation "UIP_ACKDATA \<equiv> (1 :: u8)"
abbreviation "UIP_NEWDATA \<equiv> (2 :: u8)"
abbreviation "UIP_REXMIT \<equiv> (4 :: u8)"
abbreviation "UIP_POLL \<equiv> (8 :: u8)"
abbreviation "UIP_CLOSE \<equiv> (16 :: u8)"
abbreviation "UIP_ABORT \<equiv> (32 :: u8)"
abbreviation "UIP_CONNECTED \<equiv> (64 :: u8)"
abbreviation "UIP_TIMEDOUT \<equiv> (128 :: u8)"

text \<open>The flags of a segment.\<close>

abbreviation "TCP_FIN \<equiv> (0x01 :: u8)"
abbreviation "TCP_SYN \<equiv> (0x02 :: u8)"
abbreviation "TCP_RST \<equiv> (0x04 :: u8)"
abbreviation "TCP_PSH \<equiv> (0x08 :: u8)"
abbreviation "TCP_ACK \<equiv> (0x10 :: u8)"
abbreviation "TCP_URG \<equiv> (0x20 :: u8)"
abbreviation "TCP_CTL \<equiv> (0x3f :: u8)"

text \<open>Accesses to the packet and to a connection.\<close>

definition put_buf :: "nat \<Rightarrow> u8 list \<Rightarrow> ('a) uip_tcp_scheme \<Rightarrow> ('a) uip_tcp_scheme option" where
  "put_buf a bs s = do { m \<leftarrow> mem_write (uip_buf s) a bs; Some (s\<lparr>uip_buf := m\<rparr>) }"

definition get_conn :: "nat \<Rightarrow> ('a) uip_tcp_scheme \<Rightarrow> tcp_conn option" where
  "get_conn k s = c_read (uip_conns s) (int k)"

definition upd_conn :: "nat \<Rightarrow> (tcp_conn \<Rightarrow> tcp_conn) \<Rightarrow> ('a) uip_tcp_scheme \<Rightarrow> ('a) uip_tcp_scheme option" where
  "upd_conn k f s = do { c \<leftarrow> get_conn k s; Some (s\<lparr>uip_conns := (uip_conns s)[k := f c]\<rparr>) }"

definition seg_flags :: "('a) uip_tcp_scheme \<Rightarrow> u8 option" where
  "seg_flags s = c_read (uip_buf s) 47"

definition set_flags :: "u8 \<Rightarrow> ('a) uip_tcp_scheme \<Rightarrow> ('a) uip_tcp_scheme option" where
  "set_flags f s = put_buf 47 [f] s"

section \<open>Sending a segment\<close>

definition tcp_send_noconn :: "('a) uip_tcp_scheme \<Rightarrow> ('a) uip_tcp_scheme option" where
  "tcp_send_noconn s = do {
     s \<leftarrow> put_buf 22 [64] s;
     s \<leftarrow> put_buf 16 [ucast (drop_bit 8 (uip_len s))] s;
     s \<leftarrow> put_buf 17 [ucast (uip_len s)] s;
     s \<leftarrow> put_buf 53 [0] s;
     s \<leftarrow> put_buf 52 [0] s;
     s \<leftarrow> put_buf 50 (bytes16 0) s;
     c \<leftarrow> uip_tcpchksum (uip_buf s);
     s \<leftarrow> put_buf 50 (bytes16 (NOT c)) s;
     ip_send_nolen s }"

definition tcp_send :: "nat \<Rightarrow> ('a) uip_tcp_scheme \<Rightarrow> ('a) uip_tcp_scheme option" where
  "tcp_send k s = do {
     conn \<leftarrow> get_conn k s;
     s \<leftarrow> put_buf 42 (rcv_nxt conn) s;
     s \<leftarrow> put_buf 38 (snd_nxt conn) s;
     s \<leftarrow> put_buf 23 [6] s;
     s \<leftarrow> put_buf 34 (bytes16 (t_lport conn)) s;
     s \<leftarrow> put_buf 36 (bytes16 (t_rport conn)) s;
     m \<leftarrow> put_ip (uip_buf s) 26 (uip_hostaddr s);
     m \<leftarrow> put_ip m 30 (t_ripaddr conn);
     s \<leftarrow> put_buf 48 (if tcpstateflags conn AND UIP_STOPPED \<noteq> 0 then [0, 0] else [0x0f, 0x59]) (s\<lparr>uip_buf := m\<rparr>);
     tcp_send_noconn s }"

definition tcp_send_noopts :: "nat \<Rightarrow> ('a) uip_tcp_scheme \<Rightarrow> ('a) uip_tcp_scheme option" where
  "tcp_send_noopts k s = do { s \<leftarrow> put_buf 46 [0x50] s; tcp_send k s }"

definition tcp_send_nodata :: "nat \<Rightarrow> ('a) uip_tcp_scheme \<Rightarrow> ('a) uip_tcp_scheme option" where
  "tcp_send_nodata k s = tcp_send_noopts k (s\<lparr>uip_len := 40\<rparr>)"

definition tcp_send_ack :: "nat \<Rightarrow> ('a) uip_tcp_scheme \<Rightarrow> ('a) uip_tcp_scheme option" where
  "tcp_send_ack k s = do { s \<leftarrow> set_flags TCP_ACK s; tcp_send_nodata k s }"

definition tcp_send_finack :: "nat \<Rightarrow> ('a) uip_tcp_scheme \<Rightarrow> ('a) uip_tcp_scheme option" where
  "tcp_send_finack k s = do { s \<leftarrow> set_flags (TCP_FIN OR TCP_ACK) s; tcp_send_nodata k s }"

definition tcp_send_rst :: "nat \<Rightarrow> ('a) uip_tcp_scheme \<Rightarrow> ('a) uip_tcp_scheme option" where
  "tcp_send_rst k s = do { s \<leftarrow> set_flags (TCP_RST OR TCP_ACK) s; tcp_send_nodata k s }"

definition tcp_send_syn :: "nat \<Rightarrow> ('a) uip_tcp_scheme \<Rightarrow> ('a) uip_tcp_scheme option" where
  "tcp_send_syn k s = do {
     f \<leftarrow> seg_flags s;
     s \<leftarrow> set_flags (f OR TCP_SYN) s;
     s \<leftarrow> put_buf 54 [2, 4, 0x0f, 0x59] s;
     s \<leftarrow> put_buf 46 [0x60] (s\<lparr>uip_len := 44\<rparr>);
     tcp_send k s }"

definition tcp_send_synack :: "nat \<Rightarrow> ('a) uip_tcp_scheme \<Rightarrow> ('a) uip_tcp_scheme option" where
  "tcp_send_synack k s = do { s \<leftarrow> set_flags TCP_ACK s; tcp_send_syn k s }"

text \<open>The label \<^verbatim>\<open>reset\<close>: a segment without a connection is answered by a reset, unless it is one.\<close>

definition inc32 :: "u8 list \<Rightarrow> u8 list" where
  "inc32 bs = (let a3 = bs ! 3 + 1; a2 = (if a3 = 0 then bs ! 2 + 1 else bs ! 2);
     a1 = (if a3 = 0 \<and> a2 = 0 then bs ! 1 + 1 else bs ! 1);
     a0 = (if a3 = 0 \<and> a2 = 0 \<and> a1 = 0 then bs ! 0 + 1 else bs ! 0) in [a0, a1, a2, a3])"

definition tcp_reset :: "('a) uip_tcp_scheme \<Rightarrow> ('a) uip_tcp_scheme option" where
  "tcp_reset s = do {
     f \<leftarrow> seg_flags s;
     if f AND TCP_RST \<noteq> 0 then Some (ip_drop s)
     else do {
       s \<leftarrow> set_flags (TCP_RST OR TCP_ACK) s;
       s \<leftarrow> put_buf 46 [0x50] (s\<lparr>uip_len := 40\<rparr>);
       seqno \<leftarrow> mem_read (uip_buf s) 38 4;
       ackno \<leftarrow> mem_read (uip_buf s) 42 4;
       s \<leftarrow> put_buf 38 ackno s;
       s \<leftarrow> put_buf 42 (inc32 seqno) s;
       srcport \<leftarrow> get16 (uip_buf s) 34;
       destport \<leftarrow> get16 (uip_buf s) 36;
       s \<leftarrow> put_buf 34 (bytes16 destport) s;
       s \<leftarrow> put_buf 36 (bytes16 srcport) s;
       src \<leftarrow> get_ip (uip_buf s) 26;
       m \<leftarrow> put_ip (uip_buf s) 30 src;
       m \<leftarrow> put_ip m 26 (uip_hostaddr s);
       tcp_send_noconn (s\<lparr>uip_buf := m\<rparr>) } }"

text \<open>After the call of the application: what it wants to send, and its wish to close or abort.\<close>

definition apprexmit :: "nat \<Rightarrow> ('a) uip_tcp_scheme \<Rightarrow> ('a) uip_tcp_scheme option" where
  "apprexmit k s = do {
     let s = s\<lparr>uip_appdata := uip_sappdata s\<rparr>;
     conn \<leftarrow> get_conn k s;
     if uip_slen s > 0 \<and> t_len conn > 0 then do {
       s \<leftarrow> set_flags (TCP_ACK OR TCP_PSH) (s\<lparr>uip_len := t_len conn + 40\<rparr>);
       tcp_send_noopts k s }
     else if uip_flags s AND UIP_NEWDATA \<noteq> 0 then do {
       s \<leftarrow> set_flags TCP_ACK (s\<lparr>uip_len := 40\<rparr>);
       tcp_send_noopts k s }
     else Some (ip_drop s) }"

definition send_window :: "nat \<Rightarrow> ('a) uip_tcp_scheme \<Rightarrow> ('a) uip_tcp_scheme option" where
  "send_window k s = do {
     s \<leftarrow> (if uip_flags s AND UIP_ACKDATA \<noteq> 0 then upd_conn k (\<lambda>c. c\<lparr>t_len := 0\<rparr>) s else Some s);
     conn \<leftarrow> get_conn k s;
     if t_len conn = 0 then do {
       let s = (if uip_slen s > t_mss conn then s\<lparr>uip_slen := t_mss conn\<rparr> else s);
       upd_conn k (\<lambda>c. c\<lparr>t_len := uip_slen s\<rparr>) s }
     else Some (s\<lparr>uip_slen := t_len conn\<rparr>) }"

definition appsend :: "nat \<Rightarrow> ('a) uip_tcp_scheme \<Rightarrow> ('a) uip_tcp_scheme option" where
  "appsend k s =
    (if uip_flags s AND UIP_ABORT \<noteq> 0 then do {
       s \<leftarrow> upd_conn k (\<lambda>c. c\<lparr>tcpstateflags := UIP_CLOSED\<rparr>) (s\<lparr>uip_slen := 0\<rparr>);
       tcp_send_rst k s }
     else if uip_flags s AND UIP_CLOSE \<noteq> 0 then do {
       s \<leftarrow> upd_conn k (\<lambda>c. c\<lparr>t_len := 1, tcpstateflags := UIP_FIN_WAIT_1, t_nrtx := 0\<rparr>) (s\<lparr>uip_slen := 0\<rparr>);
       tcp_send_finack k s }
     else do {
       s \<leftarrow> (if uip_slen s > 0 then send_window k s else Some s);
       s \<leftarrow> upd_conn k (\<lambda>c. c\<lparr>t_nrtx := 0\<rparr>) s;
       apprexmit k s })"

section \<open>Opening a connection\<close>

definition uip_add_rcv_nxt :: "u16 \<Rightarrow> ('a) uip_tcp_scheme \<Rightarrow> ('a) uip_tcp_scheme option" where
  "uip_add_rcv_nxt n s = do { k \<leftarrow> uip_conn s; upd_conn k (\<lambda>c. c\<lparr>rcv_nxt := uip_add32 (rcv_nxt c) n\<rparr>) s }"

text \<open>The search for the option with the segment size of the peer. The position is a byte and wraps around.\<close>

partial_function (option) mss_option :: "u8 list \<Rightarrow> nat \<Rightarrow> u8 \<Rightarrow> u16 option option" where
  "mss_option m limit c =
    (if unat c < limit then do {
       opt \<leftarrow> c_read m (int (54 + unat c));
       if opt = 0 then Some None
       else if opt = 1 then mss_option m limit (c + 1)
       else do {
         n \<leftarrow> c_read m (int (55 + unat c));
         if opt = 2 \<and> n = 4 then do {
           hi \<leftarrow> c_read m (int (56 + unat c));
           lo \<leftarrow> c_read m (int (57 + unat c));
           Some (Some (push_bit 8 (ucast hi) OR ucast lo)) }
         else if n = 0 then Some None
         else mss_option m limit (c + n) } }
     else Some None)"

definition parse_options :: "nat \<Rightarrow> ('a) uip_tcp_scheme \<Rightarrow> ('a) uip_tcp_scheme option" where
  "parse_options k s = do {
     off \<leftarrow> c_read (uip_buf s) 46;
     if off AND 0xf0 > 0x50 then do {
       r \<leftarrow> mss_option (uip_buf s) (4 * (unat (drop_bit 4 off) - 5)) 0;
       case r of
         None \<Rightarrow> Some s
       | Some w \<Rightarrow> let w = (if w > 3929 then 3929 else w) in upd_conn k (\<lambda>c. c\<lparr>initialmss := w, t_mss := w\<rparr>) s }
     else Some s }"

text \<open>The search for a free connection: the first closed one, else the oldest in \<^verbatim>\<open>TIME_WAIT\<close>.\<close>

fun free_conn :: "tcp_conn list \<Rightarrow> nat \<Rightarrow> (nat \<times> u8) option \<Rightarrow> nat option" where
  "free_conn [] i best = map_option fst best"
| "free_conn (c # cs) i best =
    (if tcpstateflags c = UIP_CLOSED then Some i
     else if tcpstateflags c = UIP_TIME_WAIT \<and> (case best of None \<Rightarrow> True | Some (_, t) \<Rightarrow> t_timer c > t)
     then free_conn cs (Suc i) (Some (i, t_timer c))
     else free_conn cs (Suc i) best)"

definition found_listen :: "('a) uip_tcp_scheme \<Rightarrow> ('a) uip_tcp_scheme option" where
  "found_listen s =
    (case free_conn (uip_conns s) 0 None of
       None \<Rightarrow> Some (ip_drop s)
     | Some k \<Rightarrow> do {
         let s = s\<lparr>uip_conn := Some k\<rparr>;
         srcport \<leftarrow> get16 (uip_buf s) 34;
         destport \<leftarrow> get16 (uip_buf s) 36;
         src \<leftarrow> get_ip (uip_buf s) 26;
         seqno \<leftarrow> mem_read (uip_buf s) 38 4;
         s \<leftarrow> upd_conn k (\<lambda>c. c\<lparr>t_rto := 3, t_timer := 3, t_sa := 0, t_sv := 4, t_nrtx := 0, t_lport := destport, t_rport := srcport,
           t_ripaddr := src, tcpstateflags := UIP_SYN_RCVD, snd_nxt := iss s, t_len := 1, rcv_nxt := seqno\<rparr>) s;
         s \<leftarrow> uip_add_rcv_nxt 1 s;
         s \<leftarrow> parse_options k s;
         tcp_send_synack k s })"

section \<open>A segment of a connection\<close>

text \<open>An acknowledgement of everything that is outstanding, with the estimation of the round trip time.\<close>

definition rtt_estimate :: "tcp_conn \<Rightarrow> tcp_conn" where
  "rtt_estimate c =
    (let m = t_rto c - t_timer c;
         m = m - drop_bit 3 (t_sa c);
         sa = t_sa c + m;
         m = (if sint m < 0 then - m else m);
         m = m - drop_bit 2 (t_sv c);
         sv = t_sv c + m
     in c\<lparr>t_sa := sa, t_sv := sv, t_rto := drop_bit 3 sa + sv\<rparr>)"

definition acked_conn :: "tcp_conn \<Rightarrow> tcp_conn" where
  "acked_conn c =
    (let c = c\<lparr>snd_nxt := uip_add32 (snd_nxt c) (t_len c)\<rparr>;
         c = (if t_nrtx c = 0 then rtt_estimate c else c)
     in c\<lparr>t_timer := t_rto c, t_len := 0\<rparr>)"

definition check_ack :: "nat \<Rightarrow> ('a) uip_tcp_scheme \<Rightarrow> ('a) uip_tcp_scheme option" where
  "check_ack k s = do {
     f \<leftarrow> seg_flags s;
     conn \<leftarrow> get_conn k s;
     ackno \<leftarrow> mem_read (uip_buf s) 42 4;
     if f AND TCP_ACK \<noteq> 0 \<and> t_len conn \<noteq> 0 \<and> ackno = uip_add32 (snd_nxt conn) (t_len conn)
     then upd_conn k acked_conn (s\<lparr>uip_flags := UIP_ACKDATA\<rparr>)
     else Some s }"

definition out_of_sequence :: "nat \<Rightarrow> ('a) uip_tcp_scheme \<Rightarrow> bool option" where
  "out_of_sequence k s = do {
     f \<leftarrow> seg_flags s;
     conn \<leftarrow> get_conn k s;
     seqno \<leftarrow> mem_read (uip_buf s) 38 4;
     Some (\<not> (tcpstateflags conn AND UIP_TS_MASK = UIP_SYN_SENT \<and> f AND TCP_CTL = TCP_SYN OR TCP_ACK) \<and>
       (uip_len s > 0 \<or> f AND (TCP_SYN OR TCP_FIN) \<noteq> 0) \<and> seqno \<noteq> rcv_nxt conn) }"

text \<open>The cases of the switch over the state of the connection.\<close>

definition in_syn_rcvd ::
  "(('a) uip_tcp_scheme \<Rightarrow> ('a) uip_tcp_scheme) \<Rightarrow> nat \<Rightarrow> ('a) uip_tcp_scheme \<Rightarrow> ('a) uip_tcp_scheme option" where
  "in_syn_rcvd app k s =
    (if uip_flags s AND UIP_ACKDATA \<noteq> 0 then do {
       s \<leftarrow> upd_conn k (\<lambda>c. c\<lparr>tcpstateflags := UIP_ESTABLISHED, t_len := 0\<rparr>) (s\<lparr>uip_flags := UIP_CONNECTED\<rparr>);
       s \<leftarrow> (if uip_len s > 0 then uip_add_rcv_nxt (uip_len s) (s\<lparr>uip_flags := uip_flags s OR UIP_NEWDATA\<rparr>) else Some s);
       appsend k (app (s\<lparr>uip_slen := 0\<rparr>)) }
     else Some (ip_drop s))"

definition in_syn_sent ::
  "(('a) uip_tcp_scheme \<Rightarrow> ('a) uip_tcp_scheme) \<Rightarrow> nat \<Rightarrow> ('a) uip_tcp_scheme \<Rightarrow> ('a) uip_tcp_scheme option" where
  "in_syn_sent app k s = do {
     f \<leftarrow> seg_flags s;
     if uip_flags s AND UIP_ACKDATA \<noteq> 0 \<and> f AND TCP_CTL = TCP_SYN OR TCP_ACK then do {
       s \<leftarrow> parse_options k s;
       seqno \<leftarrow> mem_read (uip_buf s) 38 4;
       s \<leftarrow> upd_conn k (\<lambda>c. c\<lparr>tcpstateflags := UIP_ESTABLISHED, rcv_nxt := seqno\<rparr>) s;
       s \<leftarrow> uip_add_rcv_nxt 1 s;
       s \<leftarrow> upd_conn k (\<lambda>c. c\<lparr>t_len := 0\<rparr>) (s\<lparr>uip_flags := UIP_CONNECTED OR UIP_NEWDATA\<rparr>);
       appsend k (app (s\<lparr>uip_len := 0, uip_slen := 0\<rparr>)) }
     else do {
       let s = app (s\<lparr>uip_flags := UIP_ABORT\<rparr>);
       j \<leftarrow> uip_conn s;
       s \<leftarrow> upd_conn j (\<lambda>c. c\<lparr>tcpstateflags := UIP_CLOSED\<rparr>) s;
       tcp_reset s } }"

definition peer_closes ::
  "(('a) uip_tcp_scheme \<Rightarrow> ('a) uip_tcp_scheme) \<Rightarrow> nat \<Rightarrow> ('a) uip_tcp_scheme \<Rightarrow> ('a) uip_tcp_scheme option" where
  "peer_closes app k s = do {
     conn \<leftarrow> get_conn k s;
     if t_len conn \<noteq> 0 then Some (ip_drop s)
     else do {
       s \<leftarrow> uip_add_rcv_nxt (1 + uip_len s) s;
       let s = s\<lparr>uip_flags := uip_flags s OR UIP_CLOSE\<rparr>;
       let s = (if uip_len s > 0 then s\<lparr>uip_flags := uip_flags s OR UIP_NEWDATA\<rparr> else s);
       s \<leftarrow> upd_conn k (\<lambda>c. c\<lparr>t_len := 1, tcpstateflags := UIP_LAST_ACK, t_nrtx := 0\<rparr>) (app s);
       tcp_send_finack k s } }"

definition skip_urgent :: "('a) uip_tcp_scheme \<Rightarrow> ('a) uip_tcp_scheme option" where
  "skip_urgent s = do {
     f \<leftarrow> seg_flags s;
     hi \<leftarrow> c_read (uip_buf s) 52;
     lo \<leftarrow> c_read (uip_buf s) 53;
     let urgp = (push_bit 8 (ucast hi) OR ucast lo :: u16);
     Some (if f AND TCP_URG \<noteq> 0 then s\<lparr>uip_appdata := uip_appdata s + unat urgp, uip_len := uip_len s - urgp\<rparr> else s) }"

definition peer_window :: "nat \<Rightarrow> ('a) uip_tcp_scheme \<Rightarrow> ('a) uip_tcp_scheme option" where
  "peer_window k s = do {
     hi \<leftarrow> c_read (uip_buf s) 48;
     lo \<leftarrow> c_read (uip_buf s) 49;
     let wnd = (push_bit 8 (ucast hi) + ucast lo :: u16);
     upd_conn k (\<lambda>c. c\<lparr>t_mss := (if wnd > initialmss c \<or> wnd = 0 then initialmss c else wnd)\<rparr>) s }"

definition in_established ::
  "(('a) uip_tcp_scheme \<Rightarrow> ('a) uip_tcp_scheme) \<Rightarrow> nat \<Rightarrow> ('a) uip_tcp_scheme \<Rightarrow> ('a) uip_tcp_scheme option" where
  "in_established app k s = do {
     f \<leftarrow> seg_flags s;
     conn \<leftarrow> get_conn k s;
     if f AND TCP_FIN \<noteq> 0 \<and> tcpstateflags conn AND UIP_STOPPED = 0 then peer_closes app k s
     else do {
       s \<leftarrow> skip_urgent s;
       s \<leftarrow> (if uip_len s > 0 \<and> tcpstateflags conn AND UIP_STOPPED = 0
            then uip_add_rcv_nxt (uip_len s) (s\<lparr>uip_flags := uip_flags s OR UIP_NEWDATA\<rparr>) else Some s);
       s \<leftarrow> peer_window k s;
       if uip_flags s AND (UIP_NEWDATA OR UIP_ACKDATA) \<noteq> 0
       then appsend k (app (s\<lparr>uip_slen := 0\<rparr>))
       else Some (ip_drop s) } }"

definition in_last_ack ::
  "(('a) uip_tcp_scheme \<Rightarrow> ('a) uip_tcp_scheme) \<Rightarrow> nat \<Rightarrow> ('a) uip_tcp_scheme \<Rightarrow> ('a) uip_tcp_scheme option" where
  "in_last_ack app k s =
    (if uip_flags s AND UIP_ACKDATA \<noteq> 0 then do {
       s \<leftarrow> upd_conn k (\<lambda>c. c\<lparr>tcpstateflags := UIP_CLOSED\<rparr>) s;
       Some (ip_drop (app (s\<lparr>uip_flags := UIP_CLOSE\<rparr>))) }
     else Some (ip_drop s))"

definition in_fin_wait_1 ::
  "(('a) uip_tcp_scheme \<Rightarrow> ('a) uip_tcp_scheme) \<Rightarrow> nat \<Rightarrow> ('a) uip_tcp_scheme \<Rightarrow> ('a) uip_tcp_scheme option" where
  "in_fin_wait_1 app k s = do {
     s \<leftarrow> (if uip_len s > 0 then uip_add_rcv_nxt (uip_len s) s else Some s);
     f \<leftarrow> seg_flags s;
     if f AND TCP_FIN \<noteq> 0 then do {
       s \<leftarrow> (if uip_flags s AND UIP_ACKDATA \<noteq> 0
            then upd_conn k (\<lambda>c. c\<lparr>tcpstateflags := UIP_TIME_WAIT, t_timer := 0, t_len := 0\<rparr>) s
            else upd_conn k (\<lambda>c. c\<lparr>tcpstateflags := UIP_CLOSING\<rparr>) s);
       s \<leftarrow> uip_add_rcv_nxt 1 s;
       tcp_send_ack k (app (s\<lparr>uip_flags := UIP_CLOSE\<rparr>)) }
     else if uip_flags s AND UIP_ACKDATA \<noteq> 0 then do {
       s \<leftarrow> upd_conn k (\<lambda>c. c\<lparr>tcpstateflags := UIP_FIN_WAIT_2, t_len := 0\<rparr>) s;
       Some (ip_drop s) }
     else if uip_len s > 0 then tcp_send_ack k s
     else Some (ip_drop s) }"

definition in_fin_wait_2 ::
  "(('a) uip_tcp_scheme \<Rightarrow> ('a) uip_tcp_scheme) \<Rightarrow> nat \<Rightarrow> ('a) uip_tcp_scheme \<Rightarrow> ('a) uip_tcp_scheme option" where
  "in_fin_wait_2 app k s = do {
     s \<leftarrow> (if uip_len s > 0 then uip_add_rcv_nxt (uip_len s) s else Some s);
     f \<leftarrow> seg_flags s;
     if f AND TCP_FIN \<noteq> 0 then do {
       s \<leftarrow> upd_conn k (\<lambda>c. c\<lparr>tcpstateflags := UIP_TIME_WAIT, t_timer := 0\<rparr>) s;
       s \<leftarrow> uip_add_rcv_nxt 1 s;
       tcp_send_ack k (app (s\<lparr>uip_flags := UIP_CLOSE\<rparr>)) }
     else if uip_len s > 0 then tcp_send_ack k s
     else Some (ip_drop s) }"

definition in_closing :: "nat \<Rightarrow> ('a) uip_tcp_scheme \<Rightarrow> ('a) uip_tcp_scheme option" where
  "in_closing k s = do {
     s \<leftarrow> (if uip_flags s AND UIP_ACKDATA \<noteq> 0
          then upd_conn k (\<lambda>c. c\<lparr>tcpstateflags := UIP_TIME_WAIT, t_timer := 0\<rparr>) s else Some s);
     Some (ip_drop s) }"

definition tcp_switch ::
  "(('a) uip_tcp_scheme \<Rightarrow> ('a) uip_tcp_scheme) \<Rightarrow> nat \<Rightarrow> u8 \<Rightarrow> ('a) uip_tcp_scheme \<Rightarrow> ('a) uip_tcp_scheme option" where
  "tcp_switch app k st s =
    (if st = UIP_SYN_RCVD then in_syn_rcvd app k s
     else if st = UIP_SYN_SENT then in_syn_sent app k s
     else if st = UIP_ESTABLISHED then in_established app k s
     else if st = UIP_LAST_ACK then in_last_ack app k s
     else if st = UIP_FIN_WAIT_1 then in_fin_wait_1 app k s
     else if st = UIP_FIN_WAIT_2 then in_fin_wait_2 app k s
     else if st = UIP_TIME_WAIT then tcp_send_ack k s
     else if st = UIP_CLOSING then in_closing k s
     else Some (ip_drop s))"

definition tcp_found ::
  "(('a) uip_tcp_scheme \<Rightarrow> ('a) uip_tcp_scheme) \<Rightarrow> nat \<Rightarrow> ('a) uip_tcp_scheme \<Rightarrow> ('a) uip_tcp_scheme option" where
  "tcp_found app k s = do {
     let s = s\<lparr>uip_conn := Some k, uip_flags := 0\<rparr>;
     f \<leftarrow> seg_flags s;
     if f AND TCP_RST \<noteq> 0 then do {
       s \<leftarrow> upd_conn k (\<lambda>c. c\<lparr>tcpstateflags := UIP_CLOSED\<rparr>) s;
       Some (ip_drop (app (s\<lparr>uip_flags := UIP_ABORT\<rparr>))) }
     else do {
       off \<leftarrow> c_read (uip_buf s) 46;
       let s = s\<lparr>uip_len := uip_len s - ucast (push_bit 2 (drop_bit 4 off)) - 20\<rparr>;
       b \<leftarrow> out_of_sequence k s;
       if b then tcp_send_ack k s
       else do {
         s \<leftarrow> check_ack k s;
         conn \<leftarrow> get_conn k s;
         tcp_switch app k (tcpstateflags conn AND UIP_TS_MASK) s } } }"

section \<open>Demultiplexing\<close>

definition conn_match :: "u8 list \<Rightarrow> tcp_conn \<Rightarrow> bool option" where
  "conn_match m conn = do {
     srcport \<leftarrow> get16 m 34;
     destport \<leftarrow> get16 m 36;
     src \<leftarrow> get_ip m 26;
     Some (tcpstateflags conn \<noteq> UIP_CLOSED \<and> destport = t_lport conn \<and> srcport = t_rport conn \<and> src = t_ripaddr conn) }"

fun conn_find :: "u8 list \<Rightarrow> tcp_conn list \<Rightarrow> nat option" where
  "conn_find m [] = Some 0"
| "conn_find m (conn # conns) = do {
     b \<leftarrow> conn_match m conn;
     if b then Some 0 else map_option Suc (conn_find m conns) }"

definition tcp_input ::
  "(('a) uip_tcp_scheme \<Rightarrow> ('a) uip_tcp_scheme) \<Rightarrow> ('a) uip_tcp_scheme \<Rightarrow> ('a) uip_tcp_scheme option" where
  "tcp_input app s = do {
     c \<leftarrow> uip_tcpchksum (uip_buf s);
     if c \<noteq> 0xffff then Some (ip_drop s)
     else do {
       k \<leftarrow> conn_find (uip_buf s) (uip_conns s);
       if k < length (uip_conns s) then tcp_found app k s
       else do {
         f \<leftarrow> seg_flags s;
         destport \<leftarrow> get16 (uip_buf s) 36;
         if f AND TCP_CTL \<noteq> TCP_SYN then tcp_reset s
         else if destport \<in> set (uip_listenports s) then found_listen s
         else tcp_reset s } } }"

section \<open>The periodic timer\<close>

definition tcp_retransmit ::
  "(('a) uip_tcp_scheme \<Rightarrow> ('a) uip_tcp_scheme) \<Rightarrow> nat \<Rightarrow> u8 \<Rightarrow> ('a) uip_tcp_scheme \<Rightarrow> ('a) uip_tcp_scheme option" where
  "tcp_retransmit app k st s =
    (if st = UIP_SYN_RCVD then tcp_send_synack k s
     else if st = UIP_SYN_SENT then do { s \<leftarrow> set_flags 0 s; tcp_send_syn k s }
     else if st = UIP_ESTABLISHED then apprexmit k (app (s\<lparr>uip_flags := UIP_REXMIT\<rparr>))
     else if st = UIP_FIN_WAIT_1 \<or> st = UIP_CLOSING \<or> st = UIP_LAST_ACK then tcp_send_finack k s
     else Some (ip_drop s))"

definition rexmit_limit :: "tcp_conn \<Rightarrow> bool" where
  "rexmit_limit c \<longleftrightarrow> t_nrtx c = 8 \<or> (tcpstateflags c = UIP_SYN_SENT \<or> tcpstateflags c = UIP_SYN_RCVD) \<and> t_nrtx c = 5"

definition tcp_timer ::
  "(('a) uip_tcp_scheme \<Rightarrow> ('a) uip_tcp_scheme) \<Rightarrow> nat \<Rightarrow> ('a) uip_tcp_scheme \<Rightarrow> ('a) uip_tcp_scheme option" where
  "tcp_timer app k s = do {
     let s = s\<lparr>iss := inc32 (iss s), uip_len := 0, uip_slen := 0\<rparr>;
     conn \<leftarrow> get_conn k s;
     if tcpstateflags conn = UIP_TIME_WAIT \<or> tcpstateflags conn = UIP_FIN_WAIT_2 then do {
       s \<leftarrow> upd_conn k (\<lambda>c. c\<lparr>t_timer := t_timer c + 1, tcpstateflags := (if t_timer c + 1 = 120 then UIP_CLOSED else tcpstateflags c)\<rparr>) s;
       Some (ip_drop s) }
     else if tcpstateflags conn = UIP_CLOSED then Some (ip_drop s)
     else if t_len conn \<noteq> 0 then do {
       s \<leftarrow> upd_conn k (\<lambda>c. c\<lparr>t_timer := t_timer c - 1\<rparr>) s;
       if t_timer conn \<noteq> 0 then Some (ip_drop s)
       else if rexmit_limit conn then do {
         s \<leftarrow> upd_conn k (\<lambda>c. c\<lparr>tcpstateflags := UIP_CLOSED\<rparr>) s;
         tcp_send_rst k (app (s\<lparr>uip_flags := UIP_TIMEDOUT\<rparr>)) }
       else do {
         s \<leftarrow> upd_conn k (\<lambda>c. c\<lparr>t_timer := push_bit (if t_nrtx c > 4 then 4 else unat (t_nrtx c)) 3, t_nrtx := t_nrtx c + 1\<rparr>) s;
         tcp_retransmit app k (tcpstateflags conn AND UIP_TS_MASK) s } }
     else if tcpstateflags conn AND UIP_TS_MASK = UIP_ESTABLISHED then appsend k (app (s\<lparr>uip_flags := UIP_POLL\<rparr>))
     else Some (ip_drop s) }"

definition tcp_poll ::
  "(('a) uip_tcp_scheme \<Rightarrow> ('a) uip_tcp_scheme) \<Rightarrow> nat \<Rightarrow> ('a) uip_tcp_scheme \<Rightarrow> ('a) uip_tcp_scheme option" where
  "tcp_poll app k s = do {
     conn \<leftarrow> get_conn k s;
     if tcpstateflags conn AND UIP_TS_MASK = UIP_ESTABLISHED \<and> t_len conn = 0
     then appsend k (app (s\<lparr>uip_flags := UIP_POLL\<rparr>))
     else Some (ip_drop s) }"

section \<open>The whole of the stack\<close>

definition uip_process ::
  "(('a) uip_tcp_scheme \<Rightarrow> ('a) uip_tcp_scheme) \<Rightarrow> (('a) uip_tcp_scheme \<Rightarrow> ('a) uip_tcp_scheme) \<Rightarrow> u8 \<Rightarrow>
    ('a) uip_tcp_scheme \<Rightarrow> ('a) uip_tcp_scheme option" where
  "uip_process udp_app app flag s =
    (if flag = 4 then udp_send s
     else do {
       let s = s\<lparr>uip_appdata := 54, uip_sappdata := 54\<rparr>;
       if flag = 3 then do { k \<leftarrow> uip_conn s; tcp_poll app k s }
       else if flag = 2 then do { k \<leftarrow> uip_conn s; tcp_timer app k s }
       else if flag = 5 then uip_udp_timer udp_app s
       else do {
         (goto, s) \<leftarrow> ip_input s;
         case goto of
           Return \<Rightarrow> Some s
         | Goto_udp_input \<Rightarrow> udp_input udp_app s
         | Goto_tcp_input \<Rightarrow> tcp_input app s } })"

section \<open>The interface for applications\<close>

definition uip_init :: "('a) uip_tcp_scheme \<Rightarrow> ('a) uip_tcp_scheme" where
  "uip_init s = s\<lparr>uip_flags := 0, uip_len := 0, uip_listenports := map (\<lambda>_. 0) (uip_listenports s),
     uip_conns := map (\<lambda>c. c\<lparr>tcpstateflags := UIP_CLOSED, t_lport := 0, t_rport := 0\<rparr>) (uip_conns s),
     lastport := 1024, uip_udp_conns := map (\<lambda>c. c\<lparr>u_lport := 0\<rparr>) (uip_udp_conns s)\<rparr>"

text \<open>The first element of a list that is equal to a value is replaced by another.\<close>

fun replace_first :: "u16 \<Rightarrow> u16 \<Rightarrow> u16 list \<Rightarrow> u16 list" where
  "replace_first x y [] = []"
| "replace_first x y (z # zs) = (if z = x then y # zs else z # replace_first x y zs)"

definition uip_unlisten :: "u16 \<Rightarrow> ('a) uip_tcp_scheme \<Rightarrow> ('a) uip_tcp_scheme" where
  "uip_unlisten port s = s\<lparr>uip_listenports := replace_first port 0 (uip_listenports s)\<rparr>"

definition uip_listen :: "u16 \<Rightarrow> ('a) uip_tcp_scheme \<Rightarrow> ('a) uip_tcp_scheme" where
  "uip_listen port s = s\<lparr>uip_listenports := replace_first 0 port (uip_listenports s)\<rparr>"

text \<open>The search for a local port that is not in use.\<close>

definition step_port :: "u16 \<Rightarrow> u16" where
  "step_port p = (if p + 1 \<ge> 32000 then 4096 else p + 1)"

partial_function (option) next_port :: "(u16 \<Rightarrow> bool) \<Rightarrow> u16 \<Rightarrow> u16 option" where
  "next_port used p = (let p = step_port p in if used p then next_port used p else Some p)"

definition conn_port_used :: "tcp_conn list \<Rightarrow> u16 \<Rightarrow> bool" where
  "conn_port_used conns p \<longleftrightarrow> list_ex (\<lambda>c. tcpstateflags c \<noteq> UIP_CLOSED \<and> t_lport c = HTONS p) conns"

definition uip_connect :: "ipaddr \<Rightarrow> u16 \<Rightarrow> ('a) uip_tcp_scheme \<Rightarrow> (nat option \<times> ('a) uip_tcp_scheme) option" where
  "uip_connect ripaddr rport s = do {
     p \<leftarrow> next_port (conn_port_used (uip_conns s)) (lastport s);
     let s = s\<lparr>lastport := p\<rparr>;
     case free_conn (uip_conns s) 0 None of
       None \<Rightarrow> Some (None, s)
     | Some k \<Rightarrow> do {
         s \<leftarrow> upd_conn k (\<lambda>c. c\<lparr>tcpstateflags := UIP_SYN_SENT, snd_nxt := iss s, initialmss := 3929, t_mss := 3929, t_len := 1,
           t_nrtx := 0, t_timer := 1, t_rto := 3, t_sa := 0, t_sv := 16, t_lport := HTONS p, t_rport := rport, t_ripaddr := ripaddr\<rparr>) s;
         Some (Some k, s) } }"

definition udp_port_used :: "uip_udp_conn list \<Rightarrow> u16 \<Rightarrow> bool" where
  "udp_port_used conns p \<longleftrightarrow> list_ex (\<lambda>c. u_lport c = HTONS p) conns"

fun free_udp :: "uip_udp_conn list \<Rightarrow> nat option" where
  "free_udp [] = None"
| "free_udp (c # cs) = (if u_lport c = 0 then Some 0 else map_option Suc (free_udp cs))"

definition uip_udp_new :: "ipaddr option \<Rightarrow> u16 \<Rightarrow> ('a) uip_tcp_scheme \<Rightarrow> (nat option \<times> ('a) uip_tcp_scheme) option" where
  "uip_udp_new ripaddr rport s = do {
     p \<leftarrow> next_port (udp_port_used (uip_udp_conns s)) (lastport s);
     let s = s\<lparr>lastport := p\<rparr>;
     case free_udp (uip_udp_conns s) of
       None \<Rightarrow> Some (None, s)
     | Some k \<Rightarrow>
         Some (Some k, s\<lparr>uip_udp_conns := (uip_udp_conns s)[k :=
           \<lparr>u_ripaddr = (case ripaddr of None \<Rightarrow> (0, 0) | Some ip \<Rightarrow> ip), u_lport = HTONS p, u_rport = rport, u_ttl = 64\<rparr>]\<rparr>) }"

text \<open>The data is elsewhere, or already at \<^verbatim>\<open>uip_sappdata\<close> (None).\<close>

definition uip_send :: "u8 list option \<Rightarrow> int \<Rightarrow> ('a) uip_tcp_scheme \<Rightarrow> ('a) uip_tcp_scheme option" where
  "uip_send data len s =
    (if len > 0 then do {
       let s = s\<lparr>uip_slen := word_of_int len\<rparr>;
       case data of
         None \<Rightarrow> Some s
       | Some bs \<Rightarrow> do { d \<leftarrow> mem_read bs 0 (unat (uip_slen s)); put_buf (uip_sappdata s) d s } }
     else Some s)"

end
