(* ===== verification/Tcp_Segment.thy ===== *)
theory Tcp_Segment
  imports Tcp
begin

text \<open>
  The segments that the TCP part of \<^verbatim>\<open>WiShield/uip.c\<close> sends and accepts: every segment has the numbers of its connection and
  checksums that verify, and a segment of the peer is only accepted in sequence.
\<close>

section \<open>Accesses\<close>

text \<open>
  The invariant of the TCP part: the buffer and the sequence numbers have their lengths, and neither the segment size of a peer nor the data in
  transit is longer than a segment may be.
\<close>

definition conn_ok :: "tcp_conn \<Rightarrow> bool" where
  "conn_ok c \<longleftrightarrow> length (rcv_nxt c) = 4 \<and> length (snd_nxt c) = 4 \<and> t_len c \<le> 3929 \<and> t_mss c \<le> 3929 \<and> initialmss c \<le> 3929"

definition tcp_ok :: "('a) uip_tcp_scheme \<Rightarrow> bool" where
  "tcp_ok s \<longleftrightarrow> length (uip_buf s) = 4002 \<and> length (iss s) = 4 \<and> list_all conn_ok (uip_conns s)"

named_theorems tcp_acc \<open>accesses to the packet and to the connections\<close>

lemma put_buf_ok [tcp_acc]: "a + length bs \<le> length (uip_buf s) \<Longrightarrow> put_buf a bs s = Some (s\<lparr>uip_buf := put_block (uip_buf s) a bs\<rparr>)"
  by (simp add: put_buf_def net_mem)

lemma set_flags_ok [tcp_acc]: "47 < length (uip_buf s) \<Longrightarrow> set_flags f s = Some (s\<lparr>uip_buf := put_block (uip_buf s) 47 [f]\<rparr>)"
  by (simp add: set_flags_def tcp_acc)

lemma seg_flags_ok [tcp_acc]: "47 < length (uip_buf s) \<Longrightarrow> seg_flags s = Some (uip_buf s ! 47)"
  by (simp add: seg_flags_def c_read_Some)

lemma get_conn_ok [tcp_acc]: "k < length (uip_conns s) \<Longrightarrow> get_conn k s = Some (uip_conns s ! k)"
  by (simp add: get_conn_def c_read_int)

lemma upd_conn_ok [tcp_acc]:
  "k < length (uip_conns s) \<Longrightarrow> upd_conn k f s = Some (s\<lparr>uip_conns := (uip_conns s)[k := f (uip_conns s ! k)]\<rparr>)"
  by (simp add: upd_conn_def get_conn_ok)

lemma tcp_ok_conn: "tcp_ok s \<Longrightarrow> k < length (uip_conns s) \<Longrightarrow> length (rcv_nxt (uip_conns s ! k)) = 4 \<and> length (snd_nxt (uip_conns s ! k)) = 4"
  by (simp add: tcp_ok_def conn_ok_def list_all_length)

section \<open>Every segment that is sent verifies\<close>

lemma total_length_put:
  assumes "length m = 4002"
  shows "ip_total_length (put_block (put_block m 16 [ucast (drop_bit 8 w)]) 17 [ucast (w :: u16)]) = unat w"
proof -
  have "ip_total_length (put_block (put_block m 16 [ucast (drop_bit 8 w)]) 17 [ucast w]) = word_sum (bytes16 (HTONS w))"
    using assms by (simp add: ip_total_length_def bytes16_HTONS nth_put)
  then show ?thesis by (simp add: word_sum_bytes16)
qed

definition noconn_filled :: "('a) uip_tcp_scheme \<Rightarrow> u8 list" where
  "noconn_filled s = put_block (put_block (put_block (put_block (put_block (put_block (uip_buf s) 22 [64])
     16 [ucast (drop_bit 8 (uip_len s))]) 17 [ucast (uip_len s)]) 53 [0]) 52 [0]) 50 (bytes16 0)"

lemma noconn_filled_facts:
  assumes "length (uip_buf s) = 4002"
  shows "length (noconn_filled s) = 4002" "ip_total_length (noconn_filled s) = unat (uip_len s)" "block (noconn_filled s) 50 2 = [0, 0]"
    "\<And>a n. a + n \<le> 4002 \<Longrightarrow> 26 \<le> a \<and> a + n \<le> 50 \<or> 54 \<le> a \<or> a + n \<le> 16 \<or> a = 23 \<and> n = 1 \<Longrightarrow> block (noconn_filled s) a n = block (uip_buf s) a n"
proof -
  let ?m = "put_block (put_block (put_block (uip_buf s) 22 [64]) 16 [ucast (drop_bit 8 (uip_len s))]) 17 [ucast (uip_len s)]"
  have "ip_total_length (noconn_filled s) = ip_total_length ?m"
    by (rule total_length_cong) (use assms in \<open>simp_all add: noconn_filled_def net_mem\<close>)
  then show "ip_total_length (noconn_filled s) = unat (uip_len s)"
    using assms by (simp add: total_length_put)
qed (use assms in \<open>auto simp: noconn_filled_def net_mem bytes16_def\<close>)

lemma tcp_send_noconn_ok:
  assumes "length (uip_buf s) = 4002" "40 \<le> unat (uip_len s)" "unat (uip_len s) \<le> 3988"
  shows "\<exists>s'. tcp_send_noconn s = Some s' \<and> s' = s\<lparr>uip_buf := uip_buf s', ipid := ipid s + 1, uip_flags := 0\<rparr> \<and>
    length (uip_buf s') = 4002 \<and> uip_ipchksum (uip_buf s') = Some 0xffff \<and> uip_tcpchksum (uip_buf s') = Some 0xffff \<and>
    ip_total_length (uip_buf s') = unat (uip_len s) \<and>
    (\<forall>a n. a + n \<le> 4002 \<and> (26 \<le> a \<and> a + n \<le> 50 \<or> 54 \<le> a \<or> a = 23 \<and> n = 1) \<longrightarrow> block (uip_buf s') a n = block (uip_buf s) a n)"
proof -
  define m where "m = noconn_filled s"
  note m = noconn_filled_facts[OF assms(1), folded m_def]
  obtain c where c: "upper_layer_chksum 6 m = Some c"
    using upper_layer_chksum_eq[of m 6] assms m(1,2) by auto
  let ?m = "put_block m 50 (bytes16 (NOT c))"
  have send: "tcp_send_noconn s = ip_send_nolen (s\<lparr>uip_buf := ?m\<rparr>)"
    using assms(1) c unfolding tcp_send_noconn_def by (simp add: tcp_acc uip_tcpchksum_def m(1) flip: noconn_filled_def m_def)
  have tcp: "upper_layer_chksum 6 ?m = Some 0xffff"
    using upper_checksum_filled[of m 50 6 c] m c assms by simp
  obtain s' where s': "ip_send_nolen (s\<lparr>uip_buf := ?m\<rparr>) = Some s'"
      "s' = s\<lparr>uip_buf := uip_buf s', ipid := ipid s + 1, uip_flags := 0\<rparr>" "length (uip_buf s') = 4002" "uip_ipchksum (uip_buf s') = Some 0xffff"
    and same: "\<And>a n. a + n \<le> 4002 \<Longrightarrow> 26 \<le> a \<or> a + n \<le> 14 \<or> 16 \<le> a \<and> a + n \<le> 18 \<or> 22 \<le> a \<and> a + n \<le> 24 \<Longrightarrow>
      block (uip_buf s') a n = block ?m a n"
    using ip_send_nolen_ok[of "s\<lparr>uip_buf := ?m\<rparr>"] m(1) by auto
  have total: "ip_total_length ?m = unat (uip_len s)" "ip_total_length (uip_buf s') = ip_total_length ?m"
    using total_length_cong[of ?m m] total_length_cong[of "uip_buf s'" ?m] m(1,2) same[of 16 2] s'(3) by (simp_all add: net_mem)
  have "upper_layer_chksum 6 ?m = upper_layer_chksum 6 (uip_buf s')"
    using same total m(1) s'(3) assms(2,3) by (intro upper_layer_cong) simp_all
  moreover have "block ?m a n = block m a n" if "a + n \<le> 4002" "26 \<le> a \<and> a + n \<le> 50 \<or> 54 \<le> a \<or> a = 23 \<and> n = 1" for a n
    using that m(1) by (auto simp: net_mem)
  ultimately show ?thesis
    using send s' tcp total same m(4) by (auto simp: uip_tcpchksum_def)
qed

text \<open>A segment of a connection that the peer accepts: the checksums verify, and the addresses, ports and numbers are those of the connection.\<close>

definition segment_ok :: "ipaddr \<Rightarrow> tcp_conn \<Rightarrow> u8 list \<Rightarrow> bool" where
  "segment_ok host c m \<longleftrightarrow> length m = 4002 \<and> uip_ipchksum m = Some 0xffff \<and> uip_tcpchksum m = Some 0xffff \<and>
    get_ip m 26 = Some host \<and> get_ip m 30 = Some (t_ripaddr c) \<and> get16 m 34 = Some (t_lport c) \<and> get16 m 36 = Some (t_rport c) \<and>
    block m 38 4 = snd_nxt c \<and> block m 42 4 = rcv_nxt c \<and>
    block m 48 2 = (if tcpstateflags c AND UIP_STOPPED \<noteq> 0 then [0, 0] else [0x0f, 0x59]) \<and> block m 23 1 = [6]"

definition conn_filled :: "nat \<Rightarrow> ('a) uip_tcp_scheme \<Rightarrow> u8 list" where
  "conn_filled k s = (let c = uip_conns s ! k in
     put_block (put_block (put_block (put_block (put_block (put_block (put_block (put_block (uip_buf s)
       42 (rcv_nxt c)) 38 (snd_nxt c)) 23 [6]) 34 (bytes16 (t_lport c))) 36 (bytes16 (t_rport c)))
       26 (ip_bytes (uip_hostaddr s))) 30 (ip_bytes (t_ripaddr c)))
       48 (if tcpstateflags c AND UIP_STOPPED \<noteq> 0 then [0, 0] else [0x0f, 0x59]))"

lemma conn_filled_facts:
  assumes "tcp_ok s" "k < length (uip_conns s)" "c = uip_conns s ! k"
  shows "length (conn_filled k s) = 4002" "block (conn_filled k s) 26 4 = ip_bytes (uip_hostaddr s)" "block (conn_filled k s) 30 4 = ip_bytes (t_ripaddr c)"
    "block (conn_filled k s) 34 2 = bytes16 (t_lport c)" "block (conn_filled k s) 36 2 = bytes16 (t_rport c)"
    "block (conn_filled k s) 38 4 = snd_nxt c" "block (conn_filled k s) 42 4 = rcv_nxt c" "block (conn_filled k s) 23 1 = [6]"
    "block (conn_filled k s) 48 2 = (if tcpstateflags c AND UIP_STOPPED \<noteq> 0 then [0, 0] else [0x0f, 0x59])"
    "block (conn_filled k s) 46 2 = block (uip_buf s) 46 2"
    "\<And>a n. a + n \<le> 4002 \<Longrightarrow> 54 \<le> a \<Longrightarrow> block (conn_filled k s) a n = block (uip_buf s) a n"
  using assms tcp_ok_conn[OF assms(1,2)] by (simp_all add: conn_filled_def Let_def net_mem tcp_ok_def)

lemma tcp_send_eq:
  assumes "tcp_ok s" "k < length (uip_conns s)"
  shows "tcp_send k s = tcp_send_noconn (s\<lparr>uip_buf := conn_filled k s\<rparr>)"
  using assms tcp_ok_conn[OF assms] unfolding tcp_send_def conn_filled_def Let_def
  by (simp add: tcp_acc net_mem tcp_ok_def)

lemma tcp_send_ok:
  assumes "tcp_ok s" "k < length (uip_conns s)" "40 \<le> unat (uip_len s)" "unat (uip_len s) \<le> 3988"
  shows "\<exists>s'. tcp_send k s = Some s' \<and> s' = s\<lparr>uip_buf := uip_buf s', ipid := ipid s + 1, uip_flags := 0\<rparr> \<and>
    segment_ok (uip_hostaddr s) (uip_conns s ! k) (uip_buf s') \<and> ip_total_length (uip_buf s') = unat (uip_len s) \<and>
    block (uip_buf s') 46 2 = block (uip_buf s) 46 2 \<and> (\<forall>a n. 54 \<le> a \<and> a + n \<le> 4002 \<longrightarrow> block (uip_buf s') a n = block (uip_buf s) a n)"
proof -
  note f = conn_filled_facts[OF assms(1,2) refl]
  obtain s' where s': "tcp_send k s = Some s'" "s' = s\<lparr>uip_buf := uip_buf s', ipid := ipid s + 1, uip_flags := 0\<rparr>" "length (uip_buf s') = 4002"
      "uip_ipchksum (uip_buf s') = Some 0xffff" "uip_tcpchksum (uip_buf s') = Some 0xffff" "ip_total_length (uip_buf s') = unat (uip_len s)"
    and same: "\<And>a n. a + n \<le> 4002 \<Longrightarrow> 26 \<le> a \<and> a + n \<le> 50 \<or> 54 \<le> a \<or> a = 23 \<and> n = 1 \<Longrightarrow> block (uip_buf s') a n = block (conn_filled k s) a n"
    using tcp_send_noconn_ok[of "s\<lparr>uip_buf := conn_filled k s\<rparr>"] assms f(1) by (auto simp: tcp_send_eq)
  have "segment_ok (uip_hostaddr s) (uip_conns s ! k) (uip_buf s')"
    unfolding segment_ok_def using s'(3-5) f by (simp add: net_mem same)
  then show ?thesis using s' same f by auto
qed

lemma block_pair: "a + 2 \<le> length m \<Longrightarrow> block m a 2 = [m ! a, m ! Suc a]"
  using block_Cons[of a 1 m] block_nth[of "Suc a" m] by (simp add: numeral_2_eq_2)

text \<open>The segments without data: an acknowledgement, a reset or the end of the stream, and the opening with the segment size.\<close>

lemma upd_order: "s\<lparr>uip_buf := m, uip_len := n\<rparr> = s\<lparr>uip_len := n, uip_buf := m\<rparr>"
  by simp

lemma tcp_ok_buf: "tcp_ok s \<Longrightarrow> length m = 4002 \<Longrightarrow> tcp_ok (s\<lparr>uip_len := n, uip_buf := m\<rparr>)"
  by (simp add: tcp_ok_def)

lemma tcp_send_noopts_ok:
  assumes "tcp_ok s" "k < length (uip_conns s)" "40 \<le> unat (uip_len s)" "unat (uip_len s) \<le> 3988"
  shows "\<exists>s'. tcp_send_noopts k s = Some s' \<and> s' = s\<lparr>uip_buf := uip_buf s', ipid := ipid s + 1, uip_flags := 0\<rparr> \<and>
    segment_ok (uip_hostaddr s) (uip_conns s ! k) (uip_buf s') \<and> ip_total_length (uip_buf s') = unat (uip_len s) \<and>
    uip_buf s' ! 46 = 0x50 \<and> uip_buf s' ! 47 = uip_buf s ! 47 \<and> (\<forall>a n. 54 \<le> a \<and> a + n \<le> 4002 \<longrightarrow> block (uip_buf s') a n = block (uip_buf s) a n)"
proof -
  let ?s = "s\<lparr>uip_buf := put_block (uip_buf s) 46 [0x50]\<rparr>"
  have len: "length (uip_buf s) = 4002" using assms(1) by (simp add: tcp_ok_def)
  obtain s' where s': "tcp_send k ?s = Some s'" "s' = ?s\<lparr>uip_buf := uip_buf s', ipid := ipid s + 1, uip_flags := 0\<rparr>"
    "segment_ok (uip_hostaddr s) (uip_conns s ! k) (uip_buf s')" "ip_total_length (uip_buf s') = unat (uip_len s)"
    "block (uip_buf s') 46 2 = block (put_block (uip_buf s) 46 [0x50]) 46 2"
    "\<And>a n. 54 \<le> a \<Longrightarrow> a + n \<le> 4002 \<Longrightarrow> block (uip_buf s') a n = block (put_block (uip_buf s) 46 [0x50]) a n"
    using tcp_send_ok[of ?s k] assms by (auto simp: tcp_ok_def)
  have "uip_buf s' ! 46 = 0x50 \<and> uip_buf s' ! 47 = uip_buf s ! 47"
    using s'(3,5) len by (simp add: segment_ok_def block_pair nth_put)
  moreover have "block (put_block (uip_buf s) 46 [0x50]) a n = block (uip_buf s) a n" if "54 \<le> a" "a + n \<le> 4002" for a n
    using that len by (simp add: net_mem)
  ultimately show ?thesis using s' len by (auto simp: tcp_send_noopts_def tcp_acc)
qed

lemma control_sent:
  assumes "tcp_ok s" "k < length (uip_conns s)"
  shows "\<exists>s'. Option.bind (set_flags f s) (tcp_send_nodata k) = Some s' \<and>
    s' = s\<lparr>uip_len := 40, uip_buf := uip_buf s', ipid := ipid s + 1, uip_flags := 0\<rparr> \<and>
    segment_ok (uip_hostaddr s) (uip_conns s ! k) (uip_buf s') \<and> ip_total_length (uip_buf s') = 40 \<and> uip_buf s' ! 47 = f"
proof -
  let ?s = "s\<lparr>uip_len := 40, uip_buf := put_block (uip_buf s) 47 [f]\<rparr>"
  have len: "length (uip_buf s) = 4002" using assms(1) by (simp add: tcp_ok_def)
  have "Option.bind (set_flags f s) (tcp_send_nodata k) = tcp_send_noopts k ?s"
    using len by (simp add: tcp_acc tcp_send_nodata_def upd_order)
  moreover have "put_block (uip_buf s) 47 [f] ! 47 = f" using len by (simp add: nth_put)
  ultimately show ?thesis
    using tcp_send_noopts_ok[of ?s k] assms len tcp_ok_buf[OF assms(1), of "put_block (uip_buf s) 47 [f]" 40] by (auto simp: uip_tcp.defs)
qed

lemma syn_sent:
  assumes "tcp_ok s" "k < length (uip_conns s)"
  shows "\<exists>s'. tcp_send_syn k s = Some s' \<and> s' = s\<lparr>uip_len := 44, uip_buf := uip_buf s', ipid := ipid s + 1, uip_flags := 0\<rparr> \<and>
    segment_ok (uip_hostaddr s) (uip_conns s ! k) (uip_buf s') \<and> ip_total_length (uip_buf s') = 44 \<and>
    uip_buf s' ! 46 = 0x60 \<and> uip_buf s' ! 47 = uip_buf s ! 47 OR TCP_SYN \<and> block (uip_buf s') 54 4 = [2, 4, 0x0f, 0x59]"
proof -
  have len: "length (uip_buf s) = 4002" using assms(1) by (simp add: tcp_ok_def)
  define m where "m = put_block (put_block (put_block (uip_buf s) 47 [uip_buf s ! 47 OR TCP_SYN]) 54 [2, 4, 0x0f, 0x59]) 46 [0x60]"
  have m: "length m = 4002" "m ! 46 = 0x60" "m ! 47 = uip_buf s ! 47 OR TCP_SYN" "block m 54 4 = [2, 4, 0x0f, 0x59]"
    using len by (simp_all add: m_def nth_put net_mem)
  have "tcp_send_syn k s = tcp_send k (s\<lparr>uip_len := 44, uip_buf := m\<rparr>)"
    using len by (simp add: tcp_send_syn_def tcp_acc m_def)
  moreover obtain s' where s': "tcp_send k (s\<lparr>uip_len := 44, uip_buf := m\<rparr>) = Some s'"
      "s' = s\<lparr>uip_len := 44, uip_buf := m\<rparr>\<lparr>uip_buf := uip_buf s', ipid := ipid s + 1, uip_flags := 0\<rparr>"
      "segment_ok (uip_hostaddr s) (uip_conns s ! k) (uip_buf s')" "ip_total_length (uip_buf s') = 44"
      "block (uip_buf s') 46 2 = block m 46 2" "block (uip_buf s') 54 4 = block m 54 4"
    using tcp_send_ok[of "s\<lparr>uip_len := 44, uip_buf := m\<rparr>" k] assms tcp_ok_buf[OF assms(1) m(1), of 44] by auto
  moreover have "uip_buf s' ! 46 = 0x60 \<and> uip_buf s' ! 47 = uip_buf s ! 47 OR TCP_SYN"
    using s'(3,5) m by (simp add: segment_ok_def block_pair)
  ultimately show ?thesis using m(4) by auto
qed

lemma tcpchksum_verified:
  assumes "length m = 4002" "20 \<le> ip_total_length m" "ip_total_length m \<le> 3988"
  shows "uip_tcpchksum m = Some 0xffff \<longleftrightarrow> verified (pseudo_sum 6 m)"
  using upper_layer_chksum_eq[of m 6] assms by (simp add: uip_tcpchksum_def verified_result)

end
