(* ===== verification/Tcp_State.thy ===== *)
theory Tcp_State
  imports Tcp_Segment
begin

text \<open>
  The states of the TCP connections of \<^verbatim>\<open>WiShield/uip.c\<close>. For every event (\<open>event_ok\<close>), whatever the application does within its contract
  (\<open>app_keeps\<close>), the stack returns, keeps the invariant of the connections, and changes the state of at most one connection, along
  an edge of the state diagram. Left out of the events are segments whose IP length is less than that of a header or more than the buffer, and those
  whose option list does not end, at which the stack does not return.
\<close>

section \<open>Results\<close>

definition returns :: "'s option \<Rightarrow> ('s \<Rightarrow> bool) \<Rightarrow> bool" where
  "returns r P \<longleftrightarrow> (case r of None \<Rightarrow> False | Some s \<Rightarrow> P s)"

lemma returns_Some [simp]: "returns (Some s) P = P s"
  by (simp add: returns_def)

lemma returns_bind [simp]: "returns (Option.bind r f) P = returns r (\<lambda>s. returns (f s) P)"
  by (simp add: returns_def split: option.split)

lemma returns_mono: "returns r P \<Longrightarrow> (\<And>s. P s \<Longrightarrow> Q s) \<Longrightarrow> returns r Q"
  by (simp add: returns_def split: option.splits)

lemma returns_bindI: "returns r P \<Longrightarrow> (\<And>v. P v \<Longrightarrow> returns (f v) Q) \<Longrightarrow> returns (Option.bind r f) Q"
  by (auto elim: returns_mono)

lemma returns_iff: "returns r P \<longleftrightarrow> (\<exists>s. r = Some s \<and> P s)"
  by (simp add: returns_def split: option.split)

section \<open>Changes of the state\<close>

definition same_env :: "('a) uip_tcp_scheme \<Rightarrow> ('a) uip_tcp_scheme \<Rightarrow> bool" where
  "same_env s s' \<longleftrightarrow> uip_hostaddr s' = uip_hostaddr s \<and> uip_draddr s' = uip_draddr s \<and> uip_netmask s' = uip_netmask s \<and>
    uip_ethaddr s' = uip_ethaddr s \<and> arp_table s' = arp_table s \<and> arptime s' = arptime s \<and>
    uip_udp_conns s' = uip_udp_conns s \<and> uip_listenports s' = uip_listenports s \<and> lastport s' = lastport s"

text \<open>At most the connection with the given number is changed, in a way that the relation allows.\<close>

definition conn_change :: "nat \<Rightarrow> (tcp_conn \<Rightarrow> tcp_conn \<Rightarrow> bool) \<Rightarrow> ('a) uip_tcp_scheme \<Rightarrow> ('a) uip_tcp_scheme \<Rightarrow> bool" where
  "conn_change k R s s' \<longleftrightarrow> tcp_ok s' \<and> same_env s s' \<and> (\<exists>c. uip_conns s' = (uip_conns s)[k := c] \<and> R (uip_conns s ! k) c)"

text \<open>A segment is sent: the connections, the application's state and the current connection stay.\<close>

definition sent :: "('a) uip_tcp_scheme \<Rightarrow> ('a) uip_tcp_scheme \<Rightarrow> bool" where
  "sent s s' \<longleftrightarrow> tcp_ok s' \<and> same_env s s' \<and> uip_conns s' = uip_conns s \<and> uip_tcp.more s' = uip_tcp.more s \<and> uip_conn s' = uip_conn s"

text \<open>
  The contract of an application: it may read and write the data in the packet buffer and set the length and the flags, and of the connections it changes
  only its own state and the flag with which it stops the peer.
\<close>

definition app_core :: "tcp_conn \<Rightarrow> tcp_conn \<Rightarrow> bool" where
  "app_core c c' \<longleftrightarrow> c' = c\<lparr>t_appstate := t_appstate c', tcpstateflags := tcpstateflags c'\<rparr> \<and>
    tcpstateflags c' AND UIP_TS_MASK = tcpstateflags c AND UIP_TS_MASK"

definition app_keeps :: "(('a) uip_tcp_scheme \<Rightarrow> ('a) uip_tcp_scheme) \<Rightarrow> bool" where
  "app_keeps app \<longleftrightarrow> (\<forall>s k. tcp_ok s \<and> uip_conn s = Some k \<and> k < length (uip_conns s) \<longrightarrow>
    conn_change k app_core s (app s) \<and> uip_conn (app s) = Some k)"

lemma app_keepsD:
  assumes "app_keeps app" "tcp_ok s" "uip_conn s = Some k" "k < length (uip_conns s)"
  obtains c where "tcp_ok (app s)" "same_env s (app s)" "uip_conns (app s) = (uip_conns s)[k := c]" "app_core (uip_conns s ! k) c" "uip_conn (app s) = Some k"
  using assms unfolding app_keeps_def conn_change_def by blast

section \<open>Sending\<close>

lemma sent_packet:
  assumes "tcp_ok s" "s' = s\<lparr>uip_len := n, uip_buf := m, ipid := w, uip_flags := f\<rparr>" "length m = 4002"
  shows "sent s s'"
  using assms by (simp add: sent_def same_env_def tcp_ok_def)

lemma sent_buf:
  assumes "tcp_ok s" "s' = s\<lparr>uip_buf := m, ipid := w, uip_flags := f\<rparr>" "length m = 4002"
  shows "sent s s'"
  using assms by (simp add: sent_def same_env_def tcp_ok_def)

lemma sent_update:
  assumes "sent (s\<lparr>uip_len := n, uip_buf := m, uip_flags := f, uip_slen := l, uip_appdata := a\<rparr>) s'"
  shows "sent s s'"
  using assms by (simp add: sent_def same_env_def)

lemma drop_sent [simp]: "tcp_ok s \<Longrightarrow> sent s (ip_drop s)"
  by (simp add: sent_def same_env_def tcp_ok_def ip_drop_def)

lemma segment_ok_length: "segment_ok h c m \<Longrightarrow> length m = 4002"
  by (simp add: segment_ok_def)

lemma control_returns:
  assumes "tcp_ok s" "k < length (uip_conns s)"
  shows "returns (tcp_send_ack k s) (sent s)" "returns (tcp_send_finack k s) (sent s)" "returns (tcp_send_rst k s) (sent s)"
proof -
  have "returns (Option.bind (set_flags f s) (tcp_send_nodata k)) (sent s)" for f
    using control_sent[OF assms, of f] sent_packet[OF assms(1)] segment_ok_length unfolding returns_iff by blast
  then show "returns (tcp_send_ack k s) (sent s)" "returns (tcp_send_finack k s) (sent s)" "returns (tcp_send_rst k s) (sent s)"
    unfolding tcp_send_ack_def tcp_send_finack_def tcp_send_rst_def by blast+
qed

lemma syn_returns:
  assumes "tcp_ok s" "k < length (uip_conns s)"
  shows "returns (tcp_send_syn k s) (sent s)"
  using syn_sent[OF assms] sent_packet[OF assms(1)] segment_ok_length unfolding returns_iff by blast

lemma set_flags_returns:
  assumes "tcp_ok s" "\<And>s'. sent s s' \<Longrightarrow> returns (r s') P"
  shows "returns (Option.bind (set_flags f s) r) P"
  using assms by (simp add: tcp_acc tcp_ok_def sent_def same_env_def)

lemma sent_trans: "sent s s' \<Longrightarrow> sent s' s'' \<Longrightarrow> sent s s''"
  by (simp add: sent_def same_env_def)

lemma sent_conns: "sent s s' \<Longrightarrow> tcp_ok s' \<and> uip_conns s' = uip_conns s"
  by (simp add: sent_def)

lemma synack_returns:
  assumes "tcp_ok s" "k < length (uip_conns s)"
  shows "returns (tcp_send_synack k s) (sent s)"
  unfolding tcp_send_synack_def using assms
  by (intro set_flags_returns) (use sent_conns sent_trans in \<open>force intro: returns_mono[OF syn_returns]\<close>)+

lemma noopts_returns:
  assumes "tcp_ok s" "k < length (uip_conns s)" "40 \<le> unat (uip_len s)" "unat (uip_len s) \<le> 3988"
  shows "returns (tcp_send_noopts k s) (sent s)"
proof -
  obtain s' where "tcp_send_noopts k s = Some s'" "s' = s\<lparr>uip_buf := uip_buf s', ipid := ipid s + 1, uip_flags := 0\<rparr>" "length (uip_buf s') = 4002"
    using tcp_send_noopts_ok[OF assms] segment_ok_length by blast
  moreover from this(2,3) have "sent s s'" by (rule sent_buf[OF assms(1)])
  ultimately show ?thesis by simp
qed

text \<open>The reset of a segment without a connection.\<close>

lemma reset_returns:
  assumes "tcp_ok s"
  shows "returns (tcp_reset s) (sent s)"
proof -
  have len: "length (uip_buf s) = 4002" using assms by (simp add: tcp_ok_def)
  have "returns (tcp_send_noconn (s\<lparr>uip_len := 40, uip_buf := m\<rparr>)) (sent s)" if m: "length m = 4002" for m
  proof -
    let ?t = "s\<lparr>uip_len := 40, uip_buf := m\<rparr>"
    obtain s' where s': "tcp_send_noconn ?t = Some s'" "s' = ?t\<lparr>uip_buf := uip_buf s', ipid := ipid ?t + 1, uip_flags := 0\<rparr>" "length (uip_buf s') = 4002"
      using tcp_send_noconn_ok[of ?t] m by fastforce
    have "sent ?t s'" using tcp_ok_buf[OF assms m] s'(2,3) by (rule sent_buf)
    then have "sent s s'" by (simp add: sent_def same_env_def)
    with s'(1) show ?thesis by simp
  qed
  then show ?thesis
    using assms len unfolding tcp_reset_def by (simp add: tcp_acc net_mem inc32_def Let_def upd_order)
qed

section \<open>Changes of a connection\<close>

text \<open>A change by the stack itself leaves the state of the application and the current connection.\<close>

definition own_change :: "nat \<Rightarrow> (tcp_conn \<Rightarrow> tcp_conn \<Rightarrow> bool) \<Rightarrow> ('a) uip_tcp_scheme \<Rightarrow> ('a) uip_tcp_scheme \<Rightarrow> bool" where
  "own_change k R s s' \<longleftrightarrow> conn_change k R s s' \<and> uip_tcp.more s' = uip_tcp.more s \<and> uip_conn s' = uip_conn s"

lemma sent_own: "sent s s' \<Longrightarrow> R (uip_conns s ! k) (uip_conns s ! k) \<Longrightarrow> own_change k R s s'"
  unfolding sent_def own_change_def conn_change_def by (metis list_update_id)

lemma own_changeD:
  assumes "own_change k R s s'" "k < length (uip_conns s)"
  shows "tcp_ok s'" "same_env s s'" "length (uip_conns s') = length (uip_conns s)" "R (uip_conns s ! k) (uip_conns s' ! k)"
    "uip_conn s' = uip_conn s" "uip_tcp.more s' = uip_tcp.more s"
  using assms by (auto simp: own_change_def conn_change_def)

lemma conn_change_trans:
  assumes "conn_change k R s s'" "conn_change k Q s' s''" "k < length (uip_conns s)" "\<And>c. R (uip_conns s ! k) c \<Longrightarrow> Q c (uip_conns s'' ! k) \<Longrightarrow> T (uip_conns s ! k) (uip_conns s'' ! k)"
  shows "conn_change k T s s''"
  using assms unfolding conn_change_def same_env_def by auto

lemma own_change_trans:
  assumes "own_change k R s s'" "own_change k Q s' s''" "k < length (uip_conns s)" "\<And>c. R (uip_conns s ! k) c \<Longrightarrow> Q c (uip_conns s'' ! k) \<Longrightarrow> T (uip_conns s ! k) (uip_conns s'' ! k)"
  shows "own_change k T s s''"
  using assms conn_change_trans[of k R s s' Q s'' T] unfolding own_change_def by simp

lemma own_sent:
  assumes "own_change k R s s'" "sent s' s''" "k < length (uip_conns s)"
  shows "own_change k R s s''"
  using assms unfolding own_change_def sent_def conn_change_def same_env_def by simp

lemma own_change_upd:
  assumes "tcp_ok s" "k < length (uip_conns s)" "conn_ok (f (uip_conns s ! k))" "R (uip_conns s ! k) (f (uip_conns s ! k))"
  shows "returns (upd_conn k f s) (own_change k R s)"
proof -
  have "list_all conn_ok ((uip_conns s)[k := f (uip_conns s ! k)])"
    using assms(1-3) by (auto simp: tcp_ok_def list_all_length nth_list_update)
  with assms show ?thesis
    by (auto simp: tcp_acc own_change_def conn_change_def same_env_def tcp_ok_def)
qed

lemma conn_ok_nth: "tcp_ok s \<Longrightarrow> k < length (uip_conns s) \<Longrightarrow> conn_ok (uip_conns s ! k)"
  by (simp add: tcp_ok_def list_all_length)

lemma u16_le_small: "unat (w :: u16) \<le> 3929" if "w \<le> 3929"
  using that by (simp add: word_le_nat_alt)

lemma apprexmit_returns:
  assumes "tcp_ok s" "k < length (uip_conns s)"
  shows "returns (apprexmit k s) (sent s)"
proof -
  let ?c = "uip_conns s ! k"
  let ?s = "\<lambda>n f. s\<lparr>uip_appdata := uip_sappdata s, uip_len := n, uip_buf := put_block (uip_buf s) 47 [f]\<rparr>"
  have len: "length (uip_buf s) = 4002" using assms(1) by (simp add: tcp_ok_def)
  have "unat (t_len ?c) \<le> 3929" using conn_ok_nth[OF assms] by (simp add: conn_ok_def u16_le_small)
  then have n: "unat (t_len ?c + 40) = unat (t_len ?c) + 40" "unat (t_len ?c) + 40 \<le> 3988"
    by (simp_all add: unat_add_small)
  have "returns (tcp_send_noopts k (?s n f)) (sent s)" if "40 \<le> unat n" "unat n \<le> 3988" for n f
    using noopts_returns[of "?s n f" k] assms len that
    by (auto simp: tcp_ok_def sent_def same_env_def intro: returns_mono)
  from this[of "t_len ?c + 40"] this[of 40] show ?thesis
    using assms len n unfolding apprexmit_def
    by (simp add: tcp_acc Let_def sent_def same_env_def tcp_ok_def ip_drop_def)
qed

definition window_rel :: "tcp_conn \<Rightarrow> tcp_conn \<Rightarrow> bool" where
  "window_rel c c' \<longleftrightarrow> c' = c\<lparr>t_len := t_len c'\<rparr>"

definition send_rel :: "tcp_conn \<Rightarrow> tcp_conn \<Rightarrow> bool" where
  "send_rel c c' \<longleftrightarrow> rcv_nxt c' = rcv_nxt c \<and> tcpstateflags c' \<in> {tcpstateflags c, UIP_CLOSED, UIP_FIN_WAIT_1}"

lemma conn_ok_small [simp]:
  "conn_ok c \<Longrightarrow> conn_ok (c\<lparr>tcpstateflags := a\<rparr>)" "conn_ok c \<Longrightarrow> conn_ok (c\<lparr>t_nrtx := a\<rparr>)" "conn_ok c \<Longrightarrow> conn_ok (c\<lparr>t_timer := a\<rparr>)"
  "conn_ok c \<Longrightarrow> w \<le> 3929 \<Longrightarrow> conn_ok (c\<lparr>t_len := w\<rparr>)" "conn_ok c \<Longrightarrow> length xs = 4 \<Longrightarrow> conn_ok (c\<lparr>rcv_nxt := xs\<rparr>)"
  by (simp_all add: conn_ok_def)

lemma send_window_returns:
  assumes "tcp_ok s" "k < length (uip_conns s)"
  shows "returns (send_window k s) (own_change k window_rel s)"
proof -
  have fit: "returns (if t_len c = 0 then do {
       let s = (if uip_slen s > t_mss c then s\<lparr>uip_slen := t_mss c\<rparr> else s);
       upd_conn k (\<lambda>c. c\<lparr>t_len := uip_slen s\<rparr>) s }
     else Some (s\<lparr>uip_slen := t_len c\<rparr>)) (own_change k window_rel s)" if s: "tcp_ok s" "k < length (uip_conns s)" "c = uip_conns s ! k" for s :: "'a uip_tcp_scheme" and c
  proof -
    let ?t = "if uip_slen s > t_mss c then s\<lparr>uip_slen := t_mss c\<rparr> else s"
    have "t_mss c \<le> 3929" using conn_ok_nth[OF s(1,2)] s(3) by (simp add: conn_ok_def)
    then have "uip_slen ?t \<le> 3929" by auto
    moreover have t: "tcp_ok ?t" "uip_conns ?t = uip_conns s" "sent s ?t" "\<And>l. sent s (s\<lparr>uip_slen := l\<rparr>)"
      using s(1) by (simp_all add: tcp_ok_def sent_def same_env_def)
    ultimately have "returns (upd_conn k (\<lambda>c. c\<lparr>t_len := uip_slen ?t\<rparr>) ?t) (own_change k window_rel ?t)"
      using s(2) conn_ok_nth[OF s(1,2)] by (intro own_change_upd) (simp_all add: window_rel_def)
    then have "returns (upd_conn k (\<lambda>c. c\<lparr>t_len := uip_slen ?t\<rparr>) ?t) (own_change k window_rel s)"
      using t(2,3) by (elim returns_mono) (simp add: own_change_def conn_change_def same_env_def sent_def)
    then show ?thesis
      using sent_own[OF t(4)] by (simp add: Let_def window_rel_def)
  qed
  show ?thesis
  proof (cases "uip_flags s AND UIP_ACKDATA \<noteq> 0")
    case True
    obtain u where u: "upd_conn k (\<lambda>c. c\<lparr>t_len := 0\<rparr>) s = Some u" "own_change k window_rel s u"
      using own_change_upd[of s k "\<lambda>c. c\<lparr>t_len := 0\<rparr>" window_rel] conn_ok_nth[OF assms] assms by (auto simp: returns_iff window_rel_def)
    note u' = own_changeD[OF u(2) assms(2)]
    show ?thesis
      using fit[of u, OF u'(1) _ refl] u' assms True u(1) own_change_trans[OF u(2) _ assms(2), of window_rel _ window_rel]
      unfolding send_window_def by (auto simp: tcp_acc window_rel_def elim!: returns_mono)
  next
    case False
    then show ?thesis using fit[OF assms refl] assms by (simp add: send_window_def tcp_acc)
  qed
qed

text \<open>Rules for sequences: after a change, another change, or a segment is sent.\<close>

lemma own_bind:
  assumes "returns r (own_change k R s)" "k < length (uip_conns s)"
    and "\<And>u. tcp_ok u \<Longrightarrow> k < length (uip_conns u) \<Longrightarrow> own_change k R s u \<Longrightarrow> returns (f u) (own_change k Q u)"
    and "\<And>c c'. R (uip_conns s ! k) c \<Longrightarrow> Q c c' \<Longrightarrow> T (uip_conns s ! k) c'"
  shows "returns (Option.bind r f) (own_change k T s)"
proof -
  obtain u where u: "r = Some u" "own_change k R s u" using assms(1) by (auto simp: returns_iff)
  note u' = own_changeD[OF u(2) assms(2)]
  have "returns (f u) (own_change k Q u)" using assms(2,3) u u' by simp
  then show ?thesis
    using u(1) own_change_trans[OF u(2) _ assms(2), of Q _ T] assms(4) by (auto elim!: returns_mono)
qed

lemma own_bind_sent:
  assumes "returns r (own_change k R s)" "k < length (uip_conns s)"
    and "\<And>u. tcp_ok u \<Longrightarrow> k < length (uip_conns u) \<Longrightarrow> returns (f u) (sent u)"
  shows "returns (Option.bind r f) (own_change k R s)"
proof -
  obtain u where u: "r = Some u" "own_change k R s u" using assms(1) by (auto simp: returns_iff)
  note u' = own_changeD[OF u(2) assms(2)]
  have "returns (f u) (sent u)" using assms(2,3) u' by simp
  then show ?thesis using u(1) own_sent[OF u(2) _ assms(2)] by (auto elim!: returns_mono)
qed

lemma own_change_mono:
  assumes "own_change k R s s'" "\<And>c. R (uip_conns s ! k) c \<Longrightarrow> Q (uip_conns s ! k) c"
  shows "own_change k Q s s'"
  using assms unfolding own_change_def conn_change_def by blast

lemma own_start:
  assumes "sent s u" "own_change k R u s'"
  shows "own_change k R s s'"
  using assms unfolding sent_def own_change_def conn_change_def same_env_def by simp

lemma slen_sent [simp]: "tcp_ok s \<Longrightarrow> sent s (s\<lparr>uip_slen := l\<rparr>)"
  by (simp add: sent_def same_env_def tcp_ok_def)

lemma tcp_ok_fields [simp]:
  "tcp_ok (s\<lparr>uip_slen := l\<rparr>) = tcp_ok s" "tcp_ok (s\<lparr>uip_flags := f\<rparr>) = tcp_ok s" "tcp_ok (s\<lparr>uip_len := n\<rparr>) = tcp_ok s"
  "tcp_ok (s\<lparr>uip_conn := j\<rparr>) = tcp_ok s" "tcp_ok (s\<lparr>uip_appdata := a\<rparr>) = tcp_ok s" "tcp_ok (s\<lparr>uip_sappdata := a\<rparr>) = tcp_ok s"
  by (simp_all add: tcp_ok_def)

lemma appsend_returns:
  assumes "tcp_ok s" "k < length (uip_conns s)"
  shows "returns (appsend k s) (own_change k send_rel s)"
proof -
  let ?s = "s\<lparr>uip_slen := 0\<rparr>"
  have s: "tcp_ok ?s" "k < length (uip_conns ?s)" "conn_ok (uip_conns ?s ! k)" using assms conn_ok_nth[OF assms] by simp_all
  note start = own_start[OF slen_sent[OF assms(1)], of k send_rel 0]
  have abort: "returns (Option.bind (upd_conn k (\<lambda>c. c\<lparr>tcpstateflags := UIP_CLOSED\<rparr>) ?s) (tcp_send_rst k)) (own_change k send_rel ?s)"
    using s by (intro own_bind_sent own_change_upd control_returns) (simp_all add: send_rel_def)
  have close: "returns (Option.bind (upd_conn k (\<lambda>c. c\<lparr>t_len := 1, tcpstateflags := UIP_FIN_WAIT_1, t_nrtx := 0\<rparr>) ?s) (tcp_send_finack k))
      (own_change k send_rel ?s)"
    using s by (intro own_bind_sent own_change_upd control_returns) (simp_all add: send_rel_def)
  have rest: "returns (Option.bind (upd_conn k (\<lambda>c. c\<lparr>t_nrtx := 0\<rparr>) u) (apprexmit k)) (own_change k (\<lambda>c c'. c' = c\<lparr>t_nrtx := 0\<rparr>) u)"
    if "tcp_ok u" "k < length (uip_conns u)" for u :: "'a uip_tcp_scheme"
    using that conn_ok_nth[OF that] by (intro own_bind_sent own_change_upd apprexmit_returns) simp_all
  have window: "returns (if uip_slen s > 0 then send_window k s else Some s) (own_change k window_rel s)"
    using send_window_returns[OF assms] sent_own[of s s window_rel k] assms(1)
    by (auto simp: window_rel_def sent_def same_env_def)
  have "returns (Option.bind (if uip_slen s > 0 then send_window k s else Some s)
      (\<lambda>s. Option.bind (upd_conn k (\<lambda>c. c\<lparr>t_nrtx := 0\<rparr>) s) (apprexmit k))) (own_change k send_rel s)"
  proof (rule own_bind[OF window assms(2) rest])
    fix c c' assume "window_rel (uip_conns s ! k) c" "c' = c\<lparr>t_nrtx := 0\<rparr>"
    then show "send_rel (uip_conns s ! k) c'" by (cases c) (auto simp: window_rel_def send_rel_def)
  qed
  with returns_mono[OF abort start] returns_mono[OF close start] show ?thesis by (simp add: appsend_def)
qed

section \<open>The state diagram\<close>

text \<open>
  The edges of the diagram, with the two that are passed at once when the application closes a connection as soon as it is opened. Every connection may be
  closed, by a reset, by the application or by the timer; a connection in \<^verbatim>\<open>TIME_WAIT\<close> may be taken for a new one.
\<close>

definition tcp_edge :: "u8 \<Rightarrow> u8 \<Rightarrow> bool" where
  "tcp_edge a b \<longleftrightarrow> b = a \<or> b = UIP_CLOSED \<or> (a, b) \<in> set [
     (UIP_CLOSED, UIP_SYN_RCVD), (UIP_TIME_WAIT, UIP_SYN_RCVD), (UIP_SYN_RCVD, UIP_ESTABLISHED), (UIP_SYN_SENT, UIP_ESTABLISHED),
     (UIP_SYN_RCVD, UIP_FIN_WAIT_1), (UIP_SYN_SENT, UIP_FIN_WAIT_1), (UIP_ESTABLISHED, UIP_FIN_WAIT_1), (UIP_ESTABLISHED, UIP_LAST_ACK),
     (UIP_FIN_WAIT_1, UIP_FIN_WAIT_2), (UIP_FIN_WAIT_1, UIP_CLOSING), (UIP_FIN_WAIT_1, UIP_TIME_WAIT), (UIP_FIN_WAIT_2, UIP_TIME_WAIT),
     (UIP_CLOSING, UIP_TIME_WAIT)]"

definition tcp_state :: "tcp_conn \<Rightarrow> u8" where
  "tcp_state c = tcpstateflags c AND UIP_TS_MASK"

definition edge_rel :: "tcp_conn \<Rightarrow> tcp_conn \<Rightarrow> bool" where
  "edge_rel c c' \<longleftrightarrow> tcp_edge (tcp_state c) (tcp_state c')"

lemma tcp_edge_refl [simp]: "tcp_edge a a"
  by (simp add: tcp_edge_def)

lemma tcp_edges [simp]:
  "tcp_edge a UIP_CLOSED" "tcp_edge UIP_CLOSED UIP_SYN_RCVD" "tcp_edge UIP_TIME_WAIT UIP_SYN_RCVD" "tcp_edge UIP_SYN_RCVD UIP_ESTABLISHED"
  "tcp_edge UIP_SYN_SENT UIP_ESTABLISHED" "tcp_edge UIP_SYN_RCVD UIP_FIN_WAIT_1" "tcp_edge UIP_SYN_SENT UIP_FIN_WAIT_1"
  "tcp_edge UIP_ESTABLISHED UIP_FIN_WAIT_1" "tcp_edge UIP_ESTABLISHED UIP_LAST_ACK" "tcp_edge UIP_FIN_WAIT_1 UIP_FIN_WAIT_2"
  "tcp_edge UIP_FIN_WAIT_1 UIP_CLOSING" "tcp_edge UIP_FIN_WAIT_1 UIP_TIME_WAIT" "tcp_edge UIP_FIN_WAIT_2 UIP_TIME_WAIT" "tcp_edge UIP_CLOSING UIP_TIME_WAIT"
  by (simp_all add: tcp_edge_def)

lemma own_conn_bind:
  assumes "returns r (own_change k R s)" "k < length (uip_conns s)"
    and "\<And>u. tcp_ok u \<Longrightarrow> k < length (uip_conns u) \<Longrightarrow> uip_conn u = uip_conn s \<Longrightarrow> R (uip_conns s ! k) (uip_conns u ! k) \<Longrightarrow>
      returns (f u) (conn_change k (\<lambda>_. P) u)"
  shows "returns (Option.bind r f) (conn_change k (\<lambda>_. P) s)"
proof -
  obtain u where u: "r = Some u" "own_change k R s u" using assms(1) by (auto simp: returns_iff)
  note u' = own_changeD[OF u(2) assms(2)]
  have "returns (f u) (conn_change k (\<lambda>_. P) u)" using assms(2,3) u' by simp
  then show ?thesis
    using u conn_change_trans[of k R s u "\<lambda>_. P" _ "\<lambda>_. P"] assms(2) by (auto simp: own_change_def elim!: returns_mono)
qed

lemma sent_conn_change: "sent s s' \<Longrightarrow> P (uip_conns s ! k) \<Longrightarrow> conn_change k (\<lambda>_. P) s s'"
  unfolding sent_def conn_change_def by (metis list_update_id)

lemma own_conn_change: "returns r (own_change k R s) \<Longrightarrow> (\<And>c. R (uip_conns s ! k) c \<Longrightarrow> P c) \<Longrightarrow> returns r (conn_change k (\<lambda>_. P) s)"
  by (elim returns_mono) (auto simp: own_change_def conn_change_def)

lemma env_conn_change:
  assumes "sent s u" "returns r (conn_change k P u)"
  shows "returns r (conn_change k P s)"
  using assms(2) by (rule returns_mono) (use assms(1) in \<open>simp add: sent_def conn_change_def same_env_def\<close>)

text \<open>The application is called, and then the stack goes on.\<close>

lemma app_conn_change:
  assumes "app_keeps app" "tcp_ok s" "uip_conn s = Some k" "k < length (uip_conns s)"
    and "\<And>u. tcp_ok u \<Longrightarrow> k < length (uip_conns u) \<Longrightarrow> uip_conn u = Some k \<Longrightarrow> app_core (uip_conns s ! k) (uip_conns u ! k) \<Longrightarrow>
      returns (f u) (conn_change k (\<lambda>_. P) u)"
  shows "returns (f (app s)) (conn_change k (\<lambda>_. P) s)"
proof -
  obtain c where c: "tcp_ok (app s)" "same_env s (app s)" "uip_conns (app s) = (uip_conns s)[k := c]" "app_core (uip_conns s ! k) c" "uip_conn (app s) = Some k"
    using app_keepsD[OF assms(1-4)] by blast
  have "returns (f (app s)) (conn_change k (\<lambda>_. P) (app s))" using assms(4,5) c by simp
  then show ?thesis
    by (rule returns_mono) (use c in \<open>auto simp: conn_change_def same_env_def\<close>)
qed

lemma tcp_state_simps [simp]:
  "tcp_state (c\<lparr>t_timer := t\<rparr>) = tcp_state c" "tcp_state (c\<lparr>t_len := w\<rparr>) = tcp_state c" "tcp_state (c\<lparr>t_nrtx := t\<rparr>) = tcp_state c"
  "tcp_state (c\<lparr>rcv_nxt := xs\<rparr>) = tcp_state c" "tcp_state (c\<lparr>t_mss := w\<rparr>) = tcp_state c" "tcp_state (c\<lparr>tcpstateflags := a\<rparr>) = a AND UIP_TS_MASK"
  by (simp_all add: tcp_state_def)

lemma send_rel_state: "send_rel c c' \<Longrightarrow> tcp_state c' \<in> {tcp_state c, UIP_CLOSED, UIP_FIN_WAIT_1}"
  by (auto simp: send_rel_def tcp_state_def)

lemma app_core_state: "app_core c c' \<Longrightarrow> tcp_state c' = tcp_state c"
  by (simp add: app_core_def tcp_state_def)

lemma app_send_returns:
  assumes "app_keeps app" "tcp_ok s" "uip_conn s = Some k" "k < length (uip_conns s)"
    and "\<And>c. tcp_state c \<in> {tcp_state (uip_conns s ! k), UIP_CLOSED, UIP_FIN_WAIT_1} \<Longrightarrow> P c"
  shows "returns (appsend k (app s)) (conn_change k (\<lambda>_. P) s)"
  using assms(1-4) by (rule app_conn_change) (auto intro!: own_conn_change[OF appsend_returns] assms(5) dest!: send_rel_state app_core_state)

lemma conn_change_fields [simp]:
  "conn_change k P (s\<lparr>uip_flags := f\<rparr>) = conn_change k P s" "conn_change k P (s\<lparr>uip_len := n\<rparr>) = conn_change k P s"
  "conn_change k P (s\<lparr>uip_slen := l\<rparr>) = conn_change k P s" "conn_change k P (s\<lparr>uip_appdata := a\<rparr>) = conn_change k P s"
  "conn_change k P (s\<lparr>uip_conn := j\<rparr>) = conn_change k P s" "conn_change k P (s\<lparr>iss := xs\<rparr>) = conn_change k P s"
  by (simp_all add: conn_change_def same_env_def fun_eq_iff)

lemma own_change_fields [simp]:
  "own_change k P (s\<lparr>uip_flags := f\<rparr>) = own_change k P s" "own_change k P (s\<lparr>uip_len := n\<rparr>) = own_change k P s"
  by (simp_all add: own_change_def fun_eq_iff)

lemma length_add32 [simp]: "length (uip_add32 xs n) = 4"
  by (simp add: uip_add32_def Let_def split: prod.split)

text \<open>Data that is accepted, if there is any.\<close>

lemma add_state_returns:
  assumes "tcp_ok s" "k < length (uip_conns s)" "uip_conn s = Some k"
  shows "returns (uip_add_rcv_nxt n s) (own_change k (\<lambda>c c'. tcp_state c' = tcp_state c) s)"
  using assms conn_ok_nth[OF assms(1,2)] unfolding uip_add_rcv_nxt_def by (auto intro!: own_change_upd)

lemma accept_returns:
  assumes "tcp_ok s" "k < length (uip_conns s)" "uip_conn s = Some k"
  shows "returns (if b then uip_add_rcv_nxt n (s\<lparr>uip_flags := f\<rparr>) else Some s) (own_change k (\<lambda>c c'. tcp_state c' = tcp_state c) s)"
    and "returns (if b then uip_add_rcv_nxt n s else Some s) (own_change k (\<lambda>c c'. tcp_state c' = tcp_state c) s)"
  using add_state_returns[of "s\<lparr>uip_flags := f\<rparr>" k n] add_state_returns[OF assms, of n]
    assms sent_own[of s s "\<lambda>c c'. tcp_state c' = tcp_state c" k]
  by (simp_all add: sent_def same_env_def)

lemma app_slen_returns:
  assumes "app_keeps app" "tcp_ok s" "uip_conn s = Some k" "k < length (uip_conns s)"
    and "P (tcp_state (uip_conns s ! k))" "P UIP_CLOSED" "P UIP_FIN_WAIT_1"
  shows "returns (appsend k (app (s\<lparr>uip_slen := 0\<rparr>))) (conn_change k (\<lambda>_ c. P (tcp_state c)) s)"
proof -
  have "returns (appsend k (app (s\<lparr>uip_slen := 0\<rparr>))) (conn_change k (\<lambda>_ c. P (tcp_state c)) (s\<lparr>uip_slen := 0\<rparr>))"
    by (rule app_send_returns) (use assms in auto)
  then show ?thesis by simp
qed

lemma drop_returns: "tcp_ok s \<Longrightarrow> P (uip_conns s ! k) \<Longrightarrow> conn_change k (\<lambda>_. P) s (ip_drop s)"
  using sent_conn_change[OF drop_sent] by blast

lemma sent_returns: "returns r (sent s) \<Longrightarrow> P (uip_conns s ! k) \<Longrightarrow> returns r (conn_change k (\<lambda>_. P) s)"
  by (auto elim!: returns_mono intro: sent_conn_change)

lemma in_syn_rcvd_returns:
  assumes "app_keeps app" "tcp_ok s" "uip_conn s = Some k" "k < length (uip_conns s)" "tcp_state (uip_conns s ! k) = UIP_SYN_RCVD"
  shows "returns (in_syn_rcvd app k s) (conn_change k (\<lambda>_ c. tcp_edge UIP_SYN_RCVD (tcp_state c)) s)"
proof (cases "uip_flags s AND UIP_ACKDATA = 0")
  case True
  then show ?thesis using assms by (simp add: in_syn_rcvd_def drop_returns)
next
  case False
  let ?s = "s\<lparr>uip_flags := UIP_CONNECTED\<rparr>"
  have upd: "returns (upd_conn k (\<lambda>c. c\<lparr>tcpstateflags := UIP_ESTABLISHED, t_len := 0\<rparr>) ?s) (own_change k (\<lambda>_ c'. tcp_state c' = UIP_ESTABLISHED) ?s)"
    using assms conn_ok_nth[OF assms(2,4)] by (intro own_change_upd) simp_all
  have "returns (Option.bind (if uip_len u > 0 then uip_add_rcv_nxt (uip_len u) (u\<lparr>uip_flags := uip_flags u OR UIP_NEWDATA\<rparr>) else Some u)
      (\<lambda>s. appsend k (app (s\<lparr>uip_slen := 0\<rparr>)))) (conn_change k (\<lambda>_ c. tcp_edge UIP_SYN_RCVD (tcp_state c)) u)"
    if "tcp_ok u" "k < length (uip_conns u)" "uip_conn u = Some k" "tcp_state (uip_conns u ! k) = UIP_ESTABLISHED" for u
    by (rule own_conn_bind[OF accept_returns(1)])
       (use that assms(1) in \<open>auto intro!: app_slen_returns[where P = "tcp_edge UIP_SYN_RCVD"]\<close>)
  then have "returns (in_syn_rcvd app k s) (conn_change k (\<lambda>_ c. tcp_edge UIP_SYN_RCVD (tcp_state c)) ?s)"
    unfolding in_syn_rcvd_def if_P[OF False] using assms by (intro own_conn_bind[OF upd]) simp_all
  then show ?thesis by simp
qed

text \<open>The end of the stream of the peer.\<close>

lemma last_ack_returns:
  assumes "tcp_ok u" "k < length (uip_conns u)"
  shows "returns (Option.bind (upd_conn k (\<lambda>c. c\<lparr>t_len := 1, tcpstateflags := UIP_LAST_ACK, t_nrtx := 0\<rparr>) u) (tcp_send_finack k))
      (conn_change k (\<lambda>_ c. tcp_edge UIP_ESTABLISHED (tcp_state c)) u)"
  using assms conn_ok_nth[OF assms]
  by (intro own_conn_change[OF own_bind_sent[OF own_change_upd[where R = "\<lambda>_ c. tcp_state c = UIP_LAST_ACK"]]] control_returns) simp_all

lemma app_last_ack_returns:
  assumes "app_keeps app" "tcp_ok u" "uip_conn u = Some k" "k < length (uip_conns u)"
  shows "returns (Option.bind (upd_conn k (\<lambda>c. c\<lparr>t_len := 1, tcpstateflags := UIP_LAST_ACK, t_nrtx := 0\<rparr>) (app (u\<lparr>uip_flags := f\<rparr>))) (tcp_send_finack k))
      (conn_change k (\<lambda>_ c. tcp_edge UIP_ESTABLISHED (tcp_state c)) u)"
proof -
  let ?closing = "\<lambda>u. Option.bind (upd_conn k (\<lambda>c. c\<lparr>t_len := 1, tcpstateflags := UIP_LAST_ACK, t_nrtx := 0\<rparr>) u) (tcp_send_finack k)"
  have "returns (?closing (app (u\<lparr>uip_flags := f\<rparr>))) (conn_change k (\<lambda>_ c. tcp_edge UIP_ESTABLISHED (tcp_state c)) (u\<lparr>uip_flags := f\<rparr>))"
    by (rule app_conn_change[where f = ?closing]) (use assms in \<open>simp_all add: last_ack_returns del: returns_bind\<close>)
  then show ?thesis by simp
qed

lemma peer_closes_returns:
  assumes "app_keeps app" "tcp_ok s" "uip_conn s = Some k" "k < length (uip_conns s)" "tcp_state (uip_conns s ! k) = UIP_ESTABLISHED"
  shows "returns (peer_closes app k s) (conn_change k (\<lambda>_ c. tcp_edge UIP_ESTABLISHED (tcp_state c)) s)"
proof -
  have flags: "(if b then u\<lparr>uip_flags := f\<rparr>\<lparr>uip_flags := g\<rparr> else u\<lparr>uip_flags := f\<rparr>) = u\<lparr>uip_flags := if b then g else f\<rparr>"
    for u :: "'a uip_tcp_scheme" and b f g by simp
  have rest: "returns (let s = u\<lparr>uip_flags := uip_flags u OR UIP_CLOSE\<rparr>;
       s = (if uip_len s > 0 then s\<lparr>uip_flags := uip_flags s OR UIP_NEWDATA\<rparr> else s) in
     Option.bind (upd_conn k (\<lambda>c. c\<lparr>t_len := 1, tcpstateflags := UIP_LAST_ACK, t_nrtx := 0\<rparr>) (app s)) (tcp_send_finack k))
     (conn_change k (\<lambda>_ c. tcp_edge UIP_ESTABLISHED (tcp_state c)) u)" if "tcp_ok u" "uip_conn u = Some k" "k < length (uip_conns u)" for u
    using app_last_ack_returns[OF assms(1) that] unfolding Let_def flags by blast
  have "returns (Option.bind (uip_add_rcv_nxt (1 + uip_len s) s) (\<lambda>u. let s = u\<lparr>uip_flags := uip_flags u OR UIP_CLOSE\<rparr>;
       s = (if uip_len s > 0 then s\<lparr>uip_flags := uip_flags s OR UIP_NEWDATA\<rparr> else s) in
     Option.bind (upd_conn k (\<lambda>c. c\<lparr>t_len := 1, tcpstateflags := UIP_LAST_ACK, t_nrtx := 0\<rparr>) (app s)) (tcp_send_finack k)))
     (conn_change k (\<lambda>_ c. tcp_edge UIP_ESTABLISHED (tcp_state c)) s)"
    by (rule own_conn_bind[OF add_state_returns _ rest]) (use assms in simp_all)
  then show ?thesis
    using assms unfolding peer_closes_def by (simp add: tcp_acc drop_returns del: returns_bind)
qed

lemma peer_window_returns:
  assumes "tcp_ok u" "k < length (uip_conns u)"
  shows "returns (peer_window k u) (own_change k (\<lambda>c c'. tcp_state c' = tcp_state c) u)"
proof -
  have "52 < length (uip_buf u)" using assms(1) by (simp add: tcp_ok_def)
  with assms conn_ok_nth[OF assms] show ?thesis unfolding peer_window_def
    by (auto simp: c_read_Some Let_def conn_ok_def intro!: own_change_upd)
qed

lemma skip_urgent_returns: "tcp_ok s \<Longrightarrow> returns (skip_urgent s) (sent s)"
  by (simp add: skip_urgent_def tcp_acc c_read_Some Let_def tcp_ok_def sent_def same_env_def)

lemma in_established_returns:
  assumes "app_keeps app" "tcp_ok s" "uip_conn s = Some k" "k < length (uip_conns s)" "tcp_state (uip_conns s ! k) = UIP_ESTABLISHED"
  shows "returns (in_established app k s) (conn_change k (\<lambda>_ c. tcp_edge UIP_ESTABLISHED (tcp_state c)) s)"
proof -
  let ?P = "\<lambda>_ c. tcp_edge UIP_ESTABLISHED (tcp_state c)"
  have call: "returns (if uip_flags u AND (UIP_NEWDATA OR UIP_ACKDATA) \<noteq> 0 then appsend k (app (u\<lparr>uip_slen := 0\<rparr>)) else Some (ip_drop u)) (conn_change k ?P u)"
    if "tcp_ok u" "k < length (uip_conns u)" "uip_conn u = Some k" "tcp_state (uip_conns u ! k) = UIP_ESTABLISHED" for u
    using app_slen_returns[OF assms(1) that(1,3,2), of "tcp_edge UIP_ESTABLISHED"] that by (simp add: drop_returns)
  have data: "returns (do {
       s \<leftarrow> (if uip_len u > 0 \<and> b then uip_add_rcv_nxt (uip_len u) (u\<lparr>uip_flags := uip_flags u OR UIP_NEWDATA\<rparr>) else Some u);
       s \<leftarrow> peer_window k s;
       if uip_flags s AND (UIP_NEWDATA OR UIP_ACKDATA) \<noteq> 0 then appsend k (app (s\<lparr>uip_slen := 0\<rparr>)) else Some (ip_drop s) }) (conn_change k ?P u)"
    if "tcp_ok u" "k < length (uip_conns u)" "uip_conn u = Some k" "tcp_state (uip_conns u ! k) = UIP_ESTABLISHED" for u b
    by (rule own_conn_bind[OF accept_returns(1)]; (rule own_conn_bind[OF peer_window_returns _ call])?) (use that in simp_all)
  obtain u where u: "skip_urgent s = Some u" "sent s u"
    using skip_urgent_returns[OF assms(2)] by (auto simp: returns_iff)
  show ?thesis
  proof (cases "uip_buf s ! 47 AND TCP_FIN \<noteq> 0 \<and> tcpstateflags (uip_conns s ! k) AND UIP_STOPPED = 0")
    case True
    then show ?thesis
      using peer_closes_returns[OF assms] assms(2,4) by (simp add: in_established_def tcp_acc tcp_ok_def del: returns_bind)
  next
    case False
    have "in_established app k s = do {
       s \<leftarrow> (if uip_len u > 0 \<and> tcpstateflags (uip_conns s ! k) AND UIP_STOPPED = 0 then uip_add_rcv_nxt (uip_len u) (u\<lparr>uip_flags := uip_flags u OR UIP_NEWDATA\<rparr>) else Some u);
       s \<leftarrow> peer_window k s;
       if uip_flags s AND (UIP_NEWDATA OR UIP_ACKDATA) \<noteq> 0 then appsend k (app (s\<lparr>uip_slen := 0\<rparr>)) else Some (ip_drop s) }"
      using False assms(2,4) u(1) unfolding in_established_def
      by (auto simp: tcp_acc tcp_ok_def)
    with data[of u "tcpstateflags (uip_conns s ! k) AND UIP_STOPPED = 0"] show ?thesis
      using env_conn_change[OF u(2)] u(2) assms(3-5) by (simp add: sent_def del: returns_bind)
  qed
qed

text \<open>The closing of this side.\<close>

lemma state_change:
  assumes "tcp_ok s" "k < length (uip_conns s)" "conn_ok (f (uip_conns s ! k))" "tcp_state (f (uip_conns s ! k)) = st"
  shows "returns (upd_conn k f s) (own_change k (\<lambda>_ c. tcp_state c = st) s)"
  using assms by (rule own_change_upd)

lemma in_last_ack_returns:
  assumes "app_keeps app" "tcp_ok s" "uip_conn s = Some k" "k < length (uip_conns s)" "tcp_state (uip_conns s ! k) = UIP_LAST_ACK"
  shows "returns (in_last_ack app k s) (conn_change k (\<lambda>_ c. tcp_edge UIP_LAST_ACK (tcp_state c)) s)"
proof -
  have drop: "returns (Some (ip_drop (app (u\<lparr>uip_flags := UIP_CLOSE\<rparr>)))) (conn_change k (\<lambda>_ c. tcp_edge UIP_LAST_ACK (tcp_state c)) (u\<lparr>uip_flags := UIP_CLOSE\<rparr>))"
    if "tcp_ok u" "k < length (uip_conns u)" "uip_conn u = Some k" "tcp_state (uip_conns u ! k) = UIP_CLOSED" for u
    by (rule app_conn_change[OF assms(1), where f = "\<lambda>s. Some (ip_drop s)"]) (use that in \<open>simp_all add: drop_returns app_core_state\<close>)
  have "returns (Option.bind (upd_conn k (\<lambda>c. c\<lparr>tcpstateflags := UIP_CLOSED\<rparr>) s) (\<lambda>s. Some (ip_drop (app (s\<lparr>uip_flags := UIP_CLOSE\<rparr>)))))
      (conn_change k (\<lambda>_ c. tcp_edge UIP_LAST_ACK (tcp_state c)) s)"
    by (rule own_conn_bind[OF state_change[where st = UIP_CLOSED]]) (use assms conn_ok_nth[OF assms(2,4)] drop in simp_all)
  with assms show ?thesis by (simp add: in_last_ack_def drop_returns del: returns_bind)
qed

text \<open>The peer has closed, too: the application is told, and the end of the stream is acknowledged.\<close>

lemma close_ack_returns:
  assumes "app_keeps app" "tcp_ok s" "uip_conn s = Some k" "k < length (uip_conns s)" "tcp_edge st (tcp_state (uip_conns s ! k))"
  shows "returns (Option.bind (uip_add_rcv_nxt 1 s) (\<lambda>s. tcp_send_ack k (app (s\<lparr>uip_flags := UIP_CLOSE\<rparr>))))
    (conn_change k (\<lambda>_ c. tcp_edge st (tcp_state c)) s)"
proof -
  have "returns (tcp_send_ack k (app (u\<lparr>uip_flags := UIP_CLOSE\<rparr>))) (conn_change k (\<lambda>_ c. tcp_edge st (tcp_state c)) (u\<lparr>uip_flags := UIP_CLOSE\<rparr>))"
    if "tcp_ok u" "k < length (uip_conns u)" "uip_conn u = Some k" "tcp_edge st (tcp_state (uip_conns u ! k))" for u
    by (rule app_conn_change[OF assms(1)]) (use that in \<open>simp_all add: sent_returns control_returns app_core_state\<close>)
  then show ?thesis
    using assms by (intro own_conn_bind[OF add_state_returns]) simp_all
qed

lemma in_fin_wait_1_returns:
  assumes "app_keeps app" "tcp_ok s" "uip_conn s = Some k" "k < length (uip_conns s)" "tcp_state (uip_conns s ! k) = UIP_FIN_WAIT_1"
  shows "returns (in_fin_wait_1 app k s) (conn_change k (\<lambda>_ c. tcp_edge UIP_FIN_WAIT_1 (tcp_state c)) s)"
  unfolding in_fin_wait_1_def
proof (rule own_conn_bind[OF accept_returns(2)])
  fix u :: "'a uip_tcp_scheme"
  assume u: "tcp_ok u" "k < length (uip_conns u)" "uip_conn u = uip_conn s" "tcp_state (uip_conns u ! k) = tcp_state (uip_conns s ! k)"
  let ?P = "\<lambda>_ c. tcp_edge UIP_FIN_WAIT_1 (tcp_state c)"
  note ok = conn_ok_nth[OF u(1,2)]
  have fin: "returns (if b then upd_conn k (\<lambda>c. c\<lparr>tcpstateflags := UIP_TIME_WAIT, t_timer := 0, t_len := 0\<rparr>) u
      else upd_conn k (\<lambda>c. c\<lparr>tcpstateflags := UIP_CLOSING\<rparr>) u) (own_change k (\<lambda>_ c. tcp_state c \<in> {UIP_TIME_WAIT, UIP_CLOSING}) u)" for b
    using u ok by (auto intro!: own_change_upd)
  have "returns (Option.bind (if b then upd_conn k (\<lambda>c. c\<lparr>tcpstateflags := UIP_TIME_WAIT, t_timer := 0, t_len := 0\<rparr>) u
      else upd_conn k (\<lambda>c. c\<lparr>tcpstateflags := UIP_CLOSING\<rparr>) u)
      (\<lambda>s. Option.bind (uip_add_rcv_nxt 1 s) (\<lambda>s. tcp_send_ack k (app (s\<lparr>uip_flags := UIP_CLOSE\<rparr>))))) (conn_change k ?P u)" for b
    by (rule own_conn_bind[OF fin _ close_ack_returns[OF assms(1)]]) (use u assms(3) in auto)
  moreover have "returns (Option.bind (upd_conn k (\<lambda>c. c\<lparr>tcpstateflags := UIP_FIN_WAIT_2, t_len := 0\<rparr>) u) (\<lambda>s. Some (ip_drop s))) (conn_change k ?P u)"
    by (rule own_conn_bind[OF state_change[where st = UIP_FIN_WAIT_2]]) (use u ok in \<open>simp_all add: drop_returns\<close>)
  moreover have "returns (tcp_send_ack k u) (conn_change k ?P u)" "conn_change k ?P u (ip_drop u)"
    using u assms(5) by (simp_all add: sent_returns control_returns drop_returns)
  moreover have "47 < length (uip_buf u)" using u(1) by (simp add: tcp_ok_def)
  ultimately show "returns (do {
     f \<leftarrow> seg_flags u;
     if f AND TCP_FIN \<noteq> 0 then do {
       s \<leftarrow> (if uip_flags u AND UIP_ACKDATA \<noteq> 0
            then upd_conn k (\<lambda>c. c\<lparr>tcpstateflags := UIP_TIME_WAIT, t_timer := 0, t_len := 0\<rparr>) u
            else upd_conn k (\<lambda>c. c\<lparr>tcpstateflags := UIP_CLOSING\<rparr>) u);
       s \<leftarrow> uip_add_rcv_nxt 1 s;
       tcp_send_ack k (app (s\<lparr>uip_flags := UIP_CLOSE\<rparr>)) }
     else if uip_flags u AND UIP_ACKDATA \<noteq> 0 then do {
       s \<leftarrow> upd_conn k (\<lambda>c. c\<lparr>tcpstateflags := UIP_FIN_WAIT_2, t_len := 0\<rparr>) u;
       Some (ip_drop s) }
     else if uip_len u > 0 then tcp_send_ack k u
     else Some (ip_drop u) }) (conn_change k ?P u)"
    by (simp add: seg_flags_ok del: returns_bind)
qed (use assms in simp_all)

lemma in_fin_wait_2_returns:
  assumes "app_keeps app" "tcp_ok s" "uip_conn s = Some k" "k < length (uip_conns s)" "tcp_state (uip_conns s ! k) = UIP_FIN_WAIT_2"
  shows "returns (in_fin_wait_2 app k s) (conn_change k (\<lambda>_ c. tcp_edge UIP_FIN_WAIT_2 (tcp_state c)) s)"
  unfolding in_fin_wait_2_def
proof (rule own_conn_bind[OF accept_returns(2)])
  fix u :: "'a uip_tcp_scheme"
  assume u: "tcp_ok u" "k < length (uip_conns u)" "uip_conn u = uip_conn s" "tcp_state (uip_conns u ! k) = tcp_state (uip_conns s ! k)"
  let ?P = "\<lambda>_ c. tcp_edge UIP_FIN_WAIT_2 (tcp_state c)"
  have "returns (Option.bind (upd_conn k (\<lambda>c. c\<lparr>tcpstateflags := UIP_TIME_WAIT, t_timer := 0\<rparr>) u)
      (\<lambda>s. Option.bind (uip_add_rcv_nxt 1 s) (\<lambda>s. tcp_send_ack k (app (s\<lparr>uip_flags := UIP_CLOSE\<rparr>))))) (conn_change k ?P u)"
    by (rule own_conn_bind[OF state_change[where st = UIP_TIME_WAIT] _ close_ack_returns[OF assms(1)]])
       (use u assms(3) conn_ok_nth[OF u(1,2)] in auto)
  moreover have "returns (tcp_send_ack k u) (conn_change k ?P u)" "conn_change k ?P u (ip_drop u)"
    using u assms(5) by (simp_all add: sent_returns control_returns drop_returns)
  moreover have "47 < length (uip_buf u)" using u(1) by (simp add: tcp_ok_def)
  ultimately show "returns (do {
     f \<leftarrow> seg_flags u;
     if f AND TCP_FIN \<noteq> 0 then do {
       s \<leftarrow> upd_conn k (\<lambda>c. c\<lparr>tcpstateflags := UIP_TIME_WAIT, t_timer := 0\<rparr>) u;
       s \<leftarrow> uip_add_rcv_nxt 1 s;
       tcp_send_ack k (app (s\<lparr>uip_flags := UIP_CLOSE\<rparr>)) }
     else if uip_len u > 0 then tcp_send_ack k u
     else Some (ip_drop u) }) (conn_change k ?P u)"
    by (simp add: seg_flags_ok del: returns_bind)
qed (use assms in simp_all)

lemma in_closing_returns:
  assumes "tcp_ok s" "k < length (uip_conns s)" "tcp_state (uip_conns s ! k) = UIP_CLOSING"
  shows "returns (in_closing k s) (conn_change k (\<lambda>_ c. tcp_edge UIP_CLOSING (tcp_state c)) s)"
proof -
  have "returns (Option.bind (upd_conn k (\<lambda>c. c\<lparr>tcpstateflags := UIP_TIME_WAIT, t_timer := 0\<rparr>) s) (\<lambda>s. Some (ip_drop s)))
      (conn_change k (\<lambda>_ c. tcp_edge UIP_CLOSING (tcp_state c)) s)"
    by (rule own_conn_bind[OF state_change[where st = UIP_TIME_WAIT]]) (use assms conn_ok_nth[OF assms(1,2)] in \<open>simp_all add: drop_returns\<close>)
  with assms show ?thesis by (simp add: in_closing_def drop_returns del: returns_bind)
qed

text \<open>The options are parsed to the end, or not for ever.\<close>

definition options_end :: "u8 list \<Rightarrow> bool" where
  "options_end m \<longleftrightarrow> (m ! 46 AND 0xf0 > 0x50 \<longrightarrow> mss_option m (4 * (unat (drop_bit 4 (m ! 46)) - 5)) 0 \<noteq> None)"

lemma parse_options_returns:
  assumes "tcp_ok s" "k < length (uip_conns s)" "options_end (uip_buf s)"
  shows "returns (parse_options k s) (own_change k (\<lambda>c c'. tcp_state c' = tcp_state c) s)"
proof -
  have "46 < length (uip_buf s)" using assms(1) by (simp add: tcp_ok_def)
  moreover have "own_change k (\<lambda>c c'. tcp_state c' = tcp_state c) s s"
    using assms(1) by (intro sent_own) (simp_all add: sent_def same_env_def)
  moreover have "returns (upd_conn k (\<lambda>c. c\<lparr>initialmss := w, t_mss := w\<rparr>) s) (own_change k (\<lambda>c c'. tcp_state c' = tcp_state c) s)" if "w \<le> 3929" for w
    using assms conn_ok_nth[OF assms(1,2)] that by (intro own_change_upd) (simp_all add: conn_ok_def tcp_state_def)
  ultimately show ?thesis
    using assms(3) unfolding parse_options_def options_end_def by (auto simp: c_read_Some Let_def split: option.split)
qed

lemma open_failed_returns:
  assumes "app_keeps app" "tcp_ok s" "uip_conn s = Some k" "k < length (uip_conns s)"
  shows "returns (let s = app (s\<lparr>uip_flags := UIP_ABORT\<rparr>) in do { j \<leftarrow> uip_conn s; s \<leftarrow> upd_conn j (\<lambda>c. c\<lparr>tcpstateflags := UIP_CLOSED\<rparr>) s; tcp_reset s })
      (conn_change k (\<lambda>_ c. tcp_edge UIP_SYN_SENT (tcp_state c)) s)"
proof -
  let ?P = "\<lambda>_ c. tcp_edge UIP_SYN_SENT (tcp_state c)"
  have reset: "returns (do { j \<leftarrow> uip_conn u; s \<leftarrow> upd_conn j (\<lambda>c. c\<lparr>tcpstateflags := UIP_CLOSED\<rparr>) u; tcp_reset s }) (conn_change k ?P u)"
    if u: "tcp_ok u" "k < length (uip_conns u)" "uip_conn u = Some k" for u :: "'a uip_tcp_scheme"
    by (simp add: u(3) del: returns_bind, rule own_conn_bind[OF state_change[where st = UIP_CLOSED]])
       (use u conn_ok_nth[OF u(1,2)] in \<open>simp_all add: reset_returns sent_returns\<close>)
  have "returns (let s = app (s\<lparr>uip_flags := UIP_ABORT\<rparr>) in do { j \<leftarrow> uip_conn s; s \<leftarrow> upd_conn j (\<lambda>c. c\<lparr>tcpstateflags := UIP_CLOSED\<rparr>) s; tcp_reset s })
      (conn_change k ?P (s\<lparr>uip_flags := UIP_ABORT\<rparr>))"
    unfolding Let_def by (rule app_conn_change[OF assms(1), where f = "\<lambda>s. do { j \<leftarrow> uip_conn s; s \<leftarrow> upd_conn j _ s; tcp_reset s }"])
      (use assms reset in simp_all)
  then show ?thesis by simp
qed

lemma opened_returns:
  assumes "app_keeps app" "tcp_ok u" "k < length (uip_conns u)" "uip_conn u = Some k" "tcp_state (uip_conns u ! k) = UIP_ESTABLISHED"
  shows "returns (Option.bind (upd_conn k (\<lambda>c. c\<lparr>t_len := 0\<rparr>) (u\<lparr>uip_flags := f\<rparr>)) (\<lambda>s. appsend k (app (s\<lparr>uip_len := 0, uip_slen := 0\<rparr>))))
    (conn_change k (\<lambda>_ c. tcp_edge UIP_SYN_SENT (tcp_state c)) u)"
proof -
  let ?P = "\<lambda>_ c. tcp_edge UIP_SYN_SENT (tcp_state c)"
  have "returns (appsend k (app (v\<lparr>uip_len := 0, uip_slen := 0\<rparr>))) (conn_change k ?P v)"
    if "tcp_ok v" "k < length (uip_conns v)" "uip_conn v = Some k" "tcp_state (uip_conns v ! k) = UIP_ESTABLISHED" for v
    using app_slen_returns[OF assms(1), of "v\<lparr>uip_len := 0\<rparr>" k "tcp_edge UIP_SYN_SENT"] that by simp
  then have "returns (Option.bind (upd_conn k (\<lambda>c. c\<lparr>t_len := 0\<rparr>) (u\<lparr>uip_flags := f\<rparr>)) (\<lambda>s. appsend k (app (s\<lparr>uip_len := 0, uip_slen := 0\<rparr>))))
      (conn_change k ?P (u\<lparr>uip_flags := f\<rparr>))"
    by (intro own_conn_bind[OF state_change[where st = UIP_ESTABLISHED]]) (use assms conn_ok_nth[OF assms(2,3)] in simp_all)
  then show ?thesis by simp
qed

lemma in_syn_sent_returns:
  assumes "app_keeps app" "tcp_ok s" "uip_conn s = Some k" "k < length (uip_conns s)" "options_end (uip_buf s)"
  shows "returns (in_syn_sent app k s) (conn_change k (\<lambda>_ c. tcp_edge UIP_SYN_SENT (tcp_state c)) s)"
proof -
  let ?P = "\<lambda>_ c. tcp_edge UIP_SYN_SENT (tcp_state c)"
  have numbers: "returns (do {
       s \<leftarrow> upd_conn k (\<lambda>c. c\<lparr>tcpstateflags := UIP_ESTABLISHED, rcv_nxt := seqno\<rparr>) u;
       s \<leftarrow> uip_add_rcv_nxt 1 s;
       s \<leftarrow> upd_conn k (\<lambda>c. c\<lparr>t_len := 0\<rparr>) (s\<lparr>uip_flags := UIP_CONNECTED OR UIP_NEWDATA\<rparr>);
       appsend k (app (s\<lparr>uip_len := 0, uip_slen := 0\<rparr>)) }) (conn_change k ?P u)"
    if u: "tcp_ok u" "k < length (uip_conns u)" "uip_conn u = Some k" "length seqno = 4" for u seqno
    by (rule own_conn_bind[OF state_change[where st = UIP_ESTABLISHED] _ own_conn_bind[OF add_state_returns _ opened_returns[OF assms(1)]]])
       (use u conn_ok_nth[OF u(1,2)] in simp_all)
  have "returns (do {
       s \<leftarrow> parse_options k s;
       seqno \<leftarrow> mem_read (uip_buf s) 38 4;
       s \<leftarrow> upd_conn k (\<lambda>c. c\<lparr>tcpstateflags := UIP_ESTABLISHED, rcv_nxt := seqno\<rparr>) s;
       s \<leftarrow> uip_add_rcv_nxt 1 s;
       s \<leftarrow> upd_conn k (\<lambda>c. c\<lparr>t_len := 0\<rparr>) (s\<lparr>uip_flags := UIP_CONNECTED OR UIP_NEWDATA\<rparr>);
       appsend k (app (s\<lparr>uip_len := 0, uip_slen := 0\<rparr>)) }) (conn_change k ?P s)"
  proof (rule own_conn_bind[OF parse_options_returns])
    fix u :: "'a uip_tcp_scheme"
    assume u: "tcp_ok u" "k < length (uip_conns u)" "uip_conn u = uip_conn s"
    then have "mem_read (uip_buf u) 38 4 = Some (block (uip_buf u) 38 4)" "length (block (uip_buf u) 38 4) = 4" by (simp_all add: net_mem tcp_ok_def)
    with numbers[of u "block (uip_buf u) 38 4"] u assms(3) show "returns (do {
       seqno \<leftarrow> mem_read (uip_buf u) 38 4;
       s \<leftarrow> upd_conn k (\<lambda>c. c\<lparr>tcpstateflags := UIP_ESTABLISHED, rcv_nxt := seqno\<rparr>) u;
       s \<leftarrow> uip_add_rcv_nxt 1 s;
       s \<leftarrow> upd_conn k (\<lambda>c. c\<lparr>t_len := 0\<rparr>) (s\<lparr>uip_flags := UIP_CONNECTED OR UIP_NEWDATA\<rparr>);
       appsend k (app (s\<lparr>uip_len := 0, uip_slen := 0\<rparr>)) }) (conn_change k ?P u)"
      by (simp del: returns_bind)
  qed (use assms in simp_all)
  moreover have "47 < length (uip_buf s)" using assms(2) by (simp add: tcp_ok_def)
  ultimately show ?thesis
    using open_failed_returns[OF assms(1-4)] unfolding in_syn_sent_def by (simp add: seg_flags_ok del: returns_bind)
qed

text \<open>A segment of an existing connection.\<close>

lemma acked_conn_ok:
  assumes "conn_ok c"
  shows "conn_ok (acked_conn c)" "tcp_state (acked_conn c) = tcp_state c"
  using assms by (simp_all add: acked_conn_def rtt_estimate_def Let_def conn_ok_def tcp_state_def)

lemma check_ack_returns:
  assumes "tcp_ok s" "k < length (uip_conns s)"
  shows "returns (check_ack k s) (\<lambda>u. own_change k (\<lambda>c c'. tcp_state c' = tcp_state c) s u \<and> uip_buf u = uip_buf s)"
proof -
  let ?c = "uip_conns s ! k"
  have upd: "returns (upd_conn k acked_conn (s\<lparr>uip_flags := UIP_ACKDATA\<rparr>)) (own_change k (\<lambda>c c'. tcp_state c' = tcp_state c) (s\<lparr>uip_flags := UIP_ACKDATA\<rparr>))"
    using assms acked_conn_ok[OF conn_ok_nth[OF assms]] by (intro own_change_upd) simp_all
  have "own_change k (\<lambda>c c'. tcp_state c' = tcp_state c) s s"
    using assms(1) by (intro sent_own) (simp_all add: sent_def same_env_def)
  moreover have "length (uip_buf s) = 4002" using assms(1) by (simp add: tcp_ok_def)
  ultimately show ?thesis using upd assms by (simp add: check_ack_def tcp_acc net_mem)
qed

lemma tcp_switch_returns:
  assumes "app_keeps app" "tcp_ok s" "uip_conn s = Some k" "k < length (uip_conns s)" "options_end (uip_buf s)" "st = tcp_state (uip_conns s ! k)"
  shows "returns (tcp_switch app k st s) (conn_change k (\<lambda>_ c. tcp_edge st (tcp_state c)) s)"
  using assms unfolding tcp_switch_def
  by (simp add: drop_returns in_syn_rcvd_returns in_syn_sent_returns in_established_returns in_last_ack_returns in_fin_wait_1_returns
    in_fin_wait_2_returns in_closing_returns sent_returns control_returns)

lemma tcp_found_returns:
  assumes "app_keeps app" "tcp_ok s" "k < length (uip_conns s)" "options_end (uip_buf s)" "st = tcp_state (uip_conns s ! k)"
  shows "returns (tcp_found app k s) (conn_change k (\<lambda>_ c. tcp_edge st (tcp_state c)) s)"
proof -
  let ?P = "\<lambda>_ c. tcp_edge st (tcp_state c)" and ?s = "s\<lparr>uip_conn := Some k, uip_flags := 0\<rparr>"
  let ?n = "uip_len s - ucast (push_bit 2 (drop_bit 4 (uip_buf s ! 46))) - 20"
  let ?t = "?s\<lparr>uip_len := ?n\<rparr>"
  have len: "length (uip_buf s) = 4002" using assms(2) by (simp add: tcp_ok_def)
  have drop: "returns (Some (ip_drop (app (u\<lparr>uip_flags := UIP_ABORT\<rparr>)))) (conn_change k ?P (u\<lparr>uip_flags := UIP_ABORT\<rparr>))"
    if "tcp_ok u" "k < length (uip_conns u)" "uip_conn u = Some k" "tcp_state (uip_conns u ! k) = UIP_CLOSED" for u
    by (rule app_conn_change[OF assms(1), where f = "\<lambda>s. Some (ip_drop s)"]) (use that in \<open>simp_all add: drop_returns app_core_state\<close>)
  have reset: "returns (Option.bind (upd_conn k (\<lambda>c. c\<lparr>tcpstateflags := UIP_CLOSED\<rparr>) ?s) (\<lambda>s. Some (ip_drop (app (s\<lparr>uip_flags := UIP_ABORT\<rparr>)))))
      (conn_change k ?P ?s)"
    by (rule own_conn_bind[OF state_change[where st = UIP_CLOSED]]) (use assms conn_ok_nth[OF assms(2,3)] drop in simp_all)
  have ack: "returns (tcp_send_ack k ?t) (conn_change k ?P ?t)"
    using assms by (intro sent_returns control_returns) simp_all
  obtain u where u: "check_ack k ?t = Some u" "own_change k (\<lambda>c c'. tcp_state c' = tcp_state c) ?t u" "uip_buf u = uip_buf s"
    using check_ack_returns[of ?t k] assms(2,3) by (auto simp: returns_iff)
  have u': "tcp_ok u" "length (uip_conns u) = length (uip_conns s)" "tcp_state (uip_conns u ! k) = st" "uip_conn u = Some k"
    using own_changeD[OF u(2)] assms(3,5) by simp_all
  have "returns (tcp_switch app k st u) (conn_change k ?P u)"
    using assms u(3) u' by (intro tcp_switch_returns) simp_all
  then have switch: "returns (tcp_switch app k st u) (conn_change k ?P ?t)"
    using conn_change_trans[of k "\<lambda>c c'. tcp_state c' = tcp_state c" ?t u ?P _ ?P] u(2) assms(3)
    by (auto simp: own_change_def elim!: returns_mono)
  show ?thesis
    using reset ack switch assms(3) u(1) u'(2,3) len unfolding tcp_found_def
    by (simp add: tcp_acc c_read_Some Let_def out_of_sequence_def net_mem tcp_state_def del: returns_bind)
qed

text \<open>A new connection takes a closed one or one in \<^verbatim>\<open>TIME_WAIT\<close>.\<close>

lemma free_conn_cases:
  assumes "free_conn cs i best = Some k"
  shows "(\<exists>t. best = Some (k, t)) \<or> i \<le> k \<and> k < i + length cs \<and> tcpstateflags (cs ! (k - i)) \<in> {UIP_CLOSED, UIP_TIME_WAIT}"
  using assms
proof (induction cs i best rule: free_conn.induct)
  case (2 c cs i best)
  have "cs ! (k - Suc i) = (c # cs) ! (k - i)" if "Suc i \<le> k"
    using that by (simp add: nth_Cons' Suc_diff_Suc)
  with 2 show ?case by (auto split: if_splits)
qed auto

lemma free_conn_found:
  assumes "free_conn (uip_conns s) 0 None = Some k"
  shows "k < length (uip_conns s)" "tcp_edge (tcp_state (uip_conns s ! k)) UIP_SYN_RCVD"
  using free_conn_cases[OF assms] by (auto simp: tcp_state_def)

definition opened_conn :: "u8 list \<Rightarrow> u8 list \<Rightarrow> tcp_conn \<Rightarrow> tcp_conn" where
  "opened_conn m isn c = c\<lparr>t_rto := 3, t_timer := 3, t_sa := 0, t_sv := 4, t_nrtx := 0, t_lport := word16 (block m 36 2), t_rport := word16 (block m 34 2),
     t_ripaddr := ip_of (block m 26 4), tcpstateflags := UIP_SYN_RCVD, snd_nxt := isn, t_len := 1, rcv_nxt := uip_add32 (block m 38 4) 1\<rparr>"

lemma opened_conn_ok:
  assumes "tcp_ok s" "k < length (uip_conns s)" "c = opened_conn m (iss s) (uip_conns s ! k)"
  shows "conn_ok c" "tcp_state c = UIP_SYN_RCVD" "tcp_ok (s\<lparr>uip_conn := Some k, uip_conns := (uip_conns s)[k := c]\<rparr>)"
proof -
  show ok: "conn_ok c" "tcp_state c = UIP_SYN_RCVD"
    using conn_ok_nth[OF assms(1,2)] assms(1,3) by (simp_all add: opened_conn_def conn_ok_def tcp_state_def tcp_ok_def)
  show "tcp_ok (s\<lparr>uip_conn := Some k, uip_conns := (uip_conns s)[k := c]\<rparr>)"
    using assms(1,2) ok by (auto simp: tcp_ok_def list_all_length nth_list_update)
qed

lemma found_listen_eq:
  assumes "tcp_ok s" "free_conn (uip_conns s) 0 None = Some k"
  shows "found_listen s = Option.bind (parse_options k (s\<lparr>uip_conn := Some k, uip_conns := (uip_conns s)[k := opened_conn (uip_buf s) (iss s) (uip_conns s ! k)]\<rparr>))
    (tcp_send_synack k)"
  using assms free_conn_found(1)[OF assms(2)] unfolding found_listen_def tcp_ok_def
  by (simp add: tcp_acc net_mem uip_add_rcv_nxt_def opened_conn_def Let_def)

lemma found_listen_returns:
  assumes "tcp_ok s" "uip_conns s \<noteq> []" "options_end (uip_buf s)"
  shows "\<exists>k < length (uip_conns s). returns (found_listen s) (conn_change k (\<lambda>_ c. tcp_edge (tcp_state (uip_conns s ! k)) (tcp_state c)) s)"
proof (cases "free_conn (uip_conns s) 0 None")
  case None
  with assms(1,2) show ?thesis by (intro exI[of _ 0]) (simp add: found_listen_def drop_returns)
next
  case (Some k)
  note k = free_conn_found[OF Some]
  let ?P = "\<lambda>_ c. tcp_edge (tcp_state (uip_conns s ! k)) (tcp_state c)"
  define c where "c = opened_conn (uip_buf s) (iss s) (uip_conns s ! k)"
  let ?s = "s\<lparr>uip_conn := Some k, uip_conns := (uip_conns s)[k := c]\<rparr>"
  have "returns (Option.bind (parse_options k ?s) (tcp_send_synack k)) (conn_change k ?P ?s)"
    using k opened_conn_ok[OF assms(1) k(1) c_def] assms(3) by (intro own_conn_bind[OF parse_options_returns] sent_returns synack_returns) simp_all
  then have "returns (found_listen s) (conn_change k ?P s)"
    unfolding found_listen_eq[OF assms(1) Some, folded c_def] by (rule returns_mono) (use k in \<open>auto simp: conn_change_def same_env_def\<close>)
  with k show ?thesis by blast
qed

lemma conn_find_returns: "54 \<le> length m \<Longrightarrow> conn_find m cs \<noteq> None"
  by (induction cs) (auto simp: conn_match_def net_mem)

text \<open>An event at the stack: a segment that has passed the IP layer, the periodic timer of a connection, or a poll of it.\<close>

datatype tcp_event = Segment "u8 list" u16 | Timer nat | Poll nat

definition event_ok :: "('a) uip_tcp_scheme \<Rightarrow> tcp_event \<Rightarrow> bool" where
  "event_ok s e = (case e of
     Segment m n \<Rightarrow> length m = 4002 \<and> 20 \<le> ip_total_length m \<and> ip_total_length m \<le> 3988 \<and> options_end m
   | Timer k \<Rightarrow> k < length (uip_conns s)
   | Poll k \<Rightarrow> k < length (uip_conns s))"

definition tcp_event ::
  "(('a) uip_tcp_scheme \<Rightarrow> ('a) uip_tcp_scheme) \<Rightarrow> tcp_event \<Rightarrow> ('a) uip_tcp_scheme \<Rightarrow> ('a) uip_tcp_scheme option" where
  "tcp_event app e s = (let s = s\<lparr>uip_appdata := 54, uip_sappdata := 54\<rparr> in case e of
     Segment m n \<Rightarrow> tcp_input app (s\<lparr>uip_buf := m, uip_len := n\<rparr>)
   | Timer k \<Rightarrow> tcp_timer app k (s\<lparr>uip_conn := Some k\<rparr>)
   | Poll k \<Rightarrow> tcp_poll app k (s\<lparr>uip_conn := Some k\<rparr>))"

lemma tcp_input_returns:
  assumes "app_keeps app" "tcp_ok s" "uip_conns s \<noteq> []" "options_end (uip_buf s)" "20 \<le> ip_total_length (uip_buf s)" "ip_total_length (uip_buf s) \<le> 3988"
  shows "\<exists>k < length (uip_conns s). returns (tcp_input app s) (conn_change k (\<lambda>_ c. tcp_edge (tcp_state (uip_conns s ! k)) (tcp_state c)) s)"
proof -
  let ?R = "\<lambda>k. conn_change k (\<lambda>_ c. tcp_edge (tcp_state (uip_conns s ! k)) (tcp_state c)) s"
  have len: "length (uip_buf s) = 4002" using assms(2) by (simp add: tcp_ok_def)
  obtain c where c: "uip_tcpchksum (uip_buf s) = Some c"
    using upper_layer_chksum_eq[of "uip_buf s" 6] len assms(5,6) by (auto simp: uip_tcpchksum_def)
  obtain i where i: "conn_find (uip_buf s) (uip_conns s) = Some i"
    using conn_find_returns[of "uip_buf s" "uip_conns s"] len by auto
  have reset: "returns (tcp_reset s) (?R 0)" "?R 0 (ip_drop s)" "0 < length (uip_conns s)"
    using assms(2,3) by (simp_all add: sent_returns reset_returns drop_returns)
  consider "c \<noteq> 0xffff" | "c = 0xffff" "i < length (uip_conns s)" | "c = 0xffff" "\<not> i < length (uip_conns s)" by blast
  then show ?thesis
  proof cases
    case 1
    then show ?thesis using reset(2,3) c by (intro exI[of _ 0]) (simp add: tcp_input_def)
  next
    case 2
    then show ?thesis using tcp_found_returns[OF assms(1,2) 2(2) assms(4) refl] c i by (intro exI[of _ i]) (simp add: tcp_input_def)
  next
    case 3
    then show ?thesis using found_listen_returns[OF assms(2-4)] reset(1,3) c i len by (auto simp: tcp_input_def tcp_acc net_mem)
  qed
qed

lemma tcp_poll_returns:
  assumes "app_keeps app" "tcp_ok s" "uip_conn s = Some k" "k < length (uip_conns s)" "st = tcp_state (uip_conns s ! k)"
  shows "returns (tcp_poll app k s) (conn_change k (\<lambda>_ c. tcp_edge st (tcp_state c)) s)"
proof -
  have "returns (appsend k (app (s\<lparr>uip_flags := UIP_POLL\<rparr>))) (conn_change k (\<lambda>_ c. tcp_edge st (tcp_state c)) (s\<lparr>uip_flags := UIP_POLL\<rparr>))" if "st = UIP_ESTABLISHED"
    by (rule app_send_returns[OF assms(1)]) (use assms that in auto)
  with assms show ?thesis by (simp add: tcp_poll_def tcp_acc drop_returns tcp_state_def)
qed

lemma app_rexmit_returns:
  assumes "app_keeps app" "tcp_ok s" "uip_conn s = Some k" "k < length (uip_conns s)" "st = tcp_state (uip_conns s ! k)"
  shows "returns (apprexmit k (app (s\<lparr>uip_flags := f\<rparr>))) (conn_change k (\<lambda>_ c. tcp_edge st (tcp_state c)) s)"
proof -
  have "returns (apprexmit k (app (s\<lparr>uip_flags := f\<rparr>))) (conn_change k (\<lambda>_ c. tcp_edge st (tcp_state c)) (s\<lparr>uip_flags := f\<rparr>))"
    by (rule app_conn_change[OF assms(1)]) (use assms in \<open>simp_all add: sent_returns apprexmit_returns app_core_state\<close>)
  then show ?thesis by simp
qed

lemma tcp_retransmit_returns:
  assumes "app_keeps app" "tcp_ok s" "uip_conn s = Some k" "k < length (uip_conns s)" "st = tcp_state (uip_conns s ! k)"
  shows "returns (tcp_retransmit app k st s) (conn_change k (\<lambda>_ c. tcp_edge st (tcp_state c)) s)"
proof -
  have "returns (Option.bind (set_flags 0 s) (tcp_send_syn k)) (sent s)"
    using assms(2,4) by (intro set_flags_returns) (use sent_conns sent_trans in \<open>force intro: returns_mono[OF syn_returns]\<close>)+
  then have "returns (Option.bind (set_flags 0 s) (tcp_send_syn k)) (conn_change k (\<lambda>_ c. tcp_edge st (tcp_state c)) s)"
    using assms(5) by (intro sent_returns) simp_all
  with assms show ?thesis
    by (auto simp: tcp_retransmit_def sent_returns synack_returns control_returns app_rexmit_returns drop_returns simp del: returns_bind)
qed

text \<open>A connection that is given up: the application is told, and the peer gets a reset.\<close>

lemma give_up_returns:
  assumes "app_keeps app" "tcp_ok s" "uip_conn s = Some k" "k < length (uip_conns s)"
  shows "returns (Option.bind (upd_conn k (\<lambda>c. c\<lparr>tcpstateflags := UIP_CLOSED\<rparr>) s) (\<lambda>s. tcp_send_rst k (app (s\<lparr>uip_flags := UIP_TIMEDOUT\<rparr>))))
    (conn_change k (\<lambda>_ c. tcp_state c = UIP_CLOSED) s)"
proof -
  have "returns (tcp_send_rst k (app (u\<lparr>uip_flags := UIP_TIMEDOUT\<rparr>))) (conn_change k (\<lambda>_ c. tcp_state c = UIP_CLOSED) (u\<lparr>uip_flags := UIP_TIMEDOUT\<rparr>))"
    if "tcp_ok u" "k < length (uip_conns u)" "uip_conn u = Some k" "tcp_state (uip_conns u ! k) = UIP_CLOSED" for u
    by (rule app_conn_change[OF assms(1)]) (use that in \<open>simp_all add: sent_returns control_returns app_core_state\<close>)
  then show ?thesis
    using assms conn_ok_nth[OF assms(2,4)] by (intro own_conn_bind[OF state_change[where st = UIP_CLOSED]]) simp_all
qed

lemma conn_change_weaken: "returns r (conn_change k (\<lambda>_. P) s) \<Longrightarrow> (\<And>c. P c \<Longrightarrow> Q c) \<Longrightarrow> returns r (conn_change k (\<lambda>_. Q) s)"
  by (elim returns_mono) (auto simp: conn_change_def)

lemma outstanding_returns:
  assumes "app_keeps app" "tcp_ok s" "uip_conn s = Some k" "k < length (uip_conns s)" "st = tcp_state (uip_conns s ! k)"
  shows "returns (do {
       s \<leftarrow> upd_conn k (\<lambda>c. c\<lparr>t_timer := t_timer c - 1\<rparr>) s;
       if a then Some (ip_drop s)
       else if b then do {
         s \<leftarrow> upd_conn k (\<lambda>c. c\<lparr>tcpstateflags := UIP_CLOSED\<rparr>) s;
         tcp_send_rst k (app (s\<lparr>uip_flags := UIP_TIMEDOUT\<rparr>)) }
       else do {
         s \<leftarrow> upd_conn k (\<lambda>c. c\<lparr>t_timer := push_bit (if t_nrtx c > 4 then 4 else unat (t_nrtx c)) 3, t_nrtx := t_nrtx c + 1\<rparr>) s;
         tcp_retransmit app k st s } }) (conn_change k (\<lambda>_ c. tcp_edge st (tcp_state c)) s)"
proof (rule own_conn_bind[OF state_change[where st = st]])
  fix u :: "'a uip_tcp_scheme"
  assume u: "tcp_ok u" "k < length (uip_conns u)" "uip_conn u = uip_conn s" "tcp_state (uip_conns u ! k) = st"
  have "returns (do {
         s \<leftarrow> upd_conn k (\<lambda>c. c\<lparr>t_timer := push_bit (if t_nrtx c > 4 then 4 else unat (t_nrtx c)) 3, t_nrtx := t_nrtx c + 1\<rparr>) u;
         tcp_retransmit app k st s }) (conn_change k (\<lambda>_ c. tcp_edge st (tcp_state c)) u)"
    by (rule own_conn_bind[OF state_change[where st = st] _ tcp_retransmit_returns[OF assms(1)]]) (use u assms(3) conn_ok_nth[OF u(1,2)] in simp_all)
  moreover note conn_change_weaken[OF give_up_returns[OF assms(1) u(1) _ u(2)], of "\<lambda>c. tcp_edge st (tcp_state c)"]
  ultimately show "returns (
       if a then Some (ip_drop u)
       else if b then do {
         s \<leftarrow> upd_conn k (\<lambda>c. c\<lparr>tcpstateflags := UIP_CLOSED\<rparr>) u;
         tcp_send_rst k (app (s\<lparr>uip_flags := UIP_TIMEDOUT\<rparr>)) }
       else do {
         s \<leftarrow> upd_conn k (\<lambda>c. c\<lparr>t_timer := push_bit (if t_nrtx c > 4 then 4 else unat (t_nrtx c)) 3, t_nrtx := t_nrtx c + 1\<rparr>) u;
         tcp_retransmit app k st s }) (conn_change k (\<lambda>_ c. tcp_edge st (tcp_state c)) u)"
    using u assms(3) by (simp add: drop_returns del: returns_bind)
qed (use assms conn_ok_nth[OF assms(2,4)] in simp_all)

lemma tcp_timer_returns:
  assumes "app_keeps app" "tcp_ok s" "uip_conn s = Some k" "k < length (uip_conns s)" "st = tcp_state (uip_conns s ! k)"
  shows "returns (tcp_timer app k s) (conn_change k (\<lambda>_ c. tcp_edge st (tcp_state c)) s)"
proof -
  let ?P = "\<lambda>_ c. tcp_edge st (tcp_state c)"
  define t where "t = s\<lparr>iss := inc32 (iss s), uip_len := 0, uip_slen := 0\<rparr>"
  have s: "tcp_ok t" "uip_conn t = Some k" "k < length (uip_conns t)" "st = tcp_state (uip_conns t ! k)" "conn_ok (uip_conns t ! k)"
    using assms conn_ok_nth[OF assms(2,4)] by (simp_all add: t_def tcp_ok_def inc32_def Let_def)
  then have st: "tcpstateflags (uip_conns t ! k) AND UIP_TS_MASK = st" by (simp add: tcp_state_def)
  have wait: "returns (Option.bind (upd_conn k (\<lambda>c. c\<lparr>t_timer := t_timer c + 1, tcpstateflags := (if t_timer c + 1 = 120 then UIP_CLOSED else tcpstateflags c)\<rparr>) t)
      (\<lambda>s. Some (ip_drop s))) (conn_change k ?P t)"
    by (rule own_conn_bind[OF own_change_upd[where R = ?P]]) (use s in \<open>simp_all add: drop_returns tcp_state_def\<close>)
  have "returns (appsend k (app (t\<lparr>uip_flags := UIP_POLL\<rparr>))) (conn_change k ?P (t\<lparr>uip_flags := UIP_POLL\<rparr>))" if "st = UIP_ESTABLISHED"
    by (rule app_send_returns[OF assms(1)]) (use s that in auto)
  then have poll: "st = UIP_ESTABLISHED \<Longrightarrow> returns (appsend k (app (t\<lparr>uip_flags := UIP_POLL\<rparr>))) (conn_change k ?P t)" by simp
  have "conn_change k ?P t (ip_drop t)" using s by (simp add: drop_returns)
  with wait poll outstanding_returns[OF assms(1) s(1-4), of "t_timer (uip_conns t ! k) \<noteq> 0" "rexmit_limit (uip_conns t ! k)"] s(3)
  have "returns (tcp_timer app k s) (conn_change k ?P t)"
    unfolding tcp_timer_def Let_def t_def[symmetric] by (simp only: get_conn_ok bind.simps st returns_Some simp_thms split: if_split) blast
  then show ?thesis by (simp add: t_def)
qed

section \<open>Every run follows the diagram\<close>

lemma tcp_event_returns:
  assumes "app_keeps app" "tcp_ok s" "uip_conns s \<noteq> []" "event_ok s e"
  shows "\<exists>k < length (uip_conns s). returns (tcp_event app e s) (conn_change k (\<lambda>_ c. tcp_edge (tcp_state (uip_conns s ! k)) (tcp_state c)) s)"
proof -
  let ?s = "s\<lparr>uip_appdata := 54, uip_sappdata := 54\<rparr>"
  have env: "sent s ?s" "\<And>m n. length m = 4002 \<Longrightarrow> sent s (?s\<lparr>uip_buf := m, uip_len := n\<rparr>)"
    using assms(2) by (simp_all add: sent_def same_env_def tcp_ok_def)
  show ?thesis
  proof (cases e)
    case (Segment m n)
    let ?t = "?s\<lparr>uip_buf := m, uip_len := n\<rparr>"
    have "length m = 4002" "tcp_ok ?t" using assms(2,4) Segment by (simp_all add: event_ok_def tcp_ok_def)
    moreover from this obtain k where "k < length (uip_conns s)"
        "returns (tcp_input app ?t) (conn_change k (\<lambda>_ c. tcp_edge (tcp_state (uip_conns s ! k)) (tcp_state c)) ?t)"
      using tcp_input_returns[of app ?t] assms Segment by (auto simp: event_ok_def)
    ultimately show ?thesis using Segment env_conn_change[OF env(2)[of m n]] by (auto simp: tcp_event_def)
  next
    case (Timer k)
    then have "returns (tcp_timer app k (?s\<lparr>uip_conn := Some k\<rparr>)) (conn_change k (\<lambda>_ c. tcp_edge (tcp_state (uip_conns s ! k)) (tcp_state c)) (?s\<lparr>uip_conn := Some k\<rparr>))"
      using assms by (intro tcp_timer_returns) (simp_all add: event_ok_def)
    then show ?thesis using Timer assms(4) env_conn_change[OF env(1)] by (auto simp: tcp_event_def event_ok_def)
  next
    case (Poll k)
    then have "returns (tcp_poll app k (?s\<lparr>uip_conn := Some k\<rparr>)) (conn_change k (\<lambda>_ c. tcp_edge (tcp_state (uip_conns s ! k)) (tcp_state c)) (?s\<lparr>uip_conn := Some k\<rparr>))"
      using assms by (intro tcp_poll_returns) (simp_all add: event_ok_def)
    then show ?thesis using Poll assms(4) env_conn_change[OF env(1)] by (auto simp: tcp_event_def event_ok_def)
  qed
qed

text \<open>
  C3: For every timer tick, every poll and every segment whose IP total length is between 20 and 3988 and whose option list ends (\<open>event_ok\<close>), and
  whatever the application does within its contract (\<open>app_keeps\<close>), the TCP part of the stack returns without an
  access outside of its buffers, keeps the invariant of its connections, and changes at most one connection, along an edge of the state
  diagram of TCP. (Shorter segments and option lists without an end are the subject of \<open>short_packet_overread\<close> and \<open>syn_options_hang\<close>.)
\<close>

theorem tcp_follows_diagram:
  assumes "app_keeps app" "tcp_ok s" "uip_conns s \<noteq> []" "event_ok s e"
  shows "\<exists>s' k. tcp_event app e s = Some s' \<and> tcp_ok s' \<and> length (uip_conns s') = length (uip_conns s) \<and>
    (\<forall>i < length (uip_conns s). tcp_edge (tcp_state (uip_conns s ! i)) (tcp_state (uip_conns s' ! i)) \<and> (i \<noteq> k \<longrightarrow> uip_conns s' ! i = uip_conns s ! i))"
proof -
  obtain k s' where k: "k < length (uip_conns s)" "tcp_event app e s = Some s'" "conn_change k (\<lambda>_ c. tcp_edge (tcp_state (uip_conns s ! k)) (tcp_state c)) s s'"
    using tcp_event_returns[OF assms] by (auto simp: returns_iff)
  then show ?thesis by (intro exI[of _ s'] exI[of _ k]) (auto simp: conn_change_def nth_list_update)
qed

text \<open>Two closed connections, port 80 open, and an application that sends back what it receives.\<close>

definition closed_conn :: tcp_conn where
  "closed_conn = \<lparr>t_ripaddr = (0, 0), t_lport = 0, t_rport = 0, rcv_nxt = [0, 0, 0, 0], snd_nxt = [0, 0, 0, 0], t_len = 0, t_mss = 0, initialmss = 0,
     t_sa = 0, t_sv = 0, t_rto = 0, tcpstateflags = UIP_CLOSED, t_timer = 0, t_nrtx = 0, t_appstate = []\<rparr>"

definition sample_tcp :: "tcp_conn list \<Rightarrow> u8 list \<Rightarrow> u16 \<Rightarrow> uip_tcp" where
  "sample_tcp conns bs n = uip.extend (sample_uip bs n) \<lparr>uip_conns = conns, uip_listenports = [0x5000, 0], iss = [0, 0, 1, 0], lastport = 1024\<rparr>"

definition echo_app :: "('a) uip_tcp_scheme \<Rightarrow> ('a) uip_tcp_scheme" where
  "echo_app s = s\<lparr>uip_slen := uip_len s\<rparr>"

lemma sample_tcp_fields:
  "uip_buf (sample_tcp cs bs n) = bs @ replicate (4002 - length bs) 0" "uip_len (sample_tcp cs bs n) = n" "uip_conns (sample_tcp cs bs n) = cs"
  "uip_listenports (sample_tcp cs bs n) = [0x5000, 0]" "uip_hostaddr (sample_tcp cs bs n) = (0xa8c0, 0x0201)" "iss (sample_tcp cs bs n) = [0, 0, 1, 0]"
  by (simp_all add: sample_tcp_def uip.defs sample_uip_def net.defs sample_net_def)

lemma sample_tcp_ok: "length bs \<le> 4002 \<Longrightarrow> list_all conn_ok cs \<Longrightarrow> tcp_ok (sample_tcp cs bs n)"
  by (simp add: tcp_ok_def sample_tcp_fields)

lemma closed_conn_ok: "conn_ok closed_conn"
  by (simp add: conn_ok_def closed_conn_def)

lemma echo_app_keeps: "app_keeps echo_app"
  unfolding app_keeps_def echo_app_def conn_change_def same_env_def app_core_def
  by (intro allI impI conjI exI) (auto intro: list_update_id[symmetric])

theorem tcp_follows_diagram_witness:
  "\<exists>s'. tcp_event echo_app (Timer 1) (sample_tcp [closed_conn, closed_conn\<lparr>tcpstateflags := UIP_TIME_WAIT, t_timer := 119\<rparr>] [] 0) = Some s' \<and>
    tcp_ok s' \<and> tcp_edge UIP_TIME_WAIT (tcp_state (uip_conns s' ! 1))"
proof -
  let ?s = "sample_tcp [closed_conn, closed_conn\<lparr>tcpstateflags := UIP_TIME_WAIT, t_timer := 119\<rparr>] [] 0"
  have "tcp_ok ?s" by (rule sample_tcp_ok) (simp_all add: closed_conn_ok)
  then show ?thesis
    using tcp_follows_diagram[OF echo_app_keeps, of ?s "Timer 1"] by (auto simp: event_ok_def sample_tcp_fields)
qed

end
