(* ===== verification/Zg_Driver.thy ===== *)
theory Zg_Driver
  imports Tcp_State
begin

text \<open>
  The driver of the wireless module, \<^verbatim>\<open>WiShield/g2100.c\<close>, with the network interface of \<^verbatim>\<open>WiShield/network.c\<close>. The pointer
  \<^verbatim>\<open>zg_buf\<close> is only ever set to \<^verbatim>\<open>uip_buf\<close>, so it is that buffer. The module is at the other end of the SPI bus: each transfer
  sends bytes and replaces them by as many received ones. The received bytes are a parameter, a function of all transfers so far; the transfers are kept in
  \<open>spi_log\<close>, with the level of the chip select afterwards. The settings of the network (\<^verbatim>\<open>ssid\<close>, \<^verbatim>\<open>security_data\<close>, ...) are
  a parameter, too. Console messages are left out. The lemmas show what one driver sends and another restores, and
  that the driver follows the automaton of the association, call by call.
\<close>

section \<open>State\<close>

record wifi_config =
  ssid :: "u8 list"
  security_data :: "u8 list"
  security_type :: u8
  wireless_mode :: u8

type_synonym spi_log = "(u8 list \<times> bool) list"
type_synonym chip = "spi_log \<Rightarrow> nat \<Rightarrow> u8"

record zg = uip_tcp +
  mac :: "u8 list"
  zg_conn_status :: u8
  hdr :: "u8 list"
  intr_occured :: u8
  intr_valid :: u8
  zg_drv_state :: u8
  tx_ready :: u8
  rx_ready :: u8
  cnf_pending :: u8
  zg_buf_len :: u16
  lastRssi :: u16
  scan_cnt :: u8
  wpa_psk_key :: "u8 list"
  ssid_len :: u8
  spi_log :: spi_log

section \<open>Bus\<close>

definition spi_transfer :: "chip \<Rightarrow> u8 list \<Rightarrow> nat \<Rightarrow> bool \<Rightarrow> spi_log \<Rightarrow> (u8 list \<times> spi_log) option" where
  "spi_transfer chip buf len toggle_cs log =
    (if len \<le> length buf
     then let log = log @ [(take len buf, toggle_cs)] in Some (map (chip log) [0..<len] @ drop len buf, log)
     else None)"

definition spi_hdr :: "chip \<Rightarrow> nat \<Rightarrow> bool \<Rightarrow> zg \<Rightarrow> zg option" where
  "spi_hdr chip len toggle_cs s = do {
     (h, log) \<leftarrow> spi_transfer chip (hdr s) len toggle_cs (spi_log s);
     Some (s\<lparr>hdr := h, spi_log := log\<rparr>) }"

definition spi_buf :: "chip \<Rightarrow> nat \<Rightarrow> bool \<Rightarrow> zg \<Rightarrow> zg option" where
  "spi_buf chip len toggle_cs s = do {
     (m, log) \<leftarrow> spi_transfer chip (uip_buf s) len toggle_cs (spi_log s);
     Some (s\<lparr>uip_buf := m, spi_log := log\<rparr>) }"

text \<open>Writes to the first bytes of \<^verbatim>\<open>hdr\<close> and into \<^verbatim>\<open>zg_buf\<close>.\<close>

definition set_hdr :: "u8 list \<Rightarrow> zg \<Rightarrow> zg option" where
  "set_hdr bs s = do { h \<leftarrow> mem_write (hdr s) 0 bs; Some (s\<lparr>hdr := h\<rparr>) }"

definition set_buf :: "nat \<Rightarrow> u8 list \<Rightarrow> zg \<Rightarrow> zg option" where
  "set_buf a bs s = do { m \<leftarrow> mem_write (uip_buf s) a bs; Some (s\<lparr>uip_buf := m\<rparr>) }"

text \<open>A string of C in an array, as \<^verbatim>\<open>strlen\<close> and \<^verbatim>\<open>strncpy\<close> read it.\<close>

definition c_strlen :: "u8 list \<Rightarrow> nat option" where
  "c_strlen xs = (if 0 \<in> set xs then Some (length (takeWhile (\<lambda>c. c \<noteq> 0) xs)) else None)"

definition c_strncpy :: "u8 list \<Rightarrow> nat \<Rightarrow> u8 list option" where
  "c_strncpy xs n = (if 0 \<in> set xs \<or> n \<le> length xs then Some (take n (takeWhile (\<lambda>c. c \<noteq> 0) xs @ replicate n 0)) else None)"

section \<open>Start\<close>

partial_function (option) poll_reset :: "chip \<Rightarrow> zg \<Rightarrow> zg option" where
  "poll_reset chip s = do {
     s \<leftarrow> set_hdr [0x7f, 0, 0] s;
     s \<leftarrow> spi_hdr chip 3 True s;
     if hdr s ! 1 AND 0x10 = 0 then poll_reset chip s else Some s }"

partial_function (option) poll_count :: "chip \<Rightarrow> zg \<Rightarrow> zg option" where
  "poll_count chip s = do {
     s \<leftarrow> set_hdr [0x6f, 0, 0] s;
     s \<leftarrow> spi_hdr chip 3 True s;
     if hdr s ! 1 = 0 \<and> hdr s ! 2 = 0 then poll_count chip s else Some s }"

definition reset_write :: "chip \<Rightarrow> u8 \<Rightarrow> zg \<Rightarrow> zg option" where
  "reset_write chip v s = do {
     s \<leftarrow> set_hdr [0x3e, 0, 0x2e] s;
     s \<leftarrow> spi_hdr chip 3 True s;
     s \<leftarrow> set_hdr [0x3f, v, 0xff] s;
     spi_hdr chip 3 True s }"

definition zg_chip_reset :: "chip \<Rightarrow> zg \<Rightarrow> zg option" where
  "zg_chip_reset chip s = do {
     s \<leftarrow> reset_write chip 0x80 s;
     s \<leftarrow> reset_write chip 0x0f s;
     s \<leftarrow> set_hdr [0x3e, 0, 0x2a] s;
     s \<leftarrow> spi_hdr chip 3 True s;
     s \<leftarrow> poll_reset chip s;
     poll_count chip s }"

definition zg_interrupt2_reg :: "chip \<Rightarrow> zg \<Rightarrow> zg option" where
  "zg_interrupt2_reg chip s = do {
     s \<leftarrow> set_hdr [0x6e, 0, 0] s;
     s \<leftarrow> spi_hdr chip 3 True s;
     s \<leftarrow> set_hdr [0x2d, 0xff, 0xff, 0, 0] s;
     spi_hdr chip 5 True s }"

definition zg_interrupt_reg :: "chip \<Rightarrow> u8 \<Rightarrow> u8 \<Rightarrow> zg \<Rightarrow> zg option" where
  "zg_interrupt_reg chip msk state s = do {
     s \<leftarrow> set_hdr [0x42, 0] s;
     s \<leftarrow> spi_hdr chip 2 True s;
     h1 \<leftarrow> c_read (hdr s) 1;
     s \<leftarrow> set_hdr [0x01, msk, (h1 AND NOT msk) OR (if state = 0 then 0 else msk)] s;
     spi_hdr chip 3 True s }"

definition zg_init :: "chip \<Rightarrow> wifi_config \<Rightarrow> zg \<Rightarrow> zg option" where
  "zg_init chip cfg s = do {
     let s = s\<lparr>intr_occured := 0, intr_valid := 0, lastRssi := 0, zg_drv_state := 0, zg_conn_status := 0, tx_ready := 0, rx_ready := 0,
       cnf_pending := 0, zg_buf_len := 4000\<rparr>;
     s \<leftarrow> zg_chip_reset chip s;
     s \<leftarrow> zg_interrupt2_reg chip s;
     s \<leftarrow> zg_interrupt_reg chip 0xff 0 s;
     s \<leftarrow> zg_interrupt_reg chip 0xc0 1 s;
     n \<leftarrow> c_strlen (ssid cfg);
     Some (s\<lparr>ssid_len := of_nat n\<rparr>) }"

section \<open>Interrupt\<close>

definition EINT_IRQHandler :: "zg \<Rightarrow> zg" where
  "EINT_IRQHandler s = s\<lparr>intr_occured := 1\<rparr>"

definition isr_rd_ctrl :: "chip \<Rightarrow> zg \<Rightarrow> zg option" where
  "isr_rd_ctrl chip s = do {
     h1 \<leftarrow> c_read (hdr s) 1;
     h2 \<leftarrow> c_read (hdr s) 2;
     let rx_byte_cnt = ((push_bit 8 (ucast h1) OR ucast h2) AND 0x0fff :: u16);
     s \<leftarrow> set_buf 0 [0x80] s;
     s \<leftarrow> spi_buf chip (unat rx_byte_cnt + 1) True s;
     s \<leftarrow> set_hdr [0xd0] s;
     s \<leftarrow> spi_hdr chip 1 True s;
     Some (s\<lparr>intr_valid := 1\<rparr>) }"

definition isr_wt_intr :: "chip \<Rightarrow> u8 \<Rightarrow> zg \<Rightarrow> zg option" where
  "isr_wt_intr chip next_cmd s = do {
     s \<leftarrow> set_hdr [0x40 OR next_cmd, 0, 0] s;
     s \<leftarrow> spi_hdr chip 3 True s;
     isr_rd_ctrl chip s }"

definition isr_rd_intr :: "chip \<Rightarrow> zg \<Rightarrow> zg option" where
  "isr_rd_intr chip s = do {
     h1 \<leftarrow> c_read (hdr s) 1;
     h2 \<leftarrow> c_read (hdr s) 2;
     let intr_val = h1 AND h2;
     if intr_val AND 0x80 = 0x80 then do {
       s \<leftarrow> set_hdr [0x01, 0x80] s;
       s \<leftarrow> spi_hdr chip 2 True s;
       isr_wt_intr chip 0x35 s }
     else if intr_val AND 0x40 = 0x40 then do {
       s \<leftarrow> set_hdr [0x01, 0x40] s;
       s \<leftarrow> spi_hdr chip 2 True s;
       isr_wt_intr chip 0x33 s }
     else Some s }"

definition zg_process_isr :: "chip \<Rightarrow> zg \<Rightarrow> zg option" where
  "zg_process_isr chip s = do {
     s \<leftarrow> set_hdr [0x41, 0, 0] s;
     s \<leftarrow> spi_hdr chip 3 True s;
     s \<leftarrow> isr_rd_intr chip s;
     Some (s\<lparr>intr_occured := 0\<rparr>) }"

section \<open>Frames\<close>

definition zg_send :: "chip \<Rightarrow> zg \<Rightarrow> zg option" where
  "zg_send chip s = do {
     s \<leftarrow> set_hdr [0xa0, 1, 1, 0, 0] s;
     s \<leftarrow> spi_hdr chip 5 False s;
     s \<leftarrow> set_buf 6 [0xaa] s;
     s \<leftarrow> set_buf 7 [0xaa] s;
     s \<leftarrow> set_buf 8 [0x03] s;
     s \<leftarrow> set_buf 11 [0] s;
     s \<leftarrow> set_buf 10 [0] s;
     s \<leftarrow> set_buf 9 [0] s;
     s \<leftarrow> spi_buf chip (unat (zg_buf_len s)) True s;
     s \<leftarrow> set_hdr [0xc0] s;
     spi_hdr chip 1 True s }"

definition zg_recv :: "zg \<Rightarrow> zg option" where
  "zg_recv s = do {
     len \<leftarrow> get16 (uip_buf s) 21;
     let len = HTONS len;
     rssi \<leftarrow> get16 (uip_buf s) 3;
     let s = s\<lparr>lastRssi := HTONS rssi\<rparr>;
     d \<leftarrow> mem_read (uip_buf s) 5 6;
     s \<leftarrow> set_buf 0 d s;
     d \<leftarrow> mem_read (uip_buf s) 11 6;
     s \<leftarrow> set_buf 6 d s;
     d \<leftarrow> mem_read (uip_buf s) 29 (unat len);
     s \<leftarrow> set_buf 12 d s;
     Some (s\<lparr>zg_buf_len := len + 12\<rparr>) }"

definition zg_get_rx_status :: "zg \<Rightarrow> u16 \<times> zg" where
  "zg_get_rx_status s = (if rx_ready s \<noteq> 0 then (zg_buf_len s, s\<lparr>rx_ready := 0\<rparr>) else (0, s))"

definition zg_clear_rx_status :: "zg \<Rightarrow> zg" where
  "zg_clear_rx_status s = s\<lparr>rx_ready := 0\<rparr>"

definition zg_set_tx_status :: "u8 \<Rightarrow> zg \<Rightarrow> zg" where
  "zg_set_tx_status status s = s\<lparr>tx_ready := status\<rparr>"

definition zg_set_buf :: "u16 \<Rightarrow> zg \<Rightarrow> zg" where
  "zg_set_buf buf_len s = s\<lparr>zg_buf_len := buf_len\<rparr>"

definition network_read :: "zg \<Rightarrow> u16 \<times> zg" where
  "network_read s = zg_get_rx_status s"

definition network_send :: "zg \<Rightarrow> zg option" where
  "network_send s =
    (if uip_len s > 0 then do {
       s \<leftarrow> (if uip_len s \<le> 54 then Some (zg_set_buf (uip_len s) s)
             else do {
               d \<leftarrow> mem_read (uip_buf s) (uip_appdata s) (unat (uip_len s) - 54);
               s \<leftarrow> set_buf 54 d s;
               Some (zg_set_buf (uip_len s) s) });
       Some (zg_set_tx_status 1 s) }
     else Some s)"

section \<open>Driver\<close>

text \<open>The requests: the fields of the structures behind the three bytes of the command.\<close>

definition zg_write_wep_key :: "wifi_config \<Rightarrow> nat \<Rightarrow> zg \<Rightarrow> zg option" where
  "zg_write_wep_key cfg a s = do {
     s \<leftarrow> set_buf a [3, 13, 0, ssid_len s] s;
     name \<leftarrow> c_strncpy (ssid cfg) 32;
     s \<leftarrow> set_buf (a + 4) name s;
     key \<leftarrow> mem_read (security_data cfg) 0 52;
     set_buf (a + 36) key s }"

definition zg_calc_psk_key :: "wifi_config \<Rightarrow> nat \<Rightarrow> zg \<Rightarrow> zg option" where
  "zg_calc_psk_key cfg a s = do {
     n \<leftarrow> c_strlen (security_data cfg);
     s \<leftarrow> set_buf a [0, of_nat n, ssid_len s, 0] s;
     name \<leftarrow> c_strncpy (ssid cfg) 32;
     s \<leftarrow> set_buf (a + 4) name s;
     phrase \<leftarrow> c_strncpy (security_data cfg) 64;
     set_buf (a + 36) phrase s }"

definition zg_write_psk_key :: "wifi_config \<Rightarrow> nat \<Rightarrow> zg \<Rightarrow> zg option" where
  "zg_write_psk_key cfg a s = do {
     s \<leftarrow> set_buf a [0, ssid_len s] s;
     name \<leftarrow> c_strncpy (ssid cfg) 32;
     s \<leftarrow> set_buf (a + 2) name s;
     set_buf (a + 34) (wpa_psk_key s) s }"

definition mgmt_send :: "chip \<Rightarrow> nat \<Rightarrow> zg \<Rightarrow> zg option" where
  "mgmt_send chip len s = do {
     s \<leftarrow> spi_buf chip len True s;
     s \<leftarrow> set_buf 0 [0xc0] s;
     s \<leftarrow> spi_buf chip 1 True s;
     Some (s\<lparr>zg_drv_state := 5\<rparr>) }"

definition get_mac :: "chip \<Rightarrow> zg \<Rightarrow> zg option" where
  "get_mac chip s = do {
     s \<leftarrow> set_buf 0 [0xb0, 2, 16, 0, 1] s;
     mgmt_send chip 5 s }"

definition setup_security :: "chip \<Rightarrow> wifi_config \<Rightarrow> zg \<Rightarrow> zg option" where
  "setup_security chip cfg s =
    (if security_type cfg = 0 then Some (s\<lparr>zg_drv_state := 8\<rparr>)
     else if security_type cfg = 1 then do {
       s \<leftarrow> set_buf 0 [0xb0, 2, 10] s;
       s \<leftarrow> zg_write_wep_key cfg 3 s;
       mgmt_send chip 91 s }
     else if security_type cfg = 2 \<or> security_type cfg = 3 then do {
       s \<leftarrow> set_buf 0 [0xb0, 2, 12] s;
       s \<leftarrow> zg_calc_psk_key cfg 3 s;
       mgmt_send chip 103 s }
     else if security_type cfg = 4 \<or> security_type cfg = 5 then do {
       key \<leftarrow> mem_read (security_data cfg) 0 32;
       Some (s\<lparr>wpa_psk_key := key, zg_drv_state := 7\<rparr>) }
     else Some s)"

definition install_psk :: "chip \<Rightarrow> wifi_config \<Rightarrow> zg \<Rightarrow> zg option" where
  "install_psk chip cfg s = do {
     s \<leftarrow> set_buf 0 [0xb0, 2, 8] s;
     s \<leftarrow> zg_write_psk_key cfg 3 s;
     mgmt_send chip 69 s }"

definition enable_conn_manage :: "chip \<Rightarrow> zg \<Rightarrow> zg option" where
  "enable_conn_manage chip s = do {
     s \<leftarrow> set_buf 0 [0xb0, 2, 20, 1, 10, 0x13, 0] s;
     mgmt_send chip 7 s }"

definition start_conn :: "chip \<Rightarrow> wifi_config \<Rightarrow> zg \<Rightarrow> zg option" where
  "start_conn chip cfg s = do {
     s \<leftarrow> set_buf 0 [0xb0, 2, 19] s;
     s \<leftarrow> set_buf 3 [if security_type cfg < 4 then security_type cfg else security_type cfg - 2, ssid_len s] s;
     name \<leftarrow> c_strncpy (ssid cfg) 32;
     s \<leftarrow> set_buf 5 name s;
     s \<leftarrow> set_buf 37 [0, 0] s;
     s \<leftarrow> (if wireless_mode cfg = 1 then set_buf 39 [1] s else if wireless_mode cfg = 2 then set_buf 39 [2] s else Some s);
     mgmt_send chip 41 s }"

definition mgmt_confirm :: "zg \<Rightarrow> zg option" where
  "mgmt_confirm s = do {
     result \<leftarrow> c_read (uip_buf s) 3;
     subtype \<leftarrow> c_read (uip_buf s) 2;
     if result \<noteq> 1 then Some s
     else if subtype = 1 then Some (s\<lparr>scan_cnt := 1\<rparr>)
     else if subtype = 16 then do { a \<leftarrow> mem_read (uip_buf s) 7 6; Some (s\<lparr>mac := a, zg_drv_state := 6\<rparr>) }
     else if subtype = 10 then Some (s\<lparr>zg_drv_state := 8\<rparr>)
     else if subtype = 12 then do { key \<leftarrow> mem_read (uip_buf s) 7 32; Some (s\<lparr>wpa_psk_key := key, zg_drv_state := 7\<rparr>) }
     else if subtype = 8 then Some (s\<lparr>zg_drv_state := 8\<rparr>)
     else if subtype = 20 then Some (s\<lparr>zg_drv_state := 3\<rparr>)
     else if subtype = 19 then Some (s\<lparr>zg_conn_status := 1\<rparr>)
     else Some s }"

definition mgmt_indicate :: "zg \<Rightarrow> zg option" where
  "mgmt_indicate s = do {
     subtype \<leftarrow> c_read (uip_buf s) 2;
     if subtype = 1 \<or> subtype = 2 then Some (s\<lparr>zg_conn_status := 0, zg_drv_state := 3\<rparr>)
     else if subtype = 4 then do {
       a \<leftarrow> c_read (uip_buf s) 3;
       b \<leftarrow> c_read (uip_buf s) 4;
       let status = (push_bit 8 (ucast a) OR ucast b :: u16);
       if status = 1 \<or> status = 5 then Some (s\<lparr>zg_conn_status := 0\<rparr>)
       else if status = 2 \<or> status = 6 then Some (s\<lparr>zg_conn_status := 1\<rparr>)
       else Some s }
     else Some s }"

definition drv_message :: "zg \<Rightarrow> zg option" where
  "drv_message s =
    (if intr_valid s \<noteq> 0 then do {
       type \<leftarrow> c_read (uip_buf s) 1;
       s \<leftarrow> (if type = 1 then Some (s\<lparr>cnf_pending := 0\<rparr>)
             else if type = 2 then mgmt_confirm s
             else if type = 3 then Some (s\<lparr>zg_drv_state := 4\<rparr>)
             else if type = 4 then mgmt_indicate s
             else Some s);
       Some (s\<lparr>intr_valid := 0\<rparr>) }
     else Some s)"

definition drv_state :: "chip \<Rightarrow> wifi_config \<Rightarrow> zg \<Rightarrow> zg option" where
  "drv_state chip cfg s =
    (if zg_drv_state s = 0 then Some (s\<lparr>zg_drv_state := 2\<rparr>)
     else if zg_drv_state s = 2 then get_mac chip s
     else if zg_drv_state s = 6 then setup_security chip cfg s
     else if zg_drv_state s = 7 then install_psk chip cfg s
     else if zg_drv_state s = 8 then enable_conn_manage chip s
     else if zg_drv_state s = 3 then start_conn chip cfg s
     else if zg_drv_state s = 4 then do {
       s \<leftarrow> zg_recv s;
       Some (s\<lparr>rx_ready := 1, zg_drv_state := 5\<rparr>) }
     else Some s)"

definition zg_drv_process :: "chip \<Rightarrow> wifi_config \<Rightarrow> zg \<Rightarrow> zg option" where
  "zg_drv_process chip cfg s = do {
     s \<leftarrow> (if tx_ready s \<noteq> 0 \<and> cnf_pending s = 0 then do {
             s \<leftarrow> zg_send chip s;
             Some (s\<lparr>tx_ready := 0, cnf_pending := 1\<rparr>) }
           else Some s);
     s \<leftarrow> (if intr_occured s \<noteq> 0 then zg_process_isr chip s else Some s);
     s \<leftarrow> drv_message s;
     drv_state chip cfg s }"

definition zg_scan_start :: "chip \<Rightarrow> zg \<Rightarrow> zg option" where
  "zg_scan_start chip s = do {
     let s = s\<lparr>scan_cnt := 0\<rparr>;
     s \<leftarrow> set_buf 0 [0xb0, 2, 1] s;
     s \<leftarrow> set_buf 3 (bytes16 (HTONS 20)) s;
     s \<leftarrow> set_buf 5 (bytes16 (HTONS 400)) s;
     s \<leftarrow> set_buf 7 (bytes16 (HTONS 800)) s;
     s \<leftarrow> set_buf 9 [0xff, 0xff, 0xff, 0xff, 0xff, 0xff] s;
     s \<leftarrow> set_buf 15 [3, 1, 0, 11] s;
     s \<leftarrow> set_buf 51 [1, 2, 3, 4, 5, 6, 7, 8, 9, 10, 11] s;
     s \<leftarrow> set_buf 64 [0] s;
     s \<leftarrow> spi_buf chip 65 True s;
     s \<leftarrow> set_buf 0 [0xc0] s;
     spi_buf chip 1 True s }"

section \<open>Transfers\<close>

definition zg_ok :: "zg \<Rightarrow> bool" where
  "zg_ok s \<longleftrightarrow> net_ok s \<and> length (hdr s) = 5 \<and> length (mac s) = 6 \<and> length (wpa_psk_key s) = 32"

named_theorems zg_bus \<open>transfers on the bus\<close>

lemma set_hdr_eq [zg_bus]:
  "length (hdr s) = 5 \<Longrightarrow> length bs \<le> 5 \<Longrightarrow> set_hdr bs s = Some (s\<lparr>hdr := bs @ drop (length bs) (hdr s)\<rparr>)"
  by (simp add: set_hdr_def mem_write_def)

lemma spi_hdr_eq [zg_bus]:
  "length (hdr s) = 5 \<Longrightarrow> n \<le> 5 \<Longrightarrow> spi_hdr chip n cs s =
    Some (s\<lparr>hdr := map (chip (spi_log s @ [(take n (hdr s), cs)])) [0..<n] @ drop n (hdr s),
      spi_log := spi_log s @ [(take n (hdr s), cs)]\<rparr>)"
  by (simp add: spi_hdr_def spi_transfer_def Let_def)

lemma set_buf_eq [zg_bus]:
  "a + length bs \<le> length (uip_buf s) \<Longrightarrow> set_buf a bs s = Some (s\<lparr>uip_buf := put_block (uip_buf s) a bs\<rparr>)"
  by (simp add: set_buf_def net_mem)

lemma spi_buf_eq [zg_bus]:
  "n \<le> length (uip_buf s) \<Longrightarrow> spi_buf chip n cs s =
    Some (s\<lparr>uip_buf := map (chip (spi_log s @ [(take n (uip_buf s), cs)])) [0..<n] @ drop n (uip_buf s),
      spi_log := spi_log s @ [(take n (uip_buf s), cs)]\<rparr>)"
  by (simp add: spi_buf_def spi_transfer_def Let_def)

lemma spi_buf_None: "length (uip_buf s) < n \<Longrightarrow> spi_buf chip n cs s = None"
  by (simp add: spi_buf_def spi_transfer_def)

section \<open>Messages of the module\<close>

text \<open>
  The message that the module hands over in an interrupt, if it has one: it says in its interrupt register which queue has data, then
  how many bytes there are, and then the bytes.
\<close>

definition chip_message :: "chip \<Rightarrow> zg \<Rightarrow> u8 list option" where
  "chip_message chip s =
    (let l1 = spi_log s @ [([0x41, 0, 0], True)];
         v = chip l1 1 AND chip l1 2;
         fifo1 = v AND 0x80 = 0x80;
         l2 = l1 @ [([0x01, if fifo1 then 0x80 else 0x40], True)];
         l3 = l2 @ [([if fifo1 then 0x75 else 0x73, 0, 0], True)];
         n = unat ((push_bit 8 (ucast (chip l3 1)) OR ucast (chip l3 2)) AND 0x0fff :: u16) + 1;
         l4 = l3 @ [(0x80 # take (n - 1) (tl (uip_buf s)), True)]
     in if fifo1 \<or> v AND 0x40 = 0x40 then Some (map (chip l4) [0..<n]) else None)"

lemma put_first: "m \<noteq> [] \<Longrightarrow> put_block m 0 [x] = x # tl m"
  by (cases m) (simp_all add: put_block_def)

lemma isr_rd_ctrl_eq:
  assumes "length (hdr s) = 5" "length (uip_buf s) = 4002"
    and "n = unat ((push_bit 8 (ucast (hdr s ! 1)) OR ucast (hdr s ! 2)) AND 0x0fff :: u16) + 1"
    and "msg = map (chip (spi_log s @ [(0x80 # take (n - 1) (tl (uip_buf s)), True)])) [0..<n]"
  shows "n \<le> 4002 \<Longrightarrow> \<exists>s'. isr_rd_ctrl chip s = Some s' \<and> length (hdr s') = 5 \<and>
      s' = s\<lparr>uip_buf := msg @ drop n (uip_buf s), hdr := hdr s', spi_log := spi_log s', intr_valid := 1\<rparr> \<and>
      spi_log s' = spi_log s @ [(0x80 # take (n - 1) (tl (uip_buf s)), True), ([0xd0], True)]"
    and "4002 < n \<Longrightarrow> isr_rd_ctrl chip s = None"
proof -
  have ne: "uip_buf s \<noteq> []" using assms(2) by auto
  have buf: "set_buf 0 [0x80] s = Some (s\<lparr>uip_buf := 0x80 # tl (uip_buf s)\<rparr>)"
    using assms(2) put_first[OF ne] by (simp add: zg_bus)
  have h: "c_read (hdr s) 1 = Some (hdr s ! 1)" "c_read (hdr s) 2 = Some (hdr s ! 2)"
    using assms(1) by simp_all
  show "4002 < n \<Longrightarrow> isr_rd_ctrl chip s = None"
    using assms(2,3) unfolding isr_rd_ctrl_def h buf by (simp add: spi_buf_None)
  assume n: "n \<le> 4002"
  have tk: "take n (0x80 # tl (uip_buf s)) = 0x80 # take (n - 1) (tl (uip_buf s))"
    "drop n (0x80 # tl (uip_buf s)) = drop n (uip_buf s)"
    using assms(3) ne by (simp_all add: drop_Suc)
  have spi: "spi_buf chip n True (s\<lparr>uip_buf := 0x80 # tl (uip_buf s)\<rparr>) =
      Some (s\<lparr>uip_buf := msg @ drop n (uip_buf s), spi_log := spi_log s @ [(0x80 # take (n - 1) (tl (uip_buf s)), True)]\<rparr>)"
    using n assms(2,4) by (subst spi_buf_eq) (simp_all add: tk)
  show "\<exists>s'. isr_rd_ctrl chip s = Some s' \<and> length (hdr s') = 5 \<and>
      s' = s\<lparr>uip_buf := msg @ drop n (uip_buf s), hdr := hdr s', spi_log := spi_log s', intr_valid := 1\<rparr> \<and>
      spi_log s' = spi_log s @ [(0x80 # take (n - 1) (tl (uip_buf s)), True), ([0xd0], True)]"
  proof -
    have "isr_rd_ctrl chip s = do {
        s \<leftarrow> spi_buf chip n True (s\<lparr>uip_buf := 0x80 # tl (uip_buf s)\<rparr>);
        s \<leftarrow> set_hdr [0xd0] s;
        s \<leftarrow> spi_hdr chip 1 True s;
        Some (s\<lparr>intr_valid := 1\<rparr>) }"
      unfolding isr_rd_ctrl_def h buf assms(3) by simp
    then show ?thesis
      unfolding spi using assms(1) by (simp add: zg_bus)
  qed
qed

lemma length_5: "length xs = 5 \<longleftrightarrow> (\<exists>a b c d e. xs = [a, b, c, d, e])"
  by (auto simp: numeral_eq_Suc length_Suc_conv)

lemma upt_3: "[0..<3] = [0, 1, 2 :: nat]"
  by (simp add: upt_rec)

lemma length_chip_message: "chip_message chip s = Some msg \<Longrightarrow> msg \<noteq> []"
  by (auto simp: chip_message_def Let_def split: if_splits)

lemma isr_first:
  assumes "length (hdr s) = 5" "l1 = spi_log s @ [([0x41, 0, 0], True)]"
  shows "\<exists>x y. zg_process_isr chip s = map_option (\<lambda>s. s\<lparr>intr_occured := 0\<rparr>)
    (isr_rd_intr chip (s\<lparr>hdr := [chip l1 0, chip l1 1, chip l1 2, x, y], spi_log := l1\<rparr>))"
proof -
  obtain a b c x y where h: "hdr s = [a, b, c, x, y]" using assms(1) by (auto simp: length_5)
  have bind: "Option.bind r (\<lambda>s. Some (f s)) = map_option f r" for r :: "zg option" and f :: "zg \<Rightarrow> zg"
    by (cases r) simp_all
  show ?thesis
    by (rule exI[of _ x], rule exI[of _ y]) (simp add: zg_process_isr_def zg_bus upt_3 h assms(2) bind)
qed

lemma isr_wt_intr_eq:
  assumes "length (hdr s) = 5" "l3 = spi_log s @ [([0x40 OR cmd, 0, 0], True)]"
  shows "\<exists>x y. isr_wt_intr chip cmd s =
    isr_rd_ctrl chip (s\<lparr>hdr := [chip l3 0, chip l3 1, chip l3 2, x, y], spi_log := l3\<rparr>)"
proof -
  obtain a b c x y where h: "hdr s = [a, b, c, x, y]" using assms(1) by (auto simp: length_5)
  show ?thesis
    by (rule exI[of _ x], rule exI[of _ y]) (simp add: isr_wt_intr_def zg_bus upt_3 h assms(2))
qed

lemma isr_rd_intr_none:
  assumes "length (hdr s) = 5" "\<not> (hdr s ! 1 AND hdr s ! 2) AND 0x80 = 0x80" "\<not> (hdr s ! 1 AND hdr s ! 2) AND 0x40 = 0x40"
  shows "isr_rd_intr chip s = Some s"
  using assms by (simp add: isr_rd_intr_def Let_def)

lemma isr_rd_intr_some:
  assumes "length (hdr s) = 5" "v = hdr s ! 1 AND hdr s ! 2" "fifo1 \<longleftrightarrow> v AND 0x80 = 0x80" "fifo1 \<or> v AND 0x40 = 0x40"
    and "l3 = spi_log s @ [([0x01, if fifo1 then 0x80 else 0x40], True), ([if fifo1 then 0x75 else 0x73, 0, 0], True)]"
  shows "\<exists>h. isr_rd_intr chip s = isr_rd_ctrl chip (s\<lparr>hdr := h, spi_log := l3\<rparr>) \<and> length h = 5 \<and>
    h ! 1 = chip l3 1 \<and> h ! 2 = chip l3 2"
proof -
  let ?bit = "if fifo1 then 0x80 else 0x40 :: u8" and ?cmd = "if fifo1 then 0x35 else 0x33 :: u8"
  define u where "u = s\<lparr>hdr := map (chip (spi_log s @ [([0x01, ?bit], True)])) [0..<2] @ drop (Suc (Suc 0)) (hdr s),
      spi_log := spi_log s @ [([0x01, ?bit], True)]\<rparr>"
  have "isr_rd_intr chip s = isr_wt_intr chip ?cmd u"
    using assms(1-4) by (cases fifo1) (simp_all add: isr_rd_intr_def Let_def zg_bus u_def)
  moreover have len: "length (hdr u) = 5" using assms(1) by (simp add: u_def)
  moreover have l3: "l3 = spi_log u @ [([0x40 OR ?cmd, 0, 0], True)]"
    using assms(5) by (cases fifo1) (simp_all add: u_def)
  moreover obtain x y where "isr_wt_intr chip ?cmd u =
      isr_rd_ctrl chip (u\<lparr>hdr := [chip l3 0, chip l3 1, chip l3 2, x, y], spi_log := l3\<rparr>)"
    using isr_wt_intr_eq[of u l3 ?cmd chip] len l3 by blast
  ultimately show ?thesis
    by (intro exI[of _ "[chip l3 0, chip l3 1, chip l3 2, x, y]"]) (simp add: u_def del: One_nat_def)
qed

text \<open>The subtypes of the management requests among the transfers.\<close>

definition requests :: "spi_log \<Rightarrow> u8 list" where
  "requests log = map (\<lambda>b. b ! 2) (filter (\<lambda>b. b \<noteq> [] \<and> hd b = 0xb0) (map fst log))"

text \<open>The interrupt puts the message into the packet buffer without sending a request, and fails if the message does not fit.\<close>

lemma zg_process_isr_message:
  assumes "length (hdr s) = 5" "length (uip_buf s) = 4002" "chip_message chip s = Some msg"
  shows "length msg \<le> 4002 \<Longrightarrow> \<exists>s'. zg_process_isr chip s = Some s' \<and> length (hdr s') = 5 \<and>
      s' = s\<lparr>uip_buf := msg @ drop (length msg) (uip_buf s), hdr := hdr s', spi_log := spi_log s', intr_valid := 1, intr_occured := 0\<rparr> \<and>
      requests (spi_log s') = requests (spi_log s)"
    and "4002 < length msg \<Longrightarrow> zg_process_isr chip s = None"
proof -
  define l1 where "l1 = spi_log s @ [([0x41, 0, 0], True)]"
  define v where "v = chip l1 1 AND chip l1 2"
  define fifo1 where "fifo1 \<longleftrightarrow> v AND 0x80 = 0x80"
  define l3 where "l3 = l1 @ [([0x01, if fifo1 then 0x80 else 0x40], True), ([if fifo1 then 0x75 else 0x73, 0, 0], True)]"
  define n where "n = unat ((push_bit 8 (ucast (chip l3 1)) OR ucast (chip l3 2)) AND 0x0fff :: u16) + 1"
  have some: "fifo1 \<or> v AND 0x40 = 0x40" and msg: "msg = map (chip (l3 @ [(0x80 # take (n - 1) (tl (uip_buf s)), True)])) [0..<n]"
    using assms(3) by (auto simp: chip_message_def Let_def l1_def v_def fifo1_def l3_def n_def split: if_splits)
  obtain x y where first: "zg_process_isr chip s = map_option (\<lambda>s. s\<lparr>intr_occured := 0\<rparr>)
      (isr_rd_intr chip (s\<lparr>hdr := [chip l1 0, chip l1 1, chip l1 2, x, y], spi_log := l1\<rparr>))"
    using isr_first[OF assms(1) l1_def] by blast
  obtain h where h: "isr_rd_intr chip (s\<lparr>hdr := [chip l1 0, chip l1 1, chip l1 2, x, y], spi_log := l1\<rparr>) =
      isr_rd_ctrl chip (s\<lparr>hdr := h, spi_log := l3\<rparr>)" "length h = 5" "h ! 1 = chip l3 1" "h ! 2 = chip l3 2"
    using isr_rd_intr_some[of "s\<lparr>hdr := [chip l1 0, chip l1 1, chip l1 2, x, y], spi_log := l1\<rparr>" v fifo1 l3 chip] some
    by (auto simp: v_def fifo1_def l3_def)
  define u where "u = s\<lparr>hdr := h, spi_log := l3\<rparr>"
  have u: "hdr u = h" "uip_buf u = uip_buf s" "spi_log u = l3" by (simp_all add: u_def)
  have len: "length msg = n" using msg by simp
  note ctrl = isr_rd_ctrl_eq[of u n msg chip, unfolded u h(3,4), OF h(2) assms(2) n_def msg]
  show "4002 < length msg \<Longrightarrow> zg_process_isr chip s = None"
    unfolding first h(1) u_def[symmetric] len by (simp only: ctrl(2) option.map)
  assume "length msg \<le> 4002"
  then obtain t where t: "isr_rd_ctrl chip u = Some t" "length (hdr t) = 5"
      "t = u\<lparr>uip_buf := msg @ drop n (uip_buf s), hdr := hdr t, spi_log := spi_log t, intr_valid := 1\<rparr>"
      "spi_log t = l3 @ [(0x80 # take (n - 1) (tl (uip_buf s)), True), ([0xd0], True)]"
    using ctrl(1) unfolding len by blast
  have "requests (spi_log t) = requests (spi_log s)"
    unfolding t(4) l3_def l1_def by (simp add: requests_def)
  have "t\<lparr>intr_occured := 0\<rparr> = s\<lparr>uip_buf := msg @ drop n (uip_buf s), hdr := hdr t, spi_log := spi_log t,
      intr_valid := 1, intr_occured := 0\<rparr>" by (subst t(3)) (simp add: u_def)
  with t(1,2) \<open>requests (spi_log t) = requests (spi_log s)\<close> show "\<exists>s'. zg_process_isr chip s = Some s' \<and> length (hdr s') = 5 \<and>
      s' = s\<lparr>uip_buf := msg @ drop (length msg) (uip_buf s), hdr := hdr s', spi_log := spi_log s', intr_valid := 1, intr_occured := 0\<rparr> \<and>
      requests (spi_log s') = requests (spi_log s)"
    unfolding first h(1) u_def[symmetric] len by simp
qed

section \<open>Frames on the air\<close>

text \<open>The frame as it is handed to the module: the source address is replaced by the LLC/SNAP header.\<close>

definition snap :: "u8 list" where
  "snap = [0xaa, 0xaa, 0x03, 0, 0, 0]"

definition air_frame :: "u8 list \<Rightarrow> nat \<Rightarrow> u8 list" where
  "air_frame m n = take n (take 6 m @ snap @ drop 12 m)"

lemma length_snap: "length snap = 6"
  by (simp add: snap_def)

lemma length_air_frame: "length m = 4002 \<Longrightarrow> n \<le> 4002 \<Longrightarrow> length (air_frame m n) = n"
  by (simp add: air_frame_def snap_def)

lemma snap_written:
  assumes "length m = 4002"
  shows "put_block (put_block (put_block (put_block (put_block (put_block m 6 [0xaa]) 7 [0xaa]) 8 [0x03]) 11 [0]) 10 [0]) 9 [0] =
    take 6 m @ snap @ drop 12 m"
proof (rule nth_equalityI)
  show "length (put_block (put_block (put_block (put_block (put_block (put_block m 6 [0xaa]) 7 [0xaa]) 8 [0x03]) 11 [0]) 10 [0]) 9 [0]) =
      length (take 6 m @ snap @ drop 12 m)"
    using assms by (simp add: snap_def)
next
  fix i
  assume "i < length (put_block (put_block (put_block (put_block (put_block (put_block m 6 [0xaa]) 7 [0xaa]) 8 [0x03]) 11 [0]) 10 [0]) 9 [0])"
  then have i: "i < 4002" using assms by simp
  consider "i < 6" | "i = 6" | "i = 7" | "i = 8" | "i = 9" | "i = 10" | "i = 11" | "12 \<le> i" by linarith
  then show "put_block (put_block (put_block (put_block (put_block (put_block m 6 [0xaa]) 7 [0xaa]) 8 [0x03]) 11 [0]) 10 [0]) 9 [0] ! i =
      (take 6 m @ snap @ drop 12 m) ! i"
    using i assms by cases (simp_all add: nth_put nth_append snap_def)
qed

lemma zg_send_frame:
  assumes "length (hdr s) = 5" "length (uip_buf s) = 4002" "unat (zg_buf_len s) \<le> 4002"
  shows "\<exists>s'. zg_send chip s = Some s' \<and> length (hdr s') = 5 \<and> length (uip_buf s') = 4002 \<and>
    s' = s\<lparr>uip_buf := uip_buf s', hdr := hdr s', spi_log := spi_log s @
      [([0xa0, 1, 1, 0, 0], False), (air_frame (uip_buf s) (unat (zg_buf_len s)), True), ([0xc0], True)]\<rparr>"
proof -
  have len: "length (take 6 (uip_buf s) @ snap @ drop 12 (uip_buf s)) = 4002" using assms(2) by (simp add: snap_def)
  show ?thesis
    using assms len by (simp add: zg_send_def zg_bus snap_written air_frame_def)
qed

lemma idle_process:
  assumes "length (hdr s) = 5" "length (uip_buf s) = 4002" "unat (zg_buf_len s) \<le> 4002"
    and "tx_ready s \<noteq> 0" "cnf_pending s = 0" "intr_occured s = 0" "intr_valid s = 0" "zg_drv_state s = 5"
  shows "\<exists>s'. zg_drv_process chip cfg s = Some s' \<and> length (hdr s') = 5 \<and> length (uip_buf s') = 4002 \<and>
    s' = s\<lparr>uip_buf := uip_buf s', hdr := hdr s', tx_ready := 0, cnf_pending := 1, spi_log := spi_log s @
      [([0xa0, 1, 1, 0, 0], False), (air_frame (uip_buf s) (unat (zg_buf_len s)), True), ([0xc0], True)]\<rparr>"
proof -
  obtain t where t: "zg_send chip s = Some t" "length (hdr t) = 5" "length (uip_buf t) = 4002"
    "t = s\<lparr>uip_buf := uip_buf t, hdr := hdr t, spi_log := spi_log s @
      [([0xa0, 1, 1, 0, 0], False), (air_frame (uip_buf s) (unat (zg_buf_len s)), True), ([0xc0], True)]\<rparr>"
    using zg_send_frame[OF assms(1-3), of chip] by blast
  have "intr_occured t = 0" "intr_valid t = 0" "zg_drv_state t = 5"
    by (subst t(4), simp add: assms)+
  then have run: "zg_drv_process chip cfg s = Some (t\<lparr>tx_ready := 0, cnf_pending := 1\<rparr>)"
    using assms(4,5) t(1) by (simp add: zg_drv_process_def drv_message_def drv_state_def)
  have "t\<lparr>tx_ready := 0, cnf_pending := 1\<rparr> = s\<lparr>uip_buf := uip_buf t, hdr := hdr t, tx_ready := 0, cnf_pending := 1,
      spi_log := spi_log s @ [([0xa0, 1, 1, 0, 0], False), (air_frame (uip_buf s) (unat (zg_buf_len s)), True), ([0xc0], True)]\<rparr>"
    by (subst t(4)) simp
  with run t(2,3) show ?thesis by simp
qed

text \<open>
  C28: A frame that is handed to the driver while the module has still to confirm the last one is lost: the confirmation is
  read into the buffer that holds the frame, and the next call transmits that buffer, so that the frame goes out with the bytes of the
  confirmation in place of its destination address.
\<close>

theorem pending_frame_overwritten:
  assumes "length (hdr s) = 5" "length (uip_buf s) = 4002" "12 \<le> unat (zg_buf_len s)" "unat (zg_buf_len s) \<le> 4002"
    and "tx_ready s \<noteq> 0" "cnf_pending s \<noteq> 0" "intr_occured s \<noteq> 0" "zg_drv_state s = 5"
    and "chip_message chip s = Some msg" "4 \<le> length msg" "length msg \<le> 4002" "msg ! 1 = 1"
  shows "\<exists>s1 s2 frame. zg_drv_process chip cfg s = Some s1 \<and> zg_drv_process chip cfg s1 = Some s2 \<and>
    spi_log s2 = spi_log s1 @ [([0xa0, 1, 1, 0, 0], False), (frame, True), ([0xc0], True)] \<and>
    length frame = unat (zg_buf_len s) \<and> take 4 frame = take 4 msg"
proof -
  obtain t where t: "zg_process_isr chip s = Some t" "length (hdr t) = 5"
    "t = s\<lparr>uip_buf := msg @ drop (length msg) (uip_buf s), hdr := hdr t, spi_log := spi_log t, intr_valid := 1, intr_occured := 0\<rparr>"
    using zg_process_isr_message(1)[OF assms(1,2,9,11)] by blast
  have f: "uip_buf t = msg @ drop (length msg) (uip_buf s)" "intr_valid t = 1" "zg_drv_state t = 5" "tx_ready t = tx_ready s"
    "intr_occured t = 0" "zg_buf_len t = zg_buf_len s"
    by (subst t(3), simp add: assms)+
  define s1 where "s1 = t\<lparr>cnf_pending := 0, intr_valid := 0\<rparr>"
  have one: "zg_drv_process chip cfg s = Some s1"
    using assms f t(1) by (simp add: zg_drv_process_def drv_message_def drv_state_def s1_def nth_append)
  have len: "length (uip_buf s1) = 4002" using assms(2,11) f by (simp add: s1_def)
  obtain s2 where s2: "zg_drv_process chip cfg s1 = Some s2" "s2 = s1\<lparr>uip_buf := uip_buf s2, hdr := hdr s2, tx_ready := 0, cnf_pending := 1,
      spi_log := spi_log s1 @ [([0xa0, 1, 1, 0, 0], False), (air_frame (uip_buf s1) (unat (zg_buf_len s1)), True), ([0xc0], True)]\<rparr>"
    using idle_process[of s1 chip cfg] assms(4,5) len t(2) f by (auto simp: s1_def)
  have "spi_log s2 = spi_log s1 @ [([0xa0, 1, 1, 0, 0], False), (air_frame (uip_buf s1) (unat (zg_buf_len s1)), True), ([0xc0], True)]"
    by (subst s2(2)) simp
  moreover have "length (air_frame (uip_buf s1) (unat (zg_buf_len s1))) = unat (zg_buf_len s)"
    using length_air_frame[OF len] assms(4) f by (simp add: s1_def)
  moreover have "take 4 (air_frame (uip_buf s1) (unat (zg_buf_len s1))) = take 4 msg"
    using assms(3,10) f by (simp add: air_frame_def s1_def)
  ultimately show ?thesis using one s2(1) by blast
qed

definition sample_zg :: "u8 list \<Rightarrow> u16 \<Rightarrow> zg" where
  "sample_zg bs n = uip_tcp.extend (sample_tcp [closed_conn, closed_conn] bs 0) \<lparr>mac = replicate 6 0, zg_conn_status = 0, hdr = [0, 0, 0, 0, 0], intr_occured = 0,
     intr_valid = 0, zg_drv_state = 5, tx_ready = 1, rx_ready = 0, cnf_pending = 0, zg_buf_len = n, lastRssi = 0, scan_cnt = 0,
     wpa_psk_key = replicate 32 0, ssid_len = 4, spi_log = []\<rparr>"

text \<open>A module that has a message in its first queue, whenever it is asked.\<close>

definition reply_chip :: "u8 list \<Rightarrow> chip" where
  "reply_chip msg log i =
    (case fst (last log) of
       [] \<Rightarrow> 0
     | c # _ \<Rightarrow> if c = 0x41 then 0x80 else if c = 0x75 then (if i = 2 then of_nat (length msg - 1) else 0)
         else if c = 0x80 then msg ! i else 0)"

lemma reply_chip_message:
  assumes "0 < length msg" "length msg \<le> 256"
  shows "chip_message (reply_chip msg) s = Some msg"
proof -
  obtain k where k: "length msg = Suc k" "k < 256" using assms by (cases msg) auto
  have "unat (of_nat k :: u8) = k" using k(2) by (simp add: unat_of_nat)
  then have byte: "(ucast (of_nat k :: u8) :: u16) = of_nat k"
    using k(2) by (simp add: word_unat_eq_iff unat_ucast_mod unat_of_nat)
  have "unat ((of_nat k :: u16) AND 0x0fff) = k"
    using k(2) unat_and_mask[of "of_nat k :: u16" 12] by (simp add: mask_eq_exp_minus_1 unat_of_nat)
  moreover have "map ((!) msg) [0..<Suc k] = msg" using map_nth[of msg] k(1) by simp
  moreover have "reply_chip msg log = (!) msg" if "fst (last log) = 0x80 # xs" for log xs
    by (rule ext) (simp add: reply_chip_def that)
  ultimately show ?thesis
    by (simp add: chip_message_def Let_def k(1) reply_chip_def byte del: upt_Suc)
qed

lemma sample_zg_fields:
  "uip_buf (sample_zg bs n) = bs @ replicate (4002 - length bs) 0" "hdr (sample_zg bs n) = [0, 0, 0, 0, 0]"
  "zg_buf_len (sample_zg bs n) = n" "zg_drv_state (sample_zg bs n) = 5" "tx_ready (sample_zg bs n) = 1" "spi_log (sample_zg bs n) = []"
  by (simp_all add: sample_zg_def uip_tcp.defs sample_tcp_fields)

theorem pending_frame_overwritten_witness:
  "\<forall>cfg. \<exists>s1 s2 frame. zg_drv_process (reply_chip [0, 1, 1, 1]) cfg (sample_zg [9, 8, 7, 6, 5, 4] 60\<lparr>cnf_pending := 1, intr_occured := 1\<rparr>) = Some s1 \<and>
    zg_drv_process (reply_chip [0, 1, 1, 1]) cfg s1 = Some s2 \<and>
    spi_log s2 = spi_log s1 @ [([0xa0, 1, 1, 0, 0], False), (frame, True), ([0xc0], True)] \<and> take 4 frame = [0, 1, 1, 1]"
proof (rule allI)
  fix cfg
  let ?s = "sample_zg [9, 8, 7, 6, 5, 4] 60\<lparr>cnf_pending := 1, intr_occured := 1\<rparr>"
  have msg: "chip_message (reply_chip [0, 1, 1, 1]) ?s = Some [0, 1, 1, 1]"
    by (rule reply_chip_message) simp_all
  show "\<exists>s1 s2 frame. zg_drv_process (reply_chip [0, 1, 1, 1]) cfg ?s = Some s1 \<and> zg_drv_process (reply_chip [0, 1, 1, 1]) cfg s1 = Some s2 \<and>
    spi_log s2 = spi_log s1 @ [([0xa0, 1, 1, 0, 0], False), (frame, True), ([0xc0], True)] \<and> take 4 frame = [0, 1, 1, 1]"
    using pending_frame_overwritten[of ?s "reply_chip [0, 1, 1, 1]" "[0, 1, 1, 1]" cfg] msg by (simp add: sample_zg_fields) blast
qed

section \<open>Received frames\<close>

lemma zg_recv_buffer:
  assumes "length (uip_buf s) = 4002" "w = HTONS (word16 (block (uip_buf s) 21 2))" "29 + unat w \<le> 4002"
  shows "\<exists>s'. zg_recv s = Some s' \<and> s' = s\<lparr>uip_buf := uip_buf s', lastRssi := lastRssi s', zg_buf_len := w + 12\<rparr> \<and> length (uip_buf s') = 4002 \<and>
    block (uip_buf s') 0 6 = block (uip_buf s) 5 6 \<and> block (uip_buf s') 6 6 = block (uip_buf s) 11 6 \<and>
    (\<forall>k \<le> unat w. block (uip_buf s') 12 k = block (uip_buf s) 29 k)"
proof -
  have part: "block (put_block b 12 (block c 29 (unat w))) 12 k = block c 29 k"
    if "k \<le> unat w" "length b = 4002" "length c = 4002" for b c k
  proof -
    have "take k (block (put_block b 12 (block c 29 (unat w))) 12 (unat w)) = take k (block c 29 (unat w))"
      using that assms(3) by (simp add: net_mem)
    with that show ?thesis by (simp add: block_def min_def)
  qed
  show ?thesis
    using assms by (simp add: zg_recv_def net_mem zg_bus part flip: assms(2))
qed

text \<open>The message by which the module hands over a received frame.\<close>

definition rx_indication :: "u8 list \<Rightarrow> u8 list \<Rightarrow> u8 list \<Rightarrow> u8 list \<Rightarrow> u8 list \<Rightarrow> u8 list" where
  "rx_indication rssi dst src arrival data =
    [0, 3, 1] @ rssi @ dst @ src @ arrival @ bytes16 (HTONS (of_nat (length data))) @ data"

lemma rx_indication_blocks:
  assumes "length rssi = 2" "length dst = 6" "length src = 6" "length arrival = 4" "b = rx_indication rssi dst src arrival data @ rest"
  shows "block b 5 6 = dst" "block b 11 6 = src" "block b 21 2 = bytes16 (HTONS (of_nat (length data)))"
    "k \<le> length data - 6 \<Longrightarrow> block b 29 k = take k (drop 6 data)" "b ! 1 = 3"
  using assms by (simp_all add: block_def rx_indication_def bytes16_def)

lemma rx_indication_process:
  assumes "length (hdr s) = 5" "length (uip_buf s) = 4002" "tx_ready s = 0" "intr_occured s \<noteq> 0"
    and "length rssi = 2" "length dst = 6" "length src = 6" "length arrival = 4" "29 + length data \<le> 4002" "6 \<le> length data"
    and "chip_message chip s = Some (rx_indication rssi dst src arrival data)"
  shows "\<exists>s'. zg_drv_process chip cfg s = Some s' \<and> rx_ready s' = 1 \<and> zg_buf_len s' = of_nat (length data + 12) \<and>
    length (uip_buf s') = 4002 \<and> take (length data + 6) (uip_buf s') = dst @ src @ drop 6 data"
proof -
  let ?msg = "rx_indication rssi dst src arrival data"
  have len: "length ?msg = 23 + length data" using assms(5-8) by (simp add: rx_indication_def)
  then have "length ?msg \<le> 4002" using assms(9) by simp
  then obtain t where t: "zg_process_isr chip s = Some t"
    "t = s\<lparr>uip_buf := ?msg @ drop (length ?msg) (uip_buf s), hdr := hdr t, spi_log := spi_log t, intr_valid := 1, intr_occured := 0\<rparr>"
    using zg_process_isr_message(1)[OF assms(1,2,11)] by blast
  have buf: "uip_buf t = ?msg @ drop (length ?msg) (uip_buf s)" "intr_valid t = 1"
    by (subst t(2), simp)+
  note blocks = rx_indication_blocks[OF assms(5-8) buf(1)]
  define u where "u = t\<lparr>zg_drv_state := 4, intr_valid := 0\<rparr>"
  have ulen: "length (uip_buf u) = 4002" using assms(2,9) buf(1) len by (simp add: u_def)
  have w: "HTONS (word16 (block (uip_buf u) 21 2)) = of_nat (length data)"
    using blocks(3) by (simp add: u_def)
  have n: "unat (of_nat (length data) :: u16) = length data" using assms(9) by (simp add: unat_of_nat)
  obtain r where r: "zg_recv u = Some r" "r = u\<lparr>uip_buf := uip_buf r, lastRssi := lastRssi r, zg_buf_len := of_nat (length data) + 12\<rparr>"
    "length (uip_buf r) = 4002" "block (uip_buf r) 0 6 = dst" "block (uip_buf r) 6 6 = src"
    "block (uip_buf r) 12 (length data - 6) = drop 6 data"
    using zg_recv_buffer[OF ulen w[symmetric]] assms(9) blocks n by (auto simp: u_def)
  have "zg_drv_process chip cfg s = Some (r\<lparr>rx_ready := 1, zg_drv_state := 5\<rparr>)"
    using assms(3,4) t(1) buf(2) blocks(5) ulen r(1)
    by (simp add: zg_drv_process_def drv_message_def drv_state_def u_def)
  moreover have "zg_buf_len r = of_nat (length data) + 12" by (subst r(2)) simp
  moreover have "take (length data + 6) (uip_buf r) = dst @ src @ drop 6 data"
  proof -
    have "length data + 6 = 6 + (6 + (length data - 6))" using assms(10) by simp
    then have "take (length data + 6) (uip_buf r) = block (uip_buf r) 0 (6 + (6 + (length data - 6)))"
      by (simp add: block_def add.commute)
    also have "\<dots> = block (uip_buf r) 0 6 @ block (uip_buf r) 6 6 @ block (uip_buf r) 12 (length data - 6)"
      by (simp only: block_split) simp
    finally show ?thesis using r(4-6) by simp
  qed
  ultimately show ?thesis using r(3) by (simp add: add.commute)
qed

text \<open>
  C26: A frame arrives as it was sent, from one driver to another. The idle sender hands the module its buffer with the source address overwritten by the
  LLC/SNAP header. When the module of the receiver reports that frame, with the address of the sending station in its place for
  the source, the receiver restores the Ethernet frame and offers it to the stack, if the sender had put its own address into it. The length that is offered is six bytes more than that of the frame.
\<close>

theorem frame_round_trip:
  assumes "length (hdr a) = 5" "length (uip_buf a) = 4002" "n = unat (zg_buf_len a)" "14 \<le> n" "n \<le> 3979" "tx_ready a \<noteq> 0" "cnf_pending a = 0"
      "intr_occured a = 0" "intr_valid a = 0" "zg_drv_state a = 5" "length (mac a) = 6" "block (uip_buf a) 6 6 = mac a"
    and "length (hdr s) = 5" "length (uip_buf s) = 4002" "tx_ready s = 0" "intr_occured s \<noteq> 0" "length rssi = 2" "length arrival = 4"
  shows "\<exists>a' frame. zg_drv_process chip cfg a = Some a' \<and> cnf_pending a' = 1 \<and>
    spi_log a' = spi_log a @ [([0xa0, 1, 1, 0, 0], False), (frame, True), ([0xc0], True)] \<and>
    (\<forall>chip'. chip_message chip' s = Some (rx_indication rssi (take 6 frame) (mac a) arrival (drop 6 frame)) \<longrightarrow>
      (\<exists>s'. zg_drv_process chip' cfg' s = Some s' \<and> take n (uip_buf s') = take n (uip_buf a) \<and>
        fst (network_read s') = of_nat (n + 6) \<and> rx_ready (snd (network_read s')) = 0))"
proof -
  let ?m = "uip_buf a"
  define frame where "frame = air_frame ?m n"
  obtain a' where a': "zg_drv_process chip cfg a = Some a'" "a' = a\<lparr>uip_buf := uip_buf a', hdr := hdr a', tx_ready := 0, cnf_pending := 1, spi_log := spi_log a @
      [([0xa0, 1, 1, 0, 0], False), (frame, True), ([0xc0], True)]\<rparr>"
    using idle_process[of a chip cfg] assms(1-10) by (auto simp: frame_def)
  have log: "cnf_pending a' = 1" "spi_log a' = spi_log a @ [([0xa0, 1, 1, 0, 0], False), (frame, True), ([0xc0], True)]"
    by (subst a'(2), simp)+
  have air: "take 6 frame = take 6 ?m" "drop 6 (drop 6 frame) = drop 12 (take n ?m)"
    using assms(2,4,5) by (simp_all add: frame_def air_frame_def drop_take snap_def)
  have len: "length (drop 6 frame) = n - 6" "length (take 6 frame) = 6"
    using assms(2,4,5) by (simp_all add: frame_def length_air_frame)
  have fits: "29 + length (drop 6 frame) \<le> 4002" "6 \<le> length (drop 6 frame)"
    unfolding len(1) using assms(4,5) by linarith+
  have n: "n - 6 + 12 = n + 6" "n - 6 + 6 = n" using assms(4) by simp_all
  have "take n ?m = take 6 ?m @ block ?m 6 6 @ drop 12 (take n ?m)"
  proof -
    have "take n ?m = take 12 (take n ?m) @ drop 12 (take n ?m)" by (simp only: append_take_drop_id)
    moreover have "take 12 (take n ?m) = take 6 ?m @ block ?m 6 6"
      using assms(4) take_add[of 6 6 ?m] by (simp add: block_def min_def)
    ultimately show ?thesis by simp
  qed
  then have whole: "take n ?m = take 6 ?m @ mac a @ drop 12 (take n ?m)" using assms(12) by simp
  have "\<exists>s'. zg_drv_process chip' cfg' s = Some s' \<and> take n (uip_buf s') = take n ?m \<and>
      fst (network_read s') = of_nat (n + 6) \<and> rx_ready (snd (network_read s')) = 0"
    if msg: "chip_message chip' s = Some (rx_indication rssi (take 6 frame) (mac a) arrival (drop 6 frame))" for chip'
  proof -
    obtain s' where s': "zg_drv_process chip' cfg' s = Some s'" "rx_ready s' = 1" "zg_buf_len s' = of_nat (n - 6 + 12)"
      "take (n - 6 + 6) (uip_buf s') = take 6 frame @ mac a @ drop 6 (drop 6 frame)"
      using rx_indication_process[OF assms(13-17) len(2) assms(11,18) fits msg, of cfg'] unfolding len(1) by blast
    then have "take n (uip_buf s') = take n ?m" "zg_buf_len s' = of_nat (n + 6)"
      using whole air unfolding n by simp_all
    with s'(1,2) show ?thesis by (simp add: network_read_def zg_get_rx_status_def)
  qed
  with a'(1) log show ?thesis by blast
qed

text \<open>A frame of 14 bytes, sent by the station with the address \<open>9.9.9.9.9.9\<close>.\<close>

theorem frame_round_trip_witness:
  "\<forall>cfg. \<exists>a' frame s'. zg_drv_process (reply_chip [0]) cfg (sample_zg [1, 2, 3, 4, 5, 6, 9, 9, 9, 9, 9, 9, 8, 6] 14\<lparr>mac := [9, 9, 9, 9, 9, 9]\<rparr>) = Some a' \<and>
    spi_log a' = [([0xa0, 1, 1, 0, 0], False), (frame, True), ([0xc0], True)] \<and>
    zg_drv_process (reply_chip (rx_indication [0, 9] (take 6 frame) [9, 9, 9, 9, 9, 9] [0, 0, 0, 0] (drop 6 frame))) cfg
      (sample_zg [] 0\<lparr>tx_ready := 0, intr_occured := 1\<rparr>) = Some s' \<and>
    take 14 (uip_buf s') = [1, 2, 3, 4, 5, 6, 9, 9, 9, 9, 9, 9, 8, 6] \<and> fst (network_read s') = 20"
proof (rule allI)
  fix cfg
  let ?a = "sample_zg [1, 2, 3, 4, 5, 6, 9, 9, 9, 9, 9, 9, 8, 6] 14\<lparr>mac := [9, 9, 9, 9, 9, 9]\<rparr>" and ?s = "sample_zg [] 0\<lparr>tx_ready := 0, intr_occured := 1\<rparr>"
  have a: "cnf_pending ?a = 0" "intr_occured ?a = 0" "intr_valid ?a = 0" "block (uip_buf ?a) 6 6 = mac ?a"
    by (simp_all add: sample_zg_def uip_tcp.defs sample_tcp_fields block_def)
  have "\<exists>a' frame. zg_drv_process (reply_chip [0]) cfg ?a = Some a' \<and> cnf_pending a' = 1 \<and>
      spi_log a' = spi_log ?a @ [([0xa0, 1, 1, 0, 0], False), (frame, True), ([0xc0], True)] \<and>
      (\<forall>chip'. chip_message chip' ?s = Some (rx_indication [0, 9] (take 6 frame) (mac ?a) [0, 0, 0, 0] (drop 6 frame)) \<longrightarrow>
        (\<exists>s'. zg_drv_process chip' cfg ?s = Some s' \<and> take 14 (uip_buf s') = take 14 (uip_buf ?a) \<and>
          fst (network_read s') = of_nat (14 + 6) \<and> rx_ready (snd (network_read s')) = 0))"
    by (rule frame_round_trip) (simp_all add: a sample_zg_fields, simp_all add: block_def)
  then obtain a' frame where a': "zg_drv_process (reply_chip [0]) cfg ?a = Some a'" "spi_log a' = [([0xa0, 1, 1, 0, 0], False), (frame, True), ([0xc0], True)]"
    and rx: "\<And>chip'. chip_message chip' ?s = Some (rx_indication [0, 9] (take 6 frame) [9, 9, 9, 9, 9, 9] [0, 0, 0, 0] (drop 6 frame)) \<Longrightarrow>
      \<exists>s'. zg_drv_process chip' cfg ?s = Some s' \<and> take 14 (uip_buf s') = [1, 2, 3, 4, 5, 6, 9, 9, 9, 9, 9, 9, 8, 6] \<and> fst (network_read s') = 20"
    by (simp add: sample_zg_fields) blast
  obtain b where "zg_drv_process (reply_chip [0]) cfg ?a = Some b" and b: "b = ?a\<lparr>uip_buf := uip_buf b, hdr := hdr b, tx_ready := 0, cnf_pending := 1,
      spi_log := spi_log ?a @ [([0xa0, 1, 1, 0, 0], False), (air_frame (uip_buf ?a) 14, True), ([0xc0], True)]\<rparr>"
    using idle_process[of ?a "reply_chip [0]" cfg] a by (auto simp: sample_zg_fields)
  moreover have "spi_log b = [([0xa0, 1, 1, 0, 0], False), (air_frame (uip_buf ?a) 14, True), ([0xc0], True)]"
    by (subst b) (simp add: sample_zg_fields)
  ultimately have "frame = air_frame (uip_buf ?a) 14" using a' by simp
  then have "length frame = 14" by (simp add: length_air_frame sample_zg_fields)
  then have "chip_message (reply_chip (rx_indication [0, 9] (take 6 frame) [9, 9, 9, 9, 9, 9] [0, 0, 0, 0] (drop 6 frame))) ?s =
      Some (rx_indication [0, 9] (take 6 frame) [9, 9, 9, 9, 9, 9] [0, 0, 0, 0] (drop 6 frame))"
    by (intro reply_chip_message) (simp_all add: rx_indication_def)
  from rx[OF this] a' show "\<exists>a' frame s'. zg_drv_process (reply_chip [0]) cfg ?a = Some a' \<and>
    spi_log a' = [([0xa0, 1, 1, 0, 0], False), (frame, True), ([0xc0], True)] \<and>
    zg_drv_process (reply_chip (rx_indication [0, 9] (take 6 frame) [9, 9, 9, 9, 9, 9] [0, 0, 0, 0] (drop 6 frame))) cfg ?s = Some s' \<and>
    take 14 (uip_buf s') = [1, 2, 3, 4, 5, 6, 9, 9, 9, 9, 9, 9, 8, 6] \<and> fst (network_read s') = 20"
    by blast
qed

section \<open>Joining the network\<close>

definition config_ok :: "wifi_config \<Rightarrow> bool" where
  "config_ok cfg \<longleftrightarrow> 0 \<in> set (ssid cfg) \<and> 0 \<in> set (security_data cfg) \<and> 52 \<le> length (security_data cfg)"

definition request_sent :: "u8 \<Rightarrow> zg \<Rightarrow> zg \<Rightarrow> bool" where
  "request_sent sub s s' \<longleftrightarrow> length (uip_buf s') = 4002 \<and> requests (spi_log s') = requests (spi_log s) @ [sub] \<and>
     s' = s\<lparr>uip_buf := uip_buf s', spi_log := spi_log s', zg_drv_state := 5\<rparr>"

lemma c_strncpy_ok: "0 \<in> set xs \<Longrightarrow> \<exists>ys. c_strncpy xs n = Some ys \<and> length ys = n"
  by (simp add: c_strncpy_def)

text \<open>A request under construction: the buffer begins with the command and the subtype.\<close>

definition written :: "u8 \<Rightarrow> zg \<Rightarrow> zg \<Rightarrow> bool" where
  "written sub s t \<longleftrightarrow> t = s\<lparr>uip_buf := uip_buf t\<rparr> \<and> length (uip_buf t) = 4002 \<and> uip_buf t ! 0 = 0xb0 \<and> uip_buf t ! 2 = sub"

lemma written_fields:
  assumes "written sub s t"
  shows "ssid_len t = ssid_len s" "wpa_psk_key t = wpa_psk_key s"
proof -
  have t: "t = s\<lparr>uip_buf := uip_buf t\<rparr>" using assms by (simp add: written_def)
  show "ssid_len t = ssid_len s" "wpa_psk_key t = wpa_psk_key s" by (subst t, simp)+
qed

lemma write_command:
  assumes "length (uip_buf s) = 4002" "length bs \<le> 4002 - 3"
  shows "\<exists>t. set_buf 0 (0xb0 # 2 # sub # bs) s = Some t \<and> written sub s t"
  using assms by (simp add: zg_bus written_def nth_put)

lemma write_more:
  assumes "written sub s t" "3 \<le> a" "a + length bs \<le> 4002"
  shows "\<exists>t'. set_buf a bs t = Some t' \<and> written sub s t'"
proof -
  have "set_buf a bs t = Some (t\<lparr>uip_buf := put_block (uip_buf t) a bs\<rparr>)"
    using assms by (simp add: zg_bus written_def)
  moreover have "t\<lparr>uip_buf := put_block (uip_buf t) a bs\<rparr> = s\<lparr>uip_buf := put_block (uip_buf t) a bs\<rparr>"
    using assms(1) unfolding written_def by (elim conjE) (erule ssubst, simp)
  ultimately show ?thesis using assms by (simp add: written_def nth_put)
qed

lemma take_put_first: "0 < length m \<Longrightarrow> take (Suc 0) (put_block m 0 [x]) = [x]"
  by (cases m) (simp_all add: put_block_def)

lemma mgmt_send_ok:
  assumes "written sub s t" "3 \<le> n" "n \<le> 4002"
  shows "\<exists>s'. mgmt_send chip n t = Some s' \<and> request_sent sub s s'"
proof -
  have t: "length (uip_buf t) = 4002" "uip_buf t ! 0 = 0xb0" "uip_buf t ! 2 = sub" "t = s\<lparr>uip_buf := uip_buf t\<rparr>"
    using assms(1) by (simp_all add: written_def)
  have "take n (uip_buf t) \<noteq> []" using t(1) assms(2) by auto
  then have hd: "hd (take n (uip_buf t)) = 0xb0" "take n (uip_buf t) \<noteq> []" "take n (uip_buf t) ! 2 = sub"
    using t assms by (simp_all add: hd_conv_nth)
  then have req: "requests (spi_log t @ [(take n (uip_buf t), True), ([0xc0], True)]) = requests (spi_log t) @ [sub]"
    by (simp add: requests_def)
  have "\<exists>s'. mgmt_send chip n t = Some s' \<and> request_sent sub t s'"
    using t(1) assms(2,3) req by (simp add: mgmt_send_def zg_bus request_sent_def take_put_first)
  moreover have "request_sent sub t s' \<Longrightarrow> request_sent sub s s'" for s'
    by (subst (asm) t(4)) (simp add: request_sent_def)
  ultimately show ?thesis by blast
qed

lemma get_mac_sent:
  assumes "length (uip_buf s) = 4002"
  shows "\<exists>s'. get_mac chip s = Some s' \<and> request_sent 16 s s'"
proof -
  obtain t where "set_buf 0 [0xb0, 2, 16, 0, 1] s = Some t" "written 16 s t"
    using write_command[OF assms, of "[0, 1]" 16] by auto
  with mgmt_send_ok[of 16 s t 5 chip] show ?thesis by (simp add: get_mac_def)
qed

lemma enable_sent:
  assumes "length (uip_buf s) = 4002"
  shows "\<exists>s'. enable_conn_manage chip s = Some s' \<and> request_sent 20 s s'"
proof -
  obtain t where "set_buf 0 [0xb0, 2, 20, 1, 10, 0x13, 0] s = Some t" "written 20 s t"
    using write_command[OF assms, of "[1, 10, 0x13, 0]" 20] by auto
  with mgmt_send_ok[of 20 s t 7 chip] show ?thesis by (simp add: enable_conn_manage_def)
qed

lemma start_conn_sent:
  assumes "length (uip_buf s) = 4002" "config_ok cfg"
  shows "\<exists>s'. start_conn chip cfg s = Some s' \<and> request_sent 19 s s'"
proof -
  obtain name where name: "c_strncpy (ssid cfg) 32 = Some name" "length name = 32"
    using assms(2) c_strncpy_ok by (auto simp: config_ok_def)
  obtain a where a: "set_buf 0 [0xb0, 2, 19] s = Some a" "written 19 s a"
    using write_command[OF assms(1), of "[]" 19] by auto
  obtain b where b: "set_buf 3 [if security_type cfg < 4 then security_type cfg else security_type cfg - 2, ssid_len a] a = Some b" "written 19 s b"
    using write_more[OF a(2), of 3 "[if security_type cfg < 4 then security_type cfg else security_type cfg - 2, ssid_len a]"] by auto
  obtain c where c: "set_buf 5 name b = Some c" "written 19 s c" using write_more[OF b(2), of 5 name] name(2) by auto
  obtain d where d: "set_buf 37 [0, 0] c = Some d" "written 19 s d" using write_more[OF c(2), of 37 "[0, 0]"] by auto
  obtain e where e: "(if wireless_mode cfg = 1 then set_buf 39 [1] d else if wireless_mode cfg = 2 then set_buf 39 [2] d else Some d) = Some e"
    "written 19 s e"
    using write_more[OF d(2), of 39 "[1]"] write_more[OF d(2), of 39 "[2]"] d(2)
    by (cases "wireless_mode cfg = 1"; cases "wireless_mode cfg = 2") auto
  from mgmt_send_ok[OF e(2), of 41 chip] show ?thesis
    by (simp add: start_conn_def a(1) b(1) name(1) c(1) d(1) e(1))
qed

lemma install_psk_sent:
  assumes "length (uip_buf s) = 4002" "config_ok cfg" "length (wpa_psk_key s) = 32"
  shows "\<exists>s'. install_psk chip cfg s = Some s' \<and> request_sent 8 s s'"
proof -
  obtain name where name: "c_strncpy (ssid cfg) 32 = Some name" "length name = 32"
    using assms(2) c_strncpy_ok by (auto simp: config_ok_def)
  obtain a where a: "set_buf 0 [0xb0, 2, 8] s = Some a" "written 8 s a"
    using write_command[OF assms(1), of "[]" 8] by auto
  obtain b where b: "set_buf 3 [0, ssid_len a] a = Some b" "written 8 s b" using write_more[OF a(2), of 3 "[0, ssid_len a]"] by auto
  obtain c where c: "set_buf 5 name b = Some c" "written 8 s c" using write_more[OF b(2), of 5 name] name(2) by auto
  obtain d where d: "set_buf 37 (wpa_psk_key c) c = Some d" "written 8 s d"
    using write_more[OF c(2), of 37 "wpa_psk_key c"] written_fields[OF c(2)] assms(3) by auto
  from mgmt_send_ok[OF d(2), of 69 chip] show ?thesis
    by (simp add: install_psk_def zg_write_psk_key_def a(1) b(1) name(1) c(1) d(1))
qed

lemma setup_security_sent:
  assumes "length (uip_buf s) = 4002" "config_ok cfg"
  shows "security_type cfg = 1 \<Longrightarrow> \<exists>s'. setup_security chip cfg s = Some s' \<and> request_sent 10 s s'"
    and "security_type cfg \<in> {2, 3} \<Longrightarrow> \<exists>s'. setup_security chip cfg s = Some s' \<and> request_sent 12 s s'"
proof -
  obtain name where name: "c_strncpy (ssid cfg) 32 = Some name" "length name = 32"
    using assms(2) c_strncpy_ok by (auto simp: config_ok_def)
  obtain phrase where phrase: "c_strncpy (security_data cfg) 64 = Some phrase" "length phrase = 64"
    using assms(2) c_strncpy_ok by (auto simp: config_ok_def)
  obtain n where n: "c_strlen (security_data cfg) = Some n" using assms(2) by (simp add: config_ok_def c_strlen_def)
  obtain key where key: "mem_read (security_data cfg) 0 52 = Some key" "length key = 52"
    using assms(2) by (simp add: config_ok_def mem_read_def)
  {
    assume t: "security_type cfg = 1"
    obtain a where a: "set_buf 0 [0xb0, 2, 10] s = Some a" "written 10 s a"
      using write_command[OF assms(1), of "[]" 10] by auto
    obtain b where b: "set_buf 3 [3, 13, 0, ssid_len a] a = Some b" "written 10 s b" using write_more[OF a(2), of 3 "[3, 13, 0, ssid_len a]"] by auto
    obtain c where c: "set_buf 7 name b = Some c" "written 10 s c" using write_more[OF b(2), of 7 name] name(2) by auto
    obtain d where d: "set_buf 39 key c = Some d" "written 10 s d" using write_more[OF c(2), of 39 key] key(2) by auto
    from mgmt_send_ok[OF d(2), of 91 chip] show "\<exists>s'. setup_security chip cfg s = Some s' \<and> request_sent 10 s s'"
      using t by (simp add: setup_security_def zg_write_wep_key_def a(1) b(1) name(1) c(1) key(1) d(1))
  next
    assume t: "security_type cfg \<in> {2, 3}"
    obtain a where a: "set_buf 0 [0xb0, 2, 12] s = Some a" "written 12 s a"
      using write_command[OF assms(1), of "[]" 12] by auto
    obtain b where b: "set_buf 3 [0, of_nat n, ssid_len a, 0] a = Some b" "written 12 s b" using write_more[OF a(2), of 3 "[0, of_nat n, ssid_len a, 0]"] by auto
    obtain c where c: "set_buf 7 name b = Some c" "written 12 s c" using write_more[OF b(2), of 7 name] name(2) by auto
    obtain d where d: "set_buf 39 phrase c = Some d" "written 12 s d" using write_more[OF c(2), of 39 phrase] phrase(2) by auto
    from mgmt_send_ok[OF d(2), of 103 chip] show "\<exists>s'. setup_security chip cfg s = Some s' \<and> request_sent 12 s s'"
      using t by (auto simp: setup_security_def zg_calc_psk_key_def n a(1) b(1) name(1) c(1) phrase(1) d(1))
  }
qed

text \<open>
  A run of the driver: before each call the module may have a message, and then it has raised its interrupt. The module sends a
  sequence of messages in a run if it answers the interrupt of each call with the message of that call.
\<close>

fun drv_run :: "chip \<Rightarrow> wifi_config \<Rightarrow> u8 list option list \<Rightarrow> zg \<Rightarrow> zg option" where
  "drv_run chip cfg [] s = Some s"
| "drv_run chip cfg (msg # msgs) s = do {
     s \<leftarrow> zg_drv_process chip cfg (if msg = None then s else EINT_IRQHandler s);
     drv_run chip cfg msgs s }"

fun module_sends :: "chip \<Rightarrow> wifi_config \<Rightarrow> u8 list option list \<Rightarrow> zg \<Rightarrow> bool" where
  "module_sends chip cfg [] s = True"
| "module_sends chip cfg (msg # msgs) s =
    ((msg = None \<or> chip_message chip (EINT_IRQHandler s) = msg) \<and>
     (case zg_drv_process chip cfg (if msg = None then s else EINT_IRQHandler s) of None \<Rightarrow> True | Some s' \<Rightarrow> module_sends chip cfg msgs s'))"

text \<open>
  The reference is an automaton on what matters for the association: the state of the driver, whether it is connected, the
  hardware address, the key, and the requests sent so far. It is driven by the messages of the module other than
  received frames: a confirmation of a frame, a confirmation of a request with its result (1 for success), or an indication that the connection was lost or found.
\<close>

type_synonym join_view = "u8 \<times> u8 \<times> u8 list \<times> u8 list \<times> u8 list"

definition join_view :: "zg \<Rightarrow> join_view" where
  "join_view s = (zg_drv_state s, zg_conn_status s, mac s, wpa_psk_key s, requests (spi_log s))"

definition message_ok :: "u8 list \<Rightarrow> bool" where
  "message_ok msg \<longleftrightarrow> 5 \<le> length msg \<and> length msg \<le> 4002 \<and> msg ! 1 \<noteq> 3 \<and>
     (msg ! 1 = 2 \<and> msg ! 3 = 1 \<longrightarrow> (msg ! 2 = 16 \<longrightarrow> 13 \<le> length msg) \<and> (msg ! 2 = 12 \<longrightarrow> 39 \<le> length msg))"

fun abs_message :: "u8 list option \<Rightarrow> join_view \<Rightarrow> join_view" where
  "abs_message None v = v"
| "abs_message (Some msg) (st, conn, addr, key, reqs) =
    (let sub = msg ! 2; data = drop 7 msg; status = (msg ! 3, msg ! 4) in
     if msg ! 1 = 2 \<and> msg ! 3 = 1 then
       (if sub = 16 then (6, conn, take 6 data, key, reqs)
        else if sub = 10 \<or> sub = 8 then (8, conn, addr, key, reqs)
        else if sub = 12 then (7, conn, addr, take 32 data, reqs)
        else if sub = 20 then (3, conn, addr, key, reqs)
        else if sub = 19 then (st, 1, addr, key, reqs)
        else (st, conn, addr, key, reqs))
     else if msg ! 1 = 4 then
       (if sub = 1 \<or> sub = 2 then (3, 0, addr, key, reqs)
        else if sub = 4 \<and> status \<in> {(0, 1), (0, 5)} then (st, 0, addr, key, reqs)
        else if sub = 4 \<and> status \<in> {(0, 2), (0, 6)} then (st, 1, addr, key, reqs)
        else (st, conn, addr, key, reqs))
     else (st, conn, addr, key, reqs))"

fun abs_state :: "wifi_config \<Rightarrow> join_view \<Rightarrow> join_view" where
  "abs_state cfg (st, conn, addr, key, reqs) =
    (if st = 0 then (2, conn, addr, key, reqs)
     else if st = 2 then (5, conn, addr, key, reqs @ [16])
     else if st = 6 then
       (if security_type cfg = 0 then (8, conn, addr, key, reqs)
        else if security_type cfg = 1 then (5, conn, addr, key, reqs @ [10])
        else if security_type cfg = 2 \<or> security_type cfg = 3 then (5, conn, addr, key, reqs @ [12])
        else if security_type cfg = 4 \<or> security_type cfg = 5 then (7, conn, addr, take 32 (security_data cfg), reqs)
        else (st, conn, addr, key, reqs))
     else if st = 7 then (5, conn, addr, key, reqs @ [8])
     else if st = 8 then (5, conn, addr, key, reqs @ [20])
     else if st = 3 then (5, conn, addr, key, reqs @ [19])
     else (st, conn, addr, key, reqs))"

definition abs_step :: "wifi_config \<Rightarrow> u8 list option \<Rightarrow> join_view \<Rightarrow> join_view" where
  "abs_step cfg msg v = abs_state cfg (abs_message msg v)"

definition calm :: "zg \<Rightarrow> bool" where
  "calm s \<longleftrightarrow> length (uip_buf s) = 4002 \<and> length (hdr s) = 5 \<and> intr_valid s = 0 \<and> intr_occured s = 0 \<and> tx_ready s = 0 \<and>
     length (wpa_psk_key s) = 32 \<and> zg_drv_state s \<noteq> 4"

lemma request_sent_view:
  assumes "request_sent sub s s'" "calm s" "join_view s = (st, conn, addr, key, reqs)"
  shows "calm s' \<and> join_view s' = (5, conn, addr, key, reqs @ [sub])"
proof -
  have s': "length (uip_buf s') = 4002" "requests (spi_log s') = requests (spi_log s) @ [sub]"
    "s' = s\<lparr>uip_buf := uip_buf s', spi_log := spi_log s', zg_drv_state := 5\<rparr>"
    using assms(1) by (simp_all add: request_sent_def)
  have "intr_valid s' = intr_valid s" "wpa_psk_key s' = wpa_psk_key s" "zg_drv_state s' = 5" "zg_conn_status s' = zg_conn_status s"
    "mac s' = mac s" "hdr s' = hdr s" "intr_occured s' = intr_occured s" "tx_ready s' = tx_ready s"
    by (subst s'(3), simp)+
  with s'(1,2) assms(2,3) show ?thesis by (auto simp: calm_def join_view_def)
qed

text \<open>A message that the interrupt has put into the buffer.\<close>

lemma two_bytes_eq: "(push_bit 8 (ucast (a :: u8)) OR ucast (b :: u8) :: u16) = ucast n \<longleftrightarrow> a = 0 \<and> b = (n :: u8)"
proof -
  have w: "word16 [b, a] = push_bit 8 (ucast a) OR ucast b" "word16 [n, 0] = ucast n" by (simp_all add: word16_def or.commute)
  have "word16 [b, a] = word16 [n, 0] \<longleftrightarrow> [b, a] = [n, 0]"
    using bytes16_word16[of "[b, a]"] bytes16_word16[of "[n, 0]"] by fastforce
  then show ?thesis by (auto simp: w)
qed

lemma drv_message_refines:
  assumes "message_ok msg" "length b = 4002" "take (length msg) b = msg" "uip_buf s = b" "intr_valid s = 1" "zg_drv_state s \<noteq> 4"
    and "length (wpa_psk_key s) = 32"
  shows "\<exists>t. drv_message s = Some t \<and> join_view t = abs_message (Some msg) (join_view s) \<and> zg_drv_state t \<noteq> 4 \<and>
    length (wpa_psk_key t) = 32 \<and> t = s\<lparr>zg_drv_state := zg_drv_state t, zg_conn_status := zg_conn_status t, mac := mac t,
      wpa_psk_key := wpa_psk_key t, scan_cnt := scan_cnt t, cnf_pending := cnf_pending t, intr_valid := 0\<rparr>"
proof -
  have len: "5 \<le> length msg" "length msg \<le> 4002" "msg ! 1 \<noteq> 3" using assms(1) by (simp_all add: message_ok_def)
  have nth: "b ! i = msg ! i" if "i < length msg" for i using that assms(3) by (metis nth_take)
  have rd: "c_read b 1 = Some (msg ! 1)" "c_read b 2 = Some (msg ! 2)" "c_read b 3 = Some (msg ! 3)" "c_read b 4 = Some (msg ! 4)"
    using len assms(2) nth[of 1] nth[of 2] nth[of 3] nth[of 4] by (simp_all add: c_read_def)
  have data: "mem_read b 7 n = Some (take n (drop 7 msg))" if "7 + n \<le> length msg" for n
  proof -
    have "take n (drop 7 b) = take n (drop 7 (take (length msg) b))" using that by (simp add: drop_take min_def)
    then show ?thesis using that assms(2,3) len by (simp add: mem_read_def)
  qed
  have status: "push_bit 8 (ucast (msg ! 3)) OR ucast (msg ! 4) = (n :: u16) \<longleftrightarrow> msg ! 3 = 0 \<and> msg ! 4 = ucast n" if "n \<in> {1, 2, 5, 6}" for n
    using two_bytes_eq[of "msg ! 3" "msg ! 4" "ucast n"] that by auto
  consider "msg ! 1 = 1" | "msg ! 1 = 2" | "msg ! 1 = 4" | "msg ! 1 \<notin> {1, 2, 3, 4}" using len(3) by blast
  then show ?thesis
  proof cases
    case 2
    then have "msg ! 3 = 1 \<Longrightarrow> msg ! 2 = 16 \<Longrightarrow> 13 \<le> length msg" "msg ! 3 = 1 \<Longrightarrow> msg ! 2 = 12 \<Longrightarrow> 39 \<le> length msg"
      using assms(1) by (simp_all add: message_ok_def)
    with 2 show ?thesis
      using assms(4-7) rd data[of 6] data[of 32] by (auto simp: drv_message_def mgmt_confirm_def join_view_def Let_def)
  next
    case 3
    then show ?thesis
      using assms(4-7) rd status by (auto simp: drv_message_def mgmt_indicate_def join_view_def Let_def)
  next
    case 1
    then show ?thesis
      using assms(4-7) rd by (intro exI[of _ "s\<lparr>cnf_pending := 0, intr_valid := 0\<rparr>"]) (simp add: drv_message_def join_view_def Let_def)
  next
    case 4
    then show ?thesis
      using assms(4-7) rd by (intro exI[of _ "s\<lparr>intr_valid := 0\<rparr>"]) (simp add: drv_message_def join_view_def Let_def)
  qed
qed

lemma drv_state_refines:
  assumes "calm s" "config_ok cfg"
  shows "\<exists>t. drv_state chip cfg s = Some t \<and> calm t \<and> join_view t = abs_state cfg (join_view s)"
proof -
  obtain st conn addr key reqs where v: "join_view s = (st, conn, addr, key, reqs)" by (metis prod_cases5)
  have st: "zg_drv_state s = st" "st \<noteq> 4" using v assms(1) by (auto simp: join_view_def calm_def)
  have buf: "length (uip_buf s) = 4002" "length (wpa_psk_key s) = 32" using assms(1) by (simp_all add: calm_def)
  note sent = request_sent_view[OF _ assms(1) v]
  have key: "mem_read (security_data cfg) 0 32 = Some (take 32 (security_data cfg))" "length (take 32 (security_data cfg)) = 32"
    using assms(2) by (simp_all add: config_ok_def mem_read_def)
  consider "st = 6" | "st = 2" | "st = 7" | "st = 8" | "st = 3" | "st = 0" | "st \<notin> {0, 2, 3, 6, 7, 8}" by blast
  then show ?thesis
  proof cases
    case 1
    consider "security_type cfg = 1" | "security_type cfg \<in> {2, 3}" | "security_type cfg \<notin> {1, 2, 3}" by blast
    then show ?thesis
    proof cases
      case 1
      with \<open>st = 6\<close> setup_security_sent(1)[OF buf(1) assms(2), of chip] sent st v show ?thesis
        by (fastforce simp: drv_state_def)
    next
      case 2
      with \<open>st = 6\<close> setup_security_sent(2)[OF buf(1) assms(2), of chip] sent st v show ?thesis
        by (fastforce simp: drv_state_def)
    next
      case 3
      with \<open>st = 6\<close> st v key assms(1) show ?thesis
        by (auto simp: drv_state_def setup_security_def calm_def join_view_def)
    qed
  next
    case 2
    with get_mac_sent[OF buf(1), of chip] sent st v show ?thesis by (fastforce simp: drv_state_def)
  next
    case 3
    with install_psk_sent[OF buf(1) assms(2) buf(2), of chip] sent st v show ?thesis by (fastforce simp: drv_state_def)
  next
    case 4
    with enable_sent[OF buf(1), of chip] sent st v show ?thesis by (fastforce simp: drv_state_def)
  next
    case 5
    with start_conn_sent[OF buf(1) assms(2), of chip] sent st v show ?thesis by (fastforce simp: drv_state_def)
  next
    case 6
    with st v assms(1) show ?thesis by (auto simp: drv_state_def calm_def join_view_def)
  next
    case 7
    with st v assms(1) show ?thesis by (auto simp: drv_state_def)
  qed
qed

text \<open>One call: the message takes effect, and then the step of the state.\<close>

lemma process_refines:
  assumes "calm s" "msg = None \<or> chip_message chip (EINT_IRQHandler s) = msg" "\<forall>bs. msg = Some bs \<longrightarrow> message_ok bs"
  shows "\<exists>t. zg_drv_process chip cfg (if msg = None then s else EINT_IRQHandler s) = drv_state chip cfg t \<and> calm t \<and>
    join_view t = abs_message msg (join_view s)"
proof (cases msg)
  case None
  with assms(1) show ?thesis by (intro exI[of _ s]) (simp add: zg_drv_process_def drv_message_def calm_def join_view_def)
next
  case (Some bs)
  let ?s = "EINT_IRQHandler s"
  note ok = assms(1)[unfolded calm_def]
  have bs: "chip_message chip ?s = Some bs" "message_ok bs" "length bs \<le> 4002" using assms(2,3) Some by (auto simp: message_ok_def)
  have "length (hdr ?s) = 5" "length (uip_buf ?s) = 4002" using ok by (simp_all add: EINT_IRQHandler_def)
  from zg_process_isr_message(1)[OF this bs(1,3)] obtain u where u: "zg_process_isr chip ?s = Some u" "length (hdr u) = 5"
    "u = ?s\<lparr>uip_buf := bs @ drop (length bs) (uip_buf ?s), hdr := hdr u, spi_log := spi_log u, intr_valid := 1, intr_occured := 0\<rparr>"
    "requests (spi_log u) = requests (spi_log ?s)" by blast
  have f: "uip_buf u = bs @ drop (length bs) (uip_buf s)" "intr_valid u = 1" "zg_drv_state u = zg_drv_state s" "wpa_psk_key u = wpa_psk_key s"
    "mac u = mac s" "zg_conn_status u = zg_conn_status s" "tx_ready u = tx_ready s" "intr_occured u = 0"
    by (subst u(3), simp add: EINT_IRQHandler_def)+
  have view: "join_view u = join_view s" using f u(4) by (simp add: join_view_def EINT_IRQHandler_def)
  have "length (uip_buf u) = 4002" "take (length bs) (uip_buf u) = bs" using ok f(1) bs(3) by simp_all
  with drv_message_refines[OF bs(2) this refl f(2)] ok f(3,4) obtain t where
    t: "drv_message u = Some t" "join_view t = abs_message (Some bs) (join_view u)" "zg_drv_state t \<noteq> 4" "length (wpa_psk_key t) = 32"
    "t = u\<lparr>zg_drv_state := zg_drv_state t, zg_conn_status := zg_conn_status t, mac := mac t,
      wpa_psk_key := wpa_psk_key t, scan_cnt := scan_cnt t, cnf_pending := cnf_pending t, intr_valid := 0\<rparr>" by auto
  have "uip_buf t = uip_buf u" "hdr t = hdr u" "intr_valid t = 0" "intr_occured t = intr_occured u" "tx_ready t = tx_ready u"
    by (subst t(5), simp)+
  then have "calm t" using t(3,4) ok f u(2) \<open>length (uip_buf u) = 4002\<close> by (simp add: calm_def)
  moreover have "zg_drv_process chip cfg ?s = drv_state chip cfg t"
    using ok u(1) t(1) by (simp add: zg_drv_process_def EINT_IRQHandler_def)
  ultimately show ?thesis using Some t(2) view by auto
qed

lemma drv_run_refines:
  assumes "calm s" "config_ok cfg" "\<forall>msg. Some msg \<in> set msgs \<longrightarrow> message_ok msg" "module_sends chip cfg msgs s"
  shows "\<exists>t. drv_run chip cfg msgs s = Some t \<and> calm t \<and> join_view t = fold (abs_step cfg) msgs (join_view s)"
  using assms(1,3,4)
proof (induction msgs arbitrary: s)
  case (Cons msg msgs)
  obtain t where t: "zg_drv_process chip cfg (if msg = None then s else EINT_IRQHandler s) = drv_state chip cfg t" "calm t"
    "join_view t = abs_message msg (join_view s)"
    using process_refines[of s msg chip cfg] Cons.prems by auto
  obtain u where u: "drv_state chip cfg t = Some u" "calm u" "join_view u = abs_state cfg (join_view t)"
    using drv_state_refines[OF t(2) assms(2)] by blast
  with Cons.IH[OF u(2)] Cons.prems t show ?case by (simp add: abs_step_def split: if_splits)
qed simp

text \<open>
  C25: While no frame is waiting to be sent, the driver behaves as the automaton of the association, for every sequence of calls of \<^verbatim>\<open>zg_drv_process\<close>, with or without a
  message of the module in each: the confirmation of a frame or of a request, positive or not, an indication that the connection was lost or found, or an unknown one;
  only received frames are left out. The state, the requests sent, the connection, the address and the key are those of
  the automaton after the same messages, and no access leaves a buffer.
\<close>

theorem driver_refines_join_automaton:
  assumes "calm s" "config_ok cfg" "\<forall>msg. Some msg \<in> set msgs \<longrightarrow> message_ok msg" "module_sends chip cfg msgs s"
  shows "\<exists>t. drv_run chip cfg msgs s = Some t \<and> join_view t = fold (abs_step cfg) msgs (join_view s)"
  using drv_run_refines[OF assms] by blast

lemma u8_le_5: "(x :: u8) \<le> 5 \<longleftrightarrow> x \<in> {0, 1, 2, 3, 4, 5}"
proof -
  have "x \<le> 5 \<longleftrightarrow> unat x \<in> {0, 1, 2, 3, 4, 5}" by (auto simp: word_le_nat_alt)
  then show ?thesis by (simp add: word_unat_eq_iff)
qed

definition confirm :: "u8 \<Rightarrow> u8 list \<Rightarrow> u8 list" where
  "confirm sub data = [0, 2, sub, 1, 0, 0, 0] @ data"

definition join_confirms :: "u8 \<Rightarrow> u8 list \<Rightarrow> u8 list \<Rightarrow> u8 list option list" where
  "join_confirms sec addr psk =
    [None, None, Some (confirm 16 addr)] @
    (if sec = 0 then [None] else if sec = 1 then [Some (confirm 10 [])]
     else if sec = 2 \<or> sec = 3 then [Some (confirm 12 psk), Some (confirm 8 [])] else [None, Some (confirm 8 [])]) @
    [Some (confirm 20 []), Some (confirm 19 [])]"

definition join_requests :: "u8 \<Rightarrow> u8 list" where
  "join_requests sec = [16] @ (if sec = 0 then [] else if sec = 1 then [10] else if sec = 2 \<or> sec = 3 then [12, 8] else [8]) @ [20, 19]"

text \<open>
  With each of the six kinds of security the driver joins the network when the module confirms its requests: it sends the
  requests of that kind in order and ends connected, with the address of the module and, for WPA, the key that the module has computed.
\<close>

theorem wifi_joins:
  assumes "calm s" "config_ok cfg" "zg_drv_state s = 0" "requests (spi_log s) = []" "security_type cfg \<le> 5"
    and "length addr = 6" "length psk = 32" "module_sends chip cfg (join_confirms (security_type cfg) addr psk) s"
  shows "\<exists>t. drv_run chip cfg (join_confirms (security_type cfg) addr psk) s = Some t \<and>
    zg_conn_status t = 1 \<and> zg_drv_state t = 5 \<and> mac t = addr \<and> requests (spi_log t) = join_requests (security_type cfg) \<and>
    (security_type cfg \<in> {2, 3} \<longrightarrow> wpa_psk_key t = psk)"
proof -
  have "\<forall>msg. Some msg \<in> set (join_confirms (security_type cfg) addr psk) \<longrightarrow> message_ok msg"
    using assms(6,7) by (auto simp: join_confirms_def message_ok_def confirm_def)
  then obtain t where t: "drv_run chip cfg (join_confirms (security_type cfg) addr psk) s = Some t"
    "join_view t = fold (abs_step cfg) (join_confirms (security_type cfg) addr psk) (join_view s)"
    using drv_run_refines[OF assms(1,2)] assms(8) by blast
  have "security_type cfg \<in> {0, 1, 2, 3, 4, 5}" using assms(5) by (simp add: u8_le_5)
  then have "fold (abs_step cfg) (join_confirms (security_type cfg) addr psk) (0, conn, a, key, []) =
      (5, 1, addr, if security_type cfg \<in> {2, 3} then psk else if security_type cfg \<in> {4, 5} then take 32 (security_data cfg) else key,
       join_requests (security_type cfg))" for conn a key
    using assms(6,7) by (auto simp: join_confirms_def join_requests_def abs_step_def confirm_def)
  moreover have "join_view s = (0, zg_conn_status s, mac s, wpa_psk_key s, [])"
    using assms(3,4) by (simp add: join_view_def)
  ultimately show ?thesis using t by (auto simp: join_view_def)
qed

definition sample_config :: wifi_config where
  "sample_config = \<lparr>ssid = [0x68, 0x6f, 0x6d, 0x65, 0], security_data = replicate 12 0x61 @ replicate 52 0, security_type = 3, wireless_mode = 1\<rparr>"

lemma sample_join: "calm (sample_zg [] 0\<lparr>zg_drv_state := 0, tx_ready := 0\<rparr>)" "config_ok sample_config"
  by (simp_all add: calm_def config_ok_def sample_config_def sample_zg_def uip_tcp.defs sample_tcp_fields)

lemma reply_chip_sends:
  assumes "0 < length msg" "length msg \<le> 256" "set msgs \<subseteq> {None, Some msg}"
  shows "module_sends (reply_chip msg) cfg msgs s"
  using assms(3) reply_chip_message[OF assms(1,2)] by (induction msgs arbitrary: s) (auto split: option.split)

theorem driver_refines_join_automaton_witness:
  "\<exists>t. drv_run (reply_chip (confirm 16 [1, 2, 3, 4, 5, 6])) sample_config [None, None, Some (confirm 16 [1, 2, 3, 4, 5, 6])]
      (sample_zg [] 0\<lparr>zg_drv_state := 0, tx_ready := 0\<rparr>) = Some t \<and> requests (spi_log t) = [16, 12] \<and> mac t = [1, 2, 3, 4, 5, 6]"
proof -
  let ?msg = "confirm 16 [1, 2, 3, 4, 5, 6]" and ?s = "sample_zg [] 0\<lparr>zg_drv_state := 0, tx_ready := 0\<rparr>"
  have "join_view ?s = (0, 0, replicate 6 0, replicate 32 0, [])"
    by (simp add: join_view_def requests_def sample_zg_def uip_tcp.defs)
  moreover have "message_ok ?msg" "0 < length ?msg" "length ?msg \<le> 256"
    by (simp_all add: message_ok_def confirm_def)
  ultimately show ?thesis
    using driver_refines_join_automaton[OF sample_join, of "[None, None, Some ?msg]" "reply_chip ?msg"]
      reply_chip_sends[of ?msg "[None, None, Some ?msg]" sample_config ?s]
    by (auto simp: abs_step_def sample_config_def join_view_def confirm_def)
qed

section \<open>Refusals and long messages\<close>

text \<open>A refused request: the result in the confirmation is not that of success.\<close>

definition refusal :: "u8 list \<Rightarrow> bool" where
  "refusal msg \<longleftrightarrow> 5 \<le> length msg \<and> length msg \<le> 4002 \<and> msg ! 1 = 2 \<and> msg ! 3 \<noteq> 1"

text \<open>
  A request that the module refuses is never repeated: after it has sent a request the driver waits, and through any number of
  refusals and calls without a message it sends no request, so that it never becomes connected.
\<close>

theorem refused_request_not_repeated:
  assumes "calm s" "config_ok cfg" "zg_drv_state s = 5" "\<forall>msg. Some msg \<in> set msgs \<longrightarrow> refusal msg" "module_sends chip cfg msgs s"
  shows "\<exists>t. drv_run chip cfg msgs s = Some t \<and> join_view t = join_view s"
proof -
  have "fold (abs_step cfg) msgs (5, v) = (5, v)" for v
    using assms(4)
  proof (induction msgs)
    case (Cons m msgs)
    then have "abs_step cfg m (5, v) = (5, v)"
      by (cases m; cases v) (auto simp: abs_step_def refusal_def Let_def)
    with Cons show ?case by simp
  qed simp
  moreover have "join_view s = (5, zg_conn_status s, mac s, wpa_psk_key s, requests (spi_log s))"
    using assms(3) by (simp add: join_view_def)
  moreover have "\<forall>msg. Some msg \<in> set msgs \<longrightarrow> message_ok msg"
    using assms(4) by (auto simp: refusal_def message_ok_def)
  ultimately show ?thesis using drv_run_refines[OF assms(1,2) _ assms(5)] by auto
qed

text \<open>A message that does not fit is written past the end of the packet buffer.\<close>

lemma long_message_overflows:
  assumes "length (hdr s) = 5" "length (uip_buf s) = 4002" "tx_ready s = 0" "intr_occured s \<noteq> 0"
    and "chip_message chip s = Some msg" "4002 < length msg"
  shows "zg_drv_process chip cfg s = None"
  using zg_process_isr_message(2)[OF assms(1,2,5,6)] assms(3,4) by (simp add: zg_drv_process_def)

end
