(* ===== verification/Stack.thy ===== *)
theory Stack
  imports Zg_Driver Sys_Timer
begin

text \<open>
  The process of the network (\<^verbatim>\<open>WiShield/stack.c\<close>) with its timers (\<^verbatim>\<open>WiShield/timer.c\<close>): a frame that has been received goes through ARP or
  IP and the answer is handed to the driver; otherwise the connections are served when the periodic timer has expired. The clock may advance between two
  readings, so that each test of a timer has a reading of its own. The set-up of the applications in \<^verbatim>\<open>stack_init\<close> is a parameter, and so are the
  addresses of \<^verbatim>\<open>local_ip\<close>, \<^verbatim>\<open>gateway_ip\<close> and \<^verbatim>\<open>subnet_mask\<close>.
\<close>

section \<open>Timers\<close>

record net_timer =
  tm_start :: u32
  tm_interval :: u32

definition timer_set :: "u32 \<Rightarrow> u32 \<Rightarrow> net_timer \<Rightarrow> net_timer" where
  "timer_set now interval t = t\<lparr>tm_interval := interval, tm_start := now\<rparr>"

definition timer_reset :: "net_timer \<Rightarrow> net_timer" where
  "timer_reset t = t\<lparr>tm_start := tm_start t + tm_interval t\<rparr>"

definition timer_restart :: "u32 \<Rightarrow> net_timer \<Rightarrow> net_timer" where
  "timer_restart now t = t\<lparr>tm_start := now\<rparr>"

definition timer_expired :: "u32 \<Rightarrow> net_timer \<Rightarrow> bool" where
  "timer_expired now t \<longleftrightarrow> now - tm_start t \<ge> tm_interval t"

section \<open>State\<close>

record stack =
  dev :: zg
  periodic_timer :: net_timer
  arp_timer :: net_timer
  self_arp_timer :: net_timer

abbreviation "CLOCK_SECOND \<equiv> (100 :: u32)"

section \<open>Start\<close>

record ip_config =
  local_ip :: "u8 list"
  gateway_ip :: "u8 list"
  subnet_mask :: "u8 list"

definition uip_ipaddr :: "u8 \<Rightarrow> u8 \<Rightarrow> u8 \<Rightarrow> u8 \<Rightarrow> ipaddr" where
  "uip_ipaddr a b c d = (HTONS (push_bit 8 (ucast a) OR ucast b), HTONS (push_bit 8 (ucast c) OR ucast d))"

definition read_ip :: "u8 list \<Rightarrow> ipaddr option" where
  "read_ip bs = do { a \<leftarrow> c_read bs 0; b \<leftarrow> c_read bs 1; c \<leftarrow> c_read bs 2; d \<leftarrow> c_read bs 3; Some (uip_ipaddr a b c d) }"

definition stack_init :: "(zg \<Rightarrow> zg) \<Rightarrow> ip_config \<Rightarrow> u32 \<times> u32 \<times> u32 \<Rightarrow> stack \<Rightarrow> stack option" where
  "stack_init apps_init cfg = (\<lambda>(now1, now2, now3) st. do {
     eth \<leftarrow> mem_read (mac (dev st)) 0 6;
     let st = st\<lparr>periodic_timer := timer_set now1 (CLOCK_SECOND div 2) (periodic_timer st),
       arp_timer := timer_set now2 (CLOCK_SECOND * 10) (arp_timer st),
       self_arp_timer := timer_set now3 (CLOCK_SECOND * 30) (self_arp_timer st)\<rparr>;
     let z = apps_init ((uip_init (dev st))\<lparr>uip_ethaddr := eth\<rparr>);
     host \<leftarrow> read_ip (local_ip cfg);
     dr \<leftarrow> read_ip (gateway_ip cfg);
     nm \<leftarrow> read_ip (subnet_mask cfg);
     Some (st\<lparr>dev := z\<lparr>uip_hostaddr := host, uip_draddr := dr, uip_netmask := nm\<rparr>\<rparr>) })"

section \<open>Process\<close>

text \<open>A packet that is to be sent gets its Ethernet header and is handed to the driver.\<close>

definition ip_output :: "zg \<Rightarrow> zg option" where
  "ip_output z = (if uip_len z > 0 then do { z \<leftarrow> uip_arp_out z; network_send z } else Some z)"

definition uip_periodic :: "(zg \<Rightarrow> zg) \<Rightarrow> (zg \<Rightarrow> zg) \<Rightarrow> nat \<Rightarrow> zg \<Rightarrow> zg option" where
  "uip_periodic udp_app app i z = uip_process udp_app app 2 (z\<lparr>uip_conn := Some i\<rparr>)"

definition uip_udp_periodic :: "(zg \<Rightarrow> zg) \<Rightarrow> (zg \<Rightarrow> zg) \<Rightarrow> nat \<Rightarrow> zg \<Rightarrow> zg option" where
  "uip_udp_periodic udp_app app i z = uip_process udp_app app 5 (z\<lparr>cur_udp_conn := i\<rparr>)"

definition frame_input :: "(zg \<Rightarrow> zg) \<Rightarrow> (zg \<Rightarrow> zg) \<Rightarrow> zg \<Rightarrow> zg option" where
  "frame_input udp_app app z = do {
     type \<leftarrow> get16 (uip_buf z) 12;
     if type = HTONS 0x0800 then do { z \<leftarrow> uip_process udp_app app 1 z; ip_output z }
     else if type = HTONS 0x0806 then do { z \<leftarrow> uip_arp_arpin z; if uip_len z > 0 then network_send z else Some z }
     else Some z }"

definition serve_connections :: "(zg \<Rightarrow> zg) \<Rightarrow> (zg \<Rightarrow> zg) \<Rightarrow> zg \<Rightarrow> zg option" where
  "serve_connections udp_app app z = do {
     z \<leftarrow> for_each (\<lambda>i z. do { z \<leftarrow> uip_periodic udp_app app i z; ip_output z }) [0..<length (uip_conns z)] z;
     for_each (\<lambda>i z. do { z \<leftarrow> uip_udp_periodic udp_app app i z; ip_output z }) [0..<length (uip_udp_conns z)] z }"

definition stack_process :: "(zg \<Rightarrow> zg) \<Rightarrow> (zg \<Rightarrow> zg) \<Rightarrow> u32 \<times> u32 \<times> u32 \<Rightarrow> stack \<Rightarrow> stack option" where
  "stack_process udp_app app = (\<lambda>(now1, now2, now3) st. do {
     let (n, z) = network_read (dev st);
     let z = z\<lparr>uip_len := n\<rparr>;
     if uip_len z > 0 then do { z \<leftarrow> frame_input udp_app app z; Some (st\<lparr>dev := z\<rparr>) }
     else if timer_expired now1 (periodic_timer st) then do {
       let st = st\<lparr>periodic_timer := timer_reset (periodic_timer st)\<rparr>;
       z \<leftarrow> serve_connections udp_app app z;
       (z, st) \<leftarrow> (if uip_len z = 0 \<and> timer_expired now2 (self_arp_timer st) then do {
           let st = st\<lparr>self_arp_timer := timer_reset (self_arp_timer st)\<rparr>;
           z \<leftarrow> uip_self_arp_out z;
           z \<leftarrow> network_send z;
           Some (z, st) }
         else Some (z, st));
       if timer_expired now3 (arp_timer st)
       then Some (st\<lparr>arp_timer := timer_reset (arp_timer st), dev := uip_arp_timer z\<rparr>)
       else Some (st\<lparr>dev := z\<rparr>) }
     else Some (st\<lparr>dev := z\<rparr>) })"

section \<open>The timers run ten times too fast\<close>

lemma timer_set_expired:
  assumes "e < 2 ^ 32"
  shows "timer_expired (now + of_nat e) (timer_set now i t) \<longleftrightarrow> unat i \<le> e"
    "timer_expired (now + i + of_nat e) (timer_reset (timer_set now i t)) \<longleftrightarrow> unat i \<le> e"
  using assms by (simp_all add: timer_expired_def timer_set_def timer_reset_def word_le_nat_alt unat_of_nat)

text \<open>
  After the start of the network the timer of the connections expires after 50 milliseconds, and 50 milliseconds after that when it is reset, that of the ARP table
  after a second and that of the announcement after 3 seconds. The constant \<^verbatim>\<open>CLOCK_SECOND\<close> is 100, but the clock counts milliseconds, so that each period is a tenth of what
  the code says: half a second, 10 and 30 seconds.
\<close>

theorem network_periods:
  assumes "6 \<le> length (mac (dev st))" "4 \<le> length (local_ip cfg)" "4 \<le> length (gateway_ip cfg)" "4 \<le> length (subnet_mask cfg)"
  shows "\<exists>st'. stack_init apps_init cfg (t1, t2, t3) st = Some st' \<and> (\<forall>e < 2 ^ 32.
    (timer_expired (t1 + of_nat e) (periodic_timer st') \<longleftrightarrow> 50 \<le> e) \<and> (timer_expired (t1 + 50 + of_nat e) (timer_reset (periodic_timer st')) \<longleftrightarrow> 50 \<le> e) \<and>
    (timer_expired (t2 + of_nat e) (arp_timer st') \<longleftrightarrow> 1000 \<le> e) \<and> (timer_expired (t3 + of_nat e) (self_arp_timer st') \<longleftrightarrow> 3000 \<le> e))"
proof -
  have ip: "\<exists>a. read_ip bs = Some a" if "4 \<le> length bs" for bs using that by (auto simp: read_ip_def c_read_def)
  obtain a b c where "read_ip (local_ip cfg) = Some a" "read_ip (gateway_ip cfg) = Some b" "read_ip (subnet_mask cfg) = Some c"
    using ip[OF assms(2)] ip[OF assms(3)] ip[OF assms(4)] by blast
  then obtain st' where "stack_init apps_init cfg (t1, t2, t3) st = Some st'" "periodic_timer st' = timer_set t1 50 (periodic_timer st)"
      "arp_timer st' = timer_set t2 1000 (arp_timer st)" "self_arp_timer st' = timer_set t3 3000 (self_arp_timer st)"
    using assms(1) by (simp add: stack_init_def mem_read_def Let_def)
  then show ?thesis using timer_set_expired by (intro exI[of _ st']) simp
qed

section \<open>An echo request is answered\<close>

lemma network_send_ok:
  assumes "length (uip_buf z) = 4002" "uip_appdata z = 54" "uip_len z > 0" "unat (uip_len z) \<le> 4002"
  shows "network_send z = Some (z\<lparr>zg_buf_len := uip_len z, tx_ready := 1\<rparr>)"
proof -
  have "put_block (uip_buf z) 54 (block (uip_buf z) 54 n) = uip_buf z" if "54 + n \<le> 4002" for n
    using assms(1) that by (intro nth_equalityI) (auto simp: nth_put block_def)
  then show ?thesis
    using assms by (simp add: network_send_def set_buf_def net_mem zg_set_buf_def zg_set_tx_status_def word_le_nat_alt)
qed

lemma arp_out_known:
  assumes "net_ok z" "resolve z = Some eth"
  shows "uip_arp_out z = Some (z\<lparr>uip_buf := eth @ uip_ethaddr z @ [8, 0] @ drop 14 (uip_buf z), uip_len := uip_len z + 14\<rparr>)" "length eth = 6"
proof -
  note ok = assms(1)[unfolded net_ok_def]
  show eth: "length eth = 6"
    using ok assms(2) lookup_length[of z "next_hop z" eth] by (auto simp: resolve_def split: if_splits)
  have "uip_arp_out z = eth_header eth z"
    using ok assms(2) by (auto simp: uip_arp_out_def net_mem resolve_def next_hop_def arp_lookup_def Let_def broadcast_ipaddr_def broadcast_ethaddr_def split: if_splits)
  then show "uip_arp_out z = Some (z\<lparr>uip_buf := eth @ uip_ethaddr z @ [8, 0] @ drop 14 (uip_buf z), uip_len := uip_len z + 14\<rparr>)"
    using eth_header_frame[of z eth] ok eth by simp
qed

text \<open>A new Ethernet header leaves the rest of the frame.\<close>

lemma header_blocks:
  assumes "length h = 14" "14 \<le> a" "14 \<le> length m"
  shows "block (h @ drop 14 m) a n = block m a n" "a < length m \<Longrightarrow> (h @ drop 14 m) ! a = m ! a"
proof -
  have "drop a (h @ drop 14 m) = drop a m" using assms by simp
  then show "block (h @ drop 14 m) a n = block m a n" by (simp add: block_def)
  show "a < length m \<Longrightarrow> (h @ drop 14 m) ! a = m ! a" using assms by (simp add: nth_append)
qed

lemma frame_answered:
  assumes "net_ok z" "ip_packet_ok z" "uip_hostaddr z \<noteq> (0, 0)" "block (uip_buf z) 12 2 = [8, 0]" "uip_buf z ! 23 = 1" "uip_buf z ! 34 = 8"
    and "n = ip_total_length (uip_buf z)" "24 \<le> n" "n \<le> 3988"
    and "src = ip_of (block (uip_buf z) 26 4)" "src \<noteq> (0xffff, 0xffff)" "uip_ipaddr_maskcmp src (uip_hostaddr z) (uip_netmask z)" "arp_lookup src z = Some eth"
  shows "\<exists>z'. frame_input udp_app app z = Some z' \<and> tx_ready z' = 1 \<and> zg_buf_len z' = of_nat (n + 14) \<and>
    uip_buf z' = eth @ uip_ethaddr z @ [8, 0] @ drop 14 (echo_reply z) \<and> length eth = 6"
proof -
  have len: "length (uip_buf z) = 4002" using assms(1) by (simp add: net_ok_def)
  note f = echo_reply_facts[OF len assms(2,6,8,9)]
  define v where "v = z\<lparr>uip_appdata := 54, uip_sappdata := 54\<rparr>\<lparr>uip_len := of_nat n, uip_buf := echo_reply z, uip_flags := 0\<rparr>"
  let ?u = "z\<lparr>uip_appdata := 54, uip_sappdata := 54\<rparr>"
  have "net_ok ?u" "ip_packet_ok ?u" "echo_reply ?u = echo_reply z"
    using assms(1,2) by (simp_all add: net_ok_def ip_packet_ok_def echo_reply_def)
  then have process: "uip_process udp_app app 1 z = Some v"
    using echo_input[of ?u] assms(3,5-7) by (simp add: uip_process_def v_def)
  have v: "net_ok v" "uip_appdata v = 54" "uip_ethaddr v = uip_ethaddr z" using assms(1) f(1) by (simp_all add: v_def net_ok_def)
  have n: "unat (of_nat n :: u16) = n" "unat (of_nat n + 14 :: u16) = n + 14" using assms(9) by (simp_all add: unat_of_nat unat_word_ariths)
  have "next_hop v = src" using f(3) assms(10,12) by (simp add: next_hop_def v_def)
  moreover have "arp_lookup src v = arp_lookup src z" by (simp add: arp_lookup_def v_def)
  ultimately have resolve: "resolve v = Some eth" using f(3) assms(10,11,13) by (simp add: resolve_def v_def)
  let ?w = "v\<lparr>uip_buf := eth @ uip_ethaddr v @ [8, 0] @ drop 14 (uip_buf v), uip_len := uip_len v + 14\<rparr>"
  note out = arp_out_known[OF v(1) resolve]
  have "network_send ?w = Some (?w\<lparr>zg_buf_len := uip_len ?w, tx_ready := 1\<rparr>)"
    using v out(2) n assms(8,9) f(1) by (intro network_send_ok) (simp_all add: v_def net_ok_def word_less_nat_alt)
  moreover have "uip_len v > 0" using n(1) assms(8) by (simp add: v_def word_less_nat_alt)
  ultimately have "ip_output v = Some (?w\<lparr>zg_buf_len := uip_len ?w, tx_ready := 1\<rparr>)" using out(1) by (simp add: ip_output_def)
  moreover have "get16 (uip_buf z) 12 = Some (HTONS 0x0800)" using assms(4) len by (simp add: net_mem word16_def HTONS_def)
  ultimately show ?thesis using process out(2) v(3) by (simp add: frame_input_def v_def)
qed

text \<open>
  C14: A frame with an echo request that the driver has received is answered within one call of the stack: the driver is asked to send a frame to the hardware
  address that the ARP table has for the sender, from the address of this station, with the echo reply for the data of the request.
\<close>

theorem stack_answers_ping:
  assumes "rx_ready (dev st) \<noteq> 0" "z = (dev st)\<lparr>uip_len := zg_buf_len (dev st)\<rparr>" "net_ok z" "ip_packet_ok z" "uip_hostaddr z \<noteq> (0, 0)"
    and "block (uip_buf z) 12 2 = [8, 0]" "uip_buf z ! 23 = 1" "uip_buf z ! 34 = 8" "n = ip_total_length (uip_buf z)" "24 \<le> n" "n \<le> 3988"
    and "src = ip_of (block (uip_buf z) 26 4)" "src \<noteq> (0xffff, 0xffff)" "uip_ipaddr_maskcmp src (uip_hostaddr z) (uip_netmask z)" "arp_lookup src z = Some eth"
  shows "\<exists>st' z'. stack_process udp_app app now st = Some st' \<and> z' = dev st' \<and> tx_ready z' = 1 \<and> unat (zg_buf_len z') = n + 14 \<and>
    take 14 (uip_buf z') = eth @ uip_ethaddr z @ [8, 0] \<and> uip_buf z' ! 34 = 0 \<and> ip_of (block (uip_buf z') 26 4) = uip_hostaddr z \<and> ip_of (block (uip_buf z') 30 4) = src \<and>
    uip_ipchksum (uip_buf z') = Some 0xffff \<and> block (uip_buf z') 38 (n - 24) = block (uip_buf z) 38 (n - 24) \<and>
    (verified (word_sum (block (uip_buf z') 34 (n - 20))) \<longleftrightarrow> verified (word_sum (block (uip_buf z) 34 (n - 20))))"
proof -
  have len: "length (uip_buf z) = 4002" "length (uip_ethaddr z) = 6" using assms(3) by (simp_all add: net_ok_def)
  note f = echo_reply_facts[OF len(1) assms(4,8,10,11)]
  have pos: "uip_len z > 0" using assms(4,9,10) by (simp add: ip_packet_ok_def Let_def word_less_nat_alt)
  have read: "network_read (dev st) = (zg_buf_len (dev st), (dev st)\<lparr>rx_ready := 0\<rparr>)" using assms(1) by (simp add: network_read_def zg_get_rx_status_def)
  let ?z = "(dev st)\<lparr>rx_ready := 0\<rparr>\<lparr>uip_len := zg_buf_len (dev st)\<rparr>"
  have z: "net_ok ?z" "ip_packet_ok ?z" "arp_lookup src ?z = Some eth" "uip_buf ?z = uip_buf z" "uip_hostaddr ?z = uip_hostaddr z"
      "uip_netmask ?z = uip_netmask z" "uip_ethaddr ?z = uip_ethaddr z" "echo_reply ?z = echo_reply z"
    using assms(2-4,15) by (simp_all add: net_ok_def ip_packet_ok_def arp_lookup_def echo_reply_def)
  obtain z' where z': "frame_input udp_app app ?z = Some z'" "tx_ready z' = 1" "zg_buf_len z' = of_nat (n + 14)"
      "uip_buf z' = eth @ uip_ethaddr z @ [8, 0] @ drop 14 (echo_reply z)" "length eth = 6"
    using frame_answered[of ?z n src eth udp_app app] z assms by auto
  have "stack_process udp_app app now st = Some (st\<lparr>dev := z'\<rparr>)"
    using z'(1) pos assms(2) by (cases now) (simp add: stack_process_def read)
  moreover have "unat (zg_buf_len z') = n + 14" using z'(3) assms(11) by (simp add: unat_of_nat del: of_nat_add)
  moreover define h where "h = eth @ uip_ethaddr z @ [8, 0]"
  have h: "length h = 14" "uip_buf z' = h @ drop 14 (echo_reply z)" using z'(4,5) len(2) by (simp_all add: h_def)
  have blk: "\<And>a k. 14 \<le> a \<Longrightarrow> block (uip_buf z') a k = block (echo_reply z) a k" "uip_buf z' ! 34 = echo_reply z ! 34" "take 14 (uip_buf z') = h"
    using header_blocks[OF h(1), of _ "echo_reply z"] f(1) h by simp_all
  moreover have "uip_ipchksum (uip_buf z') = uip_ipchksum (echo_reply z)"
    using blk(1) f(1) h by (simp add: uip_ipchksum_eq)
  ultimately show ?thesis
    using z'(2) f assms(12) by (intro exI[of _ "st\<lparr>dev := z'\<rparr>"] exI[of _ z']) (simp add: h_def)
qed

text \<open>A station that has received an echo request from 192.168.1.3 and knows its hardware address.\<close>

definition sample_timer :: net_timer where
  "sample_timer = \<lparr>tm_start = 0, tm_interval = 0\<rparr>"

definition sample_stack :: stack where
  "sample_stack = \<lparr>dev = (sample_zg sample_ping 42)\<lparr>rx_ready := 1,
       arp_table := \<lparr>e_ipaddr = (0xa8c0, 0x0301), e_ethaddr = [9, 9, 9, 9, 9, 9], e_time = 0\<rparr> # replicate 7 \<lparr>e_ipaddr = (0, 0), e_ethaddr = replicate 6 0, e_time = 0\<rparr>\<rparr>,
     periodic_timer = sample_timer, arp_timer = sample_timer, self_arp_timer = sample_timer\<rparr>"

theorem network_periods_witness:
  "\<exists>st'. stack_init (\<lambda>z. z) \<lparr>local_ip = [192, 168, 1, 2], gateway_ip = [192, 168, 1, 1], subnet_mask = [255, 255, 255, 0]\<rparr> (5, 6, 7) sample_stack = Some st' \<and>
    \<not> timer_expired (5 + 49) (periodic_timer st') \<and> timer_expired (5 + 50) (periodic_timer st')"
proof -
  let ?cfg = "\<lparr>local_ip = [192, 168, 1, 2], gateway_ip = [192, 168, 1, 1], subnet_mask = [255, 255, 255, 0]\<rparr>"
  have "6 \<le> length (mac (dev sample_stack))" by (simp add: sample_stack_def sample_zg_def uip_tcp.defs)
  then obtain st' where "stack_init (\<lambda>z. z) ?cfg (5, 6, 7) sample_stack = Some st'" "\<forall>e < 2 ^ 32. timer_expired (5 + of_nat e) (periodic_timer st') \<longleftrightarrow> 50 \<le> e"
    using network_periods[of sample_stack ?cfg "\<lambda>z. z" 5 6 7] by auto
  moreover from this(2)[rule_format, of 49] this(2)[rule_format, of 50] have "\<not> timer_expired (5 + 49) (periodic_timer st')" "timer_expired (5 + 50) (periodic_timer st')" by simp_all
  ultimately show ?thesis by blast
qed

theorem stack_answers_ping_witness:
  "\<exists>st'. stack_process (\<lambda>z. z) (\<lambda>z. z) (0, 0, 0) sample_stack = Some st' \<and> tx_ready (dev st') = 1 \<and>
    take 14 (uip_buf (dev st')) = [9, 9, 9, 9, 9, 9, 1, 2, 3, 4, 5, 6, 8, 0]"
proof -
  define z where "z = (dev sample_stack)\<lparr>uip_len := zg_buf_len (dev sample_stack)\<rparr>"
  have z: "uip_buf z = sample_ping @ replicate (4002 - length sample_ping) 0" "uip_len z = 42" "uip_hostaddr z = (0xa8c0, 0x0201)" "uip_ethaddr z = [1, 2, 3, 4, 5, 6]"
      "uip_netmask z = (0xffff, 0x00ff)" "rx_ready (dev sample_stack) \<noteq> 0"
      "arp_table z = \<lparr>e_ipaddr = (0xa8c0, 0x0301), e_ethaddr = [9, 9, 9, 9, 9, 9], e_time = 0\<rparr> # replicate 7 \<lparr>e_ipaddr = (0, 0), e_ethaddr = replicate 6 0, e_time = 0\<rparr>"
    by (simp_all add: z_def sample_stack_def sample_zg_def uip_tcp.defs sample_tcp_fields sample_tcp_def uip.defs sample_uip_def net.defs sample_net_def)
  have seven: "replicate 7 x = [x, x, x, x, x, x, x]" for x :: arp_entry by (simp add: numeral_eq_Suc)
  have "net_ok z" using z by (simp add: net_ok_def sample_ping_def arp_table_ok_def entry_in_use_def replicate_6 seven)
  moreover have total: "ip_total_length (uip_buf z) = 28" by (simp add: ip_total_length_def z sample_ping_def)
  moreover have "ip_packet_ok z"
    unfolding ip_packet_ok_def Let_def total by (simp add: z sample_ping_def block_def ip_of_def word16_def verified_def)
  moreover have "block (uip_buf z) 12 2 = [8, 0]" "uip_buf z ! 23 = 1" "uip_buf z ! 34 = 8" "ip_of (block (uip_buf z) 26 4) = (0xa8c0, 0x0301)"
    by (simp_all add: z sample_ping_def block_def ip_of_def word16_def)
  moreover have "uip_ipaddr_maskcmp (0xa8c0, 0x0301) (uip_hostaddr z) (uip_netmask z)" "arp_lookup (0xa8c0, 0x0301) z = Some [9, 9, 9, 9, 9, 9]"
    by (simp_all add: z uip_ipaddr_maskcmp_def arp_lookup_def)
  ultimately show ?thesis
    using stack_answers_ping[OF z(6) z_def, of 28 "(0xa8c0, 0x0301)" "[9, 9, 9, 9, 9, 9]" "\<lambda>z. z" "\<lambda>z. z" "(0, 0, 0)"] z by auto
qed

end
