(* ===== verification/Tcp_Options.thy ===== *)
theory Tcp_Options
  imports Tcp_State
begin

text \<open>
  The options of the segment that opens a connection (\<^verbatim>\<open>WiShield/uip.c\<close>). The position in the option list is a byte: with lengths that stay below
  256 the search ends, but an option whose length makes the position wrap around to the start sends the stack into an endless loop, with a single
  segment. A segment without the option for the segment size leaves the size of the connection as it was, which is zero at first, so that no data can be
  sent.
\<close>

section \<open>The search ends\<close>

definition options_fit :: "u8 list \<Rightarrow> nat \<Rightarrow> bool" where
  "options_fit m limit \<longleftrightarrow> (\<forall>i < limit. m ! (54 + i) \<notin> {0, 1} \<longrightarrow> i + unat (m ! (55 + i)) < 256)"

lemma option_read:
  assumes "length m = 4002" "numeral w < (3000 :: nat)"
  shows "c_read m (numeral w + uint (c :: u8)) = Some (m ! (numeral w + unat c))"
proof -
  have "unat c < 256" by simp
  then have "numeral w + unat c < length m" using assms by linarith
  then have "c_read m (int (numeral w + unat c)) = Some (m ! (numeral w + unat c))" by (simp only: c_read_int if_True)
  then show ?thesis by simp
qed

lemma nat_pos: "nat (numeral w + uint (c :: u8)) = numeral w + unat c"
  by (simp add: nat_add_distrib)

lemma mss_option_returns:
  assumes "length m = 4002" "options_fit m limit" "limit \<le> 40"
  shows "mss_option m limit c \<noteq> None"
proof (induction "limit - unat c" arbitrary: c rule: less_induct)
  case less
  show ?case
  proof (cases "unat c < limit")
    case False
    then show ?thesis by (subst mss_option.simps) simp
  next
    case True
    let ?opt = "m ! (54 + unat c)" and ?n = "m ! (55 + unat c)"
    have IH: "mss_option m limit d \<noteq> None" if "unat d = unat c + x" "x \<noteq> 0" for d x
      using less that True by simp
    have one: "unat (c + 1) = unat c + 1" using True assms(3) by (simp add: unat_add_small)
    have next_pos: "unat (c + ?n) = unat c + unat ?n" if "?opt \<notin> {0, 1}"
      using assms(2) True that by (intro unat_add_small) (auto simp: options_fit_def)
    have "mss_option m limit (c + ?n) \<noteq> None" if "?opt \<notin> {0, 1}" "?n \<noteq> 0"
      using IH[OF next_pos[OF that(1)]] that(2) by (simp add: unat_eq_zero)
    moreover have "mss_option m limit (c + 1) \<noteq> None" using IH[OF one] by simp
    ultimately show ?thesis using True assms(1) by (subst mss_option.simps) (auto simp: option_read)
  qed
qed

lemma options_fit_end: "length m = 4002 \<Longrightarrow> options_fit m (4 * (unat (drop_bit 4 (m ! 46)) - 5)) \<Longrightarrow> options_end m"
proof -
  have "unat (drop_bit 4 (m ! 46)) < 16" using unat_drop_bit[of 4 "m ! 46"] by (simp add: less_mult_imp_div_less)
  then show "length m = 4002 \<Longrightarrow> options_fit m (4 * (unat (drop_bit 4 (m ! 46)) - 5)) \<Longrightarrow> options_end m"
    unfolding options_end_def by (intro impI mss_option_returns) simp_all
qed

section \<open>The search does not end\<close>

text \<open>No-operations, then an option with a length that leads back to the start.\<close>

definition options_wrap :: "u8 list \<Rightarrow> nat \<Rightarrow> nat \<Rightarrow> bool" where
  "options_wrap m limit p \<longleftrightarrow> 0 < p \<and> p < limit \<and> limit \<le> 40 \<and> (\<forall>i < p. m ! (54 + i) = 1) \<and> m ! (54 + p) \<notin> {0, 1, 2} \<and> unat (m ! (55 + p)) = 256 - p"

lemma mss_option_diverges:
  assumes "length m = 4002" "options_wrap m limit p" "unat c \<le> p"
  shows "mss_option m limit c = None"
proof (rule ccontr)
  assume "mss_option m limit c \<noteq> None"
  then obtain r where ret: "mss_option m limit c = Some r" by blast
  have "m = m \<and> limit = limit \<and> unat c \<le> p \<longrightarrow> False"
  proof (rule mss_option.raw_induct[where P = "\<lambda>m' l c r. m' = m \<and> l = limit \<and> unat c \<le> p \<longrightarrow> False", OF _ ret], intro impI)
    fix f m' l c r'
    assume IH: "\<And>m' l c r. f m' l c = Some r \<Longrightarrow> m' = m \<and> l = limit \<and> unat c \<le> p \<longrightarrow> False"
      and eq: "(if unat c < l then do {
         opt \<leftarrow> c_read m' (int (54 + unat c));
         if opt = 0 then Some None
         else if opt = 1 then f m' l (c + 1)
         else do {
           n \<leftarrow> c_read m' (int (55 + unat c));
           if opt = 2 \<and> n = 4 then do {
             hi \<leftarrow> c_read m' (int (56 + unat c));
             lo \<leftarrow> c_read m' (int (57 + unat c));
             Some (Some (push_bit 8 (ucast hi) OR ucast lo)) }
           else if n = 0 then Some None
           else f m' l (c + n) } }
       else Some None) = Some r'"
      and c: "m' = m \<and> l = limit \<and> unat c \<le> p"
    have c': "unat c < limit" "unat c < 40" using c assms(2) by (auto simp: options_wrap_def)
    show False
    proof (cases "unat c = p")
      case True
      have "unat c + unat (m ! (55 + p)) = 256" using True assms(2) c' by (simp add: options_wrap_def)
      then have "c + m ! (55 + p) = 0" by (simp add: word_arith_nat_add)
      moreover have "m ! (55 + p) \<noteq> 0" "m ! (54 + p) \<notin> {0, 1, 2}" using assms(2) c' True by (auto simp: options_wrap_def)
      ultimately show False using eq c c' True assms(1) IH[of m limit 0 r'] by (auto simp: option_read nat_pos split: if_splits)
    next
      case False
      then have "m ! (54 + unat c) = 1" "unat (c + 1) \<le> p" using assms(2) c c' by (auto simp: options_wrap_def unat_add_small)
      with eq c c' assms(1) show False using IH[of m limit "c + 1" r'] by (auto simp: option_read nat_pos)
    qed
  qed
  with assms(3) show False by simp
qed

text \<open>
  C32: A single segment that opens a connection stops the stack for ever: if its options are no-operations followed by an option whose length leads
  the byte-wide position back to the start, the search for the segment size never ends. (Every byte that the search can reach is in the buffer, so
  that the absence of a result means that the loop does not end.)
\<close>

theorem syn_options_hang:
  assumes "tcp_ok s" "uip_tcpchksum (uip_buf s) = Some 0xffff" "conn_find (uip_buf s) (uip_conns s) = Some (length (uip_conns s))"
    and "uip_buf s ! 47 AND TCP_CTL = TCP_SYN" "word16 (block (uip_buf s) 36 2) \<in> set (uip_listenports s)" "free_conn (uip_conns s) 0 None \<noteq> None"
    and "uip_buf s ! 46 AND 0xf0 > 0x50" "options_wrap (uip_buf s) (4 * (unat (drop_bit 4 (uip_buf s ! 46)) - 5)) p"
  shows "tcp_input app s = None \<and> (\<forall>c :: u8. c_read (uip_buf s) (int (57 + unat c)) \<noteq> None)"
proof -
  have len: "length (uip_buf s) = 4002" "length (iss s) = 4" using assms(1) by (simp_all add: tcp_ok_def)
  obtain k where k: "free_conn (uip_conns s) 0 None = Some k" using assms(6) by blast
  have "mss_option (uip_buf s) (4 * (unat (drop_bit 4 (uip_buf s ! 46)) - 5)) 0 = None"
    using mss_option_diverges[OF len(1) assms(8)] by simp
  then have "parse_options k u = None" if "uip_buf u = uip_buf s" for u :: "'a uip_tcp_scheme"
    using that assms(7) len(1) by (simp add: parse_options_def c_read_Some)
  then have "found_listen s = None" using found_listen_eq[OF assms(1) k] by simp
  moreover have "c_read (uip_buf s) (int (57 + unat (c :: u8))) \<noteq> None" for c
    using option_read[OF len(1), of _ c] by simp
  ultimately show ?thesis using assms(2-5) len by (simp add: tcp_input_def tcp_acc net_mem)
qed

text \<open>A segment of 192.168.1.3 for port 80 with the options no-operation and a window scale of 255 bytes.\<close>

definition sample_syn :: "u8 list" where
  "sample_syn = [0, 0, 0, 0, 0, 0, 0, 0, 0, 0, 0, 0, 8, 0] @ [0x45, 0, 0, 44, 0, 0, 0, 0, 64, 6, 0xf7, 0x76, 192, 168, 1, 3, 192, 168, 1, 2] @
     [4, 0, 0, 80, 0, 0, 0, 1, 0, 0, 0, 0, 0x60, 2, 0x10, 0, 0x08, 0x34, 0, 0, 1, 3, 255, 0]"

theorem syn_options_hang_witness:
  "tcp_input echo_app (sample_tcp [closed_conn, closed_conn] sample_syn 58) = None"
proof -
  let ?s = "sample_tcp [closed_conn, closed_conn] sample_syn 58"
  note f = sample_tcp_fields sample_syn_def
  have "tcp_ok ?s" by (rule sample_tcp_ok) (simp_all add: closed_conn_ok sample_syn_def)
  moreover have total: "ip_total_length (uip_buf ?s) = 44" by (simp add: ip_total_length_def f)
  moreover have "verified (pseudo_sum 6 (uip_buf ?s))"
    unfolding pseudo_sum_def total by (simp add: f block_def verified_def)
  ultimately have "uip_tcpchksum (uip_buf ?s) = Some 0xffff" by (subst tcpchksum_verified) (simp_all add: tcp_ok_def)
  moreover have "conn_find (uip_buf ?s) (uip_conns ?s) = Some (length (uip_conns ?s))"
    by (simp add: f conn_match_def closed_conn_def net_mem)
  moreover have "uip_buf ?s ! 47 AND TCP_CTL = TCP_SYN" "uip_buf ?s ! 46 = 0x60" by (simp_all add: f)
  moreover have "word16 (block (uip_buf ?s) 36 2) \<in> set (uip_listenports ?s)" by (simp add: f block_def word16_def)
  moreover have "free_conn (uip_conns ?s) 0 None \<noteq> None" by (simp add: f closed_conn_def)
  moreover have "options_wrap (uip_buf ?s) 4 1" by (simp add: f options_wrap_def)
  ultimately show ?thesis using syn_options_hang[of ?s 1 echo_app] \<open>tcp_ok ?s\<close> by (simp add: drop_bit_eq_div)
qed

section \<open>Without the option no data is sent\<close>

text \<open>With a segment size of zero, what the application wants to send is cut to nothing.\<close>

lemma control_length:
  assumes "tcp_ok u" "k < length (uip_conns u)"
  shows "returns (Option.bind (set_flags f u) (tcp_send_nodata k)) (\<lambda>s'. uip_len s' \<in> {0, 40})"
proof -
  obtain s' where s': "Option.bind (set_flags f u) (tcp_send_nodata k) = Some s'"
    "s' = u\<lparr>uip_len := 40, uip_buf := uip_buf s', ipid := ipid u + 1, uip_flags := 0\<rparr>"
    using control_sent[OF assms, of f] by blast
  from arg_cong[OF s'(2), of uip_len] have "uip_len s' = 40" by simp
  with s'(1) show ?thesis by (simp del: returns_bind)
qed

lemma apprexmit_idle:
  assumes "tcp_ok u" "k < length (uip_conns u)" "uip_slen u = 0"
  shows "returns (apprexmit k u) (\<lambda>s'. uip_len s' \<in> {0, 40})"
proof -
  have "Option.bind (set_flags f (v\<lparr>uip_len := 40\<rparr>)) (tcp_send_noopts k) = Option.bind (set_flags f v) (tcp_send_nodata k)" if "tcp_ok v" for f and v :: "'a uip_tcp_scheme"
    using that by (simp add: tcp_acc tcp_ok_def tcp_send_nodata_def upd_order)
  note this[of "u\<lparr>uip_appdata := uip_sappdata u\<rparr>"]
  with control_length[of "u\<lparr>uip_appdata := uip_sappdata u\<rparr>" k TCP_ACK] assms show ?thesis
    by (auto simp: apprexmit_def get_conn_ok Let_def ip_drop_def simp del: returns_bind)
qed

lemma upd_returns:
  assumes "tcp_ok u" "k < length (uip_conns u)" "conn_ok (f (uip_conns u ! k))"
  shows "returns (upd_conn k f u) (\<lambda>v. tcp_ok v \<and> length (uip_conns v) = length (uip_conns u) \<and> uip_slen v = uip_slen u \<and> uip_conns v ! k = f (uip_conns u ! k))"
  using returns_mono[OF own_change_upd[OF assms(1,2), of f "\<lambda>_ _. True"]] assms by (auto simp: tcp_acc own_change_def conn_change_def)

lemma window_closed:
  assumes "tcp_ok s" "k < length (uip_conns s)" "t_mss (uip_conns s ! k) = 0" "t_len (uip_conns s ! k) = 0"
  shows "returns (if uip_slen s > 0 then send_window k s else Some s) (\<lambda>v. tcp_ok v \<and> k < length (uip_conns v) \<and> uip_slen v = 0)"
proof -
  have small: "conn_ok (c\<lparr>t_len := 0\<rparr>)" if "conn_ok c" for c using that by simp
  have cut: "returns (upd_conn k (\<lambda>c. c\<lparr>t_len := uip_slen (u\<lparr>uip_slen := 0\<rparr>)\<rparr>) (u\<lparr>uip_slen := 0\<rparr>)) (\<lambda>v. tcp_ok v \<and> k < length (uip_conns v) \<and> uip_slen v = 0)"
    if "tcp_ok u" "k < length (uip_conns u)" for u :: "'a uip_tcp_scheme"
    using upd_returns[of "u\<lparr>uip_slen := 0\<rparr>" k "\<lambda>c. c\<lparr>t_len := 0\<rparr>"] that conn_ok_nth[OF that] by (auto elim!: returns_mono)
  obtain u where u: "(if uip_flags s AND UIP_ACKDATA \<noteq> 0 then upd_conn k (\<lambda>c. c\<lparr>t_len := 0\<rparr>) s else Some s) = Some u"
    "tcp_ok u" "length (uip_conns u) = length (uip_conns s)" "uip_slen u = uip_slen s" "t_mss (uip_conns u ! k) = 0" "t_len (uip_conns u ! k) = 0"
    using upd_returns[OF assms(1,2), of "\<lambda>c. c\<lparr>t_len := 0\<rparr>"] small[OF conn_ok_nth[OF assms(1,2)]] assms by (cases "uip_flags s AND UIP_ACKDATA = 0") (auto simp: returns_iff)
  have "send_window k s = upd_conn k (\<lambda>c. c\<lparr>t_len := uip_slen (u\<lparr>uip_slen := 0\<rparr>)\<rparr>) (u\<lparr>uip_slen := 0\<rparr>)" if "uip_slen s > 0"
    using u that assms(2) unfolding send_window_def by (simp add: get_conn_ok Let_def)
  moreover have "uip_slen s = 0" if "\<not> uip_slen s > 0" using that by (simp add: word_gt_0)
  ultimately show ?thesis using cut[of u] u assms by auto
qed

lemma appsend_no_data:
  assumes "tcp_ok s" "k < length (uip_conns s)" "t_mss (uip_conns s ! k) = 0" "t_len (uip_conns s ! k) = 0"
  shows "returns (appsend k s) (\<lambda>s'. uip_len s' \<in> {0, 40})"
proof -
  let ?s = "s\<lparr>uip_slen := 0\<rparr>"
  have s: "tcp_ok ?s" "k < length (uip_conns ?s)" "conn_ok (uip_conns ?s ! k)" using assms conn_ok_nth[OF assms(1,2)] by simp_all
  have control: "returns (Option.bind (upd_conn k f ?s) (\<lambda>u. Option.bind (set_flags g u) (tcp_send_nodata k))) (\<lambda>s'. uip_len s' \<in> {0, 40})" if "conn_ok (f (uip_conns s ! k))" for f g
    using that s by (intro returns_bindI[OF upd_returns] control_length) simp_all
  have idle: "returns (Option.bind (upd_conn k (\<lambda>c. c\<lparr>t_nrtx := 0\<rparr>) v) (apprexmit k)) (\<lambda>s'. uip_len s' \<in> {0, 40})"
    if "tcp_ok v \<and> k < length (uip_conns v) \<and> uip_slen v = 0" for v :: "'a uip_tcp_scheme"
    using that conn_ok_nth[of v k] by (intro returns_bindI[OF upd_returns] apprexmit_idle) simp_all
  show ?thesis
    using control[of "\<lambda>c. c\<lparr>tcpstateflags := UIP_CLOSED\<rparr>"] control[of "\<lambda>c. c\<lparr>t_len := 1, tcpstateflags := UIP_FIN_WAIT_1, t_nrtx := 0\<rparr>"]
      returns_bindI[OF window_closed[OF assms] idle] s(3)
    unfolding appsend_def tcp_send_rst_def tcp_send_finack_def by (simp del: returns_bind)
qed

text \<open>The options of a SYN in the packet hold no segment size: the search of the code ends without one.\<close>

definition no_size_option :: "u8 list \<Rightarrow> bool" where
  "no_size_option m \<longleftrightarrow> (m ! 46 AND 0xf0 > 0x50 \<longrightarrow> mss_option m (4 * (unat (drop_bit 4 (m ! 46)) - 5)) 0 = Some None)"

lemma parse_no_size_option:
  assumes "tcp_ok s" "no_size_option (uip_buf s)"
  shows "parse_options k s = Some s"
  using assms by (simp add: parse_options_def no_size_option_def c_read_Some tcp_ok_def)

text \<open>
  C35: A peer that opens a connection without the option for its segment size, with no options or with others, leaves the
  segment size in the entry of the table as an earlier connection left it, or zero. When it is zero, the window of the peer does not raise it, and whatever the
  application wants to send while nothing is outstanding, no segment with data leaves.
\<close>

theorem no_segment_size_no_data:
  assumes "tcp_ok s" "free_conn (uip_conns s) 0 None = Some k" "no_size_option (uip_buf s)"
  shows "(\<exists>s'. found_listen s = Some s' \<and> tcp_state (uip_conns s' ! k) = UIP_SYN_RCVD \<and>
      t_mss (uip_conns s' ! k) = t_mss (uip_conns s ! k) \<and> initialmss (uip_conns s' ! k) = initialmss (uip_conns s ! k)) \<and>
    (\<forall>u :: ('a) uip_tcp_scheme. tcp_ok u \<and> k < length (uip_conns u) \<and> initialmss (uip_conns u ! k) = 0 \<longrightarrow>
      (\<exists>u'. peer_window k u = Some u' \<and> t_mss (uip_conns u' ! k) = 0) \<and>
      (t_mss (uip_conns u ! k) = 0 \<and> t_len (uip_conns u ! k) = 0 \<longrightarrow> (\<exists>u'. appsend k u = Some u' \<and> uip_len u' \<in> {0, 40})))"
proof -
  note k = free_conn_found(1)[OF assms(2)]
  define c where "c = opened_conn (uip_buf s) (iss s) (uip_conns s ! k)"
  let ?s = "s\<lparr>uip_conn := Some k, uip_conns := (uip_conns s)[k := c]\<rparr>"
  note ok = opened_conn_ok(3)[OF assms(1) k c_def]
  obtain s' where "tcp_send_synack k ?s = Some s'" "uip_conns s' = uip_conns ?s"
    using synack_returns[OF ok] k by (auto simp: returns_iff sent_def)
  moreover have "found_listen s = tcp_send_synack k ?s"
    using found_listen_eq[OF assms(1,2)] parse_no_size_option[OF ok] assms(3) by (simp add: c_def)
  ultimately have "\<exists>s'. found_listen s = Some s' \<and> tcp_state (uip_conns s' ! k) = UIP_SYN_RCVD \<and>
      t_mss (uip_conns s' ! k) = t_mss (uip_conns s ! k) \<and> initialmss (uip_conns s' ! k) = initialmss (uip_conns s ! k)"
    using k by (auto simp: c_def opened_conn_def tcp_state_def)
  moreover have "\<exists>u'. peer_window k u = Some u' \<and> t_mss (uip_conns u' ! k) = 0" if "tcp_ok u" "k < length (uip_conns u)" "initialmss (uip_conns u ! k) = 0"
    for u :: "('a) uip_tcp_scheme"
    using that by (auto simp: peer_window_def tcp_ok_def c_read_Some tcp_acc Let_def word_gt_0)
  moreover have "\<exists>u'. appsend k u = Some u' \<and> uip_len u' \<in> {0, 40}"
    if "tcp_ok u" "k < length (uip_conns u)" "t_mss (uip_conns u ! k) = 0" "t_len (uip_conns u ! k) = 0" for u :: "('a) uip_tcp_scheme"
    using appsend_no_data[OF that] by (simp add: returns_iff)
  ultimately show ?thesis by blast
qed

text \<open>A SYN with the option no-operation, and an entry that was never used.\<close>

theorem no_segment_size_no_data_witness:
  "\<exists>s'. found_listen (sample_tcp [closed_conn] (replicate 46 0 @ [0x60, 2, 0, 0, 0, 0, 0, 0, 1, 1, 1, 0]) 0) = Some s' \<and> t_mss (uip_conns s' ! 0) = 0"
proof -
  let ?s = "sample_tcp [closed_conn] (replicate 46 0 @ [0x60, 2, 0, 0, 0, 0, 0, 0, 1, 1, 1, 0]) 0"
  have "tcp_ok ?s" by (rule sample_tcp_ok) (simp_all add: closed_conn_ok)
  moreover have "free_conn (uip_conns ?s) 0 None = Some 0" "t_mss (uip_conns ?s ! 0) = 0"
    by (simp_all add: sample_tcp_fields closed_conn_def)
  moreover have "no_size_option (uip_buf ?s)"
    by (simp add: no_size_option_def sample_tcp_fields nth_append mss_option.simps c_read_Some drop_bit_eq_div)
  ultimately show ?thesis using no_segment_size_no_data[of ?s 0] by auto
qed

section \<open>Lengths that the peer claims\<close>

text \<open>
  An urgent pointer beyond the data of a segment gives the application data outside of the packet buffer: the length wraps around, and the data
  that the application is told to read ends more than 65000 bytes after the start of the buffer, which has 4002.
\<close>

theorem urgent_pointer_overrun:
  assumes "tcp_ok s" "uip_buf s ! 47 AND TCP_URG \<noteq> 0" "uip_appdata s = 54"
    and "unat (uip_len s) < 256 * unat (uip_buf s ! 52) + unat (uip_buf s ! 53)"
  shows "\<exists>s'. skip_urgent s = Some s' \<and> uip_len s' > 0 \<and> uip_appdata s' + unat (uip_len s') = 65590 + unat (uip_len s) \<and> mem_read (uip_buf s') (uip_appdata s') (unat (uip_len s')) = None"
proof -
  let ?p = "push_bit 8 (ucast (uip_buf s ! 52)) OR ucast (uip_buf s ! 53) :: u16"
  have len: "length (uip_buf s) = 4002" using assms(1) by (simp add: tcp_ok_def)
  have p: "unat ?p = 256 * unat (uip_buf s ! 52) + unat (uip_buf s ! 53)"
    using unat_two_bytes[of "uip_buf s ! 52" "uip_buf s ! 53"] by (subst disjunctive_add[symmetric]) (auto simp: bit_simps not_bit_u8)
  then have "unat (uip_len s - ?p) = 65536 + unat (uip_len s) - unat ?p"
    using assms(4) by (simp add: unat_sub_if_size word_size)
  moreover have "unat ?p < 65536" using unsigned_less[of ?p, where ?'a = nat] by simp
  ultimately show ?thesis
    using assms(2,3) len p assms(4) by (simp add: skip_urgent_def tcp_acc c_read_Some mem_read_def word_less_nat_alt)
qed

theorem urgent_pointer_overrun_witness:
  "\<exists>s'. skip_urgent (sample_tcp [closed_conn] (replicate 47 0 @ [TCP_URG OR TCP_ACK, 0, 0, 0, 0, 1, 0]) 4\<lparr>uip_appdata := 54\<rparr>) = Some s' \<and>
    uip_appdata s' + unat (uip_len s') = 65594"
proof -
  let ?s = "sample_tcp [closed_conn] (replicate 47 0 @ [TCP_URG OR TCP_ACK, 0, 0, 0, 0, 1, 0]) 4\<lparr>uip_appdata := 54\<rparr>"
  have "tcp_ok (sample_tcp [closed_conn] (replicate 47 0 @ [TCP_URG OR TCP_ACK, 0, 0, 0, 0, 1, 0]) 4)" by (rule sample_tcp_ok) (simp_all add: closed_conn_ok)
  then have "tcp_ok ?s" by simp
  moreover have "uip_buf ?s ! 47 AND TCP_URG \<noteq> 0" "uip_buf ?s ! 52 = 1" "uip_buf ?s ! 53 = 0" "uip_len ?s = 4"
    by (simp_all add: sample_tcp_fields nth_append)
  ultimately show ?thesis using urgent_pointer_overrun[of ?s] by auto
qed

end
