(* ===== verification/Tcp_Stream.thy ===== *)
theory Tcp_Stream
  imports Tcp_State
begin

text \<open>
  What a TCP connection of \<^verbatim>\<open>WiShield/uip.c\<close> does over a sequence of segments and timer ticks: it is opened by the three segments of the handshake,
  it is given up when its first segment is not acknowledged, and it hands the data of the peer to the application in order, whatever is lost,
  repeated or out of order on the way.
\<close>

section \<open>A connection that is never acknowledged\<close>

fun timer_ticks :: "(('a) uip_tcp_scheme \<Rightarrow> ('a) uip_tcp_scheme) \<Rightarrow> nat \<Rightarrow> nat \<Rightarrow> ('a) uip_tcp_scheme \<Rightarrow> ('a) uip_tcp_scheme option" where
  "timer_ticks app k 0 s = Some s"
| "timer_ticks app k (Suc n) s = Option.bind (timer_ticks app k n s) (tcp_event app (Timer k))"

text \<open>The timer and the number of repetitions of the opening segment, after a tick.\<close>

fun tick_pair :: "nat \<times> nat \<Rightarrow> nat \<times> nat" where
  "tick_pair (t, n) = (if t = 0 then (3 * 2 ^ min n 4, Suc n) else (t - 1, n))"

definition waits :: "nat \<times> nat \<Rightarrow> tcp_conn \<Rightarrow> bool" where
  "waits p c \<longleftrightarrow> tcpstateflags c = UIP_SYN_RCVD \<and> t_len c = 1 \<and> unat (t_timer c) = fst p \<and> unat (t_nrtx c) = snd p"

lemma rexmit_limit_syn: "waits (t, n) c \<Longrightarrow> n \<le> 5 \<Longrightarrow> rexmit_limit c \<longleftrightarrow> n = 5"
  by (auto simp: waits_def rexmit_limit_def word_unat_eq_iff)

lemma backoff: "unat (push_bit (if n > 4 then 4 else unat n) (3 :: u8)) = 3 * 2 ^ min (unat n) 4" if "unat n < 5" for n :: u8
proof -
  have "unat n \<in> {0, 1, 2, 3, 4}" using that by auto
  moreover have "\<not> n > 4" using that by (simp add: word_less_nat_alt)
  ultimately show ?thesis by auto
qed

text \<open>What a tick does with such a connection.\<close>

definition syn_tick ::
  "(('a) uip_tcp_scheme \<Rightarrow> ('a) uip_tcp_scheme) \<Rightarrow> nat \<Rightarrow> ('a) uip_tcp_scheme \<Rightarrow> ('a) uip_tcp_scheme option" where
  "syn_tick app k u = do {
       s \<leftarrow> upd_conn k (\<lambda>c. c\<lparr>t_timer := t_timer c - 1\<rparr>) u;
       if t_timer (uip_conns u ! k) \<noteq> 0 then Some (ip_drop s)
       else if rexmit_limit (uip_conns u ! k) then do {
         s \<leftarrow> upd_conn k (\<lambda>c. c\<lparr>tcpstateflags := UIP_CLOSED\<rparr>) s;
         tcp_send_rst k (app (s\<lparr>uip_flags := UIP_TIMEDOUT\<rparr>)) }
       else do {
         s \<leftarrow> upd_conn k (\<lambda>c. c\<lparr>t_timer := push_bit (if t_nrtx c > 4 then 4 else unat (t_nrtx c)) 3, t_nrtx := t_nrtx c + 1\<rparr>) s;
         tcp_send_synack k s } }"

lemma waiting_timer:
  assumes "tcp_ok u" "k < length (uip_conns u)" "waits (t, n) (uip_conns u ! k)" "n \<le> 5" "\<not> (t = 0 \<and> n = 5)"
  shows "returns (syn_tick app k u) (own_change k (\<lambda>_. waits (tick_pair (t, n))) u)"
proof -
  let ?c = "uip_conns u ! k"
  note ok = conn_ok_nth[OF assms(1,2)]
  have w: "tcpstateflags ?c = UIP_SYN_RCVD" "t_len ?c = 1" "unat (t_timer ?c) = t" "unat (t_nrtx ?c) = n" using assms(3) by (simp_all add: waits_def)
  have first: "returns (upd_conn k (\<lambda>c. c\<lparr>t_timer := t_timer c - 1\<rparr>) u) (own_change k (\<lambda>c c'. c' = c\<lparr>t_timer := t_timer c - 1\<rparr>) u)"
    using assms(1,2) ok by (intro own_change_upd) simp_all
  show ?thesis
  proof (cases "t = 0")
    case False
    then have t: "t_timer ?c \<noteq> 0" "unat (t_timer ?c - 1) = t - 1" using w(3) by (auto simp: unat_sub word_le_nat_alt)
    have "returns (upd_conn k (\<lambda>c. c\<lparr>t_timer := t_timer c - 1\<rparr>) u) (own_change k (\<lambda>_. waits (tick_pair (t, n))) u)"
      using assms(1,2) ok w t False by (intro own_change_upd) (simp_all add: waits_def)
    then have "returns (Option.bind (upd_conn k (\<lambda>c. c\<lparr>t_timer := t_timer c - 1\<rparr>) u) (\<lambda>s. Some (ip_drop s))) (own_change k (\<lambda>_. waits (tick_pair (t, n))) u)"
      by (rule own_bind_sent) (use assms(2) in simp_all)
    with t(1) show ?thesis by (simp add: syn_tick_def del: returns_bind)
  next
    case True
    then have n: "n < 5" "t_timer ?c = 0" "\<not> rexmit_limit ?c" using assms(3-5) w(3) rexmit_limit_syn[OF assms(3,4)] by (auto simp: unat_eq_zero)
    have again: "returns (Option.bind (upd_conn k (\<lambda>c. c\<lparr>t_timer := push_bit (if t_nrtx c > 4 then 4 else unat (t_nrtx c)) 3, t_nrtx := t_nrtx c + 1\<rparr>) v) (tcp_send_synack k))
        (own_change k (\<lambda>c c'. c' = c\<lparr>t_timer := push_bit (if t_nrtx c > 4 then 4 else unat (t_nrtx c)) 3, t_nrtx := t_nrtx c + 1\<rparr>) v)"
      if "tcp_ok v" "k < length (uip_conns v)" for v :: "'a uip_tcp_scheme"
      using that conn_ok_nth[OF that] by (intro own_bind_sent own_change_upd synack_returns) simp_all
    have "unat (t_nrtx ?c + 1) = Suc n" using w(4) n(1) by (simp add: unat_add_small)
    then have "waits (tick_pair (t, n)) (?c\<lparr>t_timer := push_bit (if t_nrtx ?c > 4 then 4 else unat (t_nrtx ?c)) 3, t_nrtx := t_nrtx ?c + 1\<rparr>)"
      using True w n(1) backoff[of "t_nrtx ?c"] by (simp add: waits_def del: if_split)
    then have "returns (Option.bind (upd_conn k (\<lambda>c. c\<lparr>t_timer := t_timer c - 1\<rparr>) u)
        (\<lambda>s. Option.bind (upd_conn k (\<lambda>c. c\<lparr>t_timer := push_bit (if t_nrtx c > 4 then 4 else unat (t_nrtx c)) 3, t_nrtx := t_nrtx c + 1\<rparr>) s) (tcp_send_synack k)))
        (own_change k (\<lambda>_. waits (tick_pair (t, n))) u)"
      by (intro own_bind[OF first assms(2) again]) (auto simp: waits_def)
    with n show ?thesis by (simp add: syn_tick_def del: returns_bind if_split)
  qed
qed

lemma timer_start:
  assumes "tcp_ok s" "k < length (uip_conns s)" "waits p (uip_conns s ! k)"
  obtains u where "tcp_ok u" "uip_conn u = Some k" "uip_conns u = uip_conns s" "tcp_event app (Timer k) s = syn_tick app k u"
proof -
  define u where "u = s\<lparr>uip_appdata := 54, uip_sappdata := 54, uip_conn := Some k, iss := inc32 (iss s), uip_len := 0, uip_slen := 0\<rparr>"
  have u: "tcp_ok u" "uip_conn u = Some k" "uip_conns u = uip_conns s" using assms by (simp_all add: u_def tcp_ok_def inc32_def Let_def)
  have "tcp_event app (Timer k) s = tcp_timer app k (s\<lparr>uip_appdata := 54, uip_sappdata := 54, uip_conn := Some k\<rparr>)"
    by (simp add: tcp_event_def)
  also have "\<dots> = syn_tick app k u"
    using u(3) assms(2,3) unfolding tcp_timer_def syn_tick_def tcp_retransmit_def
    by (simp add: Let_def get_conn_ok waits_def cong: if_cong flip: u_def)
  finally show ?thesis using that u by blast
qed

lemma waiting_tick:
  assumes "tcp_ok s" "k < length (uip_conns s)" "waits (t, n) (uip_conns s ! k)" "n \<le> 5" "\<not> (t = 0 \<and> n = 5)"
  shows "\<exists>s'. tcp_event app (Timer k) s = Some s' \<and> tcp_ok s' \<and> length (uip_conns s') = length (uip_conns s) \<and> waits (tick_pair (t, n)) (uip_conns s' ! k)"
proof -
  obtain u where u: "tcp_ok u" "uip_conns u = uip_conns s" and eq: "tcp_event app (Timer k) s = syn_tick app k u"
    using timer_start[OF assms(1-3)] by metis
  have "returns (syn_tick app k u) (own_change k (\<lambda>_. waits (tick_pair (t, n))) u)"
    by (rule waiting_timer) (use u assms in simp_all)
  then obtain s' where s': "syn_tick app k u = Some s'" "own_change k (\<lambda>_. waits (tick_pair (t, n))) u s'" unfolding returns_iff by blast
  from own_changeD[OF s'(2)] u(2) assms(2) eq s'(1) show ?thesis by simp
qed

lemma last_tick:
  assumes "app_keeps app" "tcp_ok s" "k < length (uip_conns s)" "waits (0, 5) (uip_conns s ! k)"
  shows "\<exists>s'. tcp_event app (Timer k) s = Some s' \<and> tcp_ok s' \<and> tcp_state (uip_conns s' ! k) = UIP_CLOSED"
proof -
  obtain u where u: "tcp_ok u" "uip_conn u = Some k" "uip_conns u = uip_conns s" and eq: "tcp_event app (Timer k) s = syn_tick app k u"
    using timer_start[OF assms(2-4)] by metis
  have end_: "t_timer (uip_conns u ! k) = 0" "rexmit_limit (uip_conns u ! k)"
    using assms(4) u(3) rexmit_limit_syn[of 0 5] by (auto simp: waits_def unat_eq_zero)
  have "returns (Option.bind (upd_conn k (\<lambda>c. c\<lparr>t_timer := t_timer c - 1\<rparr>) u)
      (\<lambda>s. Option.bind (upd_conn k (\<lambda>c. c\<lparr>tcpstateflags := UIP_CLOSED\<rparr>) s) (\<lambda>s. tcp_send_rst k (app (s\<lparr>uip_flags := UIP_TIMEDOUT\<rparr>)))))
      (conn_change k (\<lambda>_ c. tcp_state c = UIP_CLOSED) u)"
    by (rule own_conn_bind[OF own_change_upd[where R = "\<lambda>_ _. True"] _ give_up_returns[OF assms(1)]])
       (use u assms conn_ok_nth[of u k] in simp_all)
  with end_ have "returns (syn_tick app k u) (conn_change k (\<lambda>_ c. tcp_state c = UIP_CLOSED) u)" by (simp add: syn_tick_def del: returns_bind)
  then show ?thesis using eq u(3) assms(3) by (auto simp: returns_iff conn_change_def)
qed

lemma timer_ticks_wait:
  assumes "tcp_ok s" "k < length (uip_conns s)" "waits p (uip_conns s ! k)"
    and "\<And>i. i < n \<Longrightarrow> snd ((tick_pair ^^ i) p) \<le> 5 \<and> (tick_pair ^^ i) p \<noteq> (0, 5)"
  shows "\<exists>s'. timer_ticks app k n s = Some s' \<and> tcp_ok s' \<and> length (uip_conns s') = length (uip_conns s) \<and> waits ((tick_pair ^^ n) p) (uip_conns s' ! k)"
  using assms(4)
proof (induction n)
  case 0
  then show ?case using assms by simp
next
  case (Suc n)
  then obtain s' where s': "timer_ticks app k n s = Some s'" "tcp_ok s'" "length (uip_conns s') = length (uip_conns s)" "waits ((tick_pair ^^ n) p) (uip_conns s' ! k)"
    by force
  obtain t m where tm: "(tick_pair ^^ n) p = (t, m)" by fastforce
  have "m \<le> 5" "\<not> (t = 0 \<and> m = 5)" using Suc.prems[of n] tm by auto
  with waiting_tick[of s' k t m app] s' tm assms(2) show ?case by fastforce
qed

lemma tick_pairs: "list_all (\<lambda>i. snd ((tick_pair ^^ i) (3, 0)) \<le> 5 \<and> (tick_pair ^^ i) (3, 0) \<noteq> (0, 5)) [0..<101]" "(tick_pair ^^ 101) (3, 0) = (0, 5)"
  by code_simp+

text \<open>
  C21: A connection whose opening is never acknowledged is given up: with the timer as it is set when the first segment is answered, the answer is repeated five
  times, at growing distances, and at the tick number 102 the connection is closed, and not before. So no number of
  unfinished openings takes the connections for good.
\<close>

theorem half_open_given_up:
  assumes "app_keeps app" "tcp_ok s" "k < length (uip_conns s)" "tcpstateflags (uip_conns s ! k) = UIP_SYN_RCVD" "t_len (uip_conns s ! k) = 1"
    and "t_timer (uip_conns s ! k) = 3" "t_nrtx (uip_conns s ! k) = 0"
  shows "(\<forall>n < 102. \<exists>s'. timer_ticks app k n s = Some s' \<and> tcpstateflags (uip_conns s' ! k) = UIP_SYN_RCVD) \<and>
    (\<exists>s'. timer_ticks app k 102 s = Some s' \<and> tcp_ok s' \<and> tcp_state (uip_conns s' ! k) = UIP_CLOSED)"
proof -
  have start: "waits (3, 0) (uip_conns s ! k)" using assms(4-7) by (simp add: waits_def)
  have pairs: "snd ((tick_pair ^^ i) (3, 0)) \<le> 5 \<and> (tick_pair ^^ i) (3, 0) \<noteq> (0, 5)" if "i < 101" for i
    using tick_pairs(1) that by (simp add: list_all_iff)
  have run: "\<exists>s'. timer_ticks app k n s = Some s' \<and> tcp_ok s' \<and> length (uip_conns s') = length (uip_conns s) \<and> waits ((tick_pair ^^ n) (3, 0)) (uip_conns s' ! k)"
    if "n \<le> 101" for n
    by (rule timer_ticks_wait[OF assms(2,3) start]) (use pairs that in simp)
  obtain s' where s': "timer_ticks app k 101 s = Some s'" "tcp_ok s'" "length (uip_conns s') = length (uip_conns s)" "waits (0, 5) (uip_conns s' ! k)"
    using run[of 101] tick_pairs(2) by auto
  have last: "timer_ticks app k 102 s = tcp_event app (Timer k) s'" using s'(1) timer_ticks.simps(2)[of app k 101 s] by simp
  have "\<exists>s'. timer_ticks app k n s = Some s' \<and> tcpstateflags (uip_conns s' ! k) = UIP_SYN_RCVD" if "n < 102" for n
    using run[of n] that by (auto simp: waits_def)
  moreover have "\<exists>u. timer_ticks app k 102 s = Some u \<and> tcp_ok u \<and> tcp_state (uip_conns u ! k) = UIP_CLOSED"
    unfolding last using last_tick[OF assms(1) s'(2)] s'(3,4) assms(3) by simp
  ultimately show ?thesis by blast
qed

theorem half_open_given_up_witness:
  "\<exists>s'. timer_ticks echo_app 0 102 (sample_tcp [closed_conn\<lparr>tcpstateflags := UIP_SYN_RCVD, t_len := 1, t_timer := 3\<rparr>] [] 0) = Some s' \<and>
    tcp_state (uip_conns s' ! 0) = UIP_CLOSED"
proof -
  let ?s = "sample_tcp [closed_conn\<lparr>tcpstateflags := UIP_SYN_RCVD, t_len := 1, t_timer := 3\<rparr>] [] 0"
  have "tcp_ok ?s" by (rule sample_tcp_ok) (simp_all add: closed_conn_ok)
  then show ?thesis using half_open_given_up[OF echo_app_keeps, of ?s 0] by (auto simp: sample_tcp_fields closed_conn_def)
qed

section \<open>Opening\<close>

definition same_flow :: "u8 list \<Rightarrow> u8 list \<Rightarrow> bool" where
  "same_flow m m' \<longleftrightarrow> block m' 26 4 = block m 26 4 \<and> block m' 34 2 = block m 34 2 \<and> block m' 36 2 = block m 36 2"

definition in_flow :: "u8 list \<Rightarrow> tcp_conn \<Rightarrow> bool" where
  "in_flow m c \<longleftrightarrow> tcpstateflags c \<noteq> UIP_CLOSED \<and> word16 (block m 36 2) = t_lport c \<and> word16 (block m 34 2) = t_rport c \<and> ip_of (block m 26 4) = t_ripaddr c"

lemma conn_match_flow: "length m = 4002 \<Longrightarrow> conn_match m c = Some (in_flow m c)"
  by (simp add: conn_match_def net_mem in_flow_def)

lemma conn_find_new:
  assumes "length m = 4002" "length m' = 4002" "same_flow m m'" "conn_find m cs = Some (length cs)" "k < length cs" "in_flow m c"
  shows "conn_find m' (cs[k := c]) = Some k"
  using assms(4,5)
proof (induction cs arbitrary: k)
  case (Cons d cs)
  have d: "\<not> in_flow m d" "conn_find m cs = Some (length cs)" using Cons.prems(1) assms(1) by (auto simp: conn_match_flow split: if_splits)
  moreover have "in_flow m' x \<longleftrightarrow> in_flow m x" for x using assms(3) by (simp add: in_flow_def same_flow_def)
  ultimately show ?case using Cons assms(2,6) by (cases k) (auto simp: conn_match_flow)
qed simp

lemma parse_options_conn:
  assumes "tcp_ok s" "k < length (uip_conns s)" "options_end (uip_buf s)"
  shows "returns (parse_options k s) (own_change k (\<lambda>c c'. c' = c\<lparr>initialmss := initialmss c', t_mss := t_mss c'\<rparr>) s)"
proof -
  have "46 < length (uip_buf s)" using assms(1) by (simp add: tcp_ok_def)
  moreover have "own_change k (\<lambda>c c'. c' = c\<lparr>initialmss := initialmss c', t_mss := t_mss c'\<rparr>) s s"
    using assms(1) by (intro sent_own) (simp_all add: sent_def same_env_def)
  moreover have "returns (upd_conn k (\<lambda>c. c\<lparr>initialmss := w, t_mss := w\<rparr>) s) (own_change k (\<lambda>c c'. c' = c\<lparr>initialmss := initialmss c', t_mss := t_mss c'\<rparr>) s)" if "w \<le> 3929" for w
    using assms conn_ok_nth[OF assms(1,2)] that by (intro own_change_upd) (simp_all add: conn_ok_def)
  ultimately show ?thesis
    using assms(3) unfolding parse_options_def options_end_def by (auto simp: c_read_Some Let_def split: option.split)
qed

lemma listen_answer:
  assumes "tcp_ok s" "free_conn (uip_conns s) 0 None = Some k" "options_end (uip_buf s)"
  shows "\<exists>s' w v. found_listen s = Some s' \<and> tcp_ok s' \<and> uip_hostaddr s' = uip_hostaddr s \<and>
    uip_conns s' = (uip_conns s)[k := opened_conn (uip_buf s) (iss s) (uip_conns s ! k)\<lparr>initialmss := w, t_mss := v\<rparr>] \<and>
    segment_ok (uip_hostaddr s) (uip_conns s' ! k) (uip_buf s') \<and> uip_buf s' ! 47 = TCP_SYN OR TCP_ACK"
proof -
  note k = free_conn_found(1)[OF assms(2)]
  define c where "c = opened_conn (uip_buf s) (iss s) (uip_conns s ! k)"
  let ?s = "s\<lparr>uip_conn := Some k, uip_conns := (uip_conns s)[k := c]\<rparr>"
  obtain u where u: "parse_options k ?s = Some u" "own_change k (\<lambda>c c'. c' = c\<lparr>initialmss := initialmss c', t_mss := t_mss c'\<rparr>) ?s u"
    using parse_options_conn[OF opened_conn_ok(3)[OF assms(1) k c_def]] k assms(3) by (auto simp: returns_iff)
  have conns: "uip_conns u = (uip_conns s)[k := c\<lparr>initialmss := initialmss (uip_conns u ! k), t_mss := t_mss (uip_conns u ! k)\<rparr>]"
    using u(2) k by (auto simp: own_change_def conn_change_def)
  have u': "tcp_ok u" "k < length (uip_conns u)" "uip_hostaddr u = uip_hostaddr s" using own_changeD[OF u(2)] k by (simp_all add: same_env_def)
  let ?u = "u\<lparr>uip_buf := put_block (uip_buf u) 47 [TCP_ACK]\<rparr>"
  have "tcp_send_synack k u = tcp_send_syn k ?u" "tcp_ok ?u" "uip_buf ?u ! 47 = TCP_ACK"
    using u'(1) by (simp_all add: tcp_send_synack_def tcp_acc tcp_ok_def nth_put)
  moreover obtain s' where s': "tcp_send_syn k ?u = Some s'" "s' = ?u\<lparr>uip_len := 44, uip_buf := uip_buf s', ipid := ipid ?u + 1, uip_flags := 0\<rparr>"
      "segment_ok (uip_hostaddr ?u) (uip_conns ?u ! k) (uip_buf s')" "uip_buf s' ! 47 = uip_buf ?u ! 47 OR TCP_SYN"
    using syn_sent[OF \<open>tcp_ok ?u\<close>, of k] u'(2) by auto
  moreover have "uip_conns s' = uip_conns u" "uip_hostaddr s' = uip_hostaddr u" "tcp_ok s'"
    using arg_cong[OF s'(2), of uip_conns] arg_cong[OF s'(2), of uip_hostaddr] arg_cong[OF s'(2), of iss] u'(1) segment_ok_length[OF s'(3)] by (simp_all add: tcp_ok_def)
  ultimately show ?thesis
    using u(1) u'(3) conns found_listen_eq[OF assms(1,2)] by (auto simp: c_def or.commute)
qed

lemma handshake_ack:
  assumes "tcp_ok s" "k < length (uip_conns s)" "tcpstateflags (uip_conns s ! k) = UIP_SYN_RCVD" "t_len (uip_conns s ! k) = 1"
    and "uip_buf s ! 46 = 0x50" "uip_buf s ! 47 = TCP_ACK" "block (uip_buf s) 42 4 = uip_add32 (snd_nxt (uip_conns s ! k)) 1" "uip_len s = 40"
  shows "\<exists>v. tcp_found app k s = appsend k (app v) \<and> uip_flags v = UIP_CONNECTED \<and> uip_conns v = (uip_conns s)[k := uip_conns v ! k] \<and>
    tcpstateflags (uip_conns v ! k) = UIP_ESTABLISHED \<and> snd_nxt (uip_conns v ! k) = uip_add32 (snd_nxt (uip_conns s ! k)) 1 \<and>
    rcv_nxt (uip_conns v ! k) = rcv_nxt (uip_conns s ! k) \<and> t_len (uip_conns v ! k) = 0"
proof -
  let ?c = "uip_conns s ! k"
  let ?u = "s\<lparr>uip_conn := Some k, uip_flags := UIP_ACKDATA, uip_len := 0, uip_conns := (uip_conns s)[k := acked_conn ?c]\<rparr>"
  let ?v = "?u\<lparr>uip_flags := UIP_CONNECTED, uip_conns := (uip_conns s)[k := (acked_conn ?c)\<lparr>tcpstateflags := UIP_ESTABLISHED, t_len := 0\<rparr>], uip_slen := 0\<rparr>"
  have len: "length (uip_buf s) = 4002" using assms(1) by (simp add: tcp_ok_def)
  have acked: "tcpstateflags (acked_conn ?c) = UIP_SYN_RCVD" "snd_nxt (acked_conn ?c) = uip_add32 (snd_nxt ?c) 1" "rcv_nxt (acked_conn ?c) = rcv_nxt ?c"
    using assms(3,4) by (simp_all add: acked_conn_def rtt_estimate_def Let_def)
  have "check_ack k (s\<lparr>uip_conn := Some k, uip_flags := 0, uip_len := 0\<rparr>) = Some ?u"
    using assms(2,4,6,7) len by (simp add: check_ack_def tcp_acc net_mem)
  then have "tcp_found app k s = in_syn_rcvd app k ?u"
    using assms(2,3,5,6,8) len acked(1) by (simp add: tcp_found_def tcp_acc c_read_Some out_of_sequence_def net_mem tcp_switch_def)
  also have "\<dots> = appsend k (app ?v)"
    using assms(2) by (simp add: in_syn_rcvd_def tcp_acc)
  finally show ?thesis using acked assms(2) by (intro exI[of _ ?v]) simp
qed

text \<open>
  C11: A connection to an open port is established by the three segments of the handshake: the first is answered by a segment that verifies, has the initial
  sequence number of this side and acknowledges the number of the peer plus one; the acknowledgement of it makes the connection established, with the next
  numbers of both sides, and the application is told.
\<close>

theorem three_way_handshake:
  assumes "tcp_ok s" "uip_tcpchksum (uip_buf s) = Some 0xffff" "conn_find (uip_buf s) (uip_conns s) = Some (length (uip_conns s))"
    and "uip_buf s ! 47 AND TCP_CTL = TCP_SYN" "word16 (block (uip_buf s) 36 2) \<in> set (uip_listenports s)" "free_conn (uip_conns s) 0 None = Some k" "options_end (uip_buf s)"
    and "length m = 4002" "same_flow (uip_buf s) m" "uip_tcpchksum m = Some 0xffff" "m ! 46 = 0x50" "m ! 47 = TCP_ACK" "block m 42 4 = uip_add32 (iss s) 1"
  shows "\<exists>s' v. tcp_input app s = Some s' \<and> segment_ok (uip_hostaddr s) (uip_conns s' ! k) (uip_buf s') \<and> uip_buf s' ! 47 = TCP_SYN OR TCP_ACK \<and>
    block (uip_buf s') 38 4 = iss s \<and> block (uip_buf s') 42 4 = uip_add32 (block (uip_buf s) 38 4) 1 \<and>
    tcp_event app (Segment m 40) s' = appsend k (app v) \<and> uip_flags v = UIP_CONNECTED \<and> tcpstateflags (uip_conns v ! k) = UIP_ESTABLISHED \<and>
    snd_nxt (uip_conns v ! k) = uip_add32 (iss s) 1 \<and> rcv_nxt (uip_conns v ! k) = uip_add32 (block (uip_buf s) 38 4) 1 \<and> t_len (uip_conns v ! k) = 0"
proof -
  note k = free_conn_found(1)[OF assms(6)]
  have len: "length (uip_buf s) = 4002" using assms(1) by (simp add: tcp_ok_def)
  obtain s' x y where s': "found_listen s = Some s'" "tcp_ok s'" "uip_hostaddr s' = uip_hostaddr s"
      "uip_conns s' = (uip_conns s)[k := opened_conn (uip_buf s) (iss s) (uip_conns s ! k)\<lparr>initialmss := x, t_mss := y\<rparr>]"
      "segment_ok (uip_hostaddr s) (uip_conns s' ! k) (uip_buf s')" "uip_buf s' ! 47 = TCP_SYN OR TCP_ACK"
    using listen_answer[OF assms(1,6,7)] by blast
  then have c: "tcpstateflags (uip_conns s' ! k) = UIP_SYN_RCVD" "t_len (uip_conns s' ! k) = 1" "snd_nxt (uip_conns s' ! k) = iss s"
      "rcv_nxt (uip_conns s' ! k) = uip_add32 (block (uip_buf s) 38 4) 1" "in_flow (uip_buf s) (uip_conns s' ! k)" "k < length (uip_conns s')"
    using k by (simp_all add: opened_conn_def in_flow_def)
  let ?t = "s'\<lparr>uip_appdata := 54, uip_sappdata := 54, uip_buf := m, uip_len := 40\<rparr>"
  have "conn_find m (uip_conns s') = Some k"
    using conn_find_new[OF len assms(8,9,3) k c(5)] s'(4) k by simp
  then have "tcp_event app (Segment m 40) s' = tcp_found app k ?t"
    using assms(10) c(6) by (simp add: tcp_event_def tcp_input_def)
  moreover have "tcp_ok ?t" using s'(2) assms(8) by (simp add: tcp_ok_def)
  moreover have "tcp_input app s = Some s'"
    using assms(2-5) len s'(1) by (simp add: tcp_input_def tcp_acc net_mem)
  ultimately show ?thesis
    using handshake_ack[of ?t k app] assms(11-13) c s'(5,6) by (fastforce simp: segment_ok_def)
qed

text \<open>The first and the third segment of 192.168.1.3 for port 80.\<close>

definition open_segment :: "u8 list" where
  "open_segment = [0, 0, 0, 0, 0, 0, 0, 0, 0, 0, 0, 0, 8, 0] @ [69, 0, 0, 40, 0, 0, 0, 0, 64, 6, 247, 122, 192, 168, 1, 3, 192, 168, 1, 2] @
     [4, 0, 0, 80, 0, 0, 0, 1, 0, 0, 0, 0, 80, 2, 16, 0, 24, 60, 0, 0]"

definition ack_segment :: "u8 list" where
  "ack_segment = [0, 0, 0, 0, 0, 0, 0, 0, 0, 0, 0, 0, 8, 0] @ [69, 0, 0, 40, 0, 0, 0, 0, 64, 6, 247, 122, 192, 168, 1, 3, 192, 168, 1, 2] @
     [4, 0, 0, 80, 0, 0, 0, 2, 0, 0, 1, 1, 80, 16, 16, 0, 23, 44, 0, 0]"

definition in_buffer :: "u8 list \<Rightarrow> u8 list" where
  "in_buffer bs = bs @ replicate (4002 - length bs) 0"

lemma sample_checksums:
  "uip_tcpchksum (in_buffer open_segment) = Some 0xffff" "uip_tcpchksum (in_buffer ack_segment) = Some 0xffff"
proof -
  have total: "ip_total_length (in_buffer open_segment) = 40" "ip_total_length (in_buffer ack_segment) = 40"
    by (simp_all add: ip_total_length_def in_buffer_def open_segment_def ack_segment_def)
  then show "uip_tcpchksum (in_buffer open_segment) = Some 0xffff" "uip_tcpchksum (in_buffer ack_segment) = Some 0xffff"
    by (subst tcpchksum_verified; simp add: total pseudo_sum_def; simp add: in_buffer_def open_segment_def ack_segment_def block_def verified_def)+
qed

lemma sample_buffer: "uip_buf (sample_tcp cs bs n) = in_buffer bs"
  by (simp add: sample_tcp_fields in_buffer_def)

theorem three_way_handshake_witness:
  "\<exists>s' v. tcp_input echo_app (sample_tcp [closed_conn] open_segment 40) = Some s' \<and> block (uip_buf s') 42 4 = [0, 0, 0, 2] \<and>
    tcp_event echo_app (Segment (in_buffer ack_segment) 40) s' = appsend 0 (echo_app v) \<and> tcpstateflags (uip_conns v ! 0) = UIP_ESTABLISHED"
proof -
  let ?s = "sample_tcp [closed_conn] open_segment 40"
  note f = in_buffer_def open_segment_def ack_segment_def
  have ok: "tcp_ok ?s" by (rule sample_tcp_ok) (simp_all add: closed_conn_ok open_segment_def)
  have find: "conn_find (uip_buf ?s) (uip_conns ?s) = Some (length (uip_conns ?s))"
    by (simp add: sample_buffer sample_tcp_fields conn_match_def closed_conn_def net_mem f)
  have port: "word16 (block (uip_buf ?s) 36 2) \<in> set (uip_listenports ?s)"
    by (simp add: sample_tcp_fields sample_buffer f block_def word16_def)
  have free: "free_conn (uip_conns ?s) 0 None = Some 0" by (simp add: sample_tcp_fields closed_conn_def)
  have syn: "uip_buf ?s ! 47 AND TCP_CTL = TCP_SYN" "options_end (uip_buf ?s)" "block (uip_buf ?s) 38 4 = [0, 0, 0, 1]"
    by (simp_all add: sample_buffer options_end_def f block_def)
  have ack: "length (in_buffer ack_segment) = 4002" "same_flow (uip_buf ?s) (in_buffer ack_segment)" "in_buffer ack_segment ! 46 = 0x50"
      "in_buffer ack_segment ! 47 = TCP_ACK" "block (in_buffer ack_segment) 42 4 = uip_add32 (iss ?s) 1"
    by (simp_all add: sample_buffer same_flow_def f block_def sample_tcp_fields uip_add32_def)
  have "uip_add32 [0, 0, 0, 1] 1 = [0, 0, 0, 2]" by (simp add: uip_add32_def)
  then show ?thesis
    using three_way_handshake[OF ok _ find syn(1) port free syn(2) ack(1,2) _ ack(3-5), of echo_app] sample_checksums syn(3)
    by (auto simp: sample_buffer)
qed

section \<open>Data\<close>

text \<open>What the application is given: the stack's part of a state with a segment, for the accepted data.\<close>

definition data_flags :: "u8 list \<Rightarrow> bool" where
  "data_flags m \<longleftrightarrow> m ! 46 = 0x50 \<and> m ! 47 \<in> {TCP_ACK, TCP_ACK OR TCP_PSH}"

lemma established_data:
  fixes s :: "('a) uip_tcp_scheme"
  assumes "tcp_ok s" "k < length (uip_conns s)" "uip_conn s = Some k" "data_flags (uip_buf s)"
    and "acc \<longleftrightarrow> uip_len s > 0 \<and> tcpstateflags (uip_conns s ! k) AND UIP_STOPPED = 0"
  shows "\<exists>w f. w \<le> 3929 \<and> f = (if acc then uip_flags s OR UIP_NEWDATA else uip_flags s) \<and>
    (let c = uip_conns s ! k; v = s\<lparr>uip_flags := f, uip_conns := (uip_conns s)[k := c\<lparr>rcv_nxt := (if acc then uip_add32 (rcv_nxt c) (uip_len s) else rcv_nxt c), t_mss := w\<rparr>]\<rparr> in
     tcp_ok v \<and> in_established app k s = (if f AND 3 \<noteq> 0 then appsend k (app (v\<lparr>uip_slen := 0\<rparr>)) else Some (ip_drop v)))"
proof -
  let ?c = "uip_conns s ! k"
  let ?wnd = "push_bit 8 (ucast (uip_buf s ! 48)) + ucast (uip_buf s ! 49) :: u16"
  let ?w = "if ?wnd > initialmss ?c \<or> ?wnd = 0 then initialmss ?c else ?wnd"
  let ?r = "if acc then uip_add32 (rcv_nxt ?c) (uip_len s) else rcv_nxt ?c"
  let ?f = "if acc then uip_flags s OR UIP_NEWDATA else uip_flags s"
  have len: "length (uip_buf s) = 4002" using assms(1) by (simp add: tcp_ok_def)
  have ok: "conn_ok ?c" using conn_ok_nth[OF assms(1,2)] .
  then have w: "?w \<le> 3929" by (auto simp: conn_ok_def)
  have "conn_ok (?c\<lparr>rcv_nxt := ?r, t_mss := ?w\<rparr>)" using ok w by (simp add: conn_ok_def del: if_split)
  then have v: "tcp_ok (s\<lparr>uip_flags := ?f, uip_conns := (uip_conns s)[k := ?c\<lparr>rcv_nxt := ?r, t_mss := ?w\<rparr>]\<rparr>)"
    using assms(1,2) by (auto simp: tcp_ok_def list_all_length nth_list_update)
  have skip: "skip_urgent s = Some s"
    using assms(4) len by (auto simp: skip_urgent_def tcp_acc c_read_Some data_flags_def)
  have fin: "uip_buf s ! 47 AND TCP_FIN = 0" using assms(4) by (auto simp: data_flags_def)
  have flags: "UIP_NEWDATA OR UIP_ACKDATA = 3" by simp
  have "in_established app k s = (if ?f AND 3 \<noteq> 0 then appsend k (app (s\<lparr>uip_flags := ?f, uip_conns := (uip_conns s)[k := ?c\<lparr>rcv_nxt := ?r, t_mss := ?w\<rparr>]\<rparr>\<lparr>uip_slen := 0\<rparr>))
     else Some (ip_drop (s\<lparr>uip_flags := ?f, uip_conns := (uip_conns s)[k := ?c\<lparr>rcv_nxt := ?r, t_mss := ?w\<rparr>]\<rparr>)))"
  proof -
    have "in_established app k s = do {
       u \<leftarrow> (if acc then uip_add_rcv_nxt (uip_len s) (s\<lparr>uip_flags := uip_flags s OR UIP_NEWDATA\<rparr>) else Some s);
       u \<leftarrow> peer_window k u;
       if uip_flags u AND 3 \<noteq> 0 then appsend k (app (u\<lparr>uip_slen := 0\<rparr>)) else Some (ip_drop u) }"
      using assms(2) len skip fin unfolding in_established_def flags assms(5) by (simp add: tcp_acc del: if_split)
    with assms(2,3) len show ?thesis
      by (cases acc) (simp_all add: tcp_acc uip_add_rcv_nxt_def peer_window_def c_read_Some Let_def del: if_split)
  qed
  with v w show ?thesis by (intro exI[of _ ?w] exI[of _ ?f]) (simp add: Let_def del: if_split)
qed

text \<open>The state with a record of the data that the application has been given.\<close>

record tcp_log = uip_tcp +
  delivered :: "u8 list"

definition log_app :: "(tcp_log \<Rightarrow> tcp_log) \<Rightarrow> tcp_log \<Rightarrow> tcp_log" where
  "log_app app s = (app s)\<lparr>delivered := delivered s @ (if uip_flags s AND UIP_NEWDATA \<noteq> 0 then block (uip_buf s) (uip_appdata s) (unat (uip_len s)) else [])\<rparr>"

lemma log_app_keeps: "app_keeps app \<Longrightarrow> app_keeps (log_app app)"
proof -
  have "conn_change k R s (u\<lparr>delivered := d\<rparr>) = conn_change k R s u" for k R s d and u :: tcp_log
    by (simp add: conn_change_def same_env_def tcp_ok_def)
  then show "app_keeps app \<Longrightarrow> app_keeps (log_app app)" by (simp add: app_keeps_def log_app_def)
qed

lemma delivered_more: "uip_tcp.more s' = uip_tcp.more s \<Longrightarrow> delivered s' = delivered (s :: tcp_log)"
  by (cases s; cases s') simp

lemma log_send:
  assumes "app_keeps app" "tcp_ok v" "uip_conn v = Some k" "k < length (uip_conns v)"
  shows "\<exists>s'. appsend k (log_app app v) = Some s' \<and> tcp_ok s' \<and> length (uip_conns s') = length (uip_conns v) \<and> delivered s' = delivered (log_app app v) \<and>
    rcv_nxt (uip_conns s' ! k) = rcv_nxt (uip_conns v ! k)"
proof -
  obtain c where c: "tcp_ok (log_app app v)" "uip_conns (log_app app v) = (uip_conns v)[k := c]" "app_core (uip_conns v ! k) c"
    using app_keepsD[OF log_app_keeps[OF assms(1)] assms(2-4)] by blast
  then obtain s' where s': "appsend k (log_app app v) = Some s'" "own_change k send_rel (log_app app v) s'"
    using appsend_returns[of "log_app app v" k] assms(4) by (auto simp: returns_iff)
  have "rcv_nxt c = rcv_nxt (uip_conns v ! k)" using c(3) unfolding app_core_def by (metis tcp_conn.select_convs(4) tcp_conn.surjective tcp_conn.update_convs(12,15))
  with s' c own_changeD[OF s'(2)] assms(4) show ?thesis by (auto simp: send_rel_def dest: delivered_more)
qed

text \<open>A segment with data: it is accepted if it is the next one and the application has not stopped the peer.\<close>

definition accepted :: "u8 list \<Rightarrow> nat \<Rightarrow> tcp_conn \<Rightarrow> bool" where
  "accepted m n c \<longleftrightarrow> 0 < n \<and> block m 38 4 = rcv_nxt c \<and> tcpstateflags c AND UIP_STOPPED = 0"

lemma check_ack_data:
  assumes "tcp_ok s" "k < length (uip_conns s)" "uip_flags s = 0"
  shows "\<exists>f c. check_ack k s = Some (s\<lparr>uip_flags := f, uip_conns := (uip_conns s)[k := c]\<rparr>) \<and> f \<in> {0, UIP_ACKDATA} \<and>
    tcp_ok (s\<lparr>uip_flags := f, uip_conns := (uip_conns s)[k := c]\<rparr>) \<and> rcv_nxt c = rcv_nxt (uip_conns s ! k) \<and> tcpstateflags c = tcpstateflags (uip_conns s ! k)"
proof -
  let ?c = "uip_conns s ! k"
  have len: "length (uip_buf s) = 4002" using assms(1) by (simp add: tcp_ok_def)
  have acked: "rcv_nxt (acked_conn ?c) = rcv_nxt ?c" "tcpstateflags (acked_conn ?c) = tcpstateflags ?c" by (simp_all add: acked_conn_def rtt_estimate_def Let_def)
  have "tcp_ok (s\<lparr>uip_flags := UIP_ACKDATA, uip_conns := (uip_conns s)[k := acked_conn ?c]\<rparr>)"
    using assms(1,2) acked_conn_ok(1)[OF conn_ok_nth[OF assms(1,2)]] by (auto simp: tcp_ok_def list_all_length nth_list_update)
  moreover have "s\<lparr>uip_flags := 0, uip_conns := (uip_conns s)[k := ?c]\<rparr> = s" using assms(3) by simp
  ultimately show ?thesis
  proof (cases "uip_buf s ! 47 AND TCP_ACK \<noteq> 0 \<and> t_len ?c \<noteq> 0 \<and> block (uip_buf s) 42 4 = uip_add32 (snd_nxt ?c) (t_len ?c)")
    case True
    with acked assms(2) len \<open>tcp_ok (s\<lparr>uip_flags := _, uip_conns := _\<rparr>)\<close> show ?thesis
      by (intro exI[of _ UIP_ACKDATA] exI[of _ "acked_conn ?c"]) (simp add: check_ack_def tcp_acc net_mem)
  next
    case False
    then have "check_ack k s = Some s" using assms(2) len by (auto simp: check_ack_def tcp_acc net_mem)
    with \<open>s\<lparr>uip_flags := 0, uip_conns := (uip_conns s)[k := ?c]\<rparr> = s\<close> assms(1) show ?thesis
      by (intro exI[of _ 0] exI[of _ ?c]) simp
  qed
qed

lemma established_step:
  assumes "app_keeps app" "tcp_ok s" "k < length (uip_conns s)" "uip_conn s = Some k" "data_flags (uip_buf s)" "uip_flags s \<in> {0, UIP_ACKDATA}" "uip_appdata s = 54"
    and "acc \<longleftrightarrow> uip_len s > 0 \<and> tcpstateflags (uip_conns s ! k) AND UIP_STOPPED = 0"
  shows "\<exists>s'. in_established (log_app app) k s = Some s' \<and> tcp_ok s' \<and> length (uip_conns s') = length (uip_conns s) \<and>
    delivered s' = delivered s @ (if acc then block (uip_buf s) 54 (unat (uip_len s)) else []) \<and>
    rcv_nxt (uip_conns s' ! k) = (if acc then uip_add32 (rcv_nxt (uip_conns s ! k)) (uip_len s) else rcv_nxt (uip_conns s ! k))"
proof -
  let ?c = "uip_conns s ! k"
  define r where "r = (if acc then uip_add32 (rcv_nxt ?c) (uip_len s) else rcv_nxt ?c)"
  define f where "f = (if acc then uip_flags s OR UIP_NEWDATA else uip_flags s)"
  obtain w where w: "tcp_ok (s\<lparr>uip_flags := f, uip_conns := (uip_conns s)[k := ?c\<lparr>rcv_nxt := r, t_mss := w\<rparr>]\<rparr>)"
    and eq: "in_established (log_app app) k s = (if f AND 3 \<noteq> 0
      then appsend k (log_app app (s\<lparr>uip_flags := f, uip_conns := (uip_conns s)[k := ?c\<lparr>rcv_nxt := r, t_mss := w\<rparr>]\<rparr>\<lparr>uip_slen := 0\<rparr>))
      else Some (ip_drop (s\<lparr>uip_flags := f, uip_conns := (uip_conns s)[k := ?c\<lparr>rcv_nxt := r, t_mss := w\<rparr>]\<rparr>)))"
    using established_data[OF assms(2-5,8), of "log_app app"] unfolding Let_def r_def[symmetric] f_def[symmetric] by metis
  let ?v = "s\<lparr>uip_flags := f, uip_conns := (uip_conns s)[k := ?c\<lparr>rcv_nxt := r, t_mss := w\<rparr>]\<rparr>"
  have new: "f AND UIP_NEWDATA \<noteq> 0 \<longleftrightarrow> acc" using assms(6) by (auto simp: f_def)
  let ?u = "?v\<lparr>uip_slen := 0\<rparr>"
  have u: "tcp_ok ?u" "uip_conn ?u = Some k" "k < length (uip_conns ?u)" using w assms(3,4) by simp_all
  have log: "delivered (log_app app ?u) = delivered s @ (if acc then block (uip_buf s) 54 (unat (uip_len s)) else [])"
    using new assms(7) by (simp add: log_app_def)
  show ?thesis
  proof (cases "f AND 3 \<noteq> 0")
    case True
    then show ?thesis using log_send[OF assms(1) u] eq log assms(3) by (auto simp: r_def simp del: if_split)
  next
    case False
    then have "\<not> acc" using assms(6) by (auto simp: f_def)
    with False show ?thesis using eq w assms(3) by (simp add: r_def ip_drop_def tcp_ok_def)
  qed
qed

lemma data_step:
  assumes "app_keeps app" "tcp_ok s" "k < length (uip_conns s)" "tcp_state (uip_conns s ! k) = UIP_ESTABLISHED"
    and "data_flags (uip_buf s)" "unat (uip_len s) = 40 + n" "uip_appdata s = 54"
  shows "\<exists>s'. tcp_found (log_app app) k s = Some s' \<and> tcp_ok s' \<and> length (uip_conns s') = length (uip_conns s) \<and>
    delivered s' = delivered s @ (if accepted (uip_buf s) n (uip_conns s ! k) then block (uip_buf s) 54 n else []) \<and>
    rcv_nxt (uip_conns s' ! k) = (if accepted (uip_buf s) n (uip_conns s ! k) then uip_add32 (rcv_nxt (uip_conns s ! k)) (of_nat n) else rcv_nxt (uip_conns s ! k))"
proof -
  let ?c = "uip_conns s ! k"
  define t where "t = s\<lparr>uip_conn := Some k, uip_flags := 0, uip_len := of_nat n\<rparr>"
  have len: "length (uip_buf s) = 4002" using assms(2) by (simp add: tcp_ok_def)
  have "unat (uip_len s) < 2 ^ 16" using unsigned_less[of "uip_len s", where ?'a = nat] by simp
  then have n: "n < 65496" using assms(6) by simp
  have "uip_len s = of_nat (unat (uip_len s))" by simp
  then have "uip_len s = of_nat (40 + n)" unfolding assms(6) .
  then have t: "s\<lparr>uip_conn := Some k, uip_flags := 0\<rparr>\<lparr>uip_len := uip_len s - ucast (push_bit 2 (drop_bit 4 (uip_buf s ! 46))) - 20\<rparr> = t"
    using assms(5) by (simp add: t_def data_flags_def)
  have t': "tcp_ok t" "uip_buf t = uip_buf s" "uip_conns t = uip_conns s" "uip_flags t = 0" "unat (uip_len t) = n" "delivered t = delivered s" "uip_conn t = Some k" "uip_appdata t = 54"
    using assms(2,7) n by (simp_all add: t_def unat_of_nat)
  define oos where "oos \<longleftrightarrow> 0 < n \<and> block (uip_buf s) 38 4 \<noteq> rcv_nxt ?c"
  have "uip_len t > 0 \<longleftrightarrow> 0 < n" using t'(5) by (auto simp: word_less_nat_alt)
  then have "out_of_sequence k t = Some oos"
    using assms(3-5) len t' by (auto simp: out_of_sequence_def tcp_acc net_mem oos_def tcp_state_def data_flags_def)
  then have found: "tcp_found (log_app app) k s = (if oos then tcp_send_ack k t
      else do { s \<leftarrow> check_ack k t; conn \<leftarrow> get_conn k s; tcp_switch (log_app app) k (tcpstateflags conn AND UIP_TS_MASK) s })"
    using assms(5) len t unfolding tcp_found_def by (auto simp: tcp_acc c_read_Some Let_def data_flags_def)
  show ?thesis
  proof (cases oos)
    case True
    then have "\<not> accepted (uip_buf s) n ?c" by (simp add: oos_def accepted_def)
    with True show ?thesis using control_returns(1)[OF t'(1), of k] assms(3) t' found by (auto simp: returns_iff sent_def dest: delivered_more)
  next
    case False
    obtain f c where u: "check_ack k t = Some (t\<lparr>uip_flags := f, uip_conns := (uip_conns t)[k := c]\<rparr>)" "f \<in> {0, UIP_ACKDATA}"
        "tcp_ok (t\<lparr>uip_flags := f, uip_conns := (uip_conns t)[k := c]\<rparr>)" "rcv_nxt c = rcv_nxt ?c" "tcpstateflags c = tcpstateflags ?c"
      using check_ack_data[OF t'(1) _ t'(4), of k] assms(3) t'(3) by auto
    let ?u = "t\<lparr>uip_flags := f, uip_conns := (uip_conns t)[k := c]\<rparr>"
    have "tcp_found (log_app app) k s = in_established (log_app app) k ?u"
      using False found u assms(3,4) t'(3) by (simp add: tcp_acc tcp_switch_def tcp_state_def)
    moreover have "accepted (uip_buf s) n ?c \<longleftrightarrow> uip_len ?u > 0 \<and> tcpstateflags (uip_conns ?u ! k) AND UIP_STOPPED = 0"
      using False u(5) assms(3) t'(3) \<open>uip_len t > 0 \<longleftrightarrow> 0 < n\<close> by (auto simp: accepted_def oos_def)
    ultimately show ?thesis
      using established_step[OF assms(1) u(3), of k] u(2,4) assms(3,5) t' by (auto simp: t_def)
  qed
qed

text \<open>Segments of a connection arrive one after the other, as long as it is established.\<close>

definition arrive :: "(tcp_log \<Rightarrow> tcp_log) \<Rightarrow> u8 list \<Rightarrow> tcp_log \<Rightarrow> tcp_log option" where
  "arrive app m s = tcp_event (log_app app) (Segment m (of_nat (ip_total_length m))) s"

fun receive :: "(tcp_log \<Rightarrow> tcp_log) \<Rightarrow> nat \<Rightarrow> u8 list list \<Rightarrow> tcp_log \<Rightarrow> tcp_log option" where
  "receive app k [] s = Some s"
| "receive app k (m # ms) s =
    (if tcp_state (uip_conns s ! k) = UIP_ESTABLISHED \<and> conn_find m (uip_conns s) = Some k
     then Option.bind (arrive app m s) (receive app k ms) else Some s)"

definition data_segment :: "u8 list \<Rightarrow> bool" where
  "data_segment m \<longleftrightarrow> length m = 4002 \<and> data_flags m \<and> 40 \<le> ip_total_length m \<and> ip_total_length m \<le> 3988"

text \<open>The segment holds a part of the data, and its number is the position of that part in the stream.\<close>

definition stream_part :: "u8 list \<Rightarrow> nat \<Rightarrow> u8 list \<Rightarrow> bool" where
  "stream_part d isn m \<longleftrightarrow> (\<exists>a \<le> length d. be32 (block m 38 4) = (isn + a) mod 2 ^ 32 \<and>
    block m 54 (ip_total_length m - 40) = take (ip_total_length m - 40) (drop a d) \<and> a + (ip_total_length m - 40) \<le> length d)"

lemma arrive_step:
  assumes "app_keeps app" "tcp_ok s" "k < length (uip_conns s)" "tcp_state (uip_conns s ! k) = UIP_ESTABLISHED" "conn_find m (uip_conns s) = Some k"
    and "data_segment m" "n = ip_total_length m - 40"
    and "acc \<longleftrightarrow> uip_tcpchksum m = Some 0xffff \<and> accepted m n (uip_conns s ! k)"
  shows "\<exists>s'. arrive app m s = Some s' \<and> tcp_ok s' \<and> length (uip_conns s') = length (uip_conns s) \<and>
    delivered s' = delivered s @ (if acc then block m 54 n else []) \<and>
    rcv_nxt (uip_conns s' ! k) = (if acc then uip_add32 (rcv_nxt (uip_conns s ! k)) (of_nat n) else rcv_nxt (uip_conns s ! k))"
proof -
  let ?t = "s\<lparr>uip_appdata := 54, uip_sappdata := 54, uip_buf := m, uip_len := of_nat (ip_total_length m)\<rparr>"
  have m: "length m = 4002" "data_flags m" "40 \<le> ip_total_length m" "ip_total_length m \<le> 3988" using assms(6) by (simp_all add: data_segment_def)
  then have t: "tcp_ok ?t" "unat (uip_len ?t) = 40 + n" using assms(2,7) by (simp_all add: tcp_ok_def unat_of_nat)
  obtain c where c: "uip_tcpchksum m = Some c"
    using upper_layer_chksum_eq[of m 6] m by (auto simp: uip_tcpchksum_def)
  have eq: "arrive app m s = (if c \<noteq> 0xffff then Some (ip_drop ?t) else tcp_found (log_app app) k ?t)"
    using c assms(3,5) by (simp add: arrive_def tcp_event_def tcp_input_def)
  show ?thesis
  proof (cases "c = 0xffff")
    case True
    have "k < length (uip_conns ?t)" "tcp_state (uip_conns ?t ! k) = UIP_ESTABLISHED" "data_flags (uip_buf ?t)" "uip_appdata ?t = 54"
      using assms(3,4) m(2) by simp_all
    from data_step[OF assms(1) t(1) this(1-3) t(2) this(4)] obtain s' where "tcp_found (log_app app) k ?t = Some s'" "tcp_ok s'"
        "length (uip_conns s') = length (uip_conns ?t)" "delivered s' = delivered ?t @ (if accepted (uip_buf ?t) n (uip_conns ?t ! k) then block (uip_buf ?t) 54 n else [])"
        "rcv_nxt (uip_conns s' ! k) = (if accepted (uip_buf ?t) n (uip_conns ?t ! k) then uip_add32 (rcv_nxt (uip_conns ?t ! k)) (of_nat n) else rcv_nxt (uip_conns ?t ! k))"
      by blast
    with True assms(8) eq c show ?thesis by (intro exI[of _ s']) simp
  next
    case False
    then show ?thesis using eq c t(1) assms(8) by (simp add: ip_drop_def)
  qed
qed

lemma position_unique:
  assumes "(i + a) mod 2 ^ 32 = (i + j) mod 2 ^ 32" "a < 2 ^ 32" "j < 2 ^ 32"
  shows "a = (j :: nat)"
proof -
  have "x = y" if "x \<le> y" "(i + x) mod 2 ^ 32 = (i + y) mod 2 ^ 32" "y < 2 ^ 32" for x y :: nat
  proof -
    have "2 ^ 32 dvd (i + y) - (i + x)" using that by (simp only: mod_eq_dvd_iff_nat[symmetric] add_le_cancel_left)
    then have "2 ^ 32 dvd y - x" by simp
    with that show ?thesis by (auto dest: dvd_imp_le)
  qed
  from this[of a j] this[of j a] assms show ?thesis by (cases "a \<le> j") simp_all
qed

lemma receive_prefix:
  assumes "app_keeps app" "tcp_ok s" "k < length (uip_conns s)" "length d < 2 ^ 32"
    and "\<forall>m \<in> set ms. data_segment m \<and> (uip_tcpchksum m = Some 0xffff \<longrightarrow> stream_part d isn m)"
    and "j \<le> length d" "delivered s = take j d" "be32 (rcv_nxt (uip_conns s ! k)) = (isn + j) mod 2 ^ 32"
  shows "\<exists>s' j. receive app k ms s = Some s' \<and> tcp_ok s' \<and> length (uip_conns s') = length (uip_conns s) \<and> delivered s' = take j d"
  using assms(2,3,5-8)
proof (induction ms arbitrary: s j)
  case Nil
  then show ?case by auto
next
  case (Cons m ms)
  let ?c = "uip_conns s ! k"
  define n where "n = ip_total_length m - 40"
  define acc where "acc \<longleftrightarrow> uip_tcpchksum m = Some 0xffff \<and> accepted m n ?c"
  show ?case
  proof (cases "tcp_state ?c = UIP_ESTABLISHED \<and> conn_find m (uip_conns s) = Some k")
    case False
    then show ?thesis using Cons.prems by auto
  next
    case True
    have seg: "data_segment m" using Cons.prems(3) by simp
    obtain s' where s': "arrive app m s = Some s'" "tcp_ok s'" "length (uip_conns s') = length (uip_conns s)"
        "delivered s' = delivered s @ (if acc then block m 54 n else [])"
        "rcv_nxt (uip_conns s' ! k) = (if acc then uip_add32 (rcv_nxt ?c) (of_nat n) else rcv_nxt ?c)"
      using arrive_step[OF assms(1) Cons.prems(1,2) _ _ seg n_def acc_def] True by blast
    have "\<exists>i \<le> length d. delivered s' = take i d \<and> be32 (rcv_nxt (uip_conns s' ! k)) = (isn + i) mod 2 ^ 32"
    proof (cases acc)
      case False
      then show ?thesis using s'(4,5) Cons.prems(4-6) by auto
    next
      case True
      then have "stream_part d isn m" "block m 38 4 = rcv_nxt ?c" using Cons.prems(3) by (auto simp: acc_def accepted_def)
      then obtain a where a: "a \<le> length d" "(isn + j) mod 2 ^ 32 = (isn + a) mod 2 ^ 32" "block m 54 n = take n (drop a d)" "a + n \<le> length d"
        using Cons.prems(6) by (auto simp: stream_part_def n_def)
      then have "a = j" using position_unique[of isn j a] assms(4) Cons.prems(4) by simp
      have "n < 65536" using seg unfolding n_def data_segment_def by linarith
      then have "be32 (uip_add32 (rcv_nxt ?c) (of_nat n)) = (isn + (j + n)) mod 2 ^ 32"
        using uip_add32_correct[of "rcv_nxt ?c" "of_nat n"] tcp_ok_conn[OF Cons.prems(1,2)] Cons.prems(6) by (simp add: unat_of_nat mod_add_left_eq add.assoc)
      then show ?thesis using True s'(4,5) a \<open>a = j\<close> Cons.prems(5) by (intro exI[of _ "j + n"]) (simp add: take_add)
    qed
    then obtain i where "i \<le> length d" "delivered s' = take i d" "be32 (rcv_nxt (uip_conns s' ! k)) = (isn + i) mod 2 ^ 32" by blast
    then show ?thesis using Cons.IH[of s' i] s' Cons.prems True by simp
  qed
qed

text \<open>
  C6: The application gets the data of the peer in order and without gaps: for every sequence of data segments of an established connection,
  without TCP options, with the flags ACK or ACK and PSH and an IP total length between 40 and 3988, whichever are lost, repeated, out of order or damaged, what the application has been given is a beginning of the stream of the peer, with positions modulo
  \<open>2\<^sup>32\<close>; and a segment that carries the next position is given to the application in full, unless it has stopped the peer.
\<close>

theorem stream_in_order:
  assumes "app_keeps app" "tcp_ok s" "k < length (uip_conns s)" "delivered s = []" "length d < 2 ^ 32"
    and "\<forall>m \<in> set ms. data_segment m \<and> (uip_tcpchksum m = Some 0xffff \<longrightarrow> stream_part d (be32 (rcv_nxt (uip_conns s ! k))) m)"
  shows "\<exists>s' j. receive app k ms s = Some s' \<and> tcp_ok s' \<and> delivered s' = take j d \<and>
    (\<forall>m. data_segment m \<and> uip_tcpchksum m = Some 0xffff \<and> conn_find m (uip_conns s') = Some k \<and> tcpstateflags (uip_conns s' ! k) = UIP_ESTABLISHED \<and>
      block m 38 4 = rcv_nxt (uip_conns s' ! k) \<longrightarrow>
      (\<exists>s''. arrive app m s' = Some s'' \<and> delivered s'' = delivered s' @ block m 54 (ip_total_length m - 40)))"
proof -
  obtain s' j where s': "receive app k ms s = Some s'" "tcp_ok s'" "length (uip_conns s') = length (uip_conns s)" "delivered s' = take j d"
    using receive_prefix[OF assms(1-3,5,6), of 0] be32_less[of "rcv_nxt (uip_conns s ! k)"] assms(4) by auto
  have "\<exists>s''. arrive app m s' = Some s'' \<and> delivered s'' = delivered s' @ block m 54 (ip_total_length m - 40)"
    if m: "data_segment m" "uip_tcpchksum m = Some 0xffff" "conn_find m (uip_conns s') = Some k" "tcpstateflags (uip_conns s' ! k) = UIP_ESTABLISHED"
      "block m 38 4 = rcv_nxt (uip_conns s' ! k)" for m
  proof -
    let ?n = "ip_total_length m - 40"
    have k: "k < length (uip_conns s')" "tcp_state (uip_conns s' ! k) = UIP_ESTABLISHED" using assms(3) s'(3) m(4) by (simp_all add: tcp_state_def)
    have "0 < ?n \<longleftrightarrow> uip_tcpchksum m = Some 0xffff \<and> accepted m ?n (uip_conns s' ! k)" using m by (simp add: accepted_def)
    from arrive_step[OF assms(1) s'(2) k m(3,1) refl this] obtain s'' where "arrive app m s' = Some s''"
        "delivered s'' = delivered s' @ (if 0 < ?n then block m 54 ?n else [])" by blast
    moreover have "(if 0 < ?n then block m 54 ?n else []) = block m 54 ?n" by (simp add: block_def)
    ultimately show ?thesis by simp
  qed
  with s' show ?thesis by blast
qed

definition get_segment :: "u8 list" where
  "get_segment = [0, 0, 0, 0, 0, 0, 0, 0, 0, 0, 0, 0, 8, 0] @ [69, 0, 0, 44, 0, 0, 0, 0, 64, 6, 247, 118, 192, 168, 1, 3, 192, 168, 1, 2] @
     [4, 0, 0, 80, 0, 0, 0, 2, 0, 0, 1, 1, 80, 24, 16, 0, 123, 186, 0, 0, 71, 69, 84, 32]"

definition sample_log :: tcp_log where
  "sample_log = uip_tcp.extend (sample_tcp [closed_conn\<lparr>tcpstateflags := UIP_ESTABLISHED, t_lport := 0x5000, t_rport := 4, t_ripaddr := (0xa8c0, 0x0301),
     rcv_nxt := [0, 0, 0, 2], snd_nxt := [0, 0, 1, 1]\<rparr>] [] 0) \<lparr>delivered = []\<rparr>"

theorem stream_in_order_witness:
  "(\<exists>s' j. receive echo_app 0 [in_buffer get_segment, in_buffer get_segment] sample_log = Some s' \<and> delivered s' = take j [71, 69, 84, 32]) \<and>
   (\<exists>s'. arrive echo_app (in_buffer get_segment) sample_log = Some s' \<and> delivered s' = [71, 69, 84, 32])"
proof -
  let ?m = "in_buffer get_segment" and ?d = "[71, 69, 84, 32] :: u8 list"
  note f = in_buffer_def get_segment_def
  have s: "uip_conns sample_log = [closed_conn\<lparr>tcpstateflags := UIP_ESTABLISHED, t_lport := 0x5000, t_rport := 4, t_ripaddr := (0xa8c0, 0x0301),
     rcv_nxt := [0, 0, 0, 2], snd_nxt := [0, 0, 1, 1]\<rparr>]" "delivered sample_log = []" "length (uip_buf sample_log) = 4002" "length (iss sample_log) = 4"
    by (simp_all add: sample_log_def uip_tcp.defs sample_tcp_fields)
  then have ok: "tcp_ok sample_log" by (simp add: tcp_ok_def conn_ok_def closed_conn_def)
  have total: "ip_total_length ?m = 44" by (simp add: ip_total_length_def f)
  have seg: "data_segment ?m" unfolding data_segment_def total by (simp add: data_flags_def f)
  have "stream_part ?d (be32 [0, 0, 0, 2]) ?m" unfolding stream_part_def total by (intro exI[of _ 0]) (simp add: f block_def be32_def)
  with seg have twice: "\<exists>s' j. receive echo_app 0 [?m, ?m] sample_log = Some s' \<and> delivered s' = take j ?d"
    using stream_in_order[OF echo_app_keeps ok, of 0 ?d "[?m, ?m]"] s by auto
  have len: "length ?m = 4002" by (simp add: f)
  have "verified (pseudo_sum 6 ?m)" unfolding pseudo_sum_def total by (simp add: f block_def verified_def)
  then have "uip_tcpchksum ?m = Some 0xffff" using tcpchksum_verified[OF len] total by simp
  moreover have "block ?m 26 4 = [192, 168, 1, 3]" "block ?m 34 2 = [4, 0]" "block ?m 36 2 = [0, 80]" and b: "block ?m 38 4 = [0, 0, 0, 2]" "block ?m 54 4 = ?d"
    by (simp_all add: f block_def)
  then have "conn_find ?m (uip_conns sample_log) = Some 0"
    using s(1) by (simp add: conn_match_flow[OF len] in_flow_def word16_def ip_of_def)
  ultimately have "\<exists>s'. arrive echo_app ?m sample_log = Some s' \<and> delivered s' = ?d"
    using stream_in_order[OF echo_app_keeps ok, of 0 "[]" "[]"] s seg total b by auto
  with twice show ?thesis by blast
qed

end
