(* ===== verification/Spec2Isabelle.thy ===== *)
theory Spec2Isabelle
  imports Uart_Comm Ser_Msg Term_IO Led Usb_Cdc Screen Shell Sys_Timer Rtc Stack Tcp_Options Tcp_Stream
begin

text \<open>
  A verification of the firmware of the Equinox clock (\<^verbatim>\<open>src/Equinox\<close>), a C program for an ARM Cortex-M3 (NXP LPC1758):
  a dial of 60 RGB light-emitting diodes driven by timers and DMA, a console that is reachable over a serial line and over
  USB at the same time, a command interpreter, I2C devices (brightness potentiometer, thermometer), a CAN
  interface with a car stereo display, a calendar clock with summer time, and a wireless network module with the small TCP/IP
  stack uIP.

  \<^bold>\<open>The parts and how they interact.\<close> Characters arrive by the UART interrupt (\<^verbatim>\<open>comm.c\<close>) or in USB packets
  (\<^verbatim>\<open>usb.c\<close> on top of \<^verbatim>\<open>LPCUSB\<close>). Both put them into a queue and into the shared command line; a line end sets
  \<^verbatim>\<open>LINE_READY\<close>, and the main loop gives the line to \<^verbatim>\<open>exec_cmd\<close>, which drives LEDs, I2C devices, display and CAN bus.
  Output (\<^verbatim>\<open>xprintf\<close> over \<^verbatim>\<open>comm_put\<close>) goes to the transmit queues of both ports, which their interrupts empty. The
  millisecond interrupt counts the timeouts, the one-second interrupt of the real-time clock keeps the
  calendar. The wireless driver (\<^verbatim>\<open>g2100.c\<close>) and the stack (\<^verbatim>\<open>uip.c\<close>, \<^verbatim>\<open>uip_arp.c\<close>) share one packet
  buffer: a received frame is put into it by the driver, answered in place by the stack, and handed back to the driver, all
  within \<^verbatim>\<open>stack_process\<close> (\<^verbatim>\<open>stack.c\<close>), which otherwise serves the connections when its timers expire.

  \<^bold>\<open>The theories.\<close>
  \<^item> \<open>Prelude\<close>: words for the C integers, checked array accesses (\<open>c_read\<close>, \<open>c_write\<close>; \<open>None\<close> is an
    access outside the object), loops over a range.
  \<^item> \<open>Bounded_Queue\<close>: the contract of a bounded queue as a locale, its specification as a list and the refinement of any
    interleaving of operations. \<open>Serial_Fifo\<close> (\<^verbatim>\<open>R2C2/serial_fifo.c\<close>, \<^verbatim>\<open>serial.c\<close>) and \<open>Uart_Comm\<close>
    (\<^verbatim>\<open>comm.c\<close>) interpret it on their rings.
  \<^item> \<open>Line_Buffer\<close>: the command line of \<^verbatim>\<open>comm.c\<close>. \<open>Uart_Comm\<close>: the UART console, its interrupts as a step relation
    with the invariant that no byte is lost or reordered.
  \<^item> \<open>Digits\<close>, \<open>Ser_Msg\<close> (\<^verbatim>\<open>sermsg.c\<close>, \<^verbatim>\<open>sersendf.c\<close>, \<^verbatim>\<open>uart.c\<close>), \<open>Term_IO\<close> (\<^verbatim>\<open>term_io.c\<close>): positional notation, number
    printing and reading, formatted output, line editing.
  \<^item> \<open>Colour\<close> (\<^verbatim>\<open>LED/hsv2rgb.c\<close>), \<open>I2C_Dev\<close> (\<^verbatim>\<open>I2C/MCP4018.c\<close>, \<^verbatim>\<open>tmp100.c\<close>, \<^verbatim>\<open>i2c.c\<close>), \<open>Led\<close> (\<^verbatim>\<open>LED/ShiftPWM.c\<close>):
    colours, devices, the modulation of the LEDs, the clock hands and the patterns.
  \<^item> \<open>Usb_Hw\<close> (\<^verbatim>\<open>usbhw_lpc.c\<close>), \<open>Usb_Control\<close> (\<^verbatim>\<open>usbcontrol.c\<close>, \<^verbatim>\<open>usbstdreq.c\<close>, the descriptors of
    \<^verbatim>\<open>usb.c\<close>), \<open>Usb_Cdc\<close> (\<^verbatim>\<open>usb.c\<close>, \<^verbatim>\<open>usbinit.c\<close>): the USB stack from register writes to the serial port.
  \<^item> \<open>Can\<close> (\<^verbatim>\<open>CANlib/canlib.c\<close>), \<open>Screen\<close> (\<^verbatim>\<open>CANlib/renault_stereo.c\<close>): CAN commands and the display of the stereo.
  \<^item> \<open>Calendar\<close> and \<open>Rtc\<close> (\<^verbatim>\<open>RTClib/rtc.cpp\<close>, the time registers of \<^verbatim>\<open>lpc17xx_rtc.c\<close>): calendar arithmetic against the Gregorian
    calendar, the clock and summer time.
  \<^item> \<open>Net_Buf\<close>: the packet buffer of the network code, read and written in blocks. \<open>Checksum\<close> and \<open>Uip_Ip\<close>
    (\<^verbatim>\<open>WiShield/uip.c\<close>): ones' complement sums, sequence numbers, IP input, ICMP echo and UDP. \<open>Address_Cache\<close>: the contract of a cache that
    may forget, as a locale; \<open>Arp\<close> (\<^verbatim>\<open>WiShield/uip_arp.c\<close>) interprets it on its table. \<open>Zg_Driver\<close> (\<^verbatim>\<open>WiShield/g2100.c\<close>,
    \<^verbatim>\<open>network.c\<close>): the driver of the wireless module, with the automaton of the association as its specification.
  \<^item> \<open>Tcp\<close>: the TCP part of \<^verbatim>\<open>uip_process\<close> and the interface for applications, all labels of \<^verbatim>\<open>uip.c\<close> composed as \<open>uip_process\<close>. \<open>Tcp_Segment\<close>: what
    a sent segment is. \<open>Tcp_State\<close>: the invariant of the connections and the state diagram as the specification of every event. \<open>Tcp_Stream\<close>: time-out, handshake
    and the stream of data. \<open>Tcp_Options\<close>: the search for the segment size, and what a peer can do with options, a missing option and the urgent pointer. \<open>Stack\<close>
    (\<^verbatim>\<open>WiShield/stack.c\<close>, \<^verbatim>\<open>timer.c\<close>): the process of the network with its timers on top of driver, ARP, IP, UDP and TCP.
  \<^item> \<open>Sys_Timer\<close> (\<^verbatim>\<open>R2C2/sys_timer.c\<close>), \<open>Shell\<close> (\<^verbatim>\<open>exec_cmd\<close> of \<^verbatim>\<open>comm.c\<close>).
  \<^item> This theory: what spans components.

  \<^bold>\<open>State and operations.\<close> The globals of each source file are a record with the names of the source; a function is a
  definition of the same name from the old to the new record, in \<open>option\<close> where the code indexes arrays. Interrupts
  are functions like any other; where their interleaving with the main program matters it is a step
  relation (\<open>uart_step\<close>) or an explicit sequence (\<open>bulk_ins\<close>, \<open>sys_ticks\<close>). What a peripheral answers
  (status registers, received bytes and packets, bus transfers, ticks between two polls) is an argument or an input list of the state, and so are the
  applications that the network stack calls, of which the TCP theorems need only that they keep to their own connection (\<open>app_keeps\<close>);
  what is written to it is a log (\<open>hw_tx\<close>, \<open>usb_trace\<close>, \<open>can_log\<close>, \<open>hw\<close>).

  \<^bold>\<open>Loops.\<close> Loops over a range are \<open>for_each\<close> or recursion on the number of passes left, so no fuel is chosen anywhere. Loops that
  wait for the world are either recursion on the list of the inputs that come, where \<open>None\<close> also stands for waiting
  for ever (\<open>delay_loop\<close>, \<open>prompt\<close>), or \<open>partial_function (option)\<close> (\<open>serial_writestr_from\<close>, \<open>wait_id_block\<close>, \<open>mss_option\<close>, \<open>next_port\<close>). Every theorem that
  such a function returns says so by \<open>Some\<close>.

  \<^bold>\<open>What the theorems show.\<close> Transport: bytes cross the UART, the FIFOs and the USB endpoints unchanged and in
  order, in every interleaving, inside their buffers. Text: what \<^verbatim>\<open>%d\<close> and \<^verbatim>\<open>0x%X\<close> print is read back, formats with widths of one digit print what they say. Lights: over
  the DMA chains, the shift registers and the latch (\<open>panel\<close>) every LED is on for 16 microseconds per step of its value, less the time before the latch in the
  periods of its set bits; hands and patterns are drawn where they belong. Protocols: USB
  requests are answered with the descriptor asked for or a stall, the line coding of the host is kept, CAN commands and printed messages are inverse, texts on the display are
  reassembled. Network: packets go to the hardware address learned last (for addresses with two nonzero halves), every datagram and echo reply verifies, a frame
  sent by one driver is restored by another, the
  driver follows the automaton of the association through confirmations, refusals and indications, and joins the network with every kind of security. TCP: for segments with a complete
  option list and a length that fits the buffer, connections move along the state diagram and stay inside the buffers; the handshake
  establishes a connection, half-open ones are given up, the application gets a beginning of the stream of the peer. Composition: an echo request is answered from the driver to the driver; a line from the host becomes the CAN message it describes; a temporary text leaves after a second. Where
  the code does not keep its promise (lines longer than the line buffer, the hour hand, screen frames and USB
  requests that are too long, TCP options that stop the stack, and others) a theorem describes exactly when.

  \<^bold>\<open>Not modelled.\<close> The main program and the web pages (C++ glue), the applications on top of the network stack (\<^verbatim>\<open>WiServer.cpp\<close>, \<^verbatim>\<open>webserver.c\<close>, \<^verbatim>\<open>psock.c\<close>, DHCP and
  DNS) and its reassembly of fragments, which is switched off, the vendor's
  peripheral drivers beyond the calls above (their assertions are compiled out, those of \<^verbatim>\<open>RTC_SetTime\<close> are stated as \<open>RTC_SetTime_assert\<close>), sunrise and sunset (double-precision trigonometry), pin and clock configuration, the system call
  stubs, diagnostic messages (\<^verbatim>\<open>INFO\<close>, \<^verbatim>\<open>ERR\<close>) and code that is compiled out.
\<close>

section \<open>From the host to the CAN bus\<close>

lemma c_string_split: "length (c_string xs) < length xs \<Longrightarrow> \<exists>rest. xs = c_string xs @ 0 # rest"
  unfolding c_string_def
  by (induction xs) (auto split: if_splits)

lemma stricmp_longer: "length (ascii lit) < length (c_string cmd) \<Longrightarrow> \<not> stricmp_eq cmd lit"
  by (auto simp: stricmp_eq_def dest: map_eq_imp_length_eq)

lemma exec_cmd_can:
  assumes "console_ok b" "4 < length (c_string cmd)"
  shows "\<exists>io. rings_inv io \<and> fifo_inv (rxfifo (usb io)) \<and>
    exec_cmd bus rxbuf cmd b = map_option Returns (on_can cmd (b\<lparr>console_io := io\<rparr>))"
proof -
  from flush_console[OF assms(1)] obtain io where
    io: "Option.bind (comm_flush (console_io b)) usb_flush = Some io" "rings_inv io" "fifo_inv (rxfifo (usb io))"
    by blast
  moreover have "\<not> stricmp_eq cmd lit" if "length lit \<le> 4" for lit
    using stricmp_longer[of lit cmd] that assms(2) by (simp add: ascii_def)
  ultimately show ?thesis
    by (auto simp: exec_cmd_def split: Option.bind_splits)
qed

text \<open>
  C5: A CAN message from the host, end to end. A USB packet with the line \<^verbatim>\<open>tiiildd...\<close> and a line end, taken by
  the USB interrupt, is the command in \<^verbatim>\<open>UART_LINE\<close>, and the main loop's call of \<^verbatim>\<open>exec_cmd\<close> on it returns
  with exactly one more message given to the CAN driver: the identifier, the length and the
  data bytes are those of the line, and LEDs and typed lines are left alone.
\<close>

theorem usb_line_sends_can:
  assumes "cdc_ready s" "cmd_data s = d # cmds" "rx_packets s = p # ps"
    "carries p ((116 # c1 # c2 # c3 # l # ds) @ [e])" "is_eol e"
    "length (fifo_list (rxfifo (ser s))) \<le> 959" "UART_LINE_LEN (usb_cdc.line s) = 0"
    and "list_all isxdigit (c1 # c2 # c3 # l # ds)" "length ds = 2 * n" "n \<le> 8" "unat (ascii2byte l) = n"
    and "console_ok b" "msg_wf (TXMsg (display b))" "CANBUS_ON (display b)" "TX_IDLE (display b)"
  shows "\<exists>s' b' m. USB_IRQHandler 4 (\<lambda>_. push_bit 10 1) s = Some s' \<and> LINE_READY (usb_cdc.line s') \<and>
    exec_cmd bus rxbuf (UART_LINE (usb_cdc.line s')) b = Some (Returns b') \<and> console_ok b' \<and>
    can_log (display b') = can_log (display b) @ [(m, can_accept (display b) (length (can_log (display b))))] \<and>
    msg_id m = push_bit 4 (push_bit 4 (ucast (ascii2byte c1)) + ucast (ascii2byte c2)) + ucast (ascii2byte c3) \<and>
    unat (msg_len m) = n \<and> msg_bytes m = hex_pairs ds \<and> leds b' = leds b \<and> typed b' = typed b"
proof -
  let ?cs = "116 # c1 # c2 # c3 # l # ds"
  have x: "\<not> is_eol c \<and> c \<noteq> 0" if "isxdigit c" for c
    using that by (auto simp: is_eol_def isxdigit_def)
  have "length ?cs < 50" "\<forall>c \<in> set ?cs. \<not> is_eol c \<and> c \<noteq> 0"
    using assms(8-10) x by (auto simp: list_all_iff is_eol_def)
  from command_line_received[OF assms(1-4,6,7) this assms(5)] obtain s' where
    s': "USB_IRQHandler 4 (\<lambda>_. push_bit 10 1) s = Some s'" "LINE_READY (usb_cdc.line s')"
    "c_string (UART_LINE (usb_cdc.line s')) = ?cs" "line_wf (usb_cdc.line s')"
    by blast
  moreover from s'(4) have "length ?cs < length (UART_LINE (usb_cdc.line s'))"
    using \<open>length ?cs < 50\<close> by (simp add: line_wf_def)
  ultimately obtain rest where rest: "UART_LINE (usb_cdc.line s') = ?cs @ 0 # rest"
    using c_string_split[of "UART_LINE (usb_cdc.line s')"] by auto
  from exec_cmd_can[OF assms(12), of "UART_LINE (usb_cdc.line s')" bus rxbuf] s'(3) obtain io where
    io: "rings_inv io" "fifo_inv (rxfifo (usb io))"
    "exec_cmd bus rxbuf (UART_LINE (usb_cdc.line s')) b = map_option Returns (on_can (?cs @ 0 # rest) (b\<lparr>console_io := io\<rparr>))"
    using rest by auto
  from exec_t[OF assms(13-15,8-11), of rest] obtain m where
    "on_can (?cs @ 0 # rest) (b\<lparr>console_io := io\<rparr>) = Some (b\<lparr>console_io := io, display := (display b)\<lparr>TXMsg := m,
       can_log := can_log (display b) @ [(m, can_accept (display b) (length (can_log (display b))))]\<rparr>\<rparr>)"
    "msg_id m = push_bit 4 (push_bit 4 (ucast (ascii2byte c1)) + ucast (ascii2byte c2)) + ucast (ascii2byte c3)"
    "unat (msg_len m) = n" "msg_bytes m = hex_pairs ds"
    by (auto simp: on_can_def)
  with io s'(1,2) show ?thesis
    by (auto simp: console_ok_def)
qed

theorem usb_line_sends_can_witness:
  "\<exists>s' b' m. USB_IRQHandler 4 (\<lambda>_. push_bit 10 1) (cdc_serving [packet ([116, 49, 50, 97, 49, 48, 70] @ [13])]) = Some s' \<and>
    exec_cmd (\<lambda>_. (0, [])) [0] (UART_LINE (usb_cdc.line s')) board_start = Some (Returns b') \<and>
    can_log (display b') = [(m, True)] \<and> msg_id m = 0x12A \<and> msg_bytes m = [0x0F]"
proof -
  have b: "console_ok board_start" "msg_wf (TXMsg (display board_start))" "CANBUS_ON (display board_start)"
    "TX_IDLE (display board_start)" "can_log (display board_start) = []" "can_accept (display board_start) 0"
    using board_start_ok[of "[]"] can_idle_ok
    by (auto simp: board_ok_def console_ok_def board_start_def screen_start_def can.defs can_idle_def CANBUS_ON_def TX_IDLE_def)
  show ?thesis
    using usb_line_sends_can[where ?c1.0 = 49 and ?c2.0 = 50 and ?c3.0 = 97 and l = 49 and ds = "[48, 70]" and n = 1 and e = 13 and bus = "\<lambda>_. (0, [])" and rxbuf = "[0]" and ps = "[]",
        OF cdc_serving_ready(1-3) carries_packet _ _ _ _ _ _ _ b(1-4)]
    by (auto simp: cdc_serving_ready is_eol_def line_buf_init_def isxdigit_def ascii2byte_def b(5,6))
qed

section \<open>Time and the display\<close>

lemma idle_loop:
  assumes "ButtomPressed s = 0" "RecieveComplete s = 0" "Screen.DISPLAY_TIMEOUT s \<noteq> 0"
  shows "CAN_loop junk s = Some s"
  using assms by (simp add: CAN_loop_def Screen_loop_def)

lemma expired_loop:
  assumes "screen_wf s" "SourceTemp s \<noteq> REMOTE_PAUSE" "SourceTemp s \<noteq> REMOTE_TRAFFIC" "ButtomPressed s = 0" "RecieveComplete s = 0"
    "Screen.DISPLAY_TIMEOUT s = 0"
  shows "\<exists>s'. CAN_loop junk s = Some s' \<and> ScreenText s' = screen_with (take 8 (PrevScreenText s)) \<and>
    ButtomPressed s' = 0 \<and> RecieveComplete s' = 0 \<and> Screen.DISPLAY_TIMEOUT s' = - 1"
  using SendToScreen_ok[OF assms(1-3), of RETURN_STRING "0x121" "ascii ''''" 0] assms
  by (auto simp: CAN_loop_def Screen_loop_def show_text_def shown_text_def)

text \<open>
  C13: A temporary text stays for a second. When a temporary text has been sent and neither a key nor a text
  arrives, the loop leaves the display alone for the first 999 ticks of the millisecond
  interrupt, which counts the shared \<^verbatim>\<open>DISPLAY_TIMEOUT\<close> down, and from the thousandth tick on it sends the text from
  before, and then leaves the display alone again.
\<close>

theorem temporary_text_expires:
  assumes "screen_wf s" "SourceTemp s \<noteq> 0xA6" "SourceTemp s \<noteq> 0xA4" "ButtomPressed s = 0" "RecieveComplete s = 0"
    and "Sys_Timer.UPDATES_PER_SEC t \<noteq> 0"
  shows "\<exists>s1. SendToScreen ident u 0 TEMP_STRING s = Some (CR, s1) \<and>
    (\<exists>t'. sys_ticks n (t\<lparr>Sys_Timer.DISPLAY_TIMEOUT := Screen.DISPLAY_TIMEOUT s1\<rparr>) = Some t' \<and>
      (let s2 = s1\<lparr>Screen.DISPLAY_TIMEOUT := Sys_Timer.DISPLAY_TIMEOUT t'\<rparr> in
       if n < 1000 then CAN_loop junk s2 = Some s2
       else \<exists>s3. CAN_loop junk s2 = Some s3 \<and> ScreenText s3 = screen_with (take 8 (PrevScreenText s)) \<and>
         CAN_loop junk s3 = Some s3))"
proof -
  from SendToScreen_ok[OF assms(1-3), of TEMP_STRING ident u 0] assms(2-5) obtain s1 where
    s1: "SendToScreen ident u 0 TEMP_STRING s = Some (CR, s1)" "screen_wf s1" "SourceTemp s1 \<noteq> 0xA6" "SourceTemp s1 \<noteq> 0xA4"
    "ButtomPressed s1 = 0" "RecieveComplete s1 = 0" "Screen.DISPLAY_TIMEOUT s1 = 1000"
    "take 8 (PrevScreenText s1) = take 8 (PrevScreenText s)"
    by auto
  from sys_ticks_eq[of "t\<lparr>Sys_Timer.DISPLAY_TIMEOUT := 1000\<rparr>" n] assms(6) obtain t' where
    t': "sys_ticks n (t\<lparr>Sys_Timer.DISPLAY_TIMEOUT := 1000\<rparr>) = Some t'" "Sys_Timer.DISPLAY_TIMEOUT t' = max 0 (1000 - int n)"
    by (auto simp: timeout_ticks)
  let ?s2 = "s1\<lparr>Screen.DISPLAY_TIMEOUT := Sys_Timer.DISPLAY_TIMEOUT t'\<rparr>"
  have wf: "screen_wf ?s2"
    using s1(2) by (simp add: screen_wf_def)
  show ?thesis
  proof (cases "n < 1000")
    case True
    then have "CAN_loop junk ?s2 = Some ?s2"
      using s1(5,6) t'(2) by (intro idle_loop) auto
    with True s1(1,7) t'(1) show ?thesis
      by (simp add: Let_def)
  next
    case False
    with expired_loop[OF wf, of junk] s1 t'(2) obtain s3 where
      s3: "CAN_loop junk ?s2 = Some s3" "ScreenText s3 = screen_with (take 8 (PrevScreenText s))"
      "ButtomPressed s3 = 0" "RecieveComplete s3 = 0" "Screen.DISPLAY_TIMEOUT s3 = - 1"
      by auto
    have "CAN_loop junk s3 = Some s3"
      using s3(3-5) by (intro idle_loop) auto
    with False s1(1,7) t'(1) s3(1,2) show ?thesis
      by (simp add: Let_def)
  qed
qed

theorem temporary_text_expires_witness:
  "\<exists>s1 t' s3. SendToScreen 0x121 (ascii ''Track +'') 0 TEMP_STRING screen_start = Some (CR, s1) \<and>
    sys_ticks 1000 (sys_timer_start\<lparr>Sys_Timer.DISPLAY_TIMEOUT := Screen.DISPLAY_TIMEOUT s1\<rparr>) = Some t' \<and>
    CAN_loop [] (s1\<lparr>Screen.DISPLAY_TIMEOUT := Sys_Timer.DISPLAY_TIMEOUT t'\<rparr>) = Some s3 \<and>
    ScreenText s3 = screen_with (take 8 (PrevScreenText screen_start))"
proof -
  have "ButtomPressed screen_start = 0" "Sys_Timer.UPDATES_PER_SEC sys_timer_start \<noteq> 0"
    by (simp_all add: screen_start_def can.defs screen.defs can_idle_def sys_timer_start_def)
  then show ?thesis
    using temporary_text_expires[OF screen_start_wf, of sys_timer_start "0x121" "ascii ''Track +''" 1000 "[]"]
    by (auto simp: screen_start_simps Let_def)
qed

end
